(* ===== verification/Prelude.thy ===== *)
theory Prelude
  imports Main "HOL-Library.Sublist" "HOL-Library.List_Lexorder" "HOL-Library.Char_ord"
    "HOL-Library.Multiset"
begin

text \<open>
  Shared ground of the development: the collection \<open>store_simps\<close>, Go's string helpers on
  byte strings (\<open>strings.TrimSpace\<close>, \<open>ToLower\<close>, \<open>EqualFold\<close>, \<open>TrimPrefix\<close>,
  \<open>Split\<close>, \<open>Join\<close>, \<open>strconv.Atoi\<close>, \<open>Itoa\<close>), the key-store interface that Go maps
  satisfy, its sorted-list implementation, and list lemmas several components use.
  A Go string is a list of bytes, so \<open>string\<close> (a list of \<open>char\<close>) is the same thing; the
  case and space functions are the ASCII part of Go's.
\<close>

named_theorems store_simps \<open>laws of the key store that implements Go maps\<close>

section \<open>Go string helpers\<close>

definition is_space :: "char \<Rightarrow> bool" where
  "is_space c \<longleftrightarrow> c = CHR '' '' \<or> c = CHR 0x09 \<or> c = CHR 0x0A \<or> c = CHR 0x0B \<or> c = CHR 0x0C \<or> c = CHR 0x0D"

definition trim_space :: "string \<Rightarrow> string" where
  "trim_space s = rev (dropWhile is_space (rev (dropWhile is_space s)))"

definition lower_char :: "char \<Rightarrow> char" where
  "lower_char c = (let n = (of_char c :: nat) in if 65 \<le> n \<and> n \<le> 90 then char_of (n + 32) else c)"

definition to_lower :: "string \<Rightarrow> string" where
  "to_lower s = map lower_char s"

definition equal_fold :: "string \<Rightarrow> string \<Rightarrow> bool" where
  "equal_fold s t \<longleftrightarrow> to_lower s = to_lower t"

definition trim_prefix :: "string \<Rightarrow> string \<Rightarrow> string" where
  "trim_prefix s p = (if prefix p s then drop (length p) s else s)"

fun split_char :: "char \<Rightarrow> string \<Rightarrow> string list" where
  "split_char d [] = [[]]"
| "split_char d (c # cs) =
     (if c = d then [] # split_char d cs
      else (case split_char d cs of [] \<Rightarrow> [[c]] | w # ws \<Rightarrow> (c # w) # ws))"

fun join_with :: "string \<Rightarrow> string list \<Rightarrow> string" where
  "join_with sep [] = []"
| "join_with sep [w] = w"
| "join_with sep (w # ws) = w @ sep @ join_with sep ws"

definition digit_val :: "char \<Rightarrow> nat option" where
  "digit_val c = (let n = (of_char c :: nat) in if 48 \<le> n \<and> n \<le> 57 then Some (n - 48) else None)"

fun digits_val :: "nat \<Rightarrow> string \<Rightarrow> nat option" where
  "digits_val acc [] = Some acc"
| "digits_val acc (c # cs) =
     (case digit_val c of None \<Rightarrow> None | Some d \<Rightarrow> digits_val (10 * acc + d) cs)"

text \<open>\<open>strconv.Atoi\<close>: optional sign, at least one digit, and the range of a 64-bit \<open>int\<close>.\<close>

definition atoi :: "string \<Rightarrow> int option" where
  "atoi s =
     (let neg = (s \<noteq> [] \<and> hd s = CHR ''-'');
          body = (if s \<noteq> [] \<and> (hd s = CHR ''-'' \<or> hd s = CHR ''+'') then tl s else s)
      in if body = [] then None
         else (case digits_val 0 body of
                 None \<Rightarrow> None
               | Some n \<Rightarrow>
                   (let v = (if neg then - int n else int n)
                    in if - (2 ^ 63) \<le> v \<and> v < 2 ^ 63 then Some v else None)))"

fun nat_digits :: "nat \<Rightarrow> string" where
  "nat_digits n = (if n < 10 then [char_of (48 + n)] else nat_digits (n div 10) @ [char_of (48 + n mod 10)])"

declare nat_digits.simps [simp del]

definition itoa :: "int \<Rightarrow> string" where
  "itoa i = (if i < 0 then CHR ''-'' # nat_digits (nat (- i)) else nat_digits (nat i))"

subsection \<open>Lemmas on the string helpers\<close>

lemma sort_rev [simp]: "sort (rev xs) = sort (xs :: string list)"
  by (rule properties_for_sort) simp_all

lemma to_lower_simps [simp]:
  "to_lower [] = []" "to_lower (c # cs) = lower_char c # to_lower cs"
  by (simp_all add: to_lower_def)

lemma equal_fold_refl [simp]: "equal_fold s s"
  by (simp add: equal_fold_def)

lemma trim_space_Nil [simp]: "trim_space [] = []"
  by (simp add: trim_space_def)

lemma dropWhile_not_hd: "dropWhile P xs = y # ys \<Longrightarrow> \<not> P y"
  by (metis hd_dropWhile list.distinct(1) list.sel(1))

lemma dropWhile_last_keep:
  "zs \<noteq> [] \<Longrightarrow> \<not> P (last zs) \<Longrightarrow> dropWhile P zs \<noteq> [] \<and> last (dropWhile P zs) = last zs"
  by (induction zs) auto

lemma hd_rev_dropWhile_rev:
  assumes "ys \<noteq> []" "\<not> P (hd ys)"
  shows "rev (dropWhile P (rev ys)) \<noteq> [] \<and> hd (rev (dropWhile P (rev ys))) = hd ys"
proof -
  from assms have "dropWhile P (rev ys) \<noteq> [] \<and> last (dropWhile P (rev ys)) = last (rev ys)"
    by (intro dropWhile_last_keep) (auto simp: last_rev)
  with assms show ?thesis by (simp add: hd_rev last_rev)
qed

lemma set_trim_space: "set (trim_space s) \<subseteq> set s"
  unfolding trim_space_def by (metis set_dropWhileD set_rev subsetI)

lemma trim_space_idem [simp]: "trim_space (trim_space s) = trim_space s"
proof (cases "dropWhile is_space s")
  case Nil
  then have "trim_space s = []" by (simp add: trim_space_def del: dropWhile_eq_Nil_conv)
  then show ?thesis by simp
next
  case (Cons c cs)
  then have c: "\<not> is_space c" by (rule dropWhile_not_hd)
  define t where "t = trim_space s"
  from Cons have t: "t = rev (dropWhile is_space (rev (c # cs)))"
    by (simp add: t_def trim_space_def)
  have "t \<noteq> [] \<and> hd t = c"
    using hd_rev_dropWhile_rev[of "c # cs" is_space] c t by simp
  with c have a: "dropWhile is_space t = t" by (cases t) auto
  have "dropWhile is_space (rev t) = rev t" using t by simp
  with a have "trim_space t = t" by (simp add: trim_space_def)
  then show ?thesis by (simp add: t_def)
qed

lemma trim_prefix_at [simp]: "trim_prefix (CHR ''@'' # s) ''@'' = s"
  by (simp add: trim_prefix_def)

lemma split_char_ne [simp]: "split_char d s \<noteq> []"
  by (induction s) (auto split: list.splits)

lemma join_split_char: "join_with [d] (split_char d s) = s"
proof (induction s)
  case (Cons c cs)
  then show ?case by (cases "split_char d cs") (auto, metis join_with.simps(2,3) list.exhaust append_Cons)
qed simp

lemma split_char_no_sep: "w \<in> set (split_char d s) \<Longrightarrow> d \<notin> set w"
  by (induction s arbitrary: w) (auto split: list.splits if_splits)

lemma digits_val_append:
  "digits_val acc (xs @ ys) = (case digits_val acc xs of None \<Rightarrow> None | Some a \<Rightarrow> digits_val a ys)"
  by (induction xs arbitrary: acc) (auto split: option.splits)

lemma digit_val_char: "d < 10 \<Longrightarrow> digit_val (char_of (48 + d)) = Some d"
  by (simp add: digit_val_def Let_def)

lemma nat_digits_ne [simp]: "nat_digits n \<noteq> []"
  by (subst nat_digits.simps) simp

lemma digits_val_nat_digits: "digits_val 0 (nat_digits n) = Some n"
proof (induction n rule: nat_digits.induct)
  case (1 n)
  show ?case
  proof (cases "n < 10")
    case True
    then show ?thesis by (subst nat_digits.simps) (simp add: digit_val_char)
  next
    case False
    with 1 have "digits_val 0 (nat_digits (n div 10)) = Some (n div 10)" by simp
    with False show ?thesis
      by (subst nat_digits.simps) (simp add: digits_val_append digit_val_char)
  qed
qed

lemma hd_nat_digits: "48 \<le> (of_char (hd (nat_digits n)) :: nat) \<and> (of_char (hd (nat_digits n)) :: nat) \<le> 57"
proof (induction n rule: nat_digits.induct)
  case (1 n)
  show ?case
  proof (cases "n < 10")
    case True
    then show ?thesis by (subst nat_digits.simps, subst (2) nat_digits.simps) simp
  next
    case False
    have "hd (nat_digits n) = hd (nat_digits (n div 10))"
      using False by (subst nat_digits.simps) (simp add: hd_append)
    with 1 False show ?thesis by simp
  qed
qed

text \<open>Printing an \<open>int\<close> of Go's range and reading it back gives the same number.\<close>

lemma atoi_itoa:
  assumes "- (2 ^ 63) \<le> i" "i < 2 ^ 63"
  shows "atoi (itoa i) = Some i"
proof (cases "i < 0")
  case True
  then show ?thesis using assms
    by (simp add: atoi_def itoa_def Let_def digits_val_nat_digits)
next
  case False
  have h: "hd (nat_digits (nat i)) \<noteq> CHR ''-''" "hd (nat_digits (nat i)) \<noteq> CHR ''+''"
    using hd_nat_digits[of "nat i"] by auto
  show ?thesis using assms False h
    by (simp add: atoi_def itoa_def Let_def digits_val_nat_digits)
qed

section \<open>The key store: what the code relies on of a Go map\<close>

text \<open>
  The laws every client of a Go map uses: reading after writing and after deleting. They are
  stated over the representation's operations and hold for every store, so no client carries
  an invariant through its proofs. \<open>put_all\<close> is the source's loop
  \<open>for k, v := range src { dst[k] = v }\<close>.
\<close>

locale key_store =
  fixes look :: "'m \<Rightarrow> 'k \<Rightarrow> 'v option"
    and put :: "'k \<Rightarrow> 'v \<Rightarrow> 'm \<Rightarrow> 'm"
    and del :: "'k \<Rightarrow> 'm \<Rightarrow> 'm"
  assumes look_put: "look (put k v m) = (look m)(k \<mapsto> v)"
    and look_del: "look (del k m) = (look m)(k := None)"
begin

lemma look_put_all:
  "look (fold (\<lambda>(k, v). put k v) kvs m) = look m ++ map_of (rev kvs)"
proof (induction kvs arbitrary: m)
  case (Cons p kvs)
  then show ?case by (cases p) (auto simp: look_put map_add_def fun_eq_iff split: option.splits)
qed simp

lemma look_del_all: "look (fold del ks m) k = (if k \<in> set ks then None else look m k)"
  by (induction ks arbitrary: m) (auto simp: look_del)

lemma put_then_del: "look (del k (put k v m)) = look (del k m)"
  by (simp add: look_put look_del)

end

section \<open>Sorted association lists\<close>

type_synonym 'v smap = "(string \<times> 'v) list"

fun sput :: "string \<Rightarrow> 'v \<Rightarrow> 'v smap \<Rightarrow> 'v smap" where
  "sput k v [] = [(k, v)]"
| "sput k v ((k', v') # m) =
     (if k = k' then (k, v) # m
      else if k < k' then (k, v) # (k', v') # m
      else (k', v') # sput k v m)"

definition sdel :: "string \<Rightarrow> 'v smap \<Rightarrow> 'v smap" where
  "sdel k m = filter (\<lambda>p. fst p \<noteq> k) m"

definition sput_all :: "'v smap \<Rightarrow> 'v smap \<Rightarrow> 'v smap" where
  "sput_all src dst = fold (\<lambda>(k, v). sput k v) src dst"

definition scanon :: "'v smap \<Rightarrow> bool" where
  "scanon m \<longleftrightarrow> sorted_wrt (<) (map fst m)"

lemma map_of_sput: "map_of (sput k v m) = (map_of m)(k \<mapsto> v)"
  by (induction k v m rule: sput.induct) (auto simp: fun_eq_iff)

lemma map_of_sdel: "map_of (sdel k m) = (map_of m)(k := None)"
  by (induction m) (auto simp: sdel_def fun_eq_iff)

interpretation smap: key_store map_of sput sdel
  by unfold_locales (simp_all add: map_of_sput map_of_sdel)

lemma map_of_sput_all: "map_of (sput_all src dst) = map_of dst ++ map_of (rev src)"
  unfolding sput_all_def by (rule smap.look_put_all)

lemmas [store_simps] = map_of_sput map_of_sdel map_of_sput_all

declare map_of_sput [simp] map_of_sdel [simp]

lemma fst_set_sput: "fst ` set (sput k v m) = insert k (fst ` set m)"
  by (induction k v m rule: sput.induct) auto

lemma sput_ne [simp]: "sput k v m \<noteq> []" "[] \<noteq> sput k v m"
  by (induction k v m rule: sput.induct) auto

lemma sput_sput: "sput k v (sput k v m) = sput k v m"
  by (induction k v m rule: sput.induct) auto

lemma set_sput_subset: "set (sput k v m) \<subseteq> insert (k, v) (set m)"
  by (induction k v m rule: sput.induct) auto

lemma set_sput_all_subset: "set (sput_all src dst) \<subseteq> set src \<union> set dst"
proof (induction src arbitrary: dst)
  case (Cons p src)
  obtain k v where p: "p = (k, v)" by (cases p)
  have "set (sput_all src (sput k v dst)) \<subseteq> set src \<union> set (sput k v dst)" by (rule Cons)
  with set_sput_subset[of k v dst] show ?case by (auto simp: sput_all_def p)
qed (simp add: sput_all_def)

lemma set_sdel: "set (sdel k m) = {p \<in> set m. fst p \<noteq> k}"
  by (simp add: sdel_def)

lemma scanon_Nil [simp]: "scanon []"
  by (simp add: scanon_def)

lemma scanon_Cons: "scanon ((k, v) # m) \<longleftrightarrow> (\<forall>k' \<in> fst ` set m. k < k') \<and> scanon m"
  by (auto simp: scanon_def)

lemma scanon_single [simp]: "scanon [(k, v)]"
  by (simp add: scanon_def)

lemma scanon_sput [intro]: "scanon m \<Longrightarrow> scanon (sput k v m)"
  by (induction k v m rule: sput.induct) (auto simp: scanon_Cons fst_set_sput simp del: set_map)

lemma scanon_sdel [intro]: "scanon m \<Longrightarrow> scanon (sdel k m)"
proof (induction m)
  case (Cons p m)
  then show ?case by (cases p) (auto simp: sdel_def scanon_Cons)
qed (simp add: sdel_def)

lemma scanon_filter [intro]: "scanon m \<Longrightarrow> scanon (filter P m)"
  unfolding scanon_def by (induction m) auto

lemma scanon_sput_all [intro]: "scanon dst \<Longrightarrow> scanon (sput_all src dst)"
  unfolding sput_all_def by (induction src arbitrary: dst) auto

lemma scanon_distinct: "scanon m \<Longrightarrow> distinct (map fst m)"
  unfolding scanon_def by (metis strict_sorted_iff)

lemma map_of_rev_scanon: "scanon m \<Longrightarrow> map_of (rev m) = map_of m"
proof
  fix k assume "scanon m"
  then have "\<And>v. map_of (rev m) k = Some v \<longleftrightarrow> map_of m k = Some v"
    using scanon_distinct[of m] by (simp add: map_of_eq_Some_iff rev_map[symmetric])
  then show "map_of (rev m) k = map_of m k"
    by (metis not_Some_eq)
qed

text \<open>A sorted association list is determined by its lookups: equality is Go map equality.\<close>

lemma scanon_ext:
  assumes "scanon m" "scanon n" "map_of m = map_of n"
  shows "m = n"
proof -
  have dom: "fst ` set m = fst ` set n"
    using assms(3) by (metis dom_map_of_conv_image_fst)
  have keys: "map fst m = map fst n"
    using assms(1,2) dom unfolding scanon_def
    by (intro strict_sorted_equal) (auto simp: strict_sorted_iff)
  show ?thesis
    using keys assms scanon_distinct[OF assms(1)]
    by (metis zip_map_fst_snd map_of_zip_inject length_map)
qed

section \<open>Keeping first occurrences\<close>

text \<open>The loops that append an element unless a \<open>seen\<close> set already holds it.\<close>

fun dedup_from :: "'a list \<Rightarrow> 'a list \<Rightarrow> 'a list" where
  "dedup_from seen [] = []"
| "dedup_from seen (x # xs) =
     (if x \<in> set seen then dedup_from seen xs else x # dedup_from (x # seen) xs)"

lemma set_dedup_from: "set (dedup_from seen xs) = set xs - set seen"
  by (induction seen xs rule: dedup_from.induct) auto

lemma distinct_dedup_from: "distinct (dedup_from seen xs)"
  by (induction seen xs rule: dedup_from.induct) (auto simp: set_dedup_from)

lemma dedup_from_cong: "set seen = set seen' \<Longrightarrow> dedup_from seen xs = dedup_from seen' xs"
proof (induction xs arbitrary: seen seen')
  case (Cons x xs)
  have "set (x # seen) = set (x # seen')" using Cons.prems by simp
  from Cons.IH[OF this] Cons.IH[OF Cons.prems] show ?case by (simp add: Cons.prems)
qed simp

lemma dedup_from_append:
  "dedup_from seen (xs @ ys) = dedup_from seen xs @ dedup_from (xs @ seen) ys"
proof (induction xs arbitrary: seen)
  case (Cons x xs)
  have c1: "dedup_from (xs @ x # seen) ys = dedup_from (x # xs @ seen) ys"
    by (rule dedup_from_cong) auto
  show ?case
  proof (cases "x \<in> set seen")
    case True
    then have "dedup_from (x # xs @ seen) ys = dedup_from (xs @ seen) ys"
      by (intro dedup_from_cong) auto
    with True Cons[of seen] show ?thesis by simp
  next
    case False
    with Cons[of "x # seen"] c1 show ?thesis by simp
  qed
qed simp

lemma dedup_from_absent: "set xs \<inter> set seen = {} \<Longrightarrow> distinct xs \<Longrightarrow> dedup_from seen xs = xs"
  by (induction seen xs rule: dedup_from.induct) auto

lemma dedup_from_all: "set xs \<subseteq> set seen \<Longrightarrow> dedup_from seen xs = []"
  by (induction xs arbitrary: seen) auto

lemma subseq_dedup_from: "subseq (dedup_from seen xs) xs"
  by (induction seen xs rule: dedup_from.induct) auto

lemma map_filter_map: "List.map_filter f (map g xs) = List.map_filter (f \<circ> g) xs"
  by (induction xs) (auto simp: List.map_filter_simps split: option.splits)

lemma map_filter_Some: "List.map_filter (\<lambda>x. Some (f x)) xs = map f xs"
  by (induction xs) (auto simp: List.map_filter_simps)

lemma map_filter_append: "List.map_filter f (xs @ ys) = List.map_filter f xs @ List.map_filter f ys"
  by (induction xs) (auto simp: List.map_filter_simps split: option.splits)

end
