(* ===== verification/Json.thy ===== *)
theory Json
  imports Prelude
begin

text \<open>
  JSON values as the code holds them after \<open>json.Unmarshal\<close> into \<open>interface{}\<close>. An object
  is a Go map, kept as a key-sorted association list (the order \<open>json.Marshal\<close> prints), so
  that equality of well-formed values is \<open>reflect.DeepEqual\<close>. Numbers are integers: the
  template, state and config files carry ports, MTUs, delays and limits only. Field accessors
  are the source's two-value type assertions \<open>x, _ := m[k].(string)\<close>.
\<close>

datatype json =
    JNull
  | JBool bool
  | JNum int
  | JStr string
  | JArr "json list"
  | JObj "(string \<times> json) list"

type_synonym obj = "json smap"

definition str_field :: "obj \<Rightarrow> string \<Rightarrow> string" where
  "str_field m k = (case map_of m k of Some (JStr s) \<Rightarrow> s | _ \<Rightarrow> [])"

definition bool_field :: "obj \<Rightarrow> string \<Rightarrow> bool" where
  "bool_field m k = (case map_of m k of Some (JBool b) \<Rightarrow> b | _ \<Rightarrow> False)"

definition arr_field :: "obj \<Rightarrow> string \<Rightarrow> json list" where
  "arr_field m k = (case map_of m k of Some (JArr xs) \<Rightarrow> xs | _ \<Rightarrow> [])"

definition as_obj :: "json \<Rightarrow> obj option" where
  "as_obj j = (case j of JObj m \<Rightarrow> Some m | _ \<Rightarrow> None)"

definition as_str :: "json \<Rightarrow> string option" where
  "as_str j = (case j of JStr s \<Rightarrow> Some s | _ \<Rightarrow> None)"

text \<open>The strings of an array, anything else skipped.\<close>

definition str_elems :: "json list \<Rightarrow> string list" where
  "str_elems xs = List.map_filter as_str xs"

subsection \<open>Well-formed values\<close>

fun wf_json :: "json \<Rightarrow> bool" where
  "wf_json (JArr xs) \<longleftrightarrow> list_all wf_json xs"
| "wf_json (JObj m) \<longleftrightarrow> scanon m \<and> list_all (\<lambda>p. wf_json (snd p)) m"
| "wf_json _ \<longleftrightarrow> True"

definition wf_obj :: "obj \<Rightarrow> bool" where
  "wf_obj m \<longleftrightarrow> wf_json (JObj m)"

lemma wf_json_JArr: "wf_json (JArr xs) \<longleftrightarrow> (\<forall>x \<in> set xs. wf_json x)"
  by (simp add: list_all_iff)

lemma wf_json_JObj: "wf_json (JObj m) \<longleftrightarrow> scanon m \<and> (\<forall>p \<in> set m. wf_json (snd p))"
  by (simp add: list_all_iff)

lemma wf_obj_iff: "wf_obj m \<longleftrightarrow> scanon m \<and> (\<forall>p \<in> set m. wf_json (snd p))"
  by (simp add: wf_obj_def list_all_iff)

lemma wf_obj_Nil [simp]: "wf_obj []"
  by (simp add: wf_obj_iff)

lemma wf_obj_sput [intro]: "wf_obj m \<Longrightarrow> wf_json v \<Longrightarrow> wf_obj (sput k v m)"
  using set_sput_subset[of k v m] by (auto simp: wf_obj_iff)

lemma wf_obj_sdel [intro]: "wf_obj m \<Longrightarrow> wf_obj (sdel k m)"
  by (auto simp: wf_obj_iff set_sdel)

lemma wf_obj_filter [intro]: "wf_obj m \<Longrightarrow> wf_obj (filter P m)"
  by (auto simp: wf_obj_iff)

lemma wf_obj_sput_all [intro]: "wf_obj src \<Longrightarrow> wf_obj dst \<Longrightarrow> wf_obj (sput_all src dst)"
  using set_sput_all_subset[of src dst] by (auto simp: wf_obj_iff)

lemma wf_obj_lookup: "wf_obj m \<Longrightarrow> map_of m k = Some v \<Longrightarrow> wf_json v"
  by (fastforce simp: wf_obj_iff dest: map_of_SomeD)

lemma wf_obj_ext: "wf_obj m \<Longrightarrow> wf_obj n \<Longrightarrow> map_of m = map_of n \<Longrightarrow> m = n"
  by (auto simp: wf_obj_iff intro: scanon_ext)

subsection \<open>Sizes, for recursion into members\<close>

lemma size_list_mem: "x \<in> set xs \<Longrightarrow> size x < size (JArr xs)"
  by (induction xs) auto

lemma size_obj_mem: "p \<in> set m \<Longrightarrow> size (snd p) < size (JObj m)"
proof (induction m)
  case (Cons q m)
  then show ?case by (cases q) auto
qed simp

lemma size_obj_lookup: "map_of m k = Some v \<Longrightarrow> size v < size (JObj m)"
  using size_obj_mem[of "(k, v)" m] by (auto dest: map_of_SomeD)

lemma str_elems_JStr [simp]: "str_elems (map (\<lambda>s. JStr (f s)) ss) = map f ss"
  by (induction ss) (auto simp: str_elems_def as_str_def List.map_filter_simps)

lemma str_elems_map_JStr [simp]: "str_elems (map JStr ss) = ss"
  using str_elems_JStr[of "\<lambda>s. s" ss] by simp

end
