(* ===== verification/Substitute.thy ===== *)
theory Substitute
  imports Json
begin

text \<open>
  Template substitution, \<open>core/template/substitute.go\<close>, and the activation guards of
  \<open>core/template/ifexpr.go\<close>: \<open>@name\<close> placeholders, the \<open>#if\<close> construct in map and in
  array position, and its predicate language. The walker mutates the tree in place and appends
  unresolved names to a sink; here it returns the new tree and the names in the order met.
  \<open>re_match\<close> is \<open>regexp.Compile\<close> followed by \<open>MatchString\<close>: \<open>None\<close> for a pattern that does
  not compile. Log lines are not modelled.
\<close>

section \<open>Environment\<close>

text \<open>\<open>ResolvedVar\<close>: a nil \<open>List\<close> is \<open>None\<close>, an allocated one, even empty, is \<open>Some\<close>.\<close>

record resolved_var =
  rv_scalar :: string
  rv_list :: "string list option"

record target_spec =
  ts_goos :: string
  ts_goarch :: string
  ts_target :: string
  ts_machine_id :: string
  ts_resource_dir :: string
  ts_srs_local_dir :: string

definition target_or_local :: "target_spec \<Rightarrow> string" where
  "target_or_local t = (let s = trim_space (ts_target t) in if s \<noteq> [] then to_lower s else ''local'')"

record sub_env =
  var_types :: "string \<rightharpoonup> string"
  resolved :: "string \<rightharpoonup> resolved_var"
  tgt :: target_spec
  re_match :: "string \<Rightarrow> string \<Rightarrow> bool option"

definition list_of :: "resolved_var \<Rightarrow> string list" where
  "list_of r = (case rv_list r of None \<Rightarrow> [] | Some xs \<Rightarrow> xs)"

definition type_of_var :: "sub_env \<Rightarrow> string \<Rightarrow> string" where
  "type_of_var E name = (case var_types E name of None \<Rightarrow> [] | Some t \<Rightarrow> t)"

section \<open>Placeholders\<close>

definition is_int_cast_var :: "string \<Rightarrow> bool" where
  "is_int_cast_var name \<longleftrightarrow>
     name = ''tun_mtu'' \<or> name = ''mixed_listen_port'' \<or>
     name = ''proxy_in_listen_port'' \<or> name = ''urltest_tolerance''"

text \<open>The name inside a placeholder string: \<open>@\<close> followed by a nonempty name without \<open>@\<close>.\<close>

definition placeholder :: "string \<Rightarrow> string option" where
  "placeholder x =
     (if prefix ''@'' x \<and> drop 1 x \<noteq> [] \<and> CHR ''@'' \<notin> set (drop 1 x) then Some (drop 1 x) else None)"

definition replacement_for_placeholder :: "sub_env \<Rightarrow> string \<Rightarrow> json \<times> string list" where
  "replacement_for_placeholder E name =
     (case resolved E name of
        None \<Rightarrow> (JStr [], [name])
      | Some r \<Rightarrow>
          (let typ = type_of_var E name in
           if typ = ''text_list'' then (JArr (map JStr (list_of r)), [])
           else
             (let s = trim_space (rv_scalar r) in
              if typ = ''bool'' then (JBool (s \<noteq> [] \<and> equal_fold s ''true''), [])
              else if s = [] then (if is_int_cast_var name then JNum 0 else JStr [], [])
              else if is_int_cast_var name
                then (case atoi s of None \<Rightarrow> JNum 0 | Some n \<Rightarrow> JNum n, [])
              else (JStr s, []))))"

definition substitute_simple_string :: "sub_env \<Rightarrow> string \<Rightarrow> string" where
  "substitute_simple_string E s =
     (case placeholder s of
        None \<Rightarrow> s
      | Some name \<Rightarrow>
          (case fst (replacement_for_placeholder E name) of
             JStr v \<Rightarrow> v
           | JBool b \<Rightarrow> (if b then ''true'' else ''false'')
           | JNum n \<Rightarrow> itoa n
           | _ \<Rightarrow> s))"

section \<open>Predicates of the \<open>#if\<close> construct\<close>

definition is_runtime_global_ref :: "string \<Rightarrow> bool" where
  "is_runtime_global_ref name \<longleftrightarrow> prefix ''runtime.'' name"

text \<open>\<open>lookupVarScalar\<close>: scalar, whether it is a list, the list; \<open>None\<close> for not found.\<close>

definition lookup_var_scalar :: "sub_env \<Rightarrow> string \<Rightarrow> (string \<times> bool \<times> string list) option" where
  "lookup_var_scalar E name =
     (if is_runtime_global_ref name then
        (let f = drop (length ''runtime.'') name in
         if f = ''platform'' then Some (ts_goos (tgt E), False, [])
         else if f = ''arch'' then Some (ts_goarch (tgt E), False, [])
         else if f = ''target'' then Some (target_or_local (tgt E), False, [])
         else None)
      else
        (case resolved E name of
           None \<Rightarrow> None
         | Some r \<Rightarrow>
             if list_of r \<noteq> [] \<or> (rv_scalar r = [] \<and> rv_list r \<noteq> None)
             then Some (rv_scalar r, True, list_of r)
             else Some (rv_scalar r, False, [])))"

definition check_not_empty :: "sub_env \<Rightarrow> string \<Rightarrow> bool \<Rightarrow> string list \<Rightarrow> string \<Rightarrow> bool" where
  "check_not_empty E scalar is_list xs name =
     (if is_list then xs \<noteq> []
      else if var_types E name = Some ''bool'' then equal_fold (trim_space scalar) ''true''
      else if var_types E name = Some ''text_list'' then xs \<noteq> []
      else trim_space scalar \<noteq> [])"

definition check_in_list :: "sub_env \<Rightarrow> string \<Rightarrow> json \<Rightarrow> bool" where
  "check_in_list E scalar arg =
     (let trimmed = trim_space scalar in
      case arg of
        JStr s \<Rightarrow>
          (if prefix ''@'' s \<and> var_types E (drop 1 s) = Some ''text_list'' then
             (case resolved E (drop 1 s) of
                Some r \<Rightarrow> trimmed \<in> set (list_of r)
              | None \<Rightarrow> False)
           else False)
      | JArr items \<Rightarrow>
          list_ex (\<lambda>i. case i of JStr s \<Rightarrow> substitute_simple_string E s = trimmed | _ \<Rightarrow> False) items
      | _ \<Rightarrow> False)"

definition check_matches :: "sub_env \<Rightarrow> string \<Rightarrow> json \<Rightarrow> bool" where
  "check_matches E scalar pat =
     (case pat of
        JStr p \<Rightarrow> (case re_match E (substitute_simple_string E p) (trim_space scalar) of
                     None \<Rightarrow> False | Some b \<Rightarrow> b)
      | _ \<Rightarrow> False)"

definition evaluate_var_predicate :: "sub_env \<Rightarrow> string \<Rightarrow> json \<Rightarrow> bool" where
  "evaluate_var_predicate E name rhs =
     (case lookup_var_scalar E name of
        None \<Rightarrow> False
      | Some (scalar, is_list, xs) \<Rightarrow>
          (case rhs of
             JStr r \<Rightarrow>
               (if r = ''#notEmpty'' then check_not_empty E scalar is_list xs name
                else if r = ''#isEmpty'' then \<not> check_not_empty E scalar is_list xs name
                else if prefix ''#'' r then False
                else trim_space scalar = substitute_simple_string E r)
           | JObj [(k, arg)] \<Rightarrow>
               (if k = ''#in'' then check_in_list E scalar arg
                else if k = ''#notIn'' then \<not> check_in_list E scalar arg
                else if k = ''#matches'' then check_matches E scalar arg
                else False)
           | _ \<Rightarrow> False))"

fun evaluate_predicate :: "sub_env \<Rightarrow> json \<Rightarrow> bool" where
  "evaluate_predicate E (JStr pv) =
     (if \<not> prefix ''@'' pv then False
      else if is_runtime_global_ref (drop 1 pv) then False
      else (case lookup_var_scalar E (drop 1 pv) of
              None \<Rightarrow> False
            | Some (scalar, _, _) \<Rightarrow> equal_fold (trim_space scalar) ''true''))"
| "evaluate_predicate E (JObj [(k, v)]) =
     (if k = ''#not'' then \<not> evaluate_predicate E v
      else if prefix ''@'' k then evaluate_var_predicate E (drop 1 k) v
      else False)"
| "evaluate_predicate E _ = False"

fun evaluate_predicate_list :: "sub_env \<Rightarrow> bool \<Rightarrow> json list \<Rightarrow> bool" where
  "evaluate_predicate_list E is_and [] = is_and"
| "evaluate_predicate_list E is_and (p # ps) =
     (if is_and
      then (if \<not> evaluate_predicate E p then False else evaluate_predicate_list E is_and ps)
      else (if evaluate_predicate E p then True else evaluate_predicate_list E is_and ps))"

definition evaluate_if_condition :: "sub_env \<Rightarrow> obj \<Rightarrow> bool" where
  "evaluate_if_condition E body =
     (case (map_of body ''and'', map_of body ''or'') of
        (Some _, Some _) \<Rightarrow> False
      | (None, None) \<Rightarrow> True
      | (Some a, None) \<Rightarrow>
          (case a of JArr ps \<Rightarrow> evaluate_predicate_list E True ps | _ \<Rightarrow> False)
      | (None, Some b) \<Rightarrow>
          (case b of JArr ps \<Rightarrow> evaluate_predicate_list E False ps | _ \<Rightarrow> False))"

definition select_if_branch :: "sub_env \<Rightarrow> obj \<Rightarrow> json option" where
  "select_if_branch E body =
     (if evaluate_if_condition E body then map_of body ''value'' else map_of body ''else'')"

section \<open>The walker\<close>

definition is_ctrl :: "string \<Rightarrow> bool" where
  "is_ctrl k \<longleftrightarrow> prefix ''#'' k"

definition drop_ctrl :: "obj \<Rightarrow> obj" where
  "drop_ctrl m = filter (\<lambda>p. \<not> is_ctrl (fst p)) m"

text \<open>An array element that is the one-key object \<open>{"#if": ...}\<close>, and its body if an object.\<close>

definition is_if_wrapper :: "json \<Rightarrow> bool" where
  "is_if_wrapper j = (case j of JObj [(k, _)] \<Rightarrow> k = ''#if'' | _ \<Rightarrow> False)"

definition if_wrapper_body :: "json \<Rightarrow> obj option" where
  "if_wrapper_body j = (case j of JObj [(k, JObj body)] \<Rightarrow> (if k = ''#if'' then Some body else None) | _ \<Rightarrow> None)"

definition collapse_name :: "json list \<Rightarrow> string option" where
  "collapse_name xs = (case xs of [JStr s] \<Rightarrow> placeholder s | _ \<Rightarrow> None)"

text \<open>Number of control keys (those starting with \<open>#\<close>) anywhere in a value.\<close>

fun ctrl_keys :: "json \<Rightarrow> nat" where
  "ctrl_keys (JArr xs) = sum_list (map ctrl_keys xs)"
| "ctrl_keys (JObj m) = sum_list (map (\<lambda>p. (if is_ctrl (fst p) then 1 else 0) + ctrl_keys (snd p)) m)"
| "ctrl_keys _ = 0"

text \<open>
  \<open>substituteWalkCtx\<close>. In an object, the control keys go first: the selected branch of
  \<open>#if\<close> is walked, its fields are written over the parent's, every control key is deleted, and
  then all fields are walked, so the fields of a branch are walked twice. A walked branch has
  no control key left (\<open>ctrl_keys_walk\<close>), so the order in which Go ranges over the control
  keys does not matter.
\<close>

text \<open>\<open>handleIfMapSpreadCtx\<close>: the branch to spread, if any, and the merge into the parent.\<close>

definition if_branch :: "sub_env \<Rightarrow> obj \<Rightarrow> json option" where
  "if_branch E m =
     (case map_of m ''#if'' of
        Some (JObj body) \<Rightarrow> select_if_branch E body
      | _ \<Rightarrow> None)"

definition spread_branch :: "obj \<Rightarrow> (json \<times> string list) option \<Rightarrow> obj" where
  "spread_branch m w =
     (case w of
        Some (JObj bm, _) \<Rightarrow> sput_all bm (drop_ctrl m)
      | _ \<Rightarrow> drop_ctrl m)"

definition branch_names :: "(json \<times> string list) option \<Rightarrow> string list" where
  "branch_names w = (case w of Some (_, u) \<Rightarrow> u | None \<Rightarrow> [])"

text \<open>\<open>handleIfArrayElementCtx\<close>: what stands at an element's place; \<open>None\<close> drops it.\<close>

definition if_element :: "sub_env \<Rightarrow> json \<Rightarrow> json option" where
  "if_element E x =
     (case if_wrapper_body x of
        Some body \<Rightarrow> select_if_branch E body
      | None \<Rightarrow> Some x)"

function walk :: "sub_env \<Rightarrow> json \<Rightarrow> json \<times> string list" where
  "walk E (JObj m) =
     (let w = map_option (walk E) (if_branch E m);
          rs = map (\<lambda>p. (fst p, walk E (snd p))) (spread_branch m w)
      in (JObj (map (\<lambda>p. (fst p, fst (snd p))) rs),
          branch_names w @ concat (map (\<lambda>p. snd (snd p)) rs)))"
| "walk E (JArr xs) =
     (if list_ex is_if_wrapper xs then
        (let rs = map (walk E) (List.map_filter (if_element E) xs)
         in (JArr (map fst rs), concat (map snd rs)))
      else
        (case collapse_name xs of
           Some name \<Rightarrow> replacement_for_placeholder E name
         | None \<Rightarrow>
             (let rs = map (walk E) xs
              in (JArr (map fst rs), concat (map snd rs)))))"
| "walk E (JStr x) =
     (case placeholder x of
        Some name \<Rightarrow> replacement_for_placeholder E name
      | None \<Rightarrow> (JStr x, []))"
| "walk E JNull = (JNull, [])"
| "walk E (JBool b) = (JBool b, [])"
| "walk E (JNum n) = (JNum n, [])"
  by pat_completeness auto

lemma ctrl_keys_replacement [simp]: "ctrl_keys (fst (replacement_for_placeholder E name)) = 0"
  by (auto simp: replacement_for_placeholder_def Let_def comp_def split: option.splits)

lemma drop_ctrl_no_ctrl: "p \<in> set (drop_ctrl m) \<Longrightarrow> p \<in> set m \<and> \<not> is_ctrl (fst p)"
  by (simp add: drop_ctrl_def)

lemma ctrl_keys_obj_mem: "p \<in> set m \<Longrightarrow> ctrl_keys (snd p) \<le> ctrl_keys (JObj m)"
  by (induction m) auto

lemma ctrl_keys_obj_ctrl_mem: "p \<in> set m \<Longrightarrow> is_ctrl (fst p) \<Longrightarrow> ctrl_keys (snd p) < ctrl_keys (JObj m)"
  by (induction m) auto

lemma ctrl_keys_obj_pos: "map_of m ''#if'' = Some v \<Longrightarrow> ctrl_keys v < ctrl_keys (JObj m)"
  by (metis ctrl_keys_obj_ctrl_mem fst_conv is_ctrl_def map_of_SomeD prefix_order.refl snd_conv
      Cons_prefix_Cons prefix_bot.extremum)

lemma ctrl_keys_arr_mem: "x \<in> set xs \<Longrightarrow> ctrl_keys x \<le> ctrl_keys (JArr xs)"
  by (induction xs) auto

lemma select_if_branch_mem: "select_if_branch E body = Some br \<Longrightarrow> \<exists>k. map_of body k = Some br"
  by (auto simp: select_if_branch_def split: if_splits)

lemma select_if_branch_le:
  assumes "select_if_branch E body = Some br"
  shows "ctrl_keys br \<le> ctrl_keys (JObj body)" "size br < size (JObj body)"
proof -
  from assms obtain k where k: "map_of body k = Some br" using select_if_branch_mem by blast
  show "ctrl_keys br \<le> ctrl_keys (JObj body)"
    using ctrl_keys_obj_mem[of "(k, br)" body] k by (simp add: map_of_SomeD)
  show "size br < size (JObj body)"
    using k by (rule size_obj_lookup)
qed

lemma if_branch_Some:
  assumes "if_branch E m = Some br"
  obtains body where "map_of m ''#if'' = Some (JObj body)" "select_if_branch E body = Some br"
  using assms by (auto simp: if_branch_def split: option.splits json.splits)

lemma if_branch_less: "if_branch E m = Some br \<Longrightarrow> ctrl_keys br < ctrl_keys (JObj m)"
  by (metis if_branch_Some select_if_branch_le(1) ctrl_keys_obj_pos order_le_less_trans)

lemma if_wrapper_body_Some: "if_wrapper_body x = Some body \<Longrightarrow> x = JObj [(''#if'', JObj body)]"
  by (auto simp: if_wrapper_body_def split: json.splits list.splits if_splits)

lemma if_element_le:
  assumes "if_element E x = Some y"
  shows "ctrl_keys y \<le> ctrl_keys x \<and> size y \<le> size x"
proof (cases "if_wrapper_body x")
  case None
  with assms show ?thesis by (simp add: if_element_def)
next
  case (Some body)
  then have x: "x = JObj [(''#if'', JObj body)]" by (rule if_wrapper_body_Some)
  from assms Some have b: "select_if_branch E body = Some y" by (simp add: if_element_def)
  show ?thesis using select_if_branch_le[OF b] x by simp
qed

lemma set_map_filter: "set (List.map_filter f xs) = {y. \<exists>x \<in> set xs. f x = Some y}"
  by (induction xs) (auto simp: List.map_filter_simps split: option.splits)

lemma sum_list_zero: "(\<And>x. x \<in> set xs \<Longrightarrow> f x = (0::nat)) \<Longrightarrow> sum_list (map f xs) = 0"
  by (induction xs) auto

lemma spread_branch_mem:
  assumes "p \<in> set (spread_branch m w)"
  shows "p \<in> set (drop_ctrl m) \<or> (\<exists>bm u. w = Some (JObj bm, u) \<and> p \<in> set bm)"
proof (cases "\<exists>bm u. w = Some (JObj bm, u)")
  case True
  then obtain bm u where w: "w = Some (JObj bm, u)" by blast
  with assms have "p \<in> set (sput_all bm (drop_ctrl m))" by (simp add: spread_branch_def)
  with set_sput_all_subset w show ?thesis by blast
next
  case False
  then have "spread_branch m w = drop_ctrl m"
    by (auto simp: spread_branch_def split: option.split json.split)
  with assms show ?thesis by simp
qed

lemma ctrl_keys_JObj_zero:
  "ctrl_keys (JObj m) = 0 \<longleftrightarrow> (\<forall>p \<in> set m. \<not> is_ctrl (fst p) \<and> ctrl_keys (snd p) = 0)"
  by (induction m) auto

lemma ctrl_keys_JArr_zero: "ctrl_keys (JArr xs) = 0 \<longleftrightarrow> (\<forall>x \<in> set xs. ctrl_keys x = 0)"
  by (induction xs) auto

declare ctrl_keys.simps(1,2) [simp del]

lemma spread_branch_zero:
  assumes "\<forall>j u. w = Some (j, u) \<longrightarrow> ctrl_keys j = 0"
    and "p \<in> set (spread_branch m w)"
  shows "\<not> is_ctrl (fst p)" "p \<in> set m \<or> ctrl_keys (snd p) = 0"
  using spread_branch_mem[OF assms(2)] assms(1)
  by (auto simp: drop_ctrl_def ctrl_keys_JObj_zero)

lemma map_option_SomeD: "map_option f x = Some y \<Longrightarrow> \<exists>a. x = Some a \<and> f a = y"
  by (cases x) auto

lemma ctrl_keys_walk_dom: "walk_dom (E, j) \<Longrightarrow> ctrl_keys (fst (walk E j)) = 0"
proof (induction E j rule: walk.pinduct)
  case (1 E m)
  define w where "w = map_option (walk E) (if_branch E m)"
  have w0: "\<forall>j u. w = Some (j, u) \<longrightarrow> ctrl_keys j = 0"
  proof (intro allI impI)
    fix j u assume w: "w = Some (j, u)"
    from map_option_SomeD[OF w[unfolded w_def]]
    obtain br where br: "if_branch E m = Some br" "walk E br = (j, u)" by blast
    from "1.IH"(1)[OF br(1)] br(2) show "ctrl_keys j = 0" by simp
  qed
  have "\<And>p. p \<in> set (spread_branch m w) \<Longrightarrow> \<not> is_ctrl (fst p) \<and> ctrl_keys (fst (walk E (snd p))) = 0"
    using "1.IH"(2)[OF w_def] spread_branch_zero(1)[OF w0] by blast
  then show ?case
    using 1(1) by (auto simp: walk.psimps Let_def ctrl_keys_JObj_zero w_def[symmetric])
next
  case (2 E xs)
  show ?case
  proof (cases "list_ex is_if_wrapper xs")
    case True
    with 2 show ?thesis by (simp add: walk.psimps Let_def ctrl_keys_JArr_zero)
  next
    case False
    with 2 show ?thesis
      by (cases "collapse_name xs") (simp_all add: walk.psimps Let_def ctrl_keys_JArr_zero)
  qed
next
  case (3 E x)
  then show ?case by (cases "placeholder x") (simp_all add: walk.psimps)
qed (simp_all add: walk.psimps)

lemma walk_measure_field:
  assumes "\<And>br. if_branch E m = Some br \<Longrightarrow> walk_dom (E, br)"
    and "p \<in> set (spread_branch m (map_option (walk E) (if_branch E m)))"
  shows "ctrl_keys (snd p) < ctrl_keys (JObj m) \<or>
         (ctrl_keys (snd p) = ctrl_keys (JObj m) \<and> size (snd p) < size (JObj m))"
proof (cases "p \<in> set m")
  case True
  then show ?thesis using ctrl_keys_obj_mem[of p m] size_obj_mem[of p m] by linarith
next
  case False
  let ?w = "map_option (walk E) (if_branch E m)"
  have w0: "\<forall>j u. ?w = Some (j, u) \<longrightarrow> ctrl_keys j = 0"
  proof (intro allI impI)
    fix j u assume w: "?w = Some (j, u)"
    from map_option_SomeD[OF w]
    obtain br where br: "if_branch E m = Some br" "walk E br = (j, u)" by blast
    from ctrl_keys_walk_dom[OF assms(1)[OF br(1)]] br(2) show "ctrl_keys j = 0" by simp
  qed
  from spread_branch_zero(2)[OF w0 assms(2)] False have z: "ctrl_keys (snd p) = 0" by blast
  have "if_branch E m \<noteq> None"
    using assms(2) False by (cases "if_branch E m") (auto simp: spread_branch_def drop_ctrl_def)
  then obtain br where "if_branch E m = Some br" by blast
  from if_branch_less[OF this] z show ?thesis by simp
qed

lemma walk_total: "All walk_dom"
proof (relation "measures [\<lambda>(E, j). ctrl_keys j, \<lambda>(E, j). size j]", goal_cases)
  case (2 E m br)
  then show ?case by (simp add: if_branch_less)
next
  case (3 E m w p)
  then show ?case using walk_measure_field[of E m p] by auto
next
  case (4 E xs x)
  then obtain y where y: "y \<in> set xs" "if_element E y = Some x" by (auto simp: set_map_filter)
  then have "size x < size (JArr xs)" "ctrl_keys x \<le> ctrl_keys (JArr xs)"
    using if_element_le[OF y(2)] size_list_mem[OF y(1)] ctrl_keys_arr_mem[OF y(1)] by linarith+
  then show ?case by (simp, linarith)
next
  case (5 E xs x)
  then show ?case using size_list_mem[of x xs] ctrl_keys_arr_mem[of x xs] by (simp, linarith)
qed simp

termination walk
  by (rule walk_total)

declare walk.simps(1,2) [simp del]

text \<open>Reading a walk member by member: values and names of the parts.\<close>

definition walk_val :: "sub_env \<Rightarrow> json \<Rightarrow> json" where
  "walk_val E j = fst (walk E j)"

definition walk_names :: "sub_env \<Rightarrow> json \<Rightarrow> string list" where
  "walk_names E j = snd (walk E j)"

abbreviation walked_fields :: "sub_env \<Rightarrow> obj \<Rightarrow> obj" where
  "walked_fields E m \<equiv> spread_branch m (map_option (walk E) (if_branch E m))"

lemma walk_obj:
  "walk_val E (JObj m) = JObj (map (\<lambda>p. (fst p, walk_val E (snd p))) (walked_fields E m))"
  "walk_names E (JObj m) =
     (case if_branch E m of None \<Rightarrow> [] | Some br \<Rightarrow> walk_names E br)
     @ concat (map (\<lambda>p. walk_names E (snd p)) (walked_fields E m))"
  by (auto simp: walk_val_def walk_names_def walk.simps(1) Let_def comp_def branch_names_def
      split: option.splits prod.splits)

lemma walk_arr:
  "list_ex is_if_wrapper xs \<Longrightarrow>
     walk_val E (JArr xs) = JArr (map (walk_val E) (List.map_filter (if_element E) xs))"
  "list_ex is_if_wrapper xs \<Longrightarrow>
     walk_names E (JArr xs) = concat (map (walk_names E) (List.map_filter (if_element E) xs))"
  "\<not> list_ex is_if_wrapper xs \<Longrightarrow> collapse_name xs = Some n \<Longrightarrow>
     walk E (JArr xs) = replacement_for_placeholder E n"
  "\<not> list_ex is_if_wrapper xs \<Longrightarrow> collapse_name xs = None \<Longrightarrow>
     walk_val E (JArr xs) = JArr (map (walk_val E) xs)"
  "\<not> list_ex is_if_wrapper xs \<Longrightarrow> collapse_name xs = None \<Longrightarrow>
     walk_names E (JArr xs) = concat (map (walk_names E) xs)"
  by (simp_all add: walk_val_def[abs_def] walk_names_def[abs_def] walk.simps(2) Let_def comp_def)

lemma ctrl_keys_walk_val: "ctrl_keys (walk_val E j) = 0"
  unfolding walk_val_def using walk_total by (blast intro: ctrl_keys_walk_dom)

lemma walked_fields_zero:
  assumes "p \<in> set (walked_fields E m)"
  shows "\<not> is_ctrl (fst p)" "p \<in> set m \<or> ctrl_keys (snd p) = 0"
proof -
  have "\<forall>j u. map_option (walk E) (if_branch E m) = Some (j, u) \<longrightarrow> ctrl_keys j = 0"
    using ctrl_keys_walk_val[unfolded walk_val_def, of E] by (metis map_option_SomeD fst_conv)
  from spread_branch_zero[OF this assms]
  show "\<not> is_ctrl (fst p)" "p \<in> set m \<or> ctrl_keys (snd p) = 0" by auto
qed

subsection \<open>Inert values: what the walker leaves alone\<close>

fun inert :: "json \<Rightarrow> bool" where
  "inert (JStr s) \<longleftrightarrow> placeholder s = None"
| "inert (JArr xs) \<longleftrightarrow> list_all inert xs"
| "inert (JObj m) \<longleftrightarrow> list_all (\<lambda>p. \<not> is_ctrl (fst p) \<and> inert (snd p)) m"
| "inert _ \<longleftrightarrow> True"

text \<open>No resolved value looks like a placeholder again.\<close>

definition clean_env :: "sub_env \<Rightarrow> bool" where
  "clean_env E \<longleftrightarrow> (\<forall>n. inert (fst (replacement_for_placeholder E n)))"

lemma inert_no_ctrl: "inert j \<Longrightarrow> ctrl_keys j = 0"
  by (induction j rule: inert.induct)
     (auto simp: ctrl_keys_JObj_zero ctrl_keys_JArr_zero list_all_iff)

lemma inert_if_branch: "inert (JObj m) \<Longrightarrow> if_branch E m = None"
  by (auto simp: if_branch_def is_ctrl_def list_all_iff split: option.splits json.splits
      dest!: map_of_SomeD)

lemma inert_drop_ctrl: "inert (JObj m) \<Longrightarrow> drop_ctrl m = m"
  by (auto simp: drop_ctrl_def list_all_iff filter_id_conv)

lemma inert_no_wrapper: "inert x \<Longrightarrow> \<not> is_if_wrapper x"
  by (auto simp: is_if_wrapper_def is_ctrl_def split: json.splits list.splits)

lemma inert_collapse: "list_all inert xs \<Longrightarrow> collapse_name xs = None"
  by (auto simp: collapse_name_def split: list.splits json.splits)

lemma walk_inert: "inert j \<Longrightarrow> walk E j = (j, [])"
proof (induction E j rule: walk.induct)
  case (1 E m)
  then have f: "if_branch E m = None" "drop_ctrl m = m"
    using inert_if_branch inert_drop_ctrl by blast+
  have m: "\<forall>p \<in> set m. walk E (snd p) = (snd p, [])"
    using 1 f by (auto simp: spread_branch_def list_all_iff)
  then have "map (\<lambda>p. (fst p, fst (walk E (snd p)))) m = m" by (intro map_idI) auto
  with f m show ?case by (simp add: walk.simps(1) spread_branch_def branch_names_def comp_def Let_def)
next
  case (2 E xs)
  then have a: "\<not> list_ex is_if_wrapper xs" "collapse_name xs = None"
    using inert_no_wrapper by (auto simp: list_all_iff list_ex_iff inert_collapse)
  have m: "\<forall>x \<in> set xs. walk E x = (x, [])"
    using 2(2)[OF a] 2(3) by (auto simp: list_all_iff)
  then have "map (\<lambda>x. fst (walk E x)) xs = xs" by (intro map_idI) auto
  with a m show ?case by (simp add: walk.simps(2) comp_def Let_def)
qed auto

lemma inert_walk_val: "clean_env E \<Longrightarrow> inert (walk_val E j)"
proof (induction E j rule: walk.induct)
  case (1 E m)
  then have "\<forall>p \<in> set (walked_fields E m). inert (walk_val E (snd p)) \<and> \<not> is_ctrl (fst p)"
    using walked_fields_zero by blast
  then show ?case by (simp add: walk_obj list_all_iff)
next
  case (2 E xs)
  show ?case
  proof (cases "list_ex is_if_wrapper xs")
    case True
    with 2 show ?thesis by (simp add: walk_arr list_all_iff)
  next
    case False
    show ?thesis
    proof (cases "collapse_name xs")
      case None
      with False 2 show ?thesis by (simp add: walk_arr list_all_iff)
    next
      case (Some n)
      with False 2 show ?thesis by (simp add: walk_val_def walk_arr clean_env_def)
    qed
  qed
next
  case (3 E x)
  then show ?case by (auto simp: walk_val_def clean_env_def split: option.splits)
qed (simp_all add: walk_val_def)

lemma unresolved_replacement: "n' \<in> set (snd (replacement_for_placeholder E n)) \<Longrightarrow> resolved E n' = None"
  by (auto simp: replacement_for_placeholder_def Let_def split: option.splits if_splits)

lemma walk_names_unresolved: "n \<in> set (walk_names E j) \<Longrightarrow> resolved E n = None"
proof (induction E j rule: walk.induct)
  case (1 E m)
  then show ?case by (cases "if_branch E m") (auto simp: walk_obj)
next
  case (2 E xs)
  show ?case
  proof (cases "list_ex is_if_wrapper xs")
    case True
    with 2 show ?thesis by (auto simp: walk_arr)
  next
    case False
    show ?thesis
    proof (cases "collapse_name xs")
      case None
      with False 2 show ?thesis by (auto simp: walk_arr)
    next
      case (Some n')
      with False 2 show ?thesis
        using unresolved_replacement by (auto simp: walk_names_def walk_arr)
    qed
  qed
next
  case (3 E x)
  then show ?case using unresolved_replacement by (auto simp: walk_names_def split: option.splits)
qed (simp_all add: walk_names_def)

lemma wf_replacement: "wf_json (fst (replacement_for_placeholder E n))"
  by (auto simp: replacement_for_placeholder_def Let_def list_all_iff split: option.splits)

lemma wf_spread_branch:
  assumes "wf_obj m" "\<forall>j u. w = Some (j, u) \<longrightarrow> wf_json j"
  shows "wf_obj (spread_branch m w)"
proof -
  have d: "wf_obj (drop_ctrl m)" using assms(1) by (auto simp: drop_ctrl_def)
  show ?thesis
  proof (cases "\<exists>bm u. w = Some (JObj bm, u)")
    case True
    then obtain bm u where w: "w = Some (JObj bm, u)" by blast
    with assms(2) have "wf_obj bm" by (simp add: wf_obj_def)
    with d w show ?thesis by (simp add: spread_branch_def wf_obj_sput_all)
  next
    case False
    then have "spread_branch m w = drop_ctrl m"
      by (auto simp: spread_branch_def split: option.split json.split)
    with d show ?thesis by simp
  qed
qed

lemma wf_select_if_branch: "wf_obj body \<Longrightarrow> select_if_branch E body = Some br \<Longrightarrow> wf_json br"
  by (metis select_if_branch_mem wf_obj_lookup)

lemma wf_if_branch: "wf_obj m \<Longrightarrow> if_branch E m = Some br \<Longrightarrow> wf_json br"
  by (metis if_branch_Some wf_obj_lookup wf_obj_def wf_select_if_branch)

lemma wf_if_element:
  assumes "wf_json x" "if_element E x = Some y"
  shows "wf_json y"
proof (cases "if_wrapper_body x")
  case None
  with assms show ?thesis by (simp add: if_element_def)
next
  case (Some body)
  with assms if_wrapper_body_Some[OF Some] show ?thesis
    by (auto simp: if_element_def wf_obj_def intro: wf_select_if_branch)
qed

lemma branch_result_all:
  assumes "\<And>br. if_branch E m = Some br \<Longrightarrow> P (walk_val E br)"
  shows "\<forall>j u. map_option (walk E) (if_branch E m) = Some (j, u) \<longrightarrow> P j"
  using assms by (cases "if_branch E m") (simp_all add: walk_val_def, metis fst_conv)

lemma wf_walk_val: "wf_json j \<Longrightarrow> wf_json (walk_val E j)"
proof (induction E j rule: walk.induct)
  case (1 E m)
  have m: "wf_obj m" using 1(3) by (simp add: wf_obj_def)
  have br: "\<forall>j u. map_option (walk E) (if_branch E m) = Some (j, u) \<longrightarrow> wf_json j"
    by (rule branch_result_all) (use 1(1) wf_if_branch[OF m] in blast)
  have wf: "wf_obj (walked_fields E m)" by (rule wf_spread_branch[OF m br])
  then have "\<forall>p \<in> set (walked_fields E m). wf_json (snd p)" by (simp add: wf_obj_iff)
  then have "\<forall>p \<in> set (walked_fields E m). wf_json (walk_val E (snd p))"
    using 1(2)[OF refl] by blast
  moreover have "scanon (map (\<lambda>p. (fst p, walk_val E (snd p))) (walked_fields E m))"
    using wf by (simp add: wf_obj_iff scanon_def comp_def)
  ultimately show ?case by (simp add: walk_obj(1) wf_json_JObj del: wf_json.simps)
next
  case (2 E xs)
  have x: "\<forall>x \<in> set xs. wf_json x" using 2(3) by (simp add: list_all_iff)
  show ?case
  proof (cases "list_ex is_if_wrapper xs")
    case True
    have "\<forall>y \<in> set (List.map_filter (if_element E) xs). wf_json (walk_val E y)"
      using 2(1)[OF True] x wf_if_element unfolding set_map_filter by blast
    with True show ?thesis by (simp add: walk_arr wf_json_JArr del: wf_json.simps)
  next
    case False
    show ?thesis
    proof (cases "collapse_name xs")
      case None
      with False 2(2) x show ?thesis by (simp add: walk_arr wf_json_JArr del: wf_json.simps)
    next
      case (Some n)
      with False show ?thesis by (simp add: walk_val_def walk_arr wf_replacement)
    qed
  qed
next
  case (3 E x)
  then show ?case by (auto simp: walk_val_def wf_replacement split: option.splits)
qed (simp_all add: walk_val_def)

section \<open>Entry points\<close>

text \<open>\<open>VarDefaultValue\<close> and \<open>TemplateVar\<close>.\<close>

record var_default =
  vd_scalar :: string
  per_platform :: obj

record template_var =
  tv_separator :: bool
  tv_name :: string
  tv_type :: string
  default_value :: var_default
  default_node :: string
  tv_options :: "string list"
  option_titles :: "string list"
  wizard_ui :: string
  platforms :: "string list"
  tv_title :: string
  tooltip :: string
  tv_if :: "string list"
  tv_if_or :: "string list"

definition var_types_of :: "template_var list \<Rightarrow> string \<rightharpoonup> string" where
  "var_types_of vars =
     map_of (rev (map (\<lambda>v. (tv_name v, tv_type v)) (filter (\<lambda>v. \<not> tv_separator v) vars)))"

text \<open>
  \<open>substituteVarsInJSONInternal\<close> on a decoded document. \<open>Inl\<close> is \<open>UnresolvedVarError\<close>
  with its names; it arises in strict mode only. The second component is the sink, empty when
  the caller is lenient.
\<close>

definition substitute_vars_in_json_internal ::
  "template_var list \<Rightarrow> (string \<rightharpoonup> resolved_var) \<Rightarrow> target_spec \<Rightarrow>
   (string \<Rightarrow> string \<Rightarrow> bool option) \<Rightarrow> bool \<Rightarrow> json \<Rightarrow> string list + (json \<times> string list)" where
  "substitute_vars_in_json_internal vars res t re strict root =
     (let E = \<lparr>var_types = var_types_of vars, resolved = res, tgt = t, re_match = re\<rparr>;
          (out, unresolved) = walk E root
      in if strict \<and> unresolved \<noteq> [] then Inl unresolved
         else Inr (out, if strict then unresolved else []))"

definition substitute_vars_in_json ::
  "template_var list \<Rightarrow> (string \<rightharpoonup> resolved_var) \<Rightarrow> target_spec \<Rightarrow>
   (string \<Rightarrow> string \<Rightarrow> bool option) \<Rightarrow> json \<Rightarrow> string list + json" where
  "substitute_vars_in_json vars res t re root =
     (case substitute_vars_in_json_internal vars res t re False root of
        Inl e \<Rightarrow> Inl e | Inr (out, _) \<Rightarrow> Inr out)"

definition substitute_vars_in_json_strict ::
  "template_var list \<Rightarrow> (string \<rightharpoonup> resolved_var) \<Rightarrow> target_spec \<Rightarrow>
   (string \<Rightarrow> string \<Rightarrow> bool option) \<Rightarrow> json \<Rightarrow> string list + (json \<times> string list)" where
  "substitute_vars_in_json_strict vars res t re root =
     substitute_vars_in_json_internal vars res t re True root"

section \<open>Activation guards: \<open>EvalIf\<close>\<close>

definition guard_var_true :: "(string \<rightharpoonup> string) \<Rightarrow> string \<Rightarrow> bool" where
  "guard_var_true vm name =
     equal_fold (case vm (trim_prefix name ''@'') of None \<Rightarrow> [] | Some v \<Rightarrow> v) ''true''"

definition eval_if_with_reason ::
  "string list \<Rightarrow> string list \<Rightarrow> (string \<rightharpoonup> string) \<Rightarrow> bool \<times> string" where
  "eval_if_with_reason ifs if_ors vm =
     (case find (\<lambda>n. \<not> guard_var_true vm n) ifs of
        Some n \<Rightarrow> (False, ''if='' @ n)
      | None \<Rightarrow>
          (if if_ors \<noteq> [] \<and> \<not> list_ex (guard_var_true vm) if_ors
           then (False, ''if_or='' @ join_with '','' (sort if_ors))
           else (True, [])))"

definition eval_if :: "string list \<Rightarrow> string list \<Rightarrow> (string \<rightharpoonup> string) \<Rightarrow> bool" where
  "eval_if ifs if_ors vm = fst (eval_if_with_reason ifs if_ors vm)"

lemma eval_if_iff:
  "eval_if ifs if_ors vm \<longleftrightarrow>
     (\<forall>n \<in> set ifs. guard_var_true vm n) \<and> (if_ors = [] \<or> (\<exists>n \<in> set if_ors. guard_var_true vm n))"
  by (auto simp: eval_if_def eval_if_with_reason_def list_ex_iff find_None_iff find_Some_iff
      split: option.splits)

lemma evaluate_predicate_list_iff:
  "evaluate_predicate_list E is_and ps \<longleftrightarrow>
     (if is_and then list_all (evaluate_predicate E) ps else list_ex (evaluate_predicate E) ps)"
  by (induction ps) auto

lemma substitute_internal_eq:
  "substitute_vars_in_json_internal vars res t re strict root =
     (let E = \<lparr>var_types = var_types_of vars, resolved = res, tgt = t, re_match = re\<rparr> in
      if strict \<and> walk_names E root \<noteq> [] then Inl (walk_names E root)
      else Inr (walk_val E root, if strict then walk_names E root else []))"
  by (simp add: substitute_vars_in_json_internal_def walk_names_def walk_val_def Let_def
      split: prod.splits)

section \<open>Properties\<close>

text \<open>
  Substitution always succeeds in lenient mode, its result has no control key (\<open>#if\<close>,
  or any key starting with \<open>#\<close>) at any depth, and it is well formed (sorted, duplicate-free
  objects) when the template was.
\<close>

theorem substitute_eliminates_control_keys:
  "\<exists>out. substitute_vars_in_json vars res t re root = Inr out \<and> ctrl_keys out = 0 \<and>
         (wf_json root \<longrightarrow> wf_json out)"
  by (auto simp: substitute_vars_in_json_def substitute_internal_eq Let_def ctrl_keys_walk_val
      wf_walk_val)

theorem substitute_eliminates_control_keys_witness:
  "\<exists>out. substitute_vars_in_json [] Map.empty \<lparr>ts_goos = ''linux'', ts_goarch = ''amd64'', ts_target = [],
       ts_machine_id = [], ts_resource_dir = [], ts_srs_local_dir = []\<rparr> (\<lambda>_ _. None)
       (JObj [(''#if'', JObj [(''value'', JObj [(''a'', JStr ''x'')])])]) = Inr out \<and>
     ctrl_keys out = 0 \<and> wf_json out"
  using substitute_eliminates_control_keys
    [of "[]" Map.empty "\<lparr>ts_goos = ''linux'', ts_goarch = ''amd64'', ts_target = [], ts_machine_id = [],
       ts_resource_dir = [], ts_srs_local_dir = []\<rparr>" "\<lambda>_ _. None"
       "JObj [(''#if'', JObj [(''value'', JObj [(''a'', JStr ''x'')])])]"]
  by simp

text \<open>
  Strict and lenient substitution agree: strict mode fails exactly when the walk met an
  unresolved name, every name it reports is unresolved, and when it succeeds it returns the
  lenient result.
\<close>

theorem strict_agrees_with_lenient:
  "case substitute_vars_in_json_strict vars res t re root of
     Inl names \<Rightarrow> names \<noteq> [] \<and> list_all (\<lambda>n. res n = None) names
   | Inr (out, names) \<Rightarrow> names = [] \<and> substitute_vars_in_json vars res t re root = Inr out"
  using walk_names_unresolved
    [of _ "\<lparr>var_types = var_types_of vars, resolved = res, tgt = t, re_match = re\<rparr>" root]
  by (auto simp: substitute_vars_in_json_strict_def substitute_vars_in_json_def
      substitute_internal_eq Let_def list_all_iff)

text \<open>
  When no resolved value looks like a placeholder again, one pass is enough: the result has
  no placeholder left, and substituting it again, even strictly, changes nothing.
\<close>

theorem substitute_idempotent:
  assumes "clean_env \<lparr>var_types = var_types_of vars, resolved = res, tgt = t, re_match = re\<rparr>"
    and "substitute_vars_in_json vars res t re root = Inr out"
  shows "inert out \<and> substitute_vars_in_json_strict vars res t re out = Inr (out, [])"
proof -
  let ?E = "\<lparr>var_types = var_types_of vars, resolved = res, tgt = t, re_match = re\<rparr>"
  from assms(2) have out: "out = walk_val ?E root"
    by (simp add: substitute_vars_in_json_def substitute_internal_eq Let_def)
  with inert_walk_val[OF assms(1)] have "inert out" by simp
  with walk_inert[OF this, of ?E] show ?thesis
    by (simp add: substitute_vars_in_json_strict_def substitute_internal_eq Let_def
        walk_names_def walk_val_def)
qed

theorem substitute_idempotent_witness:
  "\<exists>out. substitute_vars_in_json [] Map.empty \<lparr>ts_goos = [], ts_goarch = [], ts_target = [],
       ts_machine_id = [], ts_resource_dir = [], ts_srs_local_dir = []\<rparr> (\<lambda>_ _. None) (JStr ''@x'') = Inr out
     \<and> inert out"
proof -
  let ?t = "\<lparr>ts_goos = [], ts_goarch = [], ts_target = [], ts_machine_id = [], ts_resource_dir = [], ts_srs_local_dir = []\<rparr>"
  have c: "clean_env \<lparr>var_types = var_types_of [], resolved = Map.empty, tgt = ?t, re_match = (\<lambda>_ _. None)\<rparr>"
    by (simp add: clean_env_def replacement_for_placeholder_def placeholder_def)
  have o: "substitute_vars_in_json [] Map.empty ?t (\<lambda>_ _. None) (JStr ''@x'') = Inr (JStr [])"
    by (simp add: substitute_vars_in_json_def substitute_internal_eq Let_def walk_val_def
        placeholder_def replacement_for_placeholder_def)
  from substitute_idempotent[OF c o] o show ?thesis by blast
qed

definition chained_env :: sub_env where
  "chained_env =
     \<lparr>var_types = Map.empty,
      resolved = [''a'' \<mapsto> \<lparr>rv_scalar = ''@b'', rv_list = None\<rparr>,
                  ''b'' \<mapsto> \<lparr>rv_scalar = ''secret'', rv_list = None\<rparr>],
      tgt = \<lparr>ts_goos = [], ts_goarch = [], ts_target = [], ts_machine_id = [], ts_resource_dir = [], ts_srs_local_dir = []\<rparr>,
      re_match = (\<lambda>_ _. None)\<rparr>"

text \<open>
  Without that condition the position matters: with \<open>a\<close> resolved to the string \<open>@b\<close>,
  a field of a \<open>#if\<close> branch spread into its parent is substituted twice and becomes the value of
  \<open>b\<close>, while the same field written plainly, or as an array element's branch, stays \<open>@b\<close>.
\<close>

theorem map_spread_substitutes_twice:
  "walk chained_env (JObj [(''#if'', JObj [(''value'', JObj [(''k'', JStr ''@a'')])])])
     = (JObj [(''k'', JStr ''secret'')], []) \<and>
   walk chained_env (JObj [(''k'', JStr ''@a'')]) = (JObj [(''k'', JStr ''@b'')], []) \<and>
   walk chained_env (JArr [JObj [(''#if'', JObj [(''value'', JObj [(''k'', JStr ''@a'')])])]])
     = (JArr [JObj [(''k'', JStr ''@b'')]], [])"
  by (intro conjI; code_simp)

text \<open>
  The predicate language is a Boolean algebra over its lists: \<open>#not\<close> complements any
  predicate, and an \<open>or\<close> of negations is the negation of the \<open>and\<close>, and dually, the empty lists
  included.
\<close>

theorem predicate_de_morgan:
  "evaluate_predicate_list E (\<not> is_and) (map (\<lambda>p. JObj [(''#not'', p)]) ps) \<longleftrightarrow>
     \<not> evaluate_predicate_list E is_and ps"
  by (auto simp: evaluate_predicate_list_iff list_all_iff list_ex_iff)

text \<open>
  The guard with a reason and the plain guard agree: the reason is empty exactly when the
  guard passes, passing means all \<open>if\<close> names and one of the \<open>if_or\<close> names (when there are any)
  are true, and the reason of a failed \<open>if_or\<close> does not depend on the order of its names.
\<close>

theorem eval_if_reason_correct:
  "(snd (eval_if_with_reason ifs if_ors vm) = [] \<longleftrightarrow> eval_if ifs if_ors vm) \<and>
   (eval_if ifs if_ors vm \<longleftrightarrow>
      (\<forall>n \<in> set ifs. guard_var_true vm n) \<and> (if_ors = [] \<or> (\<exists>n \<in> set if_ors. guard_var_true vm n)))
   \<and> eval_if_with_reason ifs (rev if_ors) vm = eval_if_with_reason ifs if_ors vm"
proof (intro conjI)
  show "snd (eval_if_with_reason ifs if_ors vm) = [] \<longleftrightarrow> eval_if ifs if_ors vm"
    by (auto simp: eval_if_with_reason_def eval_if_def split: option.splits)
  show "eval_if_with_reason ifs (rev if_ors) vm = eval_if_with_reason ifs if_ors vm"
    by (auto simp: eval_if_with_reason_def list_ex_iff split: option.splits)
qed (rule eval_if_iff)

theorem eval_if_reason_correct_witness:
  "eval_if [''@tun''] [''@a'', ''@b''] [''tun'' \<mapsto> ''True'', ''b'' \<mapsto> ''true'']"
proof -
  have "guard_var_true [''tun'' \<mapsto> ''True'', ''b'' \<mapsto> ''true''] ''@tun''"
    and "guard_var_true [''tun'' \<mapsto> ''True'', ''b'' \<mapsto> ''true''] ''@b''"
    by code_simp+
  then show ?thesis
    using eval_if_reason_correct[of "[''@tun'']" "[''@a'', ''@b'']" "[''tun'' \<mapsto> ''True'', ''b'' \<mapsto> ''true'']"]
    by simp
qed

end
