(* ===== verification/Outbounds.thy ===== *)
theory Outbounds
  imports Substitute "HOL-Library.Monad_Syntax"
begin

text \<open>
  Outbound entries of the state and their patch stack: \<open>core/config/configtypes/types.go\<close>
  (\<open>OutboundConfig\<close>, \<open>OutboundUpdate\<close>), the field diff of \<open>core/build/outbound_diff.go\<close>,
  the field merge of \<open>core/build/preset_outbounds.go\<close> and its map-level wrapper in
  \<open>core/build/resolve_outbounds.go\<close>. A nil map is \<open>None\<close>; a nil slice and an empty one are
  both \<open>[]\<close>, since the code only asks for their length. The JSON round trips that Go uses to
  deep-copy a map are the identity on values.
\<close>

section \<open>Data\<close>

definition ref_template :: string where "ref_template = ''#TEMPLATE#''"
definition ref_user :: string where "ref_user = ''#USER#''"

record outbound_update =
  ou_ref :: string
  ou_patch :: obj

record outbound_config =
  oc_tag :: string
  oc_type :: string
  oc_options :: "obj option"
  oc_filters :: "obj option"
  oc_add :: "string list"
  oc_preferred :: "obj option"
  oc_comment :: string
  oc_required :: bool
  oc_ref :: string
  oc_updates :: "outbound_update list"

definition obj_of :: "obj option \<Rightarrow> obj" where
  "obj_of m = (case m of None \<Rightarrow> [] | Some x \<Rightarrow> x)"

lemma obj_of_simps [simp]: "obj_of None = []" "obj_of (Some m) = m"
  by (simp_all add: obj_of_def)

definition is_referenced :: "outbound_config \<Rightarrow> bool" where
  "is_referenced oc \<longleftrightarrow> oc_ref oc \<noteq> []"

definition is_template_ref :: "outbound_config \<Rightarrow> bool" where
  "is_template_ref oc \<longleftrightarrow> oc_ref oc = ref_template"

definition is_preset_ref :: "outbound_config \<Rightarrow> bool" where
  "is_preset_ref oc \<longleftrightarrow> oc_ref oc \<noteq> [] \<and> oc_ref oc \<noteq> ref_template"

section \<open>Decoding a map into an entry\<close>

text \<open>
  \<open>json.Unmarshal\<close> into the struct's fields: an absent key or \<open>null\<close> leaves the zero value, a
  value of another type is an error (\<open>None\<close>). Keys are matched exactly.
\<close>

definition dec_str :: "obj \<Rightarrow> string \<Rightarrow> string option" where
  "dec_str m k = (case map_of m k of
     None \<Rightarrow> Some [] | Some JNull \<Rightarrow> Some [] | Some (JStr s) \<Rightarrow> Some s | _ \<Rightarrow> None)"

definition dec_bool :: "obj \<Rightarrow> string \<Rightarrow> bool option" where
  "dec_bool m k = (case map_of m k of
     None \<Rightarrow> Some False | Some JNull \<Rightarrow> Some False | Some (JBool b) \<Rightarrow> Some b | _ \<Rightarrow> None)"

definition dec_map :: "obj \<Rightarrow> string \<Rightarrow> obj option option" where
  "dec_map m k = (case map_of m k of
     None \<Rightarrow> Some None | Some JNull \<Rightarrow> Some None | Some (JObj o') \<Rightarrow> Some (Some o') | _ \<Rightarrow> None)"

fun dec_str_list :: "json list \<Rightarrow> string list option" where
  "dec_str_list [] = Some []"
| "dec_str_list (j # js) =
     (case j of
        JStr s \<Rightarrow> map_option (Cons s) (dec_str_list js)
      | JNull \<Rightarrow> map_option (Cons []) (dec_str_list js)
      | _ \<Rightarrow> None)"

definition dec_strs :: "obj \<Rightarrow> string \<Rightarrow> string list option" where
  "dec_strs m k = (case map_of m k of
     None \<Rightarrow> Some [] | Some JNull \<Rightarrow> Some [] | Some (JArr js) \<Rightarrow> dec_str_list js | _ \<Rightarrow> None)"

fun dec_updates_list :: "json list \<Rightarrow> outbound_update list option" where
  "dec_updates_list [] = Some []"
| "dec_updates_list (j # js) =
     (case j of
        JObj m \<Rightarrow> do {
          r \<leftarrow> dec_str m ''ref'';
          p \<leftarrow> dec_map m ''patch'';
          us \<leftarrow> dec_updates_list js;
          Some (\<lparr>ou_ref = r, ou_patch = obj_of p\<rparr> # us) }
      | JNull \<Rightarrow> map_option (Cons \<lparr>ou_ref = [], ou_patch = []\<rparr>) (dec_updates_list js)
      | _ \<Rightarrow> None)"

definition dec_updates :: "obj \<Rightarrow> string \<Rightarrow> outbound_update list option" where
  "dec_updates m k = (case map_of m k of
     None \<Rightarrow> Some [] | Some JNull \<Rightarrow> Some [] | Some (JArr js) \<Rightarrow> dec_updates_list js | _ \<Rightarrow> None)"

definition decode_outbound :: "obj \<Rightarrow> outbound_config option" where
  "decode_outbound m = do {
     tag \<leftarrow> dec_str m ''tag'';
     ty \<leftarrow> dec_str m ''type'';
     opts \<leftarrow> dec_map m ''options'';
     fs \<leftarrow> dec_map m ''filters'';
     add \<leftarrow> dec_strs m ''addOutbounds'';
     pd \<leftarrow> dec_map m ''preferredDefault'';
     c \<leftarrow> dec_str m ''comment'';
     req \<leftarrow> dec_bool m ''required'';
     r \<leftarrow> dec_str m ''ref'';
     us \<leftarrow> dec_updates m ''updates'';
     Some \<lparr>oc_tag = tag, oc_type = ty, oc_options = opts, oc_filters = fs, oc_add = add,
           oc_preferred = pd, oc_comment = c, oc_required = req, oc_ref = r, oc_updates = us\<rparr> }"

lemma dec_str_list_JStr [simp]: "dec_str_list (map JStr ss) = Some ss"
  by (induction ss) auto

section \<open>Field diff, \<open>outbound_diff.go\<close>\<close>

definition outbound_maps_equal :: "obj option \<Rightarrow> obj option \<Rightarrow> bool" where
  "outbound_maps_equal a b \<longleftrightarrow> (obj_of a = [] \<and> obj_of b = []) \<or> a = b"

definition map_diff :: "obj \<Rightarrow> obj \<Rightarrow> obj" where
  "map_diff form base = filter (\<lambda>(k, v). map_of base k \<noteq> Some v) form"

definition outbound_field_diff :: "outbound_config \<Rightarrow> outbound_config \<Rightarrow> obj" where
  "outbound_field_diff form base =
     (let patch = [];
          patch = (if \<not> outbound_maps_equal (oc_filters form) (oc_filters base)
                   then sput ''filters'' (JObj (obj_of (oc_filters form))) patch else patch);
          opt_diff = map_diff (obj_of (oc_options form)) (obj_of (oc_options base));
          patch = (if opt_diff \<noteq> [] then sput ''options'' (JObj opt_diff) patch else patch);
          patch = (if oc_add form \<noteq> oc_add base
                   then sput ''addOutbounds'' (JArr (map JStr (oc_add form))) patch else patch);
          patch = (if \<not> outbound_maps_equal (oc_preferred form) (oc_preferred base)
                   then sput ''preferredDefault'' (JObj (obj_of (oc_preferred form))) patch
                   else patch);
          patch = (if oc_comment form \<noteq> oc_comment base
                   then sput ''comment'' (JStr (oc_comment form)) patch else patch)
      in patch)"

definition upsert_user_patch :: "outbound_update list \<Rightarrow> obj \<Rightarrow> outbound_update list" where
  "upsert_user_patch updates patch =
     filter (\<lambda>u. ou_ref u \<noteq> ref_user) updates
     @ (if patch \<noteq> [] then [\<lparr>ou_ref = ref_user, ou_patch = patch\<rparr>] else [])"

section \<open>Field merge, \<open>applyOutboundUpdate\<close> and \<open>applyOutboundUpdatePatch\<close>\<close>

definition union_string_list :: "string list \<Rightarrow> string list \<Rightarrow> string list" where
  "union_string_list a b = dedup_from [] (a @ b)"

definition live_options :: "obj \<Rightarrow> obj" where
  "live_options m = filter (\<lambda>(k, v). v \<noteq> JNull) m"

definition apply_outbound_update :: "outbound_config \<Rightarrow> outbound_config \<Rightarrow> outbound_config" where
  "apply_outbound_update target patch =
     (let out = target;
          out = (if oc_filters patch \<noteq> None then out\<lparr>oc_filters := oc_filters patch\<rparr> else out);
          out = (if oc_add patch \<noteq> []
                 then out\<lparr>oc_add := union_string_list (oc_add target) (oc_add patch)\<rparr> else out);
          out = (if obj_of (oc_options patch) \<noteq> []
                 then out\<lparr>oc_options := Some (sput_all (live_options (obj_of (oc_options patch)))
                                                       (obj_of (oc_options target)))\<rparr>
                 else out);
          out = (if oc_preferred patch \<noteq> None then out\<lparr>oc_preferred := oc_preferred patch\<rparr> else out);
          out = (if oc_comment patch \<noteq> [] then out\<lparr>oc_comment := oc_comment patch\<rparr> else out)
      in out)"

definition apply_outbound_update_patch :: "outbound_config \<Rightarrow> obj \<Rightarrow> bool \<Rightarrow> outbound_config" where
  "apply_outbound_update_patch target patch user_patch =
     (if patch = [] then target
      else (case decode_outbound patch of
              None \<Rightarrow> target
            | Some p \<Rightarrow>
                (let out = apply_outbound_update target p in
                 if user_patch \<and> map_of patch ''addOutbounds'' \<noteq> None
                 then out\<lparr>oc_add := oc_add p\<rparr> else out)))"

definition apply_updates_to_base ::
  "outbound_config \<Rightarrow> outbound_update list \<Rightarrow> outbound_config" where
  "apply_updates_to_base base updates =
     fold (\<lambda>u merged. apply_outbound_update_patch merged (ou_patch u) (ou_ref u = ref_user))
       updates (base\<lparr>oc_updates := []\<rparr>)"

text \<open>\<open>outboundConfigToPatchMap\<close> of \<open>sync_outbounds.go\<close>: the nonzero patch fields as a map.\<close>

definition outbound_config_to_patch_map :: "outbound_config \<Rightarrow> obj" where
  "outbound_config_to_patch_map cfg =
     (let patch = [];
          patch = (case oc_filters cfg of Some f \<Rightarrow> sput ''filters'' (JObj f) patch | None \<Rightarrow> patch);
          patch = (if obj_of (oc_options cfg) \<noteq> []
                   then sput ''options'' (JObj (obj_of (oc_options cfg))) patch else patch);
          patch = (if oc_add cfg \<noteq> []
                   then sput ''addOutbounds'' (JArr (map JStr (oc_add cfg))) patch else patch);
          patch = (case oc_preferred cfg of
                     Some p \<Rightarrow> sput ''preferredDefault'' (JObj p) patch | None \<Rightarrow> patch);
          patch = (if oc_comment cfg \<noteq> []
                   then sput ''comment'' (JStr (oc_comment cfg)) patch else patch)
      in patch)"

section \<open>Lemmas\<close>

subsection \<open>Union of tag lists\<close>

lemma set_union_string_list: "set (union_string_list a b) = set a \<union> set b"
  by (simp add: union_string_list_def set_dedup_from)

lemma distinct_union_string_list: "distinct (union_string_list a b)"
  by (simp add: union_string_list_def distinct_dedup_from)

lemma union_string_list_absorb: "set b \<subseteq> set a \<Longrightarrow> distinct a \<Longrightarrow> union_string_list a b = a"
  by (simp add: union_string_list_def dedup_from_append dedup_from_all dedup_from_absent)

lemma union_string_list_append:
  "distinct a \<Longrightarrow> union_string_list a b = a @ dedup_from a b"
  by (simp add: union_string_list_def dedup_from_append dedup_from_absent)

subsection \<open>Options\<close>

lemma map_of_filter_pred:
  "distinct (map fst m) \<Longrightarrow>
   map_of (filter (\<lambda>(k, v). P k v) m) k =
     (case map_of m k of None \<Rightarrow> None | Some v \<Rightarrow> if P k v then Some v else None)"
proof (induction m)
  case (Cons p m)
  have "map_of m k = None" if "fst p = k" using Cons.prems that by (auto simp: map_of_eq_None_iff)
  with Cons show ?case by (cases p) (auto split: option.splits)
qed simp

lemma map_of_map_diff:
  "scanon form \<Longrightarrow> map_of (map_diff form base) k =
     (case map_of form k of None \<Rightarrow> None
      | Some v \<Rightarrow> if map_of base k = Some v then None else Some v)"
  using map_of_filter_pred[OF scanon_distinct, of form "\<lambda>k v. map_of base k \<noteq> Some v"]
  by (auto simp: map_diff_def split: option.splits)

lemma map_of_live_options:
  "scanon m \<Longrightarrow> map_of (live_options m) k =
     (case map_of m k of None \<Rightarrow> None | Some v \<Rightarrow> if v = JNull then None else Some v)"
  using map_of_filter_pred[OF scanon_distinct, of m "\<lambda>k v. v \<noteq> JNull"]
  by (auto simp: live_options_def split: option.splits)

lemma scanon_map_diff [intro]: "scanon form \<Longrightarrow> scanon (map_diff form base)"
  by (auto simp: map_diff_def)

lemma scanon_live_options [intro]: "scanon m \<Longrightarrow> scanon (live_options m)"
  by (auto simp: live_options_def)

text \<open>One option of the result: a live override wins, anything else comes from the base.\<close>

lemma map_of_merged_options:
  "scanon patch \<Longrightarrow> map_of (sput_all (live_options patch) base) k =
     (case map_of patch k of
        Some v \<Rightarrow> if v = JNull then map_of base k else Some v
      | None \<Rightarrow> map_of base k)"
  by (auto simp: map_of_sput_all map_of_rev_scanon scanon_live_options map_of_live_options
      map_add_def split: option.splits)

lemma sput_all_absorb:
  assumes "scanon m" "scanon src" "\<And>k v. map_of src k = Some v \<Longrightarrow> map_of m k = Some v"
  shows "sput_all src m = m"
proof (rule scanon_ext)
  show "map_of (sput_all src m) = map_of m"
    using assms by (auto simp: map_of_sput_all map_of_rev_scanon map_add_def fun_eq_iff
        split: option.splits)
qed (use assms in auto)

definition wf_outbound :: "outbound_config \<Rightarrow> bool" where
  "wf_outbound oc \<longleftrightarrow>
     scanon (obj_of (oc_options oc)) \<and> scanon (obj_of (oc_filters oc)) \<and>
     scanon (obj_of (oc_preferred oc))"

subsection \<open>Decoding a diff\<close>

lemma map_of_if: "map_of (if c then x else y) k = (if c then map_of x k else map_of y k)"
  by simp

lemmas field_diff_lookup = map_of_if map_of_sput fun_upd_apply

lemma outbound_field_diff_lookup:
  "map_of (outbound_field_diff form base) k =
     (if k = ''comment'' \<and> oc_comment form \<noteq> oc_comment base then Some (JStr (oc_comment form))
      else if k = ''preferredDefault'' \<and> \<not> outbound_maps_equal (oc_preferred form) (oc_preferred base)
        then Some (JObj (obj_of (oc_preferred form)))
      else if k = ''addOutbounds'' \<and> oc_add form \<noteq> oc_add base then Some (JArr (map JStr (oc_add form)))
      else if k = ''options'' \<and> map_diff (obj_of (oc_options form)) (obj_of (oc_options base)) \<noteq> []
        then Some (JObj (map_diff (obj_of (oc_options form)) (obj_of (oc_options base))))
      else if k = ''filters'' \<and> \<not> outbound_maps_equal (oc_filters form) (oc_filters base)
        then Some (JObj (obj_of (oc_filters form)))
      else None)"
  by (simp add: outbound_field_diff_def Let_def field_diff_lookup)

lemma decode_outbound_field_diff:
  "decode_outbound (outbound_field_diff form base) =
     Some \<lparr>oc_tag = [], oc_type = [],
       oc_options = (if map_diff (obj_of (oc_options form)) (obj_of (oc_options base)) \<noteq> []
                     then Some (map_diff (obj_of (oc_options form)) (obj_of (oc_options base))) else None),
       oc_filters = (if outbound_maps_equal (oc_filters form) (oc_filters base) then None
                     else Some (obj_of (oc_filters form))),
       oc_add = (if oc_add form \<noteq> oc_add base then oc_add form else []),
       oc_preferred = (if outbound_maps_equal (oc_preferred form) (oc_preferred base) then None
                       else Some (obj_of (oc_preferred form))),
       oc_comment = (if oc_comment form \<noteq> oc_comment base then oc_comment form else []),
       oc_required = False, oc_ref = [], oc_updates = []\<rparr>"
  by (simp add: decode_outbound_def dec_str_def dec_bool_def dec_map_def dec_strs_def
      dec_updates_def outbound_field_diff_lookup)

lemma outbound_field_diff_Nil:
  "outbound_field_diff form base = [] \<longleftrightarrow>
     outbound_maps_equal (oc_filters form) (oc_filters base) \<and>
     map_diff (obj_of (oc_options form)) (obj_of (oc_options base)) = [] \<and>
     oc_add form = oc_add base \<and>
     outbound_maps_equal (oc_preferred form) (oc_preferred base) \<and>
     oc_comment form = oc_comment base"
  by (simp add: outbound_field_diff_def Let_def)

subsection \<open>Applying a patch\<close>

lemma dec_map_wf: "wf_obj m \<Longrightarrow> dec_map m k = Some r \<Longrightarrow> scanon (obj_of r)"
  by (auto simp: dec_map_def wf_json_JObj split: option.splits json.splits dest!: wf_obj_lookup
      simp del: wf_json.simps)

lemma decode_outbound_SomeD:
  "decode_outbound m = Some p \<Longrightarrow>
     dec_map m ''options'' = Some (oc_options p) \<and> dec_map m ''filters'' = Some (oc_filters p) \<and>
     dec_map m ''preferredDefault'' = Some (oc_preferred p)"
  by (auto simp: decode_outbound_def bind_eq_Some_conv)

lemma decode_outbound_wf: "wf_obj m \<Longrightarrow> decode_outbound m = Some p \<Longrightarrow> wf_outbound p"
  using decode_outbound_SomeD dec_map_wf unfolding wf_outbound_def by metis

lemma apply_outbound_update_fields [simp]:
  "oc_tag (apply_outbound_update t p) = oc_tag t"
  "oc_type (apply_outbound_update t p) = oc_type t"
  "oc_ref (apply_outbound_update t p) = oc_ref t"
  "oc_updates (apply_outbound_update t p) = oc_updates t"
  "oc_required (apply_outbound_update t p) = oc_required t"
  "oc_filters (apply_outbound_update t p) = (if oc_filters p \<noteq> None then oc_filters p else oc_filters t)"
  "oc_add (apply_outbound_update t p) =
     (if oc_add p \<noteq> [] then union_string_list (oc_add t) (oc_add p) else oc_add t)"
  "oc_options (apply_outbound_update t p) =
     (if obj_of (oc_options p) \<noteq> []
      then Some (sput_all (live_options (obj_of (oc_options p))) (obj_of (oc_options t)))
      else oc_options t)"
  "oc_preferred (apply_outbound_update t p) =
     (if oc_preferred p \<noteq> None then oc_preferred p else oc_preferred t)"
  "oc_comment (apply_outbound_update t p) = (if oc_comment p \<noteq> [] then oc_comment p else oc_comment t)"
  by (simp_all add: apply_outbound_update_def Let_def)

lemma apply_patch_frame [simp]:
  "oc_tag (apply_outbound_update_patch t p u) = oc_tag t"
  "oc_type (apply_outbound_update_patch t p u) = oc_type t"
  "oc_ref (apply_outbound_update_patch t p u) = oc_ref t"
  "oc_updates (apply_outbound_update_patch t p u) = oc_updates t"
  "oc_required (apply_outbound_update_patch t p u) = oc_required t"
  by (auto simp: apply_outbound_update_patch_def Let_def split: option.splits)

lemma apply_outbound_update_idem:
  assumes "wf_outbound t" "wf_outbound p"
  shows "apply_outbound_update (apply_outbound_update t p) p = apply_outbound_update t p"
proof -
  let ?po = "obj_of (oc_options p)" and ?to = "obj_of (oc_options t)"
  have w: "scanon ?po" "scanon ?to" using assms by (auto simp: wf_outbound_def)
  have "sput_all (live_options ?po) (sput_all (live_options ?po) ?to)
        = sput_all (live_options ?po) ?to"
    using w by (intro sput_all_absorb)
      (auto simp: map_of_merged_options map_of_live_options split: option.splits if_splits)
  moreover have "union_string_list (union_string_list (oc_add t) (oc_add p)) (oc_add p)
        = union_string_list (oc_add t) (oc_add p)"
    by (intro union_string_list_absorb) (auto simp: set_union_string_list distinct_union_string_list)
  ultimately show ?thesis
    by (intro outbound_config.equality) simp_all
qed

lemma wf_apply_outbound_update:
  "wf_outbound t \<Longrightarrow> wf_outbound p \<Longrightarrow> wf_outbound (apply_outbound_update t p)"
  by (auto simp: wf_outbound_def)

section \<open>The contract between the Edit dialog and the merge\<close>

text \<open>
  What saving an edit relies on: merging the diff of a form against a base gives a result that
  agrees with the form, and an empty diff is only computed when the base already agrees. The
  client is the patch stack: preset patches first, the user's diff last.
\<close>

locale edit_contract =
  fixes merge :: "'s \<Rightarrow> 'p \<Rightarrow> 's"
    and diff :: "'s \<Rightarrow> 's \<Rightarrow> 'p"
    and agrees :: "'s \<Rightarrow> 's \<Rightarrow> 's \<Rightarrow> bool"
    and ok :: "'s \<Rightarrow> 's \<Rightarrow> bool"
    and no_diff :: "'p \<Rightarrow> bool"
  assumes merge_diff: "ok form base \<Longrightarrow> agrees (merge base (diff form base)) form base"
    and no_diff_agrees: "ok form base \<Longrightarrow> no_diff (diff form base) \<Longrightarrow> agrees base form base"
begin

lemma save_then_resolve:
  fixes run :: "'u list \<Rightarrow> 's"
  assumes "ok form (run us)"
    and "\<And>p. run (us @ save p) = (if no_diff p then run us else merge (run us) p)"
  shows "agrees (run (us @ save (diff form (run us)))) form (run us)"
  using assms merge_diff no_diff_agrees by simp

end

text \<open>
  When a resolved entry shows a form edited over a base. Tag and type are the base's; every live
  option of the form is there, the base's other options stay. Two things of a form are not written
  into an entry: an option set to null, and an empty comment (see \<open>erased_comment_is_not_saved\<close>);
  there the base shows.
\<close>

definition shows_form :: "outbound_config \<Rightarrow> outbound_config \<Rightarrow> outbound_config \<Rightarrow> bool" where
  "shows_form r form base \<longleftrightarrow>
     oc_tag r = oc_tag base \<and> oc_type r = oc_type base \<and>
     outbound_maps_equal (oc_filters r) (oc_filters form) \<and>
     oc_add r = oc_add form \<and>
     outbound_maps_equal (oc_preferred r) (oc_preferred form) \<and>
     oc_comment r = (if oc_comment form = [] then oc_comment base else oc_comment form) \<and>
     map_of (obj_of (oc_options r)) =
       map_of (obj_of (oc_options base)) ++ map_of (live_options (obj_of (oc_options form)))"

lemma outbound_maps_equal_refl [simp]: "outbound_maps_equal a a"
  by (simp add: outbound_maps_equal_def)

lemma outbound_maps_equal_sym: "outbound_maps_equal a b = outbound_maps_equal b a"
  by (auto simp: outbound_maps_equal_def)

lemma outbound_maps_equal_obj_of [simp]: "outbound_maps_equal (Some (obj_of a)) a"
  by (cases a) (auto simp: outbound_maps_equal_def)

lemma merged_diff_options:
  assumes "scanon form"
  shows "map_of (sput_all (live_options (map_diff form base)) base) = map_of base ++ map_of (live_options form)"
proof
  fix k
  show "map_of (sput_all (live_options (map_diff form base)) base) k = (map_of base ++ map_of (live_options form)) k"
    using assms
    by (auto simp: map_of_merged_options scanon_map_diff map_of_map_diff map_of_live_options map_add_def
        split: option.splits)
qed

lemma map_diff_Nil:
  assumes "scanon form" "map_diff form base = []"
  shows "map_of base ++ map_of (live_options form) = map_of base"
proof
  fix k
  have "map_of (map_diff form base) k = None" using assms(2) by simp
  then show "(map_of base ++ map_of (live_options form)) k = map_of base k"
    using assms(1) by (auto simp: map_of_map_diff map_of_live_options map_add_def split: option.splits if_splits)
qed

lemma apply_field_diff_shows_form:
  assumes "wf_outbound form"
  shows "shows_form (apply_outbound_update_patch base (outbound_field_diff form base) True) form base"
proof (cases "outbound_field_diff form base = []")
  case True
  with assms show ?thesis
    by (auto simp: apply_outbound_update_patch_def shows_form_def outbound_field_diff_Nil
        wf_outbound_def map_diff_Nil outbound_maps_equal_sym)
next
  case False
  let ?fo = "obj_of (oc_options form)" and ?bo = "obj_of (oc_options base)"
  let ?r = "apply_outbound_update_patch base (outbound_field_diff form base) True"
  from assms have c: "scanon ?fo" by (simp add: wf_outbound_def)
  note unf = apply_outbound_update_patch_def decode_outbound_field_diff Let_def
    outbound_field_diff_lookup False
  have "outbound_maps_equal (oc_filters ?r) (oc_filters form)"
    "outbound_maps_equal (oc_preferred ?r) (oc_preferred form)"
    by (simp_all add: unf outbound_maps_equal_sym[of "oc_filters base" "oc_filters form"]
        outbound_maps_equal_sym[of "oc_preferred base" "oc_preferred form"])
  moreover have "oc_add ?r = oc_add form" by (simp add: unf)
  moreover have "oc_comment ?r = (if oc_comment form = [] then oc_comment base else oc_comment form)"
    by (simp add: unf)
  moreover have "map_of (obj_of (oc_options ?r)) = map_of ?bo ++ map_of (live_options ?fo)"
    using map_diff_Nil[OF c] merged_diff_options[OF c] by (simp add: unf)
  ultimately show ?thesis by (simp add: shows_form_def)
qed

interpretation edit: edit_contract
  "\<lambda>base p. apply_outbound_update_patch base p True" outbound_field_diff shows_form
  "\<lambda>form base. wf_outbound form" "\<lambda>p. p = []"
proof unfold_locales
  fix form base
  assume ok: "wf_outbound form" and "outbound_field_diff form base = []"
  with apply_field_diff_shows_form[OF ok, of base] show "shows_form base form base"
    by (simp add: apply_outbound_update_patch_def)
qed (rule apply_field_diff_shows_form)

lemma fold_updates_frame:
  "oc_tag (fold (\<lambda>u merged. apply_outbound_update_patch merged (ou_patch u) (f u)) us b) = oc_tag b"
  "oc_type (fold (\<lambda>u merged. apply_outbound_update_patch merged (ou_patch u) (f u)) us b) = oc_type b"
  "oc_ref (fold (\<lambda>u merged. apply_outbound_update_patch merged (ou_patch u) (f u)) us b) = oc_ref b"
  "oc_updates (fold (\<lambda>u merged. apply_outbound_update_patch merged (ou_patch u) (f u)) us b) = oc_updates b"
  by (induction us arbitrary: b) simp_all

lemma apply_updates_frame [simp]:
  "oc_tag (apply_updates_to_base b us) = oc_tag b"
  "oc_type (apply_updates_to_base b us) = oc_type b"
  "oc_ref (apply_updates_to_base b us) = oc_ref b"
  "oc_updates (apply_updates_to_base b us) = []"
  by (simp_all add: apply_updates_to_base_def fold_updates_frame)

lemma apply_updates_append_user:
  "apply_updates_to_base b (us @ (if p \<noteq> [] then [\<lparr>ou_ref = ref_user, ou_patch = p\<rparr>] else [])) =
     (if p = [] then apply_updates_to_base b us
      else apply_outbound_update_patch (apply_updates_to_base b us) p True)"
  by (simp add: apply_updates_to_base_def)

section \<open>Properties\<close>

text \<open>
  C7. Saving an edit and resolving the entry again shows the form: the user patch is the field
  diff against the entry resolved without it, it replaces any earlier user patch at the end of
  the stack, and the stack then resolves to the form's filters, tags and preferred default, to the
  form's comment unless that is empty, to the base's type and tag, and to the form's options other
  than null over the base's. An empty comment does not erase the base's, an option set to null or
  left out does not remove the base's. (\<open>wf_outbound\<close>: the maps of the form are lists
  sorted by key, which is how the model writes a Go map.)
\<close>

theorem save_edit_then_resolve_shows_form:
  assumes "wf_outbound form"
  shows "shows_form
      (apply_updates_to_base base
        (upsert_user_patch us
          (outbound_field_diff form (apply_updates_to_base base (filter (\<lambda>u. ou_ref u \<noteq> ref_user) us)))))
      form (apply_updates_to_base base (filter (\<lambda>u. ou_ref u \<noteq> ref_user) us))"
  unfolding upsert_user_patch_def
  by (rule edit.save_then_resolve[where run = "apply_updates_to_base base" and
        save = "\<lambda>p. if p \<noteq> [] then [\<lparr>ou_ref = ref_user, ou_patch = p\<rparr>] else []"])
     (use assms in \<open>simp_all add: apply_updates_append_user\<close>)

definition sample_outbound :: "string \<Rightarrow> string list \<Rightarrow> obj \<Rightarrow> string \<Rightarrow> outbound_config" where
  "sample_outbound tag add opts c =
     \<lparr>oc_tag = tag, oc_type = ''selector'', oc_options = Some opts, oc_filters = None, oc_add = add,
      oc_preferred = None, oc_comment = c, oc_required = False, oc_ref = ref_template, oc_updates = []\<rparr>"

theorem save_edit_then_resolve_shows_form_witness:
  "oc_add (apply_updates_to_base (sample_outbound ''p'' [''a'', ''b''] [] [])
     (upsert_user_patch []
       (outbound_field_diff (sample_outbound ''p'' [''b''] [(''interval'', JStr ''5m'')] ''note'')
         (sample_outbound ''p'' [''a'', ''b''] [] [])))) = [''b'']"
proof -
  let ?b = "sample_outbound ''p'' [''a'', ''b''] [] []"
  let ?f = "sample_outbound ''p'' [''b''] [(''interval'', JStr ''5m'')] ''note''"
  have e: "apply_updates_to_base ?b [] = ?b"
    by (simp add: apply_updates_to_base_def sample_outbound_def)
  have "wf_outbound ?f" by (simp add: wf_outbound_def sample_outbound_def)
  from save_edit_then_resolve_shows_form[OF this, of ?b "[]"] show ?thesis
    by (simp add: shows_form_def e) (simp add: sample_outbound_def)
qed

text \<open>
  Erasing a comment is lost: the diff writes the empty comment into the patch, but the merge
  applies a comment only when it is nonempty, so the base's comment shows again.
\<close>

theorem erased_comment_is_not_saved:
  assumes "oc_comment form = []"
  shows "oc_comment (apply_outbound_update_patch base (outbound_field_diff form base) True) = oc_comment base \<and>
    (oc_comment base \<noteq> [] \<longrightarrow> map_of (outbound_field_diff form base) ''comment'' = Some (JStr []))"
  using assms
  by (simp_all add: apply_outbound_update_patch_def decode_outbound_field_diff Let_def
      outbound_field_diff_lookup)

theorem erased_comment_is_not_saved_witness:
  "oc_comment (apply_outbound_update_patch (sample_outbound ''p'' [] [] ''old'')
      (outbound_field_diff (sample_outbound ''p'' [] [] []) (sample_outbound ''p'' [] [] ''old'')) True)
     = ''old''
   \<and> map_of (outbound_field_diff (sample_outbound ''p'' [] [] []) (sample_outbound ''p'' [] [] ''old''))
       ''comment'' = Some (JStr [])"
  using erased_comment_is_not_saved[of "sample_outbound ''p'' [] [] []" "sample_outbound ''p'' [] [] ''old''"]
  by (simp add: sample_outbound_def)

text \<open>
  Merging a preset's patch is idempotent: applying the same patch twice in a row is
  applying it once, whatever the patch holds (a patch that does not decode is a no-op).
\<close>

theorem preset_patch_idempotent:
  assumes "wf_outbound target" and "wf_obj patch"
  shows "apply_outbound_update_patch (apply_outbound_update_patch target patch False) patch False
         = apply_outbound_update_patch target patch False"
proof (cases "decode_outbound patch")
  case (Some p)
  with assms decode_outbound_wf have "wf_outbound p" by blast
  with Some assms show ?thesis
    by (simp add: apply_outbound_update_patch_def apply_outbound_update_idem)
qed (simp add: apply_outbound_update_patch_def)

theorem preset_patch_idempotent_witness:
  "oc_add (apply_outbound_update_patch
     (apply_outbound_update_patch (sample_outbound ''p'' [''a''] [] [])
        [(''addOutbounds'', JArr [JStr ''b'', JStr ''a''])] False)
     [(''addOutbounds'', JArr [JStr ''b'', JStr ''a''])] False) = [''a'', ''b'']"
proof -
  have w: "wf_outbound (sample_outbound ''p'' [''a''] [] [])" "wf_obj [(''addOutbounds'', JArr [JStr ''b'', JStr ''a''])]"
    by (simp_all add: wf_outbound_def sample_outbound_def wf_obj_iff)
  show ?thesis unfolding preset_patch_idempotent[OF w] by code_simp
qed

text \<open>
  The user patch slot: after an upsert the stack holds the other patches unchanged and in
  order, at most one user patch, which is last and holds the new diff, and a later upsert
  replaces it; an empty diff removes it.
\<close>

theorem upsert_user_patch_correct:
  "filter (\<lambda>u. ou_ref u \<noteq> ref_user) (upsert_user_patch us p) = filter (\<lambda>u. ou_ref u \<noteq> ref_user) us \<and>
   filter (\<lambda>u. ou_ref u = ref_user) (upsert_user_patch us p) =
     (if p = [] then [] else [last (upsert_user_patch us p)]) \<and>
   upsert_user_patch (upsert_user_patch us p) q = upsert_user_patch us q"
  by (simp add: upsert_user_patch_def)

end
