(* ===== verification/PresetExpand.thy ===== *)
theory PresetExpand
  imports Outbounds
begin

text \<open>
  Presets and their expansion: the data of \<open>core/template/preset_types.go\<close>,
  \<open>core/build/preset_expand.go\<close>, \<open>ExpandPresetOutbounds\<close> of
  \<open>core/build/preset_outbounds.go\<close>, and \<open>internal/outboundutil/outbound.go\<close>. A typed preset
  fragment is encoded to its JSON object as its struct tags say, substituted strictly, and the
  result is post-processed. A warning keeps what its message names instead of the formatted text.
\<close>

section \<open>Data\<close>

record preset_var =
  pv_name :: string
  pv_type :: string
  pv_default :: string
  pv_title :: string
  pv_tooltip :: string
  pv_options :: json
  pv_select :: string
  pv_if :: "string list"
  pv_if_or :: "string list"

record preset_rule_set =
  rs_tag :: string
  rs_type :: string
  rs_format :: string
  rs_rules :: "obj list"
  rs_url :: string
  rs_if :: "string list"
  rs_if_or :: "string list"

record preset_dns_server =
  ds_tag :: string
  ds_type :: string
  ds_server :: string
  ds_server_port :: int
  ds_path :: string
  ds_tls :: obj
  ds_detour :: string
  ds_title :: string
  ds_description :: string
  ds_inet4 :: string
  ds_inet6 :: string
  ds_if :: "string list"
  ds_if_or :: "string list"

record preset_outbound =
  po_mode :: string
  po_tag :: string
  po_type :: string
  po_options :: obj
  po_filters :: obj
  po_add :: "string list"
  po_preferred :: obj
  po_comment :: string
  po_wizard :: json
  po_if :: "string list"
  po_if_or :: "string list"

record preset =
  p_id :: string
  p_label :: string
  p_description :: string
  p_default_enabled :: bool
  p_platforms :: "string list"
  p_vars :: "preset_var list"
  p_rule_set :: "preset_rule_set list"
  p_dns_servers :: "preset_dns_server list"
  p_rules :: "obj list"
  p_dns_rule :: "obj option"
  p_dns_rules :: "obj list"
  p_outbounds :: "preset_outbound list"

definition display_label :: "preset \<Rightarrow> string" where
  "display_label p = (if p_label p \<noteq> [] then p_label p else p_id p)"

section \<open>Encoding fragments, \<open>json.Marshal\<close> with \<open>omitempty\<close>\<close>

definition put_str :: "string \<Rightarrow> string \<Rightarrow> obj \<Rightarrow> obj" where
  "put_str k s m = (if s = [] then m else sput k (JStr s) m)"

definition put_strs :: "string \<Rightarrow> string list \<Rightarrow> obj \<Rightarrow> obj" where
  "put_strs k ss m = (if ss = [] then m else sput k (JArr (map JStr ss)) m)"

definition put_map :: "string \<Rightarrow> obj \<Rightarrow> obj \<Rightarrow> obj" where
  "put_map k v m = (if v = [] then m else sput k (JObj v) m)"

definition encode_rule_set :: "preset_rule_set \<Rightarrow> obj" where
  "encode_rule_set r =
     (sput ''tag'' (JStr (rs_tag r)) \<circ> sput ''type'' (JStr (rs_type r)) \<circ>
      put_str ''format'' (rs_format r) \<circ>
      (\<lambda>m. if rs_rules r = [] then m else sput ''rules'' (JArr (map JObj (rs_rules r))) m) \<circ>
      put_str ''url'' (rs_url r) \<circ> put_strs ''if'' (rs_if r) \<circ> put_strs ''if_or'' (rs_if_or r)) []"

definition encode_dns_server :: "preset_dns_server \<Rightarrow> obj" where
  "encode_dns_server d =
     (sput ''tag'' (JStr (ds_tag d)) \<circ> sput ''type'' (JStr (ds_type d)) \<circ>
      sput ''server'' (JStr (ds_server d)) \<circ>
      (\<lambda>m. if ds_server_port d = 0 then m else sput ''server_port'' (JNum (ds_server_port d)) m) \<circ>
      put_str ''path'' (ds_path d) \<circ> put_map ''tls'' (ds_tls d) \<circ>
      put_str ''detour'' (ds_detour d) \<circ> put_str ''title'' (ds_title d) \<circ>
      put_str ''description'' (ds_description d) \<circ> put_str ''inet4_range'' (ds_inet4 d) \<circ>
      put_str ''inet6_range'' (ds_inet6 d) \<circ>
      put_strs ''if'' (ds_if d) \<circ> put_strs ''if_or'' (ds_if_or d)) []"

definition encode_preset_outbound :: "preset_outbound \<Rightarrow> obj" where
  "encode_preset_outbound ob =
     (put_str ''mode'' (po_mode ob) \<circ> sput ''tag'' (JStr (po_tag ob)) \<circ>
      put_str ''type'' (po_type ob) \<circ> put_map ''options'' (po_options ob) \<circ>
      put_map ''filters'' (po_filters ob) \<circ> put_strs ''addOutbounds'' (po_add ob) \<circ>
      put_map ''preferredDefault'' (po_preferred ob) \<circ> put_str ''comment'' (po_comment ob) \<circ>
      (\<lambda>m. if po_wizard ob = JNull then m else sput ''wizard'' (po_wizard ob) m) \<circ>
      put_strs ''if'' (po_if ob) \<circ> put_strs ''if_or'' (po_if_or ob)) []"

section \<open>Outbound sentinels\<close>

definition apply_outbound_to_rule :: "obj \<Rightarrow> string \<Rightarrow> obj" where
  "apply_outbound_to_rule rule outbound =
     (if outbound = ''reject'' then
        sdel ''method'' (sput ''action'' (JStr ''reject'') (sdel ''outbound'' rule))
      else if outbound = ''drop'' then
        sput ''method'' (JStr ''drop'') (sput ''action'' (JStr ''reject'') (sdel ''outbound'' rule))
      else if outbound \<noteq> [] then
        sdel ''method'' (sdel ''action'' (sput ''outbound'' (JStr outbound) rule))
      else rule)"

section \<open>Variables of a preset\<close>

definition vars_map :: "preset_var list \<Rightarrow> (string \<rightharpoonup> string) \<Rightarrow> string \<rightharpoonup> string" where
  "vars_map vars user =
     fold (\<lambda>v m. m(pv_name v \<mapsto>
        (case user (pv_name v) of
           Some u \<Rightarrow> if u \<noteq> [] then u else pv_default v
         | None \<Rightarrow> pv_default v))) vars Map.empty"

definition filter_active_vars :: "preset_var list \<Rightarrow> (string \<rightharpoonup> string) \<Rightarrow> string list" where
  "filter_active_vars vars vm =
     map pv_name (filter (\<lambda>v. eval_if (pv_if v) (pv_if_or v) vm) vars)"

definition active_vars_map :: "preset_var list \<Rightarrow> (string \<rightharpoonup> string) \<Rightarrow> string \<rightharpoonup> string" where
  "active_vars_map vars user =
     (let vm = vars_map vars user; act = filter_active_vars vars vm
      in (\<lambda>n. if n \<in> set act then vm n else None))"

definition split_text_list :: "string \<Rightarrow> string list" where
  "split_text_list scalar =
     (let s = trim_space scalar in
      if s = [] then [] else filter (\<lambda>t. t \<noteq> []) (map trim_space (split_char (CHR '','') s)))"

definition preset_vars_to_template_vars :: "preset_var list \<Rightarrow> template_var list" where
  "preset_vars_to_template_vars vars =
     map (\<lambda>v. \<lparr>tv_separator = False, tv_name = pv_name v, tv_type = pv_type v,
               default_value = \<lparr>vd_scalar = [], per_platform = []\<rparr>, default_node = [],
               tv_options = [], option_titles = [], wizard_ui = [], platforms = [],
               tv_title = [], tooltip = [], tv_if = pv_if v, tv_if_or = pv_if_or v\<rparr>) vars"

definition vars_map_to_resolved ::
  "(string \<rightharpoonup> string) \<Rightarrow> preset_var list \<Rightarrow> string \<rightharpoonup> resolved_var" where
  "vars_map_to_resolved vm vars name =
     (case vm name of
        None \<Rightarrow> None
      | Some scalar \<Rightarrow>
          Some \<lparr>rv_scalar = scalar,
                rv_list = (if map_of (rev (map (\<lambda>v. (pv_name v, pv_type v)) vars)) name = Some ''text_list''
                           then Some (split_text_list scalar) else None)\<rparr>)"

text \<open>What every fragment of one expansion shares: the preset, its active variables, the target.\<close>

record exp_ctx =
  ec_preset :: preset
  ec_vm :: "string \<rightharpoonup> string"
  ec_target :: target_spec
  ec_re :: "string \<Rightarrow> string \<Rightarrow> bool option"

definition substitute_preset_body :: "exp_ctx \<Rightarrow> json \<Rightarrow> json option" where
  "substitute_preset_body C raw =
     (case substitute_vars_in_json_strict (preset_vars_to_template_vars (p_vars (ec_preset C)))
             (vars_map_to_resolved (ec_vm C) (p_vars (ec_preset C))) (ec_target C) (ec_re C) raw of
        Inl _ \<Rightarrow> None
      | Inr (out, _) \<Rightarrow> Some out)"

section \<open>Rule clean-up\<close>

definition prefix_tag :: "preset \<Rightarrow> string \<Rightarrow> string" where
  "prefix_tag p t = p_id p @ '':'' @ t"

definition extract_if :: "obj \<Rightarrow> string \<Rightarrow> string list" where
  "extract_if m k = str_elems (arr_field m k)"

definition rewrite_rule_set_refs :: "obj \<Rightarrow> preset \<Rightarrow> string list \<Rightarrow> obj" where
  "rewrite_rule_set_refs m p valid =
     (case map_of m ''rule_set'' of
        Some (JStr v) \<Rightarrow>
          (if v = [] then m
           else if v \<in> set valid then sput ''rule_set'' (JStr (prefix_tag p v)) m
           else sdel ''rule_set'' m)
      | Some (JArr vs) \<Rightarrow>
          (let out = map (\<lambda>s. JStr (prefix_tag p s))
                       (filter (\<lambda>s. s \<noteq> [] \<and> s \<in> set valid) (str_elems vs))
           in if out \<noteq> [] then sput ''rule_set'' (JArr out) m else sdel ''rule_set'' m)
      | _ \<Rightarrow> m)"

definition non_match_key :: "string \<Rightarrow> bool" where
  "non_match_key k \<longleftrightarrow>
     k = ''outbound'' \<or> k = ''action'' \<or> k = ''method'' \<or> k = ''if'' \<or> k = ''if_or''"

definition is_rule_empty :: "obj \<Rightarrow> bool" where
  "is_rule_empty m \<longleftrightarrow> list_all (\<lambda>p. non_match_key (fst p)) m"

definition is_dns_rule_empty :: "obj \<Rightarrow> bool" where
  "is_dns_rule_empty m \<longleftrightarrow>
     map_of m ''action'' = None \<and> map_of m ''query_type'' = None \<and>
     (map_of m ''server'' = None \<or>
      list_all (\<lambda>p. fst p = ''server'' \<or> fst p = ''if'' \<or> fst p = ''if_or'') m)"

section \<open>\<open>ExpandPreset\<close>\<close>

datatype expand_warning =
    UnresolvedRuleSet string
  | UnresolvedRule nat
  | RuleDropped nat
  | UnresolvedDNSRule
  | UnresolvedDNSServer string
  | UnresolvedOutbound nat string
  | UndecodableOutbound nat string

record preset_fragments =
  pf_rule_sets :: "obj list"
  pf_routing_rules :: "obj list"
  pf_dns_rule :: "obj option"
  pf_dns_rules :: "obj list"
  pf_dns_servers :: "obj list"

text \<open>Step 3: rule sets, with the local tags emitted. \<open>Inl\<close> abandons the preset.\<close>

fun expand_rule_sets ::
  "exp_ctx \<Rightarrow> preset_rule_set list \<Rightarrow> expand_warning + (obj list \<times> string list)" where
  "expand_rule_sets C [] = Inr ([], [])"
| "expand_rule_sets C (rs # rest) =
     (if \<not> eval_if (rs_if rs) (rs_if_or rs) (ec_vm C) then expand_rule_sets C rest
      else
        (case substitute_preset_body C (JObj (encode_rule_set rs)) of
           None \<Rightarrow> Inl (UnresolvedRuleSet (rs_tag rs))
         | Some (JObj m) \<Rightarrow>
             (let m = sdel ''if_or'' (sdel ''if'' m);
                  local_tag = str_field m ''tag'';
                  m = sput ''tag'' (JStr (prefix_tag (ec_preset C) local_tag)) m
              in case expand_rule_sets C rest of
                   Inl w \<Rightarrow> Inl w
                 | Inr (ms, tags) \<Rightarrow> Inr (m # ms, local_tag # tags))
         | Some _ \<Rightarrow> expand_rule_sets C rest))"

text \<open>Step 4: one routing rule after substitution; \<open>None\<close> when nothing is left to match.\<close>

definition finish_rule :: "exp_ctx \<Rightarrow> string list \<Rightarrow> obj \<Rightarrow> obj option" where
  "finish_rule C emitted m =
     (let m = sdel ''if_or'' (sdel ''if'' m);
          m = rewrite_rule_set_refs m (ec_preset C) emitted;
          m = (case map_of m ''outbound'' of
                 Some (JStr o') \<Rightarrow> apply_outbound_to_rule m o' | _ \<Rightarrow> m)
      in if is_rule_empty m then None else Some m)"

fun expand_rules ::
  "exp_ctx \<Rightarrow> string list \<Rightarrow> nat \<Rightarrow> obj list \<Rightarrow>
   (expand_warning list + (obj list \<times> expand_warning list))" where
  "expand_rules C emitted idx [] = Inr ([], [])"
| "expand_rules C emitted idx (r # rest) =
     (if \<not> eval_if (extract_if r ''if'') (extract_if r ''if_or'') (ec_vm C)
      then expand_rules C emitted (Suc idx) rest
      else
        (case substitute_preset_body C (JObj r) of
           None \<Rightarrow> Inl [UnresolvedRule idx]
         | Some (JObj m) \<Rightarrow>
             (case (finish_rule C emitted m, expand_rules C emitted (Suc idx) rest) of
                (Some m', Inr (ms, ws)) \<Rightarrow> Inr (m' # ms, ws)
              | (None, Inr (ms, ws)) \<Rightarrow> Inr (ms, RuleDropped idx # ws)
              | (Some _, Inl ws) \<Rightarrow> Inl ws
              | (None, Inl ws) \<Rightarrow> Inl (RuleDropped idx # ws))
         | Some _ \<Rightarrow> expand_rules C emitted (Suc idx) rest))"

text \<open>Step 5: DNS rules. \<open>Inl\<close> is fatal, \<open>Inr None\<close> a rule gated off or empty.\<close>

definition expand_one_preset_dns_rule ::
  "exp_ctx \<Rightarrow> string list \<Rightarrow> obj \<Rightarrow> expand_warning + obj option" where
  "expand_one_preset_dns_rule C emitted src =
     (if \<not> eval_if (extract_if src ''if'') (extract_if src ''if_or'') (ec_vm C) then Inr None
      else
        (case substitute_preset_body C (JObj src) of
           None \<Rightarrow> Inl UnresolvedDNSRule
         | Some out \<Rightarrow>
             (let m = (case out of JObj m \<Rightarrow> m | _ \<Rightarrow> []);
                  m = sdel ''if_or'' (sdel ''if'' m);
                  m = rewrite_rule_set_refs m (ec_preset C) emitted;
                  srv = str_field m ''server'';
                  m = (if srv \<noteq> [] \<and> \<not> prefix ''@'' srv \<and>
                          srv \<in> set (map ds_tag (p_dns_servers (ec_preset C)))
                       then sput ''server'' (JStr (prefix_tag (ec_preset C) srv)) m else m)
              in if is_dns_rule_empty m then Inr None else Inr (Some m))))"

fun expand_dns_rules ::
  "exp_ctx \<Rightarrow> string list \<Rightarrow> obj list \<Rightarrow> expand_warning + obj list" where
  "expand_dns_rules C emitted [] = Inr []"
| "expand_dns_rules C emitted (r # rest) =
     (case expand_one_preset_dns_rule C emitted r of
        Inl w \<Rightarrow> Inl w
      | Inr m \<Rightarrow>
          (case expand_dns_rules C emitted rest of
             Inl w \<Rightarrow> Inl w
           | Inr ms \<Rightarrow> Inr ((case m of Some x \<Rightarrow> [x] | None \<Rightarrow> []) @ ms)))"

text \<open>Step 6: bundled DNS servers.\<close>

definition finish_dns_server :: "exp_ctx \<Rightarrow> obj \<Rightarrow> obj" where
  "finish_dns_server C m =
     (let m = sdel ''title'' (sdel ''if_or'' (sdel ''if'' m));
          m = (if str_field m ''detour'' = ''direct-out'' then sdel ''detour'' m else m)
      in sput ''tag'' (JStr (prefix_tag (ec_preset C) (str_field m ''tag''))) m)"

fun expand_dns_servers ::
  "exp_ctx \<Rightarrow> preset_dns_server list \<Rightarrow> expand_warning + obj list" where
  "expand_dns_servers C [] = Inr []"
| "expand_dns_servers C (d # rest) =
     (if \<not> eval_if (ds_if d) (ds_if_or d) (ec_vm C) then expand_dns_servers C rest
      else
        (case substitute_preset_body C (JObj (encode_dns_server d)) of
           None \<Rightarrow> Inl (UnresolvedDNSServer (ds_tag d))
         | Some out \<Rightarrow>
             (case expand_dns_servers C rest of
                Inl w \<Rightarrow> Inl w
              | Inr ms \<Rightarrow> Inr (finish_dns_server C (case out of JObj m \<Rightarrow> m | _ \<Rightarrow> []) # ms))))"

definition preset_ctx ::
  "preset \<Rightarrow> (string \<rightharpoonup> string) \<Rightarrow> target_spec \<Rightarrow> (string \<Rightarrow> string \<Rightarrow> bool option) \<Rightarrow> exp_ctx" where
  "preset_ctx p user t re =
     \<lparr>ec_preset = p, ec_vm = active_vars_map (p_vars p) user, ec_target = t, ec_re = re\<rparr>"

text \<open>\<open>ExpandPreset\<close>: \<open>Inl\<close> is \<open>ok = false\<close>, with the warnings that led to it.\<close>

definition expand_preset ::
  "preset \<Rightarrow> (string \<rightharpoonup> string) \<Rightarrow> target_spec \<Rightarrow> (string \<Rightarrow> string \<Rightarrow> bool option) \<Rightarrow>
   expand_warning list + (preset_fragments \<times> expand_warning list)" where
  "expand_preset p user t re =
     (let C = preset_ctx p user t re in
      case expand_rule_sets C (p_rule_set p) of
        Inl w \<Rightarrow> Inl [w]
      | Inr (rss, emitted) \<Rightarrow>
          (case expand_rules C emitted 0 (p_rules p) of
             Inl ws \<Rightarrow> Inl ws
           | Inr (rules, ws) \<Rightarrow>
               (case (case p_dns_rule p of
                        None \<Rightarrow> Inr None
                      | Some r \<Rightarrow> expand_one_preset_dns_rule C emitted r) of
                  Inl w \<Rightarrow> Inl (ws @ [w])
                | Inr dr \<Rightarrow>
                    (case expand_dns_rules C emitted (p_dns_rules p) of
                       Inl w \<Rightarrow> Inl (ws @ [w])
                     | Inr drs \<Rightarrow>
                         (case expand_dns_servers C (p_dns_servers p) of
                            Inl w \<Rightarrow> Inl (ws @ [w])
                          | Inr srvs \<Rightarrow>
                              Inr (\<lparr>pf_rule_sets = rss, pf_routing_rules = rules, pf_dns_rule = dr,
                                    pf_dns_rules = drs, pf_dns_servers = srvs\<rparr>, ws))))))"

section \<open>\<open>ExpandPresetOutbounds\<close>\<close>

record outbound_entry =
  oe_mode :: string
  oe_config :: outbound_config

fun expand_outbounds ::
  "exp_ctx \<Rightarrow> nat \<Rightarrow> preset_outbound list \<Rightarrow> outbound_entry list \<times> expand_warning list" where
  "expand_outbounds C i [] = ([], [])"
| "expand_outbounds C i (ob # rest) =
     (let (es, ws) = expand_outbounds C (Suc i) rest in
      if \<not> eval_if (po_if ob) (po_if_or ob) (ec_vm C) then (es, ws)
      else
        (case substitute_preset_body C (JObj (encode_preset_outbound ob)) of
           None \<Rightarrow> (es, UnresolvedOutbound i (po_tag ob) # ws)
         | Some (JObj m) \<Rightarrow>
             (case decode_outbound (sdel ''if_or'' (sdel ''if'' (sdel ''mode'' m))) of
                None \<Rightarrow> (es, UndecodableOutbound i (po_tag ob) # ws)
              | Some oc \<Rightarrow>
                  (\<lparr>oe_mode = (if po_mode ob = [] then ''add'' else po_mode ob), oe_config = oc\<rparr> # es, ws))
         | Some _ \<Rightarrow> (es, ws)))"

definition expand_preset_outbounds ::
  "preset \<Rightarrow> (string \<rightharpoonup> string) \<Rightarrow> target_spec \<Rightarrow> (string \<Rightarrow> string \<Rightarrow> bool option) \<Rightarrow>
   outbound_entry list \<times> expand_warning list" where
  "expand_preset_outbounds p user t re = expand_outbounds (preset_ctx p user t re) 0 (p_outbounds p)"

section \<open>Lemmas\<close>

text \<open>What a rule refers to, and where references may go.\<close>

definition rule_set_refs :: "obj \<Rightarrow> string list" where
  "rule_set_refs m =
     (case map_of m ''rule_set'' of
        Some (JStr v) \<Rightarrow> (if v = [] then [] else [v])
      | Some (JArr vs) \<Rightarrow> str_elems vs
      | _ \<Rightarrow> [])"

lemma rule_set_refs_put:
  "rule_set_refs (sput ''rule_set'' (JStr v) m) = (if v = [] then [] else [v])"
  "rule_set_refs (sput ''rule_set'' (JArr vs) m) = str_elems vs"
  "rule_set_refs (sdel ''rule_set'' m) = []"
  by (simp_all add: rule_set_refs_def)

lemma rule_set_refs_frame: "k \<noteq> ''rule_set'' \<Longrightarrow> rule_set_refs (sput k v m) = rule_set_refs m"
  by (simp add: rule_set_refs_def)

lemma rule_set_refs_rewrite:
  "set (rule_set_refs (rewrite_rule_set_refs m p valid)) \<subseteq> prefix_tag p ` set valid"
proof (cases "map_of m ''rule_set''")
  case None
  then show ?thesis by (simp add: rewrite_rule_set_refs_def rule_set_refs_def)
next
  case (Some j)
  show ?thesis
  proof (cases j)
    case (JStr v)
    then show ?thesis
      using Some
      by (auto simp: rewrite_rule_set_refs_def rule_set_refs_put rule_set_refs_def[of m])
  next
    case (JArr vs)
    then show ?thesis using Some
      by (auto simp: rewrite_rule_set_refs_def rule_set_refs_put Let_def)
  qed (use Some in \<open>simp_all add: rewrite_rule_set_refs_def rule_set_refs_def\<close>)
qed

lemma map_of_rewrite: "k \<noteq> ''rule_set'' \<Longrightarrow> map_of (rewrite_rule_set_refs m p valid) k = map_of m k"
  by (simp add: rewrite_rule_set_refs_def Let_def split: option.split json.split)

lemma map_of_apply_outbound:
  "k \<noteq> ''outbound'' \<Longrightarrow> k \<noteq> ''action'' \<Longrightarrow> k \<noteq> ''method'' \<Longrightarrow>
   map_of (apply_outbound_to_rule m o') k = map_of m k"
  by (simp add: apply_outbound_to_rule_def)

lemma rule_set_refs_apply [simp]: "rule_set_refs (apply_outbound_to_rule m o') = rule_set_refs m"
  by (simp add: rule_set_refs_def map_of_apply_outbound)

text \<open>Control keys: none are left by the substitution, and no clean-up step brings one in.\<close>

definition no_ctrl :: "obj \<Rightarrow> bool" where
  "no_ctrl m \<longleftrightarrow> ctrl_keys (JObj m) = 0"

lemma no_ctrl_iff: "no_ctrl m \<longleftrightarrow> (\<forall>p \<in> set m. \<not> is_ctrl (fst p) \<and> ctrl_keys (snd p) = 0)"
  by (simp add: no_ctrl_def ctrl_keys_JObj_zero)

lemma no_ctrl_sdel [intro]: "no_ctrl m \<Longrightarrow> no_ctrl (sdel k m)"
  by (auto simp: no_ctrl_iff set_sdel)

lemma no_ctrl_sput [intro]: "no_ctrl m \<Longrightarrow> \<not> is_ctrl k \<Longrightarrow> ctrl_keys v = 0 \<Longrightarrow> no_ctrl (sput k v m)"
  using set_sput_subset[of k v m] by (auto simp: no_ctrl_iff)

lemma is_ctrl_consts [simp]:
  "\<not> is_ctrl ''rule_set''" "\<not> is_ctrl ''action''" "\<not> is_ctrl ''method''" "\<not> is_ctrl ''outbound''"
  "\<not> is_ctrl ''tag''" "\<not> is_ctrl ''server''"
  by (simp_all add: is_ctrl_def)

lemma no_ctrl_rewrite [intro]: "no_ctrl m \<Longrightarrow> no_ctrl (rewrite_rule_set_refs m p valid)"
  by (auto simp: rewrite_rule_set_refs_def Let_def ctrl_keys_JArr_zero
      intro!: no_ctrl_sdel no_ctrl_sput split: option.split json.split)

lemma no_ctrl_apply [intro]: "no_ctrl m \<Longrightarrow> no_ctrl (apply_outbound_to_rule m o')"
  by (auto simp: apply_outbound_to_rule_def intro!: no_ctrl_sdel no_ctrl_sput)

text \<open>The substitution of an object is an object without control keys.\<close>

lemma substitute_preset_body_obj:
  assumes "substitute_preset_body C (JObj r) = Some out"
  obtains m where "out = JObj m" "no_ctrl m"
proof -
  obtain E where "out = walk_val E (JObj r)"
    using assms
    by (auto simp: substitute_preset_body_def substitute_vars_in_json_strict_def
        substitute_internal_eq Let_def split: sum.splits if_splits)
  then show ?thesis
    using that ctrl_keys_walk_val[of E "JObj r"] by (simp add: walk_obj no_ctrl_def)
qed

text \<open>The loops, fragment by fragment.\<close>

lemma expand_rule_sets_spec:
  assumes "expand_rule_sets C rss = Inr (ms, tags)"
  shows "map (\<lambda>m. str_field m ''tag'') ms = map (prefix_tag (ec_preset C)) tags \<and> list_all no_ctrl ms"
  using assms
proof (induction rss arbitrary: ms tags)
  case (Cons rs rss)
  show ?case
  proof (cases "eval_if (rs_if rs) (rs_if_or rs) (ec_vm C)")
    case True
    then obtain out where o: "substitute_preset_body C (JObj (encode_rule_set rs)) = Some out"
      using Cons.prems by (auto split: option.splits)
    then obtain m where m: "out = JObj m" "no_ctrl m" by (rule substitute_preset_body_obj)
    from True o m Cons.prems obtain ms' tags' where r: "expand_rule_sets C rss = Inr (ms', tags')"
      and e: "ms = sput ''tag'' (JStr (prefix_tag (ec_preset C) (str_field (sdel ''if_or'' (sdel ''if'' m)) ''tag'')))
                 (sdel ''if_or'' (sdel ''if'' m)) # ms'"
        "tags = str_field (sdel ''if_or'' (sdel ''if'' m)) ''tag'' # tags'"
      by (auto simp: Let_def split: sum.splits)
    from Cons.IH[OF r] e m show ?thesis
      by (auto simp: str_field_def intro!: no_ctrl_sdel no_ctrl_sput)
  next
    case False
    with Cons.prems Cons.IH[of ms tags] show ?thesis by simp
  qed
qed simp

definition rule_ok :: "preset \<Rightarrow> string list \<Rightarrow> obj \<Rightarrow> bool" where
  "rule_ok p emitted m \<longleftrightarrow>
     set (rule_set_refs m) \<subseteq> prefix_tag p ` set emitted \<and> no_ctrl m \<and>
     map_of m ''if'' = None \<and> map_of m ''if_or'' = None"

lemma finish_rule_ok:
  assumes "finish_rule C emitted m0 = Some m" "no_ctrl m0"
  shows "rule_ok (ec_preset C) emitted m \<and> \<not> is_rule_empty m \<and>
    map_of m ''outbound'' \<notin> {Some (JStr ''reject''), Some (JStr ''drop'')} \<and>
    (str_field m ''outbound'' \<noteq> [] \<longrightarrow> map_of m ''action'' = None \<and> map_of m ''method'' = None)"
proof -
  define r where "r = rewrite_rule_set_refs (sdel ''if_or'' (sdel ''if'' m0)) (ec_preset C) emitted"
  have r: "rule_ok (ec_preset C) emitted r"
    using rule_set_refs_rewrite assms(2)
    by (auto simp: rule_ok_def r_def map_of_rewrite no_ctrl_rewrite no_ctrl_sdel)
  have m: "m = (case map_of r ''outbound'' of Some (JStr o') \<Rightarrow> apply_outbound_to_rule r o' | _ \<Rightarrow> r)"
    and ne: "\<not> is_rule_empty m"
    using assms(1) unfolding finish_rule_def Let_def r_def[symmetric] by (metis option.distinct(1) option.inject)+
  show ?thesis
  proof (cases "\<exists>o'. map_of r ''outbound'' = Some (JStr o')")
    case True
    then obtain o' where o: "map_of r ''outbound'' = Some (JStr o')" by blast
    then have "m = apply_outbound_to_rule r o'" using m by simp
    with r o ne show ?thesis
      by (auto simp: rule_ok_def map_of_apply_outbound no_ctrl_apply)
        (auto simp: apply_outbound_to_rule_def str_field_def split: if_splits)
  next
    case False
    then have "m = r" using m by (auto split: option.splits json.splits)
    with False r ne show ?thesis by (auto simp: str_field_def split: option.split json.split)
  qed
qed

lemma expand_rules_spec:
  assumes "expand_rules C emitted idx rs = Inr (ms, ws)"
  shows "(\<forall>m \<in> set ms. \<exists>m0. no_ctrl m0 \<and> finish_rule C emitted m0 = Some m) \<and>
    length ms + length ws =
      length (filter (\<lambda>r. eval_if (extract_if r ''if'') (extract_if r ''if_or'') (ec_vm C)) rs)"
  using assms
proof (induction rs arbitrary: idx ms ws)
  case (Cons r rs)
  show ?case
  proof (cases "eval_if (extract_if r ''if'') (extract_if r ''if_or'') (ec_vm C)")
    case True
    then obtain out where o: "substitute_preset_body C (JObj r) = Some out"
      using Cons.prems by (auto split: option.splits)
    then obtain m where m: "out = JObj m" "no_ctrl m" by (rule substitute_preset_body_obj)
    from True o m Cons.prems obtain ms' ws' where r: "expand_rules C emitted (Suc idx) rs = Inr (ms', ws')"
      and e: "(case finish_rule C emitted m of Some m' \<Rightarrow> ms = m' # ms' \<and> ws = ws'
              | None \<Rightarrow> ms = ms' \<and> ws = RuleDropped idx # ws')"
      by (auto split: sum.splits option.splits)
    from Cons.IH[OF r] e m True show ?thesis
      by (auto split: option.splits)
  next
    case False
    with Cons.prems Cons.IH[of "Suc idx" ms ws] show ?thesis by simp
  qed
qed simp

lemma expand_one_dns_ok:
  assumes "expand_one_preset_dns_rule C emitted src = Inr (Some m)"
  shows "rule_ok (ec_preset C) emitted m \<and> \<not> is_dns_rule_empty m"
proof -
  obtain out where o: "substitute_preset_body C (JObj src) = Some out"
    using assms by (auto simp: expand_one_preset_dns_rule_def split: if_splits option.splits)
  then obtain m0 where m0: "out = JObj m0" "no_ctrl m0" by (rule substitute_preset_body_obj)
  define r where "r = rewrite_rule_set_refs (sdel ''if_or'' (sdel ''if'' m0)) (ec_preset C) emitted"
  have r: "rule_ok (ec_preset C) emitted r"
    using rule_set_refs_rewrite m0(2)
    by (auto simp: rule_ok_def r_def map_of_rewrite no_ctrl_rewrite no_ctrl_sdel)
  have "m = r \<or> (\<exists>v. m = sput ''server'' (JStr v) r)" and ne: "\<not> is_dns_rule_empty m"
    using assms o m0 by (auto simp: expand_one_preset_dns_rule_def Let_def r_def split: if_splits)
  then have "rule_ok (ec_preset C) emitted m"
    using r by (auto simp: rule_ok_def rule_set_refs_frame no_ctrl_sput)
  with ne show ?thesis by simp
qed

lemma expand_dns_rules_ok:
  "expand_dns_rules C emitted rs = Inr ms \<Longrightarrow>
   list_all (\<lambda>m. rule_ok (ec_preset C) emitted m \<and> \<not> is_dns_rule_empty m) ms"
  by (induction rs arbitrary: ms) (auto dest!: expand_one_dns_ok split: sum.splits option.splits)

lemma finish_dns_server_ok:
  assumes "no_ctrl m"
  shows "no_ctrl (finish_dns_server C m) \<and>
    str_field (finish_dns_server C m) ''detour'' \<noteq> ''direct-out'' \<and>
    map_of (finish_dns_server C m) ''title'' = None \<and>
    prefix (p_id (ec_preset C) @ '':'') (str_field (finish_dns_server C m) ''tag'')"
  using assms by (auto simp: finish_dns_server_def Let_def str_field_def prefix_tag_def
      intro!: no_ctrl_sdel no_ctrl_sput)

lemma expand_dns_servers_ok:
  assumes "expand_dns_servers C ds = Inr ms"
  shows "list_all (\<lambda>m. no_ctrl m \<and> str_field m ''detour'' \<noteq> ''direct-out'' \<and> map_of m ''title'' = None \<and>
     prefix (p_id (ec_preset C) @ '':'') (str_field m ''tag'')) ms"
  using assms
proof (induction ds arbitrary: ms)
  case (Cons d ds)
  show ?case
  proof (cases "eval_if (ds_if d) (ds_if_or d) (ec_vm C)")
    case True
    then obtain out where o: "substitute_preset_body C (JObj (encode_dns_server d)) = Some out"
      using Cons.prems by (auto split: option.splits)
    then obtain m where m: "out = JObj m" "no_ctrl m" by (rule substitute_preset_body_obj)
    from True o m Cons.prems obtain ms' where "expand_dns_servers C ds = Inr ms'"
      "ms = finish_dns_server C m # ms'"
      by (auto split: sum.splits)
    with Cons.IH finish_dns_server_ok[OF m(2), of C] show ?thesis by simp
  next
    case False
    with Cons show ?thesis by simp
  qed
qed simp

text \<open>The parts of a successful expansion.\<close>

lemma expand_preset_parts:
  assumes "expand_preset p user t re = Inr (f, ws)"
  obtains emitted where
    "expand_rule_sets (preset_ctx p user t re) (p_rule_set p) = Inr (pf_rule_sets f, emitted)"
    "expand_rules (preset_ctx p user t re) emitted 0 (p_rules p) = Inr (pf_routing_rules f, ws)"
    "\<forall>m. pf_dns_rule f = Some m \<longrightarrow>
       (\<exists>r. p_dns_rule p = Some r \<and> expand_one_preset_dns_rule (preset_ctx p user t re) emitted r = Inr (Some m))"
    "expand_dns_rules (preset_ctx p user t re) emitted (p_dns_rules p) = Inr (pf_dns_rules f)"
    "expand_dns_servers (preset_ctx p user t re) (p_dns_servers p) = Inr (pf_dns_servers f)"
  using assms that
  by (auto simp: expand_preset_def Let_def split: sum.splits prod.splits option.splits)

lemma ec_preset_ctx [simp]: "ec_preset (preset_ctx p user t re) = p"
  by (simp add: preset_ctx_def)

section \<open>Properties\<close>

text \<open>
  C31. An expanded preset is closed under its rule-set references: whatever rule set a routing
  rule, the DNS rule or one of the DNS rules of the result names is a rule set the same expansion
  emits, under its prefixed tag.
\<close>

theorem expanded_rule_sets_not_dangling:
  assumes "expand_preset p user t re = Inr (f, ws)"
  shows "list_all (\<lambda>m. set (rule_set_refs m) \<subseteq> set (map (\<lambda>r. str_field r ''tag'') (pf_rule_sets f)))
    (pf_routing_rules f @ pf_dns_rules f @ (case pf_dns_rule f of None \<Rightarrow> [] | Some m \<Rightarrow> [m]))"
  using assms
proof (rule expand_preset_parts)
  fix emitted
  let ?C = "preset_ctx p user t re"
  assume e: "expand_rule_sets ?C (p_rule_set p) = Inr (pf_rule_sets f, emitted)"
    "expand_rules ?C emitted 0 (p_rules p) = Inr (pf_routing_rules f, ws)"
    "\<forall>m. pf_dns_rule f = Some m \<longrightarrow>
       (\<exists>r. p_dns_rule p = Some r \<and> expand_one_preset_dns_rule ?C emitted r = Inr (Some m))"
    "expand_dns_rules ?C emitted (p_dns_rules p) = Inr (pf_dns_rules f)"
  have tags: "set (map (\<lambda>r. str_field r ''tag'') (pf_rule_sets f)) = prefix_tag p ` set emitted"
    using expand_rule_sets_spec[OF e(1)] by (metis ec_preset_ctx set_map)
  have "rule_ok p emitted m" if "m \<in> set (pf_routing_rules f)" for m
    using expand_rules_spec[OF e(2)] that finish_rule_ok[of ?C emitted _ m] by (metis ec_preset_ctx)
  moreover have "rule_ok p emitted m" if "m \<in> set (pf_dns_rules f)" for m
    using expand_dns_rules_ok[OF e(4)] that by (simp add: list_all_iff)
  moreover have "rule_ok p emitted m" if "pf_dns_rule f = Some m" for m
    using e(3) that expand_one_dns_ok[of ?C emitted _ m] by (metis ec_preset_ctx)
  ultimately show ?thesis
    unfolding tags by (cases "pf_dns_rule f") (auto simp: list_all_iff rule_ok_def)
qed

text \<open>A preset with a rule set that its variable can switch off.\<close>

definition ads_var :: "string \<Rightarrow> string \<Rightarrow> string list \<Rightarrow> preset_var" where
  "ads_var n d cond =
     \<lparr>pv_name = n, pv_type = ''bool'', pv_default = d, pv_title = [], pv_tooltip = [],
      pv_options = JNull, pv_select = [], pv_if = cond, pv_if_or = []\<rparr>"

definition ads_rule_set :: "string \<Rightarrow> string list \<Rightarrow> preset_rule_set" where
  "ads_rule_set tag cond =
     \<lparr>rs_tag = tag, rs_type = ''remote'', rs_format = ''binary'', rs_rules = [], rs_url = ''https://x'',
      rs_if = cond, rs_if_or = []\<rparr>"

definition ads_preset :: preset where
  "ads_preset =
     \<lparr>p_id = ''ads'', p_label = ''Ads'', p_description = [], p_default_enabled = True, p_platforms = [],
      p_vars = [ads_var ''extra'' ''false'' []],
      p_rule_set = [ads_rule_set ''main'' [], ads_rule_set ''extra'' [''@extra'']],
      p_dns_servers = [],
      p_rules = [[(''outbound'', JStr ''reject''), (''rule_set'', JArr [JStr ''main'', JStr ''extra''])],
                 [(''outbound'', JStr ''direct-out''), (''rule_set'', JStr ''extra'')]],
      p_dns_rule = Some [(''rule_set'', JStr ''main''), (''server'', JStr ''block'')],
      p_dns_rules = [], p_outbounds = []\<rparr>"

definition linux_target :: target_spec where
  "linux_target = \<lparr>ts_goos = ''linux'', ts_goarch = ''amd64'', ts_target = [], ts_machine_id = [],
     ts_resource_dir = [], ts_srs_local_dir = []\<rparr>"

theorem expanded_rule_sets_not_dangling_witness:
  "\<exists>f ws. expand_preset ads_preset Map.empty linux_target (\<lambda>_ _. None) = Inr (f, ws) \<and>
     map rule_set_refs (pf_routing_rules f) = [[''ads:main'']] \<and>
     list_all (\<lambda>m. set (rule_set_refs m) \<subseteq> set (map (\<lambda>r. str_field r ''tag'') (pf_rule_sets f)))
       (pf_routing_rules f)"
proof -
  have e: "map_sum id (\<lambda>(f, ws). map rule_set_refs (pf_routing_rules f))
      (expand_preset ads_preset Map.empty linux_target (\<lambda>_ _. None)) = Inr [[''ads:main'']]"
    by code_simp
  then obtain f ws where f: "expand_preset ads_preset Map.empty linux_target (\<lambda>_ _. None) = Inr (f, ws)"
    by (cases "expand_preset ads_preset Map.empty linux_target (\<lambda>_ _. None)") auto
  with e expanded_rule_sets_not_dangling[OF f] show ?thesis by simp
qed

text \<open>
  Every routing rule an expansion emits can be loaded: it matches on something, it has no
  pseudo-outbound (\<open>reject\<close> and \<open>drop\<close> have become actions), a rule that routes to an outbound
  carries no action, and no template control key or gate is left in it. No active rule is lost
  silently: emitted rules and reported drops add up to the rules whose gate is open.
\<close>

theorem expanded_rules_loadable:
  assumes "expand_preset p user t re = Inr (f, ws)"
  shows "list_all (\<lambda>m. \<not> is_rule_empty m \<and> ctrl_keys (JObj m) = 0 \<and>
      map_of m ''if'' = None \<and> map_of m ''if_or'' = None \<and>
      map_of m ''outbound'' \<notin> {Some (JStr ''reject''), Some (JStr ''drop'')} \<and>
      (str_field m ''outbound'' \<noteq> [] \<longrightarrow> map_of m ''action'' = None \<and> map_of m ''method'' = None))
      (pf_routing_rules f) \<and>
    length (pf_routing_rules f) + length ws =
      length (filter (\<lambda>r. eval_if (extract_if r ''if'') (extract_if r ''if_or'')
                            (active_vars_map (p_vars p) user)) (p_rules p))"
  using assms
proof (rule expand_preset_parts)
  fix emitted
  let ?C = "preset_ctx p user t re"
  assume e: "expand_rules ?C emitted 0 (p_rules p) = Inr (pf_routing_rules f, ws)"
  have "rule_ok p emitted m \<and> \<not> is_rule_empty m \<and>
    map_of m ''outbound'' \<notin> {Some (JStr ''reject''), Some (JStr ''drop'')} \<and>
    (str_field m ''outbound'' \<noteq> [] \<longrightarrow> map_of m ''action'' = None \<and> map_of m ''method'' = None)"
    if "m \<in> set (pf_routing_rules f)" for m
  proof -
    obtain m0 where "no_ctrl m0" "finish_rule ?C emitted m0 = Some m"
      using expand_rules_spec[OF e] \<open>m \<in> set _\<close> by blast
    with finish_rule_ok[of ?C emitted m0 m] show ?thesis by simp
  qed
  moreover have "ec_vm ?C = active_vars_map (p_vars p) user" by (simp add: preset_ctx_def)
  ultimately show ?thesis
    using expand_rules_spec[OF e] by (auto simp: list_all_iff rule_ok_def no_ctrl_def)
qed

theorem expanded_rules_loadable_witness:
  "\<exists>f ws. expand_preset ads_preset Map.empty linux_target (\<lambda>_ _. None) = Inr (f, ws) \<and>
     length (pf_routing_rules f) + length ws = 2 \<and> ws = [RuleDropped 1]"
proof -
  have e: "map_sum id (\<lambda>(f, ws). ws)
      (expand_preset ads_preset Map.empty linux_target (\<lambda>_ _. None)) = Inr [RuleDropped 1]"
    by code_simp
  then obtain f ws where f: "expand_preset ads_preset Map.empty linux_target (\<lambda>_ _. None) = Inr (f, ws)"
    by (cases "expand_preset ads_preset Map.empty linux_target (\<lambda>_ _. None)") auto
  have "length (filter (\<lambda>r. eval_if (extract_if r ''if'') (extract_if r ''if_or'')
          (active_vars_map (p_vars ads_preset) Map.empty)) (p_rules ads_preset)) = 2"
    by code_simp
  with e f expanded_rules_loadable[OF f] show ?thesis by simp
qed

text \<open>
  A guard that passes is not enough: a fragment whose \<open>if_or\<close> names a variable that is itself
  switched off makes the strict substitution fail on that name, since the gate keys are
  substituted along with the body, and the whole preset is abandoned.
\<close>

theorem inactive_var_in_if_or_aborts_preset:
  "let p = ads_preset\<lparr>p_vars := [ads_var ''off'' ''false'' [], ads_var ''a'' ''true'' [''@off''],
                                 ads_var ''b'' ''true'' []],
                      p_rule_set := [ads_rule_set ''main'' []],
                      p_rules := [[(''if_or'', JArr [JStr ''@a'', JStr ''@b'']),
                                   (''outbound'', JStr ''direct-out''), (''rule_set'', JStr ''main'')]]\<rparr>;
       gate = (\<lambda>r. eval_if (extract_if r ''if'') (extract_if r ''if_or'')
                     (active_vars_map (p_vars p) Map.empty))
   in list_all gate (p_rules p) \<and>
      expand_preset p Map.empty linux_target (\<lambda>_ _. None) = Inl [UnresolvedRule 0]"
  by code_simp

end
