(* ===== verification/RuleState.thy ===== *)
theory RuleState
  imports Json
begin

text \<open>
  Rules of the state, \<open>core/state/rule_types.go\<close> and \<open>core/state/rule_identity.go\<close>: the
  header with its raw body, the kind-specific decoding with its errors, and the computed
  identity of a rule.
\<close>

datatype rule_kind = RKPreset | RKInline | RKSrs | RKOther string

record rule =
  r_kind :: rule_kind
  r_ref :: string
  r_enabled :: bool
  r_body :: "json option"

datatype rule_body =
    PresetBody (pb_vars: "string smap")
  | InlineBody (ib_name: string) (ib_match: "obj option") (ib_outbound: string)
  | SrsBody (sb_name: string) (sb_url: string) (sb_outbound: string)

datatype rule_error =
    PresetWithoutRef
  | RefNotAllowed
  | BadBody
  | NameMissing
  | SrsUrlMissing
  | UnknownKind string

text \<open>Fields of a JSON object decoded into a struct; \<open>None\<close> is a decoding error.\<close>

definition body_str :: "obj \<Rightarrow> string \<Rightarrow> string option" where
  "body_str m k = (case map_of m k of
     None \<Rightarrow> Some [] | Some JNull \<Rightarrow> Some [] | Some (JStr s) \<Rightarrow> Some s | _ \<Rightarrow> None)"

fun str_values :: "obj \<Rightarrow> string smap option" where
  "str_values [] = Some []"
| "str_values ((k, v) # m) =
     (case v of
        JStr s \<Rightarrow> map_option (Cons (k, s)) (str_values m)
      | JNull \<Rightarrow> map_option (Cons (k, [])) (str_values m)
      | _ \<Rightarrow> None)"

definition body_vars :: "obj \<Rightarrow> string smap option" where
  "body_vars m = (case map_of m ''vars'' of
     None \<Rightarrow> Some [] | Some JNull \<Rightarrow> Some [] | Some (JObj vs) \<Rightarrow> str_values vs | _ \<Rightarrow> None)"

definition body_match :: "obj \<Rightarrow> obj option option" where
  "body_match m = (case map_of m ''match'' of
     None \<Rightarrow> Some None | Some JNull \<Rightarrow> Some None | Some (JObj o') \<Rightarrow> Some (Some o') | _ \<Rightarrow> None)"

text \<open>The object a struct is decoded from: \<open>null\<close> decodes to the zero struct.\<close>

definition body_obj :: "json \<Rightarrow> obj option" where
  "body_obj j = (case j of JObj m \<Rightarrow> Some m | JNull \<Rightarrow> Some [] | _ \<Rightarrow> None)"

definition decode_body :: "rule \<Rightarrow> rule_error + rule_body" where
  "decode_body r =
     (case r_kind r of
        RKPreset \<Rightarrow>
          (if r_ref r = [] then Inl PresetWithoutRef
           else (case r_body r of
                   None \<Rightarrow> Inr (PresetBody [])
                 | Some j \<Rightarrow>
                     (case Option.bind (body_obj j) body_vars of
                        None \<Rightarrow> Inl BadBody
                      | Some vs \<Rightarrow> Inr (PresetBody vs))))
      | RKInline \<Rightarrow>
          (if r_ref r \<noteq> [] then Inl RefNotAllowed
           else (case Option.bind (r_body r) body_obj of
                   None \<Rightarrow> Inl BadBody
                 | Some m \<Rightarrow>
                     (case (body_str m ''name'', body_match m, body_str m ''outbound'') of
                        (Some n, Some mt, Some o') \<Rightarrow>
                          (if n = [] then Inl NameMissing else Inr (InlineBody n mt o'))
                      | _ \<Rightarrow> Inl BadBody)))
      | RKSrs \<Rightarrow>
          (if r_ref r \<noteq> [] then Inl RefNotAllowed
           else (case Option.bind (r_body r) body_obj of
                   None \<Rightarrow> Inl BadBody
                 | Some m \<Rightarrow>
                     (case (body_str m ''name'', body_str m ''srs_url'', body_str m ''outbound'') of
                        (Some n, Some u, Some o') \<Rightarrow>
                          (if n = [] then Inl NameMissing
                           else if u = [] then Inl SrsUrlMissing
                           else Inr (SrsBody n u o'))
                      | _ \<Rightarrow> Inl BadBody)))
      | RKOther k \<Rightarrow> Inl (UnknownKind k))"

section \<open>Identity\<close>

definition id_char :: "char \<Rightarrow> bool" where
  "id_char c \<longleftrightarrow>
     (let n = (of_char c :: nat) in
      (97 \<le> n \<and> n \<le> 122) \<or> (65 \<le> n \<and> n \<le> 90) \<or> (48 \<le> n \<and> n \<le> 57) \<or> c = CHR ''-'' \<or> c = CHR ''_'')"

fun sanitize_chars :: "string \<Rightarrow> string" where
  "sanitize_chars [] = []"
| "sanitize_chars (c # cs) =
     (if id_char c then c # sanitize_chars cs
      else if c = CHR '' '' then CHR ''-'' # sanitize_chars cs
      else sanitize_chars cs)"

definition sanitize_id_part :: "string \<Rightarrow> string" where
  "sanitize_id_part s = (let out = sanitize_chars s in if out = [] then ''rule'' else out)"

definition stable_rule_id :: "rule \<Rightarrow> string" where
  "stable_rule_id r =
     (if r_kind r = RKPreset then r_ref r
      else (case decode_body r of
              Inr (InlineBody n _ _) \<Rightarrow> (if n = [] then ''unnamed'' else sanitize_id_part n)
            | Inr (SrsBody n _ _) \<Rightarrow> (if n = [] then ''unnamed'' else sanitize_id_part n)
            | _ \<Rightarrow> ''unnamed''))"

lemma id_char_literals [simp]:
  "id_char CHR ''-''" "\<forall>c \<in> set ''rule''. id_char c" "\<forall>c \<in> set ''unnamed''. id_char c"
  by (simp_all add: id_char_def)

lemma sanitize_chars_safe: "c \<in> set (sanitize_chars s) \<Longrightarrow> id_char c"
  by (induction s) (auto split: if_splits)

lemma sanitize_chars_id: "\<forall>c \<in> set s. id_char c \<Longrightarrow> sanitize_chars s = s"
  by (induction s) auto

lemma sanitize_safe: "\<forall>c \<in> set (sanitize_id_part s). id_char c" "sanitize_id_part s \<noteq> []"
  using sanitize_chars_safe by (auto simp: sanitize_id_part_def Let_def)

lemma decode_inline_name: "decode_body r = Inr (InlineBody n mt ob) \<Longrightarrow> n \<noteq> []"
  by (auto simp: decode_body_def split: rule_kind.splits if_splits option.splits)

lemma decode_srs_name: "decode_body r = Inr (SrsBody n u out) \<Longrightarrow> n \<noteq> []"
  by (auto simp: decode_body_def split: rule_kind.splits if_splits option.splits)

section \<open>Properties\<close>

text \<open>
  C37. The identity of a preset rule is its preset reference. The identity of every other rule, also
  of one that cannot be decoded or has an unknown kind, is never empty, is made of letters, digits,
  dashes and underscores only, so it is safe inside a tag and a file name, and sanitizing it again,
  as a reload of the saved name does, leaves it unchanged; a name that is safe already is the
  identity.
\<close>

theorem stable_rule_id_safe:
  "if r_kind r = RKPreset then stable_rule_id r = r_ref r
   else stable_rule_id r \<noteq> [] \<and> list_all id_char (stable_rule_id r) \<and>
     sanitize_id_part (stable_rule_id r) = stable_rule_id r \<and>
     (case decode_body r of
        Inr (InlineBody n mt out) \<Rightarrow> stable_rule_id r = n \<or> \<not> list_all id_char n
      | Inr (SrsBody n u out) \<Rightarrow> stable_rule_id r = n \<or> \<not> list_all id_char n
      | _ \<Rightarrow> stable_rule_id r = ''unnamed'')"
proof (cases "r_kind r = RKPreset")
  case False
  then have "stable_rule_id r = ''unnamed'' \<or> (\<exists>n. stable_rule_id r = sanitize_id_part n)"
    by (auto simp: stable_rule_id_def split: sum.splits rule_body.splits)
  then have a: "stable_rule_id r \<noteq> []" "\<forall>c \<in> set (stable_rule_id r). id_char c"
    using sanitize_safe by fastforce+
  have safe: "sanitize_id_part n = n" if "list_all id_char n" "n \<noteq> []" for n
    using that by (simp add: sanitize_id_part_def sanitize_chars_id list_all_iff)
  have name: "case decode_body r of
        Inr (InlineBody n mt out) \<Rightarrow> stable_rule_id r = n \<or> \<not> list_all id_char n
      | Inr (SrsBody n u out) \<Rightarrow> stable_rule_id r = n \<or> \<not> list_all id_char n
      | _ \<Rightarrow> stable_rule_id r = ''unnamed''"
    using False safe decode_inline_name[of r] decode_srs_name[of r]
    by (auto simp: stable_rule_id_def split: sum.split rule_body.split)
  have "sanitize_id_part (stable_rule_id r) = stable_rule_id r"
    using a by (intro safe) (simp_all add: list_all_iff)
  with False a name show ?thesis by (simp only: if_False list_all_iff) blast
qed (simp add: stable_rule_id_def)

theorem stable_rule_id_safe_witness:
  "list_all id_char (stable_rule_id \<lparr>r_kind = RKSrs, r_ref = [], r_enabled = True,
     r_body = Some (JObj [(''name'', JStr ''my rule!''), (''srs_url'', JStr ''u'')])\<rparr>)"
  using stable_rule_id_safe[of "\<lparr>r_kind = RKSrs, r_ref = [], r_enabled = True,
     r_body = Some (JObj [(''name'', JStr ''my rule!''), (''srs_url'', JStr ''u'')])\<rparr>"]
  by simp

end
