(* ===== verification/ResolveOutbounds.thy ===== *)
theory ResolveOutbounds
  imports PresetExpand RuleState
begin

text \<open>
  Resolving thin outbound entries into bodies, \<open>core/build/resolve_outbounds.go\<close>. The template's
  global outbounds and its presets are arguments; \<open>td = None\<close> is the nil template.
\<close>

definition preset_by_id :: "preset list \<Rightarrow> string \<rightharpoonup> preset" where
  "preset_by_id presets = map_of (rev (map (\<lambda>p. (p_id p, p)) presets))"

definition find_preset_add :: "outbound_entry list \<Rightarrow> string \<Rightarrow> outbound_config option" where
  "find_preset_add entries tag =
     map_option oe_config (find (\<lambda>e. oe_mode e = ''add'' \<and> oc_tag (oe_config e) = tag) entries)"

text \<open>\<open>resolveBaseBody\<close>: the base and whether the reference resolved.\<close>

definition resolve_base_body ::
  "(string \<Rightarrow> string \<Rightarrow> bool option) \<Rightarrow> outbound_config \<Rightarrow> outbound_config list \<Rightarrow>
   (string \<rightharpoonup> preset) \<Rightarrow> target_spec \<Rightarrow> outbound_config \<times> bool" where
  "resolve_base_body re ob tmpl pbi t =
     (if oc_ref ob = [] then (ob, True)
      else if oc_ref ob = ref_template then
        (case find (\<lambda>x. oc_tag x = oc_tag ob) tmpl of
           Some x \<Rightarrow> (x\<lparr>oc_ref := oc_ref ob, oc_updates := oc_updates ob\<rparr>, True)
         | None \<Rightarrow> (ob, False))
      else
        (case pbi (oc_ref ob) of
           None \<Rightarrow> (ob, False)
         | Some p \<Rightarrow>
             (case find_preset_add (fst (expand_preset_outbounds p Map.empty t re)) (oc_tag ob) of
                Some x \<Rightarrow> (x\<lparr>oc_ref := oc_ref ob, oc_updates := oc_updates ob\<rparr>, True)
              | None \<Rightarrow> (ob, False))))"

text \<open>\<open>TemplateData\<close>: what resolution reads of it.\<close>

record template_data =
  td_outbounds :: "outbound_config list"
  td_presets :: "preset list"

definition td_globals :: "template_data option \<Rightarrow> outbound_config list" where
  "td_globals td = (case td of None \<Rightarrow> [] | Some d \<Rightarrow> td_outbounds d)"

definition td_preset_map :: "template_data option \<Rightarrow> string \<rightharpoonup> preset" where
  "td_preset_map td = (case td of None \<Rightarrow> Map.empty | Some d \<Rightarrow> preset_by_id (td_presets d))"

definition merge_outbound_updates ::
  "(string \<Rightarrow> string \<Rightarrow> bool option) \<Rightarrow> outbound_config \<Rightarrow> template_data option \<Rightarrow> target_spec \<Rightarrow>
   outbound_config" where
  "merge_outbound_updates re ob td t =
     apply_updates_to_base (fst (resolve_base_body re ob (td_globals td) (td_preset_map td) t))
       (oc_updates ob)"

text \<open>One entry of \<open>MergeOutboundUpdatesInPlace\<close>; \<open>None\<close> drops a reference left without a body.\<close>

definition merge_one ::
  "(string \<Rightarrow> string \<Rightarrow> bool option) \<Rightarrow> template_data option \<Rightarrow> target_spec \<Rightarrow>
   outbound_config \<Rightarrow> outbound_config option" where
  "merge_one re td t ob =
     (if oc_ref ob = [] \<and> oc_updates ob = [] then Some ob
      else
        (let (base, is_resolved) = resolve_base_body re ob (td_globals td) (td_preset_map td) t;
             merged = apply_updates_to_base base (oc_updates ob)
         in if \<not> is_resolved \<and> trim_space (oc_type merged) = [] then None else Some merged))"

definition merge_outbound_updates_in_place ::
  "(string \<Rightarrow> string \<Rightarrow> bool option) \<Rightarrow> template_data option \<Rightarrow> target_spec \<Rightarrow>
   outbound_config list \<Rightarrow> outbound_config list" where
  "merge_outbound_updates_in_place re td t obs = List.map_filter (merge_one re td t) obs"

section \<open>Lemmas\<close>

lemma find_SomeD: "find P xs = Some x \<Longrightarrow> P x \<and> x \<in> set xs"
  by (auto simp: find_Some_iff)

lemma resolve_base_body_frame:
  assumes "resolve_base_body re ob tmpl pbi t = (base, r)"
  shows "oc_tag base = oc_tag ob" "oc_ref base = oc_ref ob" "oc_updates base = oc_updates ob"
    "\<not> r \<Longrightarrow> base = ob"
  using assms
  by (auto simp: resolve_base_body_def find_preset_add_def split: if_splits option.splits
      dest!: find_SomeD)

lemma resolve_base_body_thin:
  assumes "oc_ref ob \<noteq> []"
  shows "resolve_base_body re (ob'\<lparr>oc_tag := oc_tag ob, oc_ref := oc_ref ob, oc_updates := us\<rparr>) tmpl pbi t =
    (if snd (resolve_base_body re ob tmpl pbi t)
     then ((fst (resolve_base_body re ob tmpl pbi t))\<lparr>oc_updates := us\<rparr>, True)
     else (ob'\<lparr>oc_tag := oc_tag ob, oc_ref := oc_ref ob, oc_updates := us\<rparr>, False))"
  using assms by (auto simp: resolve_base_body_def split: option.splits)

lemma apply_updates_Nil: "apply_updates_to_base b [] = b\<lparr>oc_updates := []\<rparr>"
  by (simp add: apply_updates_to_base_def)

section \<open>Properties\<close>

text \<open>
  What the build emits: every merged entry has an empty patch stack and keeps its tag and
  reference, a direct entry without patches is emitted as it is, a reference whose body is gone
  is emitted only if it still carries a type of its own, and nothing else is emitted, in the
  order of the entries.
\<close>

theorem merged_entries_are_resolved:
  "list_all (\<lambda>m. oc_updates m = [] \<and>
      list_ex (\<lambda>ob. merge_one re td t ob = Some m \<and> oc_tag m = oc_tag ob \<and> oc_ref m = oc_ref ob \<and>
        (oc_ref ob = [] \<and> oc_updates ob = [] \<longrightarrow> m = ob) \<and>
        (snd (resolve_base_body re ob (td_globals td) (td_preset_map td) t) \<or>
         trim_space (oc_type m) \<noteq> [])) obs)
     (merge_outbound_updates_in_place re td t obs) \<and>
   subseq (map oc_tag (merge_outbound_updates_in_place re td t obs)) (map oc_tag obs)"
proof (induction obs)
  case (Cons ob obs)
  show ?case
  proof (cases "merge_one re td t ob")
    case None
    with Cons show ?thesis
      by (auto simp: merge_outbound_updates_in_place_def List.map_filter_simps list_all_iff)
  next
    case (Some m)
    obtain base r where b: "resolve_base_body re ob (td_globals td) (td_preset_map td) t = (base, r)"
      by fastforce
    from Some b resolve_base_body_frame[OF b]
    have "oc_updates m = [] \<and> oc_tag m = oc_tag ob \<and> oc_ref m = oc_ref ob \<and>
      (oc_ref ob = [] \<and> oc_updates ob = [] \<longrightarrow> m = ob) \<and> (r \<or> trim_space (oc_type m) \<noteq> [])"
      by (auto simp: merge_one_def resolve_base_body_def split: if_splits)
    with Some b Cons show ?thesis
      by (auto simp: merge_outbound_updates_in_place_def List.map_filter_simps list_all_iff)
  qed
qed (simp add: merge_outbound_updates_in_place_def List.map_filter_simps)

theorem merged_entries_are_resolved_witness:
  "merge_outbound_updates_in_place (\<lambda>_ _. None) None
     \<lparr>ts_goos = [], ts_goarch = [], ts_target = [], ts_machine_id = [], ts_resource_dir = [], ts_srs_local_dir = []\<rparr>
     [(sample_outbound ''gone'' [] [] [])\<lparr>oc_type := []\<rparr>, (sample_outbound ''d'' [] [] [])\<lparr>oc_ref := []\<rparr>]
   = [(sample_outbound ''d'' [] [] [])\<lparr>oc_ref := []\<rparr>]"
  using merged_entries_are_resolved[of "\<lambda>_ _. None" None]
  by (simp add: merge_outbound_updates_in_place_def merge_one_def resolve_base_body_def
      List.map_filter_simps sample_outbound_def td_globals_def td_preset_map_def ref_template_def
      apply_updates_Nil)

text \<open>
  Merging in place is idempotent on direct entries, and on references that carry no patch,
  but it is not idempotent in general: a reference keeps its ref while its patches are flattened
  away, so a second merge resolves the bare body again and the user's edit is gone.
\<close>

theorem merge_in_place_twice:
  assumes "merge_one re td t ob = Some m"
  shows "(oc_ref ob = [] \<or> oc_updates ob = [] \<longrightarrow> merge_one re td t m = Some m) \<and>
    (oc_ref ob \<noteq> [] \<and> snd (resolve_base_body re ob (td_globals td) (td_preset_map td) t) \<longrightarrow>
       merge_one re td t m = merge_one re td t (ob\<lparr>oc_updates := []\<rparr>))"
proof -
  obtain base r where b: "resolve_base_body re ob (td_globals td) (td_preset_map td) t = (base, r)"
    by fastforce
  note f = resolve_base_body_frame[OF b]
  show ?thesis
  proof (cases "oc_ref ob = []")
    case True
    with assms b f show ?thesis
      by (auto simp: merge_one_def resolve_base_body_def split: if_splits)
  next
    case False
    with assms b have m: "m = apply_updates_to_base base (oc_updates ob)"
      and d: "r \<or> trim_space (oc_type m) \<noteq> []"
      by (auto simp: merge_one_def split: if_splits)
    have mt: "m = m\<lparr>oc_tag := oc_tag ob, oc_ref := oc_ref ob, oc_updates := []\<rparr>"
      using m f by (simp add: outbound_config.equality)
    have rm: "resolve_base_body re m (td_globals td) (td_preset_map td) t =
       (if r then (base\<lparr>oc_updates := []\<rparr>, True) else (m, False))"
      by (subst mt, subst resolve_base_body_thin[OF False]) (simp add: b mt[symmetric])
    have ro: "resolve_base_body re (ob\<lparr>oc_updates := []\<rparr>) (td_globals td) (td_preset_map td) t =
       (if r then (base\<lparr>oc_updates := []\<rparr>, True) else (ob\<lparr>oc_updates := []\<rparr>, False))"
      using resolve_base_body_thin[OF False, where ob' = ob and us = "[]" and re = re and
          tmpl = "td_globals td" and pbi = "td_preset_map td" and t = t] b
      by simp
    have mu: "oc_updates m = []" "oc_ref m \<noteq> []" using m f False by simp_all
    have "merge_one re td t m = Some m" if "oc_updates ob = []"
      using that m mu rm d by (auto simp: merge_one_def apply_updates_Nil)
    moreover have "merge_one re td t m = merge_one re td t (ob\<lparr>oc_updates := []\<rparr>)" if r
      using that mu rm ro False by (simp add: merge_one_def)
    ultimately show ?thesis using False b by auto
  qed
qed

theorem merge_in_place_twice_witness:
  "let re = (\<lambda>_ _. None);
       td = Some \<lparr>td_outbounds = [(sample_outbound ''p'' [''base''] [] [])\<lparr>oc_ref := []\<rparr>], td_presets = []\<rparr>;
       t = \<lparr>ts_goos = [], ts_goarch = [], ts_target = [], ts_machine_id = [], ts_resource_dir = [], ts_srs_local_dir = []\<rparr>;
       ob = (sample_outbound ''p'' [] [] [])
              \<lparr>oc_updates := [\<lparr>ou_ref = ref_user, ou_patch = [(''addOutbounds'', JArr [JStr ''mine''])]\<rparr>]\<rparr>
   in map_option oc_add (merge_one re td t ob) = Some [''mine''] \<and>
      map_option oc_add (Option.bind (merge_one re td t ob) (merge_one re td t)) = Some [''base'']"
proof -
  let ?re = "\<lambda>_ _. None"
  let ?td = "Some \<lparr>td_outbounds = [(sample_outbound ''p'' [''base''] [] [])\<lparr>oc_ref := []\<rparr>], td_presets = []\<rparr>"
  let ?t = "\<lparr>ts_goos = [], ts_goarch = [], ts_target = [], ts_machine_id = [], ts_resource_dir = [], ts_srs_local_dir = []\<rparr>"
  let ?ob = "(sample_outbound ''p'' [] [] [])
     \<lparr>oc_updates := [\<lparr>ou_ref = ref_user, ou_patch = [(''addOutbounds'', JArr [JStr ''mine''])]\<rparr>]\<rparr>"
  have r: "oc_ref ?ob \<noteq> [] \<and> snd (resolve_base_body ?re ?ob (td_globals ?td) (td_preset_map ?td) ?t)"
    by code_simp
  have m: "map_option oc_add (merge_one ?re ?td ?t ?ob) = Some [''mine'']" by code_simp
  then obtain m where m': "merge_one ?re ?td ?t ?ob = Some m" by auto
  have "map_option oc_add (merge_one ?re ?td ?t (?ob\<lparr>oc_updates := []\<rparr>)) = Some [''base'']"
    by code_simp
  with merge_in_place_twice[OF m'] r have "map_option oc_add (merge_one ?re ?td ?t m) = Some [''base'']"
    by simp
  with m m' show ?thesis by (simp add: Let_def)
qed

end
