(* ===== verification/SyncOutbounds.thy ===== *)
theory SyncOutbounds
  imports ResolveOutbounds
begin

text \<open>
  Binding presets to the outbounds of the state, \<open>core/build/sync_outbounds.go\<close>: which entries
  and patches the enabled preset rules call for (the plan), the pass over the existing entries,
  the order of a patch stack, and the appending of missing entries. A Go map that is ranged over
  is a key-sorted list; the order it is ranged in has no effect, because every stack is reordered.
\<close>

section \<open>Definitions\<close>

definition strip_referenced_body :: "outbound_config \<Rightarrow> outbound_config" where
  "strip_referenced_body ob =
     (if oc_ref ob = [] then ob
      else ob\<lparr>oc_type := [], oc_options := None, oc_filters := None, oc_add := [],
              oc_preferred := None, oc_comment := []\<rparr>)"

text \<open>\<open>reorderUpdates\<close>: active presets in rule order, then stale ones, then the user patch.\<close>

definition updates_by_ref :: "outbound_update list \<Rightarrow> string \<rightharpoonup> outbound_update" where
  "updates_by_ref us = map_of (map (\<lambda>u. (ou_ref u, u)) (filter (\<lambda>u. ou_ref u \<noteq> ref_user) us))"

definition stale_order :: "outbound_update list \<Rightarrow> string list \<Rightarrow> string list" where
  "stale_order us active =
     filter (\<lambda>r. r \<notin> set active)
       (dedup_from [] (map ou_ref (filter (\<lambda>u. ou_ref u \<noteq> ref_user) us)))"

definition user_slot :: "outbound_update list \<Rightarrow> outbound_update list" where
  "user_slot us =
     (case rev (filter (\<lambda>u. ou_ref u = ref_user) us) of [] \<Rightarrow> [] | u # _ \<Rightarrow> [u])"

definition reorder_updates :: "outbound_update list \<Rightarrow> string list \<Rightarrow> outbound_update list" where
  "reorder_updates us active =
     (if us = [] then us
      else List.map_filter (updates_by_ref us) active
           @ List.map_filter (updates_by_ref us) (stale_order us active)
           @ user_slot us)"

definition find_outbound_by_tag :: "outbound_config list \<Rightarrow> string \<Rightarrow> int" where
  "find_outbound_by_tag obs tag =
     (if tag \<in> set (map oc_tag obs)
      then int (length (takeWhile (\<lambda>ob. oc_tag ob \<noteq> tag) obs)) else -1)"

text \<open>The preset and the user's variables of an enabled preset rule.\<close>

definition active_preset :: "preset list \<Rightarrow> rule \<Rightarrow> (preset \<times> (string \<rightharpoonup> string)) option" where
  "active_preset presets r =
     (if r_kind r \<noteq> RKPreset \<or> \<not> r_enabled r then None
      else (case preset_by_id presets (r_ref r) of
              None \<Rightarrow> None
            | Some p \<Rightarrow>
                (case decode_body r of
                   Inr (PresetBody vs) \<Rightarrow> Some (p, map_of vs)
                 | _ \<Rightarrow> None)))"

record sync_plan =
  sp_active :: "string list"
  sp_adds :: "string \<rightharpoonup> outbound_config"
  sp_updates :: "string \<Rightarrow> outbound_update smap"

definition empty_plan :: sync_plan where
  "empty_plan = \<lparr>sp_active = [], sp_adds = Map.empty, sp_updates = (\<lambda>_. [])\<rparr>"

definition plan_entry :: "preset \<Rightarrow> outbound_entry \<Rightarrow> sync_plan \<Rightarrow> sync_plan" where
  "plan_entry p e P =
     (let cfg = oe_config e; tag = oc_tag cfg in
      if oe_mode e = ''add'' then
        (if sp_adds P tag = None
         then P\<lparr>sp_adds := (sp_adds P)(tag \<mapsto> cfg\<lparr>oc_ref := p_id p\<rparr>)\<rparr> else P)
      else if oe_mode e = ''update'' then
        P\<lparr>sp_updates := (sp_updates P)(tag :=
            sput (p_id p) \<lparr>ou_ref = p_id p, ou_patch = outbound_config_to_patch_map cfg\<rparr>
              (sp_updates P tag))\<rparr>
      else P)"

definition plan_rule ::
  "(string \<Rightarrow> string \<Rightarrow> bool option) \<Rightarrow> target_spec \<Rightarrow> preset list \<Rightarrow> rule \<Rightarrow> sync_plan \<Rightarrow> sync_plan" where
  "plan_rule re t presets r P =
     (case active_preset presets r of
        None \<Rightarrow> P
      | Some (p, vars) \<Rightarrow>
          fold (plan_entry p) (fst (expand_preset_outbounds p vars t re))
            (if r_ref r \<in> set (sp_active P) then P
             else P\<lparr>sp_active := sp_active P @ [r_ref r]\<rparr>))"

definition make_plan ::
  "(string \<Rightarrow> string \<Rightarrow> bool option) \<Rightarrow> target_spec \<Rightarrow> preset list \<Rightarrow> rule list \<Rightarrow> sync_plan" where
  "make_plan re t presets rules = fold (plan_rule re t presets) rules empty_plan"

text \<open>
  One existing entry: drop it, keep it thin, adopt it, or leave it. The flag says that its tag
  counts as a preset entry already present.
\<close>

definition rebind :: "sync_plan \<Rightarrow> outbound_config \<Rightarrow> (outbound_config \<times> bool) option" where
  "rebind P ob =
     (if oc_ref ob \<noteq> [] \<and> oc_ref ob \<noteq> ref_template then
        (if sp_adds P (oc_tag ob) = None then None else Some (strip_referenced_body ob, True))
      else if oc_ref ob = ref_template then Some (strip_referenced_body ob, False)
      else (case sp_adds P (oc_tag ob) of
              Some cfg \<Rightarrow> Some (strip_referenced_body (ob\<lparr>oc_ref := oc_ref cfg\<rparr>), True)
            | None \<Rightarrow> Some (ob, False)))"

definition sync_updates :: "sync_plan \<Rightarrow> string \<Rightarrow> outbound_update list \<Rightarrow> outbound_update list" where
  "sync_updates P tag us =
     (let expected = sp_updates P tag;
          kept = filter (\<lambda>u. ou_ref u = ref_user \<or> map_of expected (ou_ref u) \<noteq> None) us;
          present = set (map ou_ref kept);
          missing = map snd (filter (\<lambda>(r, u). r \<notin> present) expected)
      in reorder_updates (kept @ missing) (sp_active P))"

definition sync_existing :: "sync_plan \<Rightarrow> outbound_config \<Rightarrow> (outbound_config \<times> bool) option" where
  "sync_existing P ob =
     (case rebind P ob of
        None \<Rightarrow> None
      | Some (ob', present) \<Rightarrow>
          Some (ob'\<lparr>oc_updates := sync_updates P (oc_tag ob') (oc_updates ob')\<rparr>, present))"

definition thin_entry :: "string \<Rightarrow> string \<Rightarrow> outbound_config" where
  "thin_entry tag ref =
     \<lparr>oc_tag = tag, oc_type = [], oc_options = None, oc_filters = None, oc_add = [],
      oc_preferred = None, oc_comment = [], oc_required = False, oc_ref = ref, oc_updates = []\<rparr>"

text \<open>Step 3: the state is the output so far and the preset tags present.\<close>

definition append_entry ::
  "preset \<Rightarrow> outbound_entry \<Rightarrow> outbound_config list \<times> string list \<Rightarrow>
   outbound_config list \<times> string list" where
  "append_entry p e acc =
     (let (out, present) = acc; tag = oc_tag (oe_config e) in
      if oe_mode e \<noteq> ''add'' then acc
      else if tag \<in> set present then acc
      else if 0 \<le> find_outbound_by_tag out tag then acc
      else (out @ [thin_entry tag (p_id p)], tag # present))"

definition append_rule ::
  "(string \<Rightarrow> string \<Rightarrow> bool option) \<Rightarrow> target_spec \<Rightarrow> preset list \<Rightarrow> rule \<Rightarrow>
   outbound_config list \<times> string list \<Rightarrow> outbound_config list \<times> string list" where
  "append_rule re t presets r acc =
     (case active_preset presets r of
        None \<Rightarrow> acc
      | Some (p, vars) \<Rightarrow> fold (append_entry p) (fst (expand_preset_outbounds p vars t re)) acc)"

definition sync_outbounds ::
  "(string \<Rightarrow> string \<Rightarrow> bool option) \<Rightarrow> target_spec \<Rightarrow> preset list \<Rightarrow> rule list \<Rightarrow>
   outbound_config list \<Rightarrow> outbound_config list" where
  "sync_outbounds re t presets rules obs =
     (let P = make_plan re t presets rules;
          kept = List.map_filter (sync_existing P) obs;
          present = map (\<lambda>x. oc_tag (fst x)) (filter snd kept)
      in fst (fold (append_rule re t presets) rules (map fst kept, present)))"

section \<open>The patch stack\<close>

lemma find_outbound_by_tag_iff: "0 \<le> find_outbound_by_tag obs tag \<longleftrightarrow> tag \<in> oc_tag ` set obs"
  by (auto simp: find_outbound_by_tag_def)

lemma updates_by_ref_Some:
  "updates_by_ref us r = Some u \<Longrightarrow> u \<in> set us \<and> ou_ref u = r \<and> r \<noteq> ref_user"
  by (auto simp: updates_by_ref_def dest!: map_of_SomeD)

lemma updates_by_ref_None:
  "updates_by_ref us r = None \<longleftrightarrow> r = ref_user \<or> r \<notin> ou_ref ` set us"
  by (auto simp: updates_by_ref_def map_of_eq_None_iff image_iff)

lemma map_filter_refs:
  "map ou_ref (List.map_filter (updates_by_ref us) rs) = filter (\<lambda>r. updates_by_ref us r \<noteq> None) rs"
  by (induction rs) (auto simp: List.map_filter_simps dest: updates_by_ref_Some split: option.splits)

lemma user_slot_cases:
  obtains "user_slot us = []" "ref_user \<notin> ou_ref ` set us"
  | u where "user_slot us = [u]" "u \<in> set us" "ou_ref u = ref_user"
proof (cases "rev (filter (\<lambda>u. ou_ref u = ref_user) us)")
  case Nil
  then have "ref_user \<notin> ou_ref ` set us" by (auto simp: filter_empty_conv)
  with Nil that(1) show ?thesis by (simp add: user_slot_def)
next
  case (Cons u rest)
  then have "u \<in> set (filter (\<lambda>u. ou_ref u = ref_user) us)"
    by (metis list.set_intros(1) set_rev)
  moreover have "user_slot us = [u]" using Cons by (simp add: user_slot_def)
  ultimately show ?thesis using that(2) by simp
qed

lemma set_map_filter_by_ref:
  "set (List.map_filter (updates_by_ref us) rs) = {u. \<exists>r \<in> set rs. updates_by_ref us r = Some u}"
  by (simp add: set_map_filter)

lemma set_stale_order:
  "set (stale_order us active) = {r \<in> ou_ref ` set us. r \<noteq> ref_user \<and> r \<notin> set active}"
  by (auto simp: stale_order_def set_dedup_from)

lemma distinct_stale_order: "distinct (stale_order us active)"
  by (simp add: stale_order_def distinct_dedup_from)

text \<open>Reordering keeps exactly the references present, and every patch it keeps was there.\<close>

lemma reorder_updates_subset: "set (reorder_updates us active) \<subseteq> set us"
proof -
  have "set (user_slot us) \<subseteq> set us" by (cases us rule: user_slot_cases) auto
  then show ?thesis
    by (auto simp: reorder_updates_def set_map_filter_by_ref dest: updates_by_ref_Some)
qed

lemma reorder_updates_refs: "ou_ref ` set (reorder_updates us active) = ou_ref ` set us"
proof -
  have "r \<in> ou_ref ` set (reorder_updates us active)" if r: "r \<in> ou_ref ` set us" for r
  proof (cases "r = ref_user")
    case True
    with r have "\<exists>u. user_slot us = [u] \<and> ou_ref u = r" by (cases us rule: user_slot_cases) auto
    with r show ?thesis by (auto simp: reorder_updates_def)
  next
    case False
    with r obtain u where u: "updates_by_ref us r = Some u"
      using updates_by_ref_None[of us r] by auto
    then have "ou_ref u = r" by (blast dest: updates_by_ref_Some)
    moreover have "u \<in> set (reorder_updates us active)"
      using u r False
      by (auto simp: reorder_updates_def set_map_filter_by_ref set_stale_order image_iff)
    ultimately show ?thesis by blast
  qed
  then show ?thesis using reorder_updates_subset[of us active] by blast
qed

text \<open>The shape of a reordered stack: distinct references, the user patch last.\<close>

lemma reorder_updates_distinct:
  assumes "distinct active"
  shows "distinct (map ou_ref (reorder_updates us active))"
proof (cases us rule: user_slot_cases)
  case 1
  with assms distinct_stale_order[of us active] show ?thesis
    by (auto simp: reorder_updates_def map_filter_refs set_stale_order updates_by_ref_None)
next
  case (2 u)
  with assms distinct_stale_order[of us active] show ?thesis
    by (auto simp: reorder_updates_def map_filter_refs set_stale_order updates_by_ref_None)
qed

lemma updates_by_ref_distinct:
  assumes "distinct (map ou_ref us)" "u \<in> set us" "ou_ref u \<noteq> ref_user"
  shows "updates_by_ref us (ou_ref u) = Some u"
proof -
  have "distinct (map fst (map (\<lambda>u. (ou_ref u, u)) (filter (\<lambda>u. ou_ref u \<noteq> ref_user) us)))"
    using assms(1) by (simp add: comp_def distinct_map_filter)
  then show ?thesis using assms(2,3)
    unfolding updates_by_ref_def by (intro map_of_is_SomeI) auto
qed

lemma filter_ne_user_map_filter:
  "filter (\<lambda>u. ou_ref u \<noteq> ref_user) (List.map_filter (updates_by_ref us) rs)
     = List.map_filter (updates_by_ref us) rs"
  by (auto simp: filter_id_conv set_map_filter_by_ref dest: updates_by_ref_Some)

lemma map_filter_cong_on:
  "(\<And>x. x \<in> set xs \<Longrightarrow> f x = g x) \<Longrightarrow> List.map_filter f xs = List.map_filter g xs"
  by (induction xs) (auto simp: List.map_filter_simps split: option.splits)

lemma updates_by_ref_reorder:
  assumes "distinct active"
  shows "updates_by_ref (reorder_updates us active) = updates_by_ref us"
proof
  fix r
  let ?v = "reorder_updates us active"
  show "updates_by_ref ?v r = updates_by_ref us r"
  proof (cases "updates_by_ref us r")
    case None
    then show ?thesis
      using updates_by_ref_None[of ?v r] updates_by_ref_None[of us r] reorder_updates_refs[of us active]
      by auto
  next
    case (Some u)
    then have u: "u \<in> set us" "ou_ref u = r" "r \<noteq> ref_user" by (auto dest: updates_by_ref_Some)
    then have "u \<in> set ?v"
      using Some by (auto simp: reorder_updates_def set_map_filter_by_ref set_stale_order image_iff)
    with updates_by_ref_distinct[OF reorder_updates_distinct[OF assms, of us], of u] u Some
    show ?thesis by simp
  qed
qed

lemma filter_user_reorder:
  "filter (\<lambda>u. ou_ref u = ref_user) (reorder_updates us active) = user_slot us"
proof -
  have e: "filter (\<lambda>u. ou_ref u = ref_user) (List.map_filter (updates_by_ref us) rs) = []" for rs
    by (auto simp: filter_empty_conv set_map_filter_by_ref dest: updates_by_ref_Some)
  show ?thesis
    by (cases us rule: user_slot_cases) (auto simp: reorder_updates_def e user_slot_def)
qed

lemma stale_order_reorder:
  assumes "distinct active"
  shows "stale_order (reorder_updates us active) active = stale_order us active"
proof (cases "us = []")
  case False
  let ?A = "List.map_filter (updates_by_ref us) active"
    and ?S = "List.map_filter (updates_by_ref us) (stale_order us active)"
  have s: "map ou_ref ?S = stale_order us active"
    by (auto simp: map_filter_refs filter_id_conv set_stale_order updates_by_ref_None)
  have n: "filter (\<lambda>u. ou_ref u \<noteq> ref_user) (user_slot us) = []"
    by (cases us rule: user_slot_cases) auto
  have d: "distinct (map ou_ref ?A @ stale_order us active)"
    using reorder_updates_distinct[OF assms, of us] False s by (auto simp: reorder_updates_def)
  have "map ou_ref (filter (\<lambda>u. ou_ref u \<noteq> ref_user) (reorder_updates us active))
      = map ou_ref ?A @ stale_order us active"
    using False s n by (simp add: reorder_updates_def filter_ne_user_map_filter)
  with d have "stale_order (reorder_updates us active) active
      = filter (\<lambda>r. r \<notin> set active) (map ou_ref ?A @ stale_order us active)"
    by (simp add: stale_order_def[of "reorder_updates us active"] dedup_from_absent)
  also have "\<dots> = stale_order us active"
    by (auto simp: map_filter_refs filter_empty_conv filter_id_conv set_stale_order)
  finally show ?thesis .
qed (simp add: reorder_updates_def)

lemma user_slot_idem: "user_slot (user_slot us) = user_slot us"
  by (cases us rule: user_slot_cases) (auto simp: user_slot_def)

lemma user_slot_filter: "user_slot (filter (\<lambda>u. ou_ref u = ref_user) us) = user_slot us"
  by (simp add: user_slot_def)

lemma reorder_updates_idem:
  assumes "distinct active"
  shows "reorder_updates (reorder_updates us active) active = reorder_updates us active"
proof (cases "us = []")
  case False
  have "reorder_updates us active \<noteq> []"
    using reorder_updates_refs[of us active] False by force
  moreover have "user_slot (reorder_updates us active) = user_slot us"
    by (metis filter_user_reorder user_slot_filter user_slot_idem)
  ultimately show ?thesis
    using False updates_by_ref_reorder[OF assms, of us] stale_order_reorder[OF assms, of us]
    by (simp add: reorder_updates_def)
qed (simp add: reorder_updates_def)

section \<open>The plan\<close>

text \<open>The entries of all enabled preset rules, in rule order.\<close>

definition rule_entries ::
  "(string \<Rightarrow> string \<Rightarrow> bool option) \<Rightarrow> target_spec \<Rightarrow> preset list \<Rightarrow> rule list \<Rightarrow>
   (preset \<times> outbound_entry) list" where
  "rule_entries re t presets rules =
     concat (map (\<lambda>r. case active_preset presets r of
         None \<Rightarrow> []
       | Some (p, vars) \<Rightarrow> map (Pair p) (fst (expand_preset_outbounds p vars t re))) rules)"

definition add_tags :: "(preset \<times> outbound_entry) list \<Rightarrow> string set" where
  "add_tags pes = (\<lambda>(p, e). oc_tag (oe_config e)) ` {pe \<in> set pes. oe_mode (snd pe) = ''add''}"

lemma add_tags_simps [simp]:
  "add_tags [] = {}"
  "add_tags ((p, e) # pes) =
     (if oe_mode e = ''add'' then insert (oc_tag (oe_config e)) (add_tags pes) else add_tags pes)"
  "add_tags (xs @ ys) = add_tags xs \<union> add_tags ys"
  by (auto simp: add_tags_def)

lemma rule_entries_Cons:
  "rule_entries re t presets (r # rules) =
     (case active_preset presets r of None \<Rightarrow> []
      | Some (p, vars) \<Rightarrow> map (Pair p) (fst (expand_preset_outbounds p vars t re)))
     @ rule_entries re t presets rules"
  by (simp add: rule_entries_def)

lemma preset_by_id_Some: "preset_by_id presets i = Some p \<Longrightarrow> p_id p = i \<and> p \<in> set presets"
  by (auto simp: preset_by_id_def dest!: map_of_SomeD)

lemma active_preset_Some:
  assumes "active_preset presets r = Some (p, vars)"
  shows "p_id p = r_ref r \<and> p \<in> set presets \<and> r_ref r \<noteq> []"
proof -
  have "preset_by_id presets (r_ref r) = Some p \<and> r_ref r \<noteq> []"
    using assms by (auto simp: active_preset_def decode_body_def split: if_splits option.splits sum.splits)
  then show ?thesis using preset_by_id_Some by blast
qed

text \<open>What every plan satisfies.\<close>

definition plan_ok :: "preset list \<Rightarrow> sync_plan \<Rightarrow> bool" where
  "plan_ok presets P \<longleftrightarrow>
     distinct (sp_active P) \<and> set (sp_active P) \<subseteq> p_id ` set presets \<and>
     (\<forall>tag cfg. sp_adds P tag = Some cfg \<longrightarrow> oc_ref cfg \<noteq> [] \<and> oc_ref cfg \<in> p_id ` set presets) \<and>
     (\<forall>tag. \<forall>x \<in> set (sp_updates P tag). ou_ref (snd x) = fst x \<and> fst x \<in> set (sp_active P))"

lemma plan_ok_empty: "plan_ok presets empty_plan"
  by (simp add: plan_ok_def empty_plan_def)

lemma plan_entry_active [simp]: "sp_active (plan_entry p e P) = sp_active P"
  by (simp add: plan_entry_def Let_def)

lemma sp_active_fold: "sp_active (fold (plan_entry p) es P) = sp_active P"
  by (induction es arbitrary: P) auto

lemma plan_ok_entry:
  assumes "plan_ok presets P" "p \<in> set presets" "p_id p \<noteq> []" "p_id p \<in> set (sp_active P)"
  shows "plan_ok presets (plan_entry p e P)"
proof -
  let ?tag = "oc_tag (oe_config e)"
  let ?u = "\<lparr>ou_ref = p_id p, ou_patch = outbound_config_to_patch_map (oe_config e)\<rparr>"
  have s: "set (sput (p_id p) ?u m) \<subseteq> insert (p_id p, ?u) (set m)" for m
    by (rule set_sput_subset)
  have u: "ou_ref (snd x) = fst x \<and> fst x \<in> set (sp_active P)"
    if "x \<in> set (((sp_updates P)(?tag := sput (p_id p) ?u (sp_updates P ?tag))) tag)" for tag x
  proof (cases "x = (p_id p, ?u)")
    case False
    with that s[of "sp_updates P ?tag"] have "x \<in> set (sp_updates P tag)"
      by (cases "tag = ?tag") auto
    with assms(1) show ?thesis by (simp add: plan_ok_def)
  qed (use assms in simp)
  show ?thesis
    using assms u by (auto simp: plan_ok_def plan_entry_def Let_def)
qed

lemma plan_ok_entries:
  "plan_ok presets P \<Longrightarrow> p \<in> set presets \<Longrightarrow> p_id p \<noteq> [] \<Longrightarrow> p_id p \<in> set (sp_active P) \<Longrightarrow>
   plan_ok presets (fold (plan_entry p) es P)"
  by (induction es arbitrary: P) (simp_all add: plan_ok_entry)

lemma plan_ok_rule:
  assumes "plan_ok presets P"
  shows "plan_ok presets (plan_rule re t presets r P)"
proof (cases "active_preset presets r")
  case (Some a)
  obtain p vars where a: "a = (p, vars)" by fastforce
  note p = active_preset_Some[OF Some[unfolded a]]
  let ?P = "if r_ref r \<in> set (sp_active P) then P else P\<lparr>sp_active := sp_active P @ [r_ref r]\<rparr>"
  have "r_ref r \<in> p_id ` set presets" using p by (metis image_eqI)
  then have "plan_ok presets ?P" "p_id p \<in> set (sp_active ?P)"
    using assms p by (auto simp: plan_ok_def)
  then have "plan_ok presets (fold (plan_entry p) es ?P)" for es
    using p by (intro plan_ok_entries) auto
  then show ?thesis using Some a by (simp add: plan_rule_def)
qed (simp add: plan_rule_def assms)

lemma plan_ok_make_plan: "plan_ok presets (make_plan re t presets rules)"
proof -
  have "plan_ok presets P \<Longrightarrow> plan_ok presets (fold (plan_rule re t presets) rules P)" for P
    by (induction rules arbitrary: P) (auto intro: plan_ok_rule)
  then show ?thesis by (simp add: make_plan_def plan_ok_empty)
qed

text \<open>The tags the plan adds are the tags of the add entries of the enabled presets.\<close>

lemma dom_adds_entries:
  "dom (sp_adds (fold (plan_entry p) es P)) = dom (sp_adds P) \<union> add_tags (map (Pair p) es)"
  by (induction es arbitrary: P) (auto simp: plan_entry_def Let_def)

lemma dom_adds_rule:
  "dom (sp_adds (plan_rule re t presets r P)) =
     dom (sp_adds P) \<union> add_tags (rule_entries re t presets [r])"
  by (auto simp: plan_rule_def rule_entries_def dom_adds_entries split: option.splits)

lemma dom_adds_make_plan:
  "dom (sp_adds (make_plan re t presets rules)) = add_tags (rule_entries re t presets rules)"
proof -
  have "dom (sp_adds (fold (plan_rule re t presets) rules P)) =
     dom (sp_adds P) \<union> add_tags (rule_entries re t presets rules)" for P
  proof (induction rules arbitrary: P)
    case (Cons r rules)
    then show ?case by (simp add: dom_adds_rule) (simp add: rule_entries_def Un_assoc)
  qed (simp add: rule_entries_def)
  then show ?thesis by (simp add: make_plan_def empty_plan_def)
qed

section \<open>One entry\<close>

text \<open>A stack that was synchronised is complete and ordered: a second pass leaves it.\<close>

lemma image_restrict: "f ` {x \<in> A. f x \<notin> B} = f ` A - B"
  by auto

lemma sync_updates_refs:
  assumes "plan_ok presets P"
  shows "ou_ref ` set (sync_updates P tag us) =
     {r \<in> ou_ref ` set us. r = ref_user} \<union> fst ` set (sp_updates P tag)"
proof -
  let ?E = "sp_updates P tag"
  let ?kept = "filter (\<lambda>u. ou_ref u = ref_user \<or> map_of ?E (ou_ref u) \<noteq> None) us"
  let ?missing = "map snd (filter (\<lambda>(r, u). r \<notin> set (map ou_ref ?kept)) ?E)"
  have e: "ou_ref (snd x) = fst x" if "x \<in> set ?E" for x
    using assms that by (simp add: plan_ok_def)
  have k: "ou_ref ` set ?kept = {r \<in> ou_ref ` set us. r = ref_user \<or> r \<in> fst ` set ?E}"
    by (auto simp: map_of_eq_None_iff)
  have "ou_ref ` set ?missing = (\<lambda>x. ou_ref (snd x)) ` {x \<in> set ?E. fst x \<notin> ou_ref ` set ?kept}"
    by (simp add: image_image case_prod_beta)
  also have "\<dots> = fst ` {x \<in> set ?E. fst x \<notin> ou_ref ` set ?kept}"
    by (rule image_cong) (auto simp: e)
  also have "\<dots> = fst ` set ?E - ou_ref ` set ?kept" by (rule image_restrict)
  finally have m: "ou_ref ` set ?missing = fst ` set ?E - ou_ref ` set ?kept" .
  have "ou_ref ` set (sync_updates P tag us) = ou_ref ` set ?kept \<union> ou_ref ` set ?missing"
    by (simp only: sync_updates_def Let_def reorder_updates_refs set_append image_Un)
  also have "\<dots> = {r \<in> ou_ref ` set us. r = ref_user} \<union> fst ` set ?E"
    unfolding m k by blast
  finally show ?thesis .
qed

lemma sync_updates_idem:
  assumes "plan_ok presets P"
  shows "sync_updates P tag (sync_updates P tag us) = sync_updates P tag us"
proof -
  let ?v = "sync_updates P tag us"
  have k: "filter (\<lambda>u. ou_ref u = ref_user \<or> map_of (sp_updates P tag) (ou_ref u) \<noteq> None) ?v = ?v"
    using sync_updates_refs[OF assms, of tag us]
    unfolding filter_id_conv map_of_eq_None_iff by blast
  have "fst x \<in> ou_ref ` set ?v" if "x \<in> set (sp_updates P tag)" for x
    using sync_updates_refs[OF assms, of tag us] that by simp
  then have m: "filter (\<lambda>(r, u). r \<notin> set (map ou_ref ?v)) (sp_updates P tag) = []"
    unfolding filter_empty_conv case_prod_beta set_map by blast
  have "sync_updates P tag ?v = reorder_updates ?v (sp_active P)"
    unfolding sync_updates_def[of P tag ?v] Let_def k m by simp
  also have "\<dots> = ?v"
    using assms by (simp add: sync_updates_def Let_def reorder_updates_idem plan_ok_def)
  finally show ?thesis .
qed

lemma strip_frame [simp]:
  "oc_tag (strip_referenced_body ob) = oc_tag ob"
  "oc_ref (strip_referenced_body ob) = oc_ref ob"
  "oc_updates (strip_referenced_body ob) = oc_updates ob"
  "strip_referenced_body (strip_referenced_body ob) = strip_referenced_body ob"
  "strip_referenced_body ((strip_referenced_body ob)\<lparr>oc_updates := us\<rparr>) =
     (strip_referenced_body ob)\<lparr>oc_updates := us\<rparr>"
  by (simp_all add: strip_referenced_body_def)

text \<open>What the first pass makes of an entry is a fixed point of the pass.\<close>

lemma sync_existing_fixed:
  assumes "plan_ok presets P" "ref_template \<notin> p_id ` set presets"
    and "sync_existing P ob = Some (ob', b)"
  shows "sync_existing P ob' = Some (ob', b)"
proof -
  obtain x where x: "rebind P ob = Some (x, b)"
    and ob': "ob' = x\<lparr>oc_updates := sync_updates P (oc_tag x) (oc_updates x)\<rparr>"
    using assms(3) by (auto simp: sync_existing_def split: option.splits)
  have a: "sp_adds P t = Some cfg \<Longrightarrow> oc_ref cfg \<noteq> [] \<and> oc_ref cfg \<noteq> ref_template" for t cfg
    using assms(1,2) unfolding plan_ok_def by metis
  have t: "ref_template \<noteq> []" by (simp add: ref_template_def)
  have "rebind P (x\<lparr>oc_updates := us\<rparr>) = Some (x\<lparr>oc_updates := us\<rparr>, b)" for us
    using x a[of "oc_tag ob"] t
    by (auto simp: rebind_def split: if_splits option.splits)
  then show ?thesis
    using sync_updates_idem[OF assms(1)] by (simp add: sync_existing_def ob')
qed

section \<open>Appending\<close>

text \<open>The entries appended: thin, with a tag of an add entry, and no such tag is left out.\<close>

lemma append_rules_flat:
  "fold (append_rule re t presets) rules acc =
     fold (\<lambda>(p, e). append_entry p e) (rule_entries re t presets rules) acc"
proof (induction rules arbitrary: acc)
  case (Cons r rules)
  have "fold (\<lambda>(p, e). append_entry p e) (map (Pair p) es) acc = fold (append_entry p) es acc"
    for p es acc by (simp add: fold_map comp_def)
  then show ?case
    by (simp add: Cons rule_entries_Cons append_rule_def[of _ _ _ r] split: option.split prod.split)
qed (simp add: rule_entries_def)

definition thin_of :: "preset set \<Rightarrow> outbound_config \<Rightarrow> bool" where
  "thin_of ps ob \<longleftrightarrow> (\<exists>p \<in> ps. ob = thin_entry (oc_tag ob) (p_id p))"

lemma append_entries:
  "\<exists>E pres'. fold (\<lambda>(p, e). append_entry p e) pes (out, pres) = (out @ E, pres') \<and>
     (\<forall>ob \<in> set E. oc_tag ob \<in> add_tags pes \<and> oc_tag ob \<notin> set pres \<union> oc_tag ` set out \<and>
        thin_of (fst ` set pes) ob) \<and>
     distinct (map oc_tag E) \<and> add_tags pes \<subseteq> set pres \<union> oc_tag ` set (out @ E)"
proof (induction pes arbitrary: out pres)
  case (Cons pe pes)
  obtain p e where pe: "pe = (p, e)" by fastforce
  let ?tag = "oc_tag (oe_config e)"
  show ?case
  proof (cases "oe_mode e = ''add'' \<and> ?tag \<notin> set pres \<union> oc_tag ` set out")
    case True
    let ?n = "thin_entry ?tag (p_id p)"
    obtain E pres' where E:
      "fold (\<lambda>(p, e). append_entry p e) pes (out @ [?n], ?tag # pres) = ((out @ [?n]) @ E, pres')"
      "\<forall>ob \<in> set E. oc_tag ob \<in> add_tags pes \<and>
         oc_tag ob \<notin> set (?tag # pres) \<union> oc_tag ` set (out @ [?n]) \<and> thin_of (fst ` set pes) ob"
      "distinct (map oc_tag E)"
      "add_tags pes \<subseteq> set (?tag # pres) \<union> oc_tag ` set ((out @ [?n]) @ E)"
      using Cons[of "out @ [?n]" "?tag # pres"] by blast
    have n: "oc_tag ?n = ?tag" by (simp add: thin_entry_def)
    have th: "thin_of (fst ` set (pe # pes)) ob" if "ob = ?n \<or> thin_of (fst ` set pes) ob" for ob
      using that n by (auto simp: thin_of_def pe)
    from True have "append_entry p e (out, pres) = (out @ [?n], ?tag # pres)"
      by (simp add: append_entry_def find_outbound_by_tag_iff Let_def)
    with E(1) have f: "fold (\<lambda>(p, e). append_entry p e) (pe # pes) (out, pres) = (out @ ?n # E, pres')"
      by (simp add: pe)
    show ?thesis
      using True E n th f
      by (intro exI[of _ "?n # E"] exI[of _ pres']) (auto simp: pe)
  next
    case False
    have th: "thin_of (fst ` set pes) ob \<Longrightarrow> thin_of (fst ` set (pe # pes)) ob" for ob
      by (auto simp: thin_of_def)
    from False have "append_entry p e (out, pres) = (out, pres)"
      by (auto simp: append_entry_def find_outbound_by_tag_iff Let_def)
    with Cons[of out pres] obtain E pres' where
      "fold (\<lambda>(p, e). append_entry p e) (pe # pes) (out, pres) = (out @ E, pres')"
      "\<forall>ob \<in> set E. oc_tag ob \<in> add_tags pes \<and> oc_tag ob \<notin> set pres \<union> oc_tag ` set out \<and>
         thin_of (fst ` set pes) ob"
      "distinct (map oc_tag E)" "add_tags pes \<subseteq> set pres \<union> oc_tag ` set (out @ E)"
      by (auto simp: pe)
    with False th show ?thesis
      by (intro exI[of _ E] exI[of _ pres']) (auto simp: pe)
  qed
qed simp

lemma rule_entries_presets:
  assumes "pe \<in> set (rule_entries re t presets rules)"
  shows "fst pe \<in> set presets \<and> p_id (fst pe) \<noteq> []"
proof -
  from assms obtain r p vars where "active_preset presets r = Some (p, vars)" "fst pe = p"
    by (auto simp: rule_entries_def dest: sym split: option.splits)
  then show ?thesis using active_preset_Some by metis
qed

text \<open>One synchronisation: the surviving entries and the appended ones.\<close>

definition pass :: "sync_plan \<Rightarrow> outbound_config list \<Rightarrow> outbound_config list" where
  "pass P obs = map fst (List.map_filter (sync_existing P) obs)"

lemma sync_outbounds_shape:
  obtains E where
    "sync_outbounds re t presets rules obs = pass (make_plan re t presets rules) obs @ E"
    "\<And>ob. ob \<in> set E \<Longrightarrow> oc_tag ob \<in> add_tags (rule_entries re t presets rules) \<and>
       oc_tag ob \<notin> oc_tag ` set (pass (make_plan re t presets rules) obs) \<and>
       (\<exists>p \<in> set presets. p_id p \<noteq> [] \<and> ob = thin_entry (oc_tag ob) (p_id p))"
    "distinct (map oc_tag E)"
    "add_tags (rule_entries re t presets rules) \<subseteq> oc_tag ` set (sync_outbounds re t presets rules obs)"
proof -
  let ?P = "make_plan re t presets rules"
  let ?pes = "rule_entries re t presets rules"
  let ?kept = "List.map_filter (sync_existing ?P) obs"
  let ?pres = "map (\<lambda>x. oc_tag (fst x)) (filter snd ?kept)"
  have pres: "set ?pres \<subseteq> oc_tag ` set (pass ?P obs)" by (auto simp: pass_def)
  have s: "sync_outbounds re t presets rules obs =
      fst (fold (\<lambda>(p, e). append_entry p e) ?pes (pass ?P obs, ?pres))"
    by (simp add: sync_outbounds_def Let_def append_rules_flat pass_def)
  obtain E pres' where E:
    "fold (\<lambda>(p, e). append_entry p e) ?pes (pass ?P obs, ?pres) = (pass ?P obs @ E, pres')"
    "\<forall>ob \<in> set E. oc_tag ob \<in> add_tags ?pes \<and> oc_tag ob \<notin> set ?pres \<union> oc_tag ` set (pass ?P obs) \<and>
       thin_of (fst ` set ?pes) ob"
    "distinct (map oc_tag E)" "add_tags ?pes \<subseteq> set ?pres \<union> oc_tag ` set (pass ?P obs @ E)"
    using append_entries[of ?pes "pass ?P obs" ?pres] by blast
  have o: "sync_outbounds re t presets rules obs = pass ?P obs @ E" using s E(1) by simp
  have m: "\<And>ob. ob \<in> set E \<Longrightarrow> oc_tag ob \<in> add_tags ?pes \<and> oc_tag ob \<notin> oc_tag ` set (pass ?P obs) \<and>
       (\<exists>p \<in> set presets. p_id p \<noteq> [] \<and> ob = thin_entry (oc_tag ob) (p_id p))"
    using E(2) rule_entries_presets unfolding thin_of_def by blast
  have "add_tags ?pes \<subseteq> oc_tag ` set (sync_outbounds re t presets rules obs)"
    using subset_trans[OF E(4) Un_mono[OF pres subset_refl]] unfolding o set_append image_Un by blast
  then show ?thesis using that[OF o m E(3)] by blast
qed

section \<open>Convergence\<close>

lemma pass_append: "pass P (xs @ ys) = pass P xs @ pass P ys"
  by (simp add: pass_def map_filter_append)

lemma pass_fixed:
  assumes "\<And>ob. ob \<in> set obs \<Longrightarrow> \<exists>b. sync_existing P ob = Some (ob, b)"
  shows "pass P obs = obs"
  using assms by (induction obs) (fastforce simp: pass_def List.map_filter_simps)+

lemma pass_idem:
  assumes "plan_ok presets P" "ref_template \<notin> p_id ` set presets"
  shows "pass P (pass P obs) = pass P obs"
proof (rule pass_fixed)
  fix ob assume "ob \<in> set (pass P obs)"
  then obtain ob0 b where "sync_existing P ob0 = Some (ob, b)"
    by (auto simp: pass_def set_map_filter)
  with sync_existing_fixed[OF assms] show "\<exists>b. sync_existing P ob = Some (ob, b)" by blast
qed

text \<open>Once every add entry has a tag in the list, a synchronisation only runs the pass.\<close>

lemma sync_is_pass:
  assumes "add_tags (rule_entries re t presets rules) \<subseteq> oc_tag ` set obs"
    and "oc_tag ` set (pass (make_plan re t presets rules) obs) = oc_tag ` set obs"
  shows "sync_outbounds re t presets rules obs = pass (make_plan re t presets rules) obs"
proof -
  obtain E where E: "sync_outbounds re t presets rules obs = pass (make_plan re t presets rules) obs @ E"
    "\<And>ob. ob \<in> set E \<Longrightarrow> oc_tag ob \<in> add_tags (rule_entries re t presets rules) \<and>
       oc_tag ob \<notin> oc_tag ` set (pass (make_plan re t presets rules) obs) \<and>
       (\<exists>p \<in> set presets. p_id p \<noteq> [] \<and> ob = thin_entry (oc_tag ob) (p_id p))"
    using sync_outbounds_shape[of re t presets rules obs] by metis
  have "E = []"
  proof (rule ccontr)
    assume "E \<noteq> []"
    then obtain ob where "ob \<in> set E" by (cases E) auto
    note m = E(2)[OF this, unfolded assms(2)]
    have "oc_tag ob \<in> add_tags (rule_entries re t presets rules)" by (rule conjunct1[OF m])
    moreover have "oc_tag ob \<notin> oc_tag ` set obs" by (rule conjunct1[OF conjunct2[OF m]])
    ultimately show False using assms(1) by (meson subsetD)
  qed
  with E(1) show ?thesis by simp
qed

text \<open>The pass keeps an appended entry: it only gains the patches expected for its tag.\<close>

lemma thin_entry_kept:
  assumes "plan_ok presets P" "ref_template \<notin> p_id ` set presets" "p \<in> set presets" "p_id p \<noteq> []"
    and "tag \<in> dom (sp_adds P)"
  shows "sync_existing P (thin_entry tag (p_id p)) =
    Some ((thin_entry tag (p_id p))\<lparr>oc_updates := sync_updates P tag []\<rparr>, True)"
proof -
  have "p_id p \<noteq> ref_template" using assms(2,3) by (metis image_eqI)
  with assms(4,5) show ?thesis
    by (auto simp: sync_existing_def rebind_def thin_entry_def strip_referenced_body_def)
qed

lemma pass_thin:
  assumes "plan_ok presets P" "ref_template \<notin> p_id ` set presets"
    and "\<And>ob. ob \<in> set E \<Longrightarrow> oc_tag ob \<in> dom (sp_adds P) \<and>
       (\<exists>p \<in> set presets. p_id p \<noteq> [] \<and> ob = thin_entry (oc_tag ob) (p_id p))"
  shows "pass P E = map (\<lambda>ob. ob\<lparr>oc_updates := sync_updates P (oc_tag ob) []\<rparr>) E"
  using assms(3)
proof (induction E)
  case (Cons ob E)
  from Cons.prems[of ob] obtain p where p: "p \<in> set presets" "p_id p \<noteq> []"
    "ob = thin_entry (oc_tag ob) (p_id p)" "oc_tag ob \<in> dom (sp_adds P)" by auto
  from thin_entry_kept[OF assms(1,2) p(1,2,4)] p(3)
  have "sync_existing P ob = Some (ob\<lparr>oc_updates := sync_updates P (oc_tag ob) []\<rparr>, True)" by metis
  with Cons show ?case by (simp add: pass_def List.map_filter_simps)
qed (simp add: pass_def List.map_filter_simps)

lemma sync_twice:
  assumes "ref_template \<notin> p_id ` set presets"
  shows "\<exists>E. sync_outbounds re t presets rules obs = pass (make_plan re t presets rules) obs @ E \<and>
    (\<forall>ob \<in> set E. oc_tag ob \<in> dom (sp_adds (make_plan re t presets rules)) \<and> oc_updates ob = []) \<and>
    sync_outbounds re t presets rules (sync_outbounds re t presets rules obs) =
      pass (make_plan re t presets rules) obs @
      map (\<lambda>ob. ob\<lparr>oc_updates := sync_updates (make_plan re t presets rules) (oc_tag ob) []\<rparr>) E \<and>
    sync_outbounds re t presets rules (sync_outbounds re t presets rules obs) =
      pass (make_plan re t presets rules) (sync_outbounds re t presets rules obs) \<and>
    add_tags (rule_entries re t presets rules) \<subseteq>
      oc_tag ` set (sync_outbounds re t presets rules (sync_outbounds re t presets rules obs))"
proof -
  let ?P = "make_plan re t presets rules"
  let ?S = "sync_outbounds re t presets rules obs"
  note ok = plan_ok_make_plan[of presets re t rules]
  obtain E where E: "?S = pass ?P obs @ E"
    "\<And>ob. ob \<in> set E \<Longrightarrow> oc_tag ob \<in> add_tags (rule_entries re t presets rules) \<and>
       oc_tag ob \<notin> oc_tag ` set (pass ?P obs) \<and>
       (\<exists>p \<in> set presets. p_id p \<noteq> [] \<and> ob = thin_entry (oc_tag ob) (p_id p))"
    "add_tags (rule_entries re t presets rules) \<subseteq> oc_tag ` set ?S"
    using sync_outbounds_shape[of re t presets rules obs] by metis
  have mem: "oc_tag ob \<in> dom (sp_adds ?P) \<and>
       (\<exists>p \<in> set presets. p_id p \<noteq> [] \<and> ob = thin_entry (oc_tag ob) (p_id p))"
    if "ob \<in> set E" for ob
    using E(2)[OF that] by (simp add: dom_adds_make_plan)
  have pE: "pass ?P E = map (\<lambda>ob. ob\<lparr>oc_updates := sync_updates ?P (oc_tag ob) []\<rparr>) E"
    by (rule pass_thin[OF ok assms mem])
  have pS: "pass ?P ?S = pass ?P obs @ pass ?P E"
    by (simp add: E(1) pass_append pass_idem[OF ok assms])
  have tags: "oc_tag ` set (pass ?P ?S) = oc_tag ` set ?S"
    unfolding pS pE unfolding E(1) by (simp add: image_Un image_image)
  note p = sync_is_pass[OF E(3) tags]
  from p pS pE
  have "sync_outbounds re t presets rules ?S = pass ?P obs @
      map (\<lambda>ob. ob\<lparr>oc_updates := sync_updates ?P (oc_tag ob) []\<rparr>) E" by simp
  moreover note p
  moreover have "add_tags (rule_entries re t presets rules) \<subseteq>
      oc_tag ` set (sync_outbounds re t presets rules ?S)" unfolding p tags by (rule E(3))
  moreover have "oc_updates ob = []" if "ob \<in> set E" for ob
    using mem[OF that] by (auto simp: thin_entry_def) (metis outbound_config.select_convs(10))
  ultimately show ?thesis using E(1) mem by (intro exI[of _ E]) simp
qed

text \<open>The user's patch through a pass.\<close>

lemma filter_filter_absorb: "filter P (filter (\<lambda>x. P x \<or> Q x) xs) = filter P xs"
  by (induction xs) auto

lemma user_slot_reorder: "user_slot (reorder_updates us active) = user_slot us"
  by (metis filter_user_reorder user_slot_filter user_slot_idem)

lemma user_slot_sync:
  assumes "plan_ok presets P" "ref_user \<notin> p_id ` set presets"
  shows "user_slot (sync_updates P tag us) = user_slot us"
proof -
  let ?E = "sp_updates P tag"
  let ?kept = "filter (\<lambda>u. ou_ref u = ref_user \<or> map_of ?E (ou_ref u) \<noteq> None) us"
  let ?missing = "map snd (filter (\<lambda>(r, u). r \<notin> set (map ou_ref ?kept)) ?E)"
  have "ou_ref (snd x) \<noteq> ref_user" if "x \<in> set ?E" for x
  proof -
    have "ou_ref (snd x) \<in> p_id ` set presets"
      using assms(1) that unfolding plan_ok_def by (metis subsetD)
    then show ?thesis using assms(2) by metis
  qed
  then have "filter (\<lambda>u. ou_ref u = ref_user) ?missing = []"
    by (auto simp: filter_empty_conv)
  moreover have "filter (\<lambda>u. ou_ref u = ref_user) ?kept = filter (\<lambda>u. ou_ref u = ref_user) us"
    by (rule filter_filter_absorb)
  ultimately have "filter (\<lambda>u. ou_ref u = ref_user) (?kept @ ?missing) = filter (\<lambda>u. ou_ref u = ref_user) us"
    unfolding filter_append by (simp only: append_Nil2)
  then have "user_slot (?kept @ ?missing) = user_slot us" by (simp only: user_slot_def)
  then show ?thesis by (simp only: sync_updates_def Let_def user_slot_reorder)
qed

text \<open>A synchronised stack: preset patches in rule order, then the user's.\<close>

lemma sync_updates_shape:
  assumes "plan_ok presets P"
  shows "\<exists>ps. sync_updates P tag us = ps @ user_slot (sync_updates P tag us) \<and>
     subseq (map ou_ref ps) (sp_active P)"
proof -
  let ?v = "sync_updates P tag us"
  obtain ws where v: "?v = reorder_updates ws (sp_active P)"
    by (simp add: sync_updates_def Let_def)
  have "ou_ref ` set ws = ou_ref ` set ?v" by (simp add: v reorder_updates_refs)
  then have r: "ou_ref ` set ws \<subseteq> insert ref_user (set (sp_active P))"
    using sync_updates_refs[OF assms, of tag us] assms by (auto simp: plan_ok_def)
  show ?thesis
  proof (cases "ws = []")
    case False
    have "stale_order ws (sp_active P) = []"
    proof -
      have "set (stale_order ws (sp_active P)) = {}"
        unfolding set_stale_order using r by blast
      then show ?thesis by simp
    qed
    then have "?v = List.map_filter (updates_by_ref ws) (sp_active P) @ user_slot ws"
      using False by (simp add: v reorder_updates_def List.map_filter_simps)
    moreover have "user_slot ?v = user_slot ws" by (simp add: v user_slot_reorder)
    ultimately show ?thesis
      by (intro exI[of _ "List.map_filter (updates_by_ref ws) (sp_active P)"])
        (simp add: map_filter_refs)
  qed (simp add: v reorder_updates_def user_slot_def)
qed

section \<open>Properties\<close>

text \<open>
  C5. Synchronisation converges: after the second run nothing changes any more, and the first
  run is already stable when no tag that a preset adds is also the target of a preset patch.
\<close>

theorem sync_outbounds_converges:
  assumes "ref_template \<notin> p_id ` set presets"
  shows "(let sync = sync_outbounds re t presets rules in
     sync (sync (sync obs)) = sync (sync obs) \<and>
     ((\<forall>tag \<in> add_tags (rule_entries re t presets rules).
        sp_updates (make_plan re t presets rules) tag = []) \<longrightarrow> sync (sync obs) = sync obs))"
proof -
  let ?P = "make_plan re t presets rules" and ?s = "sync_outbounds re t presets rules"
  note ok = plan_ok_make_plan[of presets re t rules]
  obtain E where E: "?s obs = pass ?P obs @ E"
    "\<forall>ob \<in> set E. oc_tag ob \<in> dom (sp_adds ?P) \<and> oc_updates ob = []"
    "?s (?s obs) = pass ?P obs @ map (\<lambda>ob. ob\<lparr>oc_updates := sync_updates ?P (oc_tag ob) []\<rparr>) E"
    "?s (?s obs) = pass ?P (?s obs)"
    "add_tags (rule_entries re t presets rules) \<subseteq> oc_tag ` set (?s (?s obs))"
    using sync_twice[OF assms, of re t rules obs] by blast
  have "pass ?P (?s (?s obs)) = ?s (?s obs)" using E(4) pass_idem[OF ok assms] by simp
  with sync_is_pass[OF E(5)] have conv: "?s (?s (?s obs)) = ?s (?s obs)" by simp
  have "?s (?s obs) = ?s obs"
    if none: "\<forall>tag \<in> add_tags (rule_entries re t presets rules). sp_updates ?P tag = []"
  proof -
    have "ob\<lparr>oc_updates := sync_updates ?P (oc_tag ob) []\<rparr> = ob" if "ob \<in> set E" for ob
    proof -
      from E(2) that have "oc_tag ob \<in> dom (sp_adds ?P)" "oc_updates ob = []" by blast+
      with none have "sync_updates ?P (oc_tag ob) [] = oc_updates ob"
        by (simp add: dom_adds_make_plan sync_updates_def reorder_updates_def)
      then show ?thesis by simp
    qed
    then have "map (\<lambda>ob. ob\<lparr>oc_updates := sync_updates ?P (oc_tag ob) []\<rparr>) E = E"
      by (rule map_idI)
    with E(1,3) show ?thesis by simp
  qed
  with conv show ?thesis by (simp add: Let_def)
qed

text \<open>Two presets: one adds an outbound, the other patches it.\<close>

definition plain_preset :: "string \<Rightarrow> preset_outbound list \<Rightarrow> preset" where
  "plain_preset i obs =
     \<lparr>p_id = i, p_label = i, p_description = [], p_default_enabled = False, p_platforms = [],
      p_vars = [], p_rule_set = [], p_dns_servers = [], p_rules = [], p_dns_rule = None,
      p_dns_rules = [], p_outbounds = obs\<rparr>"

definition plain_outbound :: "string \<Rightarrow> string \<Rightarrow> string \<Rightarrow> preset_outbound" where
  "plain_outbound mode tag comment =
     \<lparr>po_mode = mode, po_tag = tag, po_type = (if mode = ''add'' then ''urltest'' else []),
      po_options = [], po_filters = [], po_add = [], po_preferred = [], po_comment = comment,
      po_wizard = JNull, po_if = [], po_if_or = []\<rparr>"

definition preset_rule :: "string \<Rightarrow> bool \<Rightarrow> rule" where
  "preset_rule i en = \<lparr>r_kind = RKPreset, r_ref = i, r_enabled = en, r_body = None\<rparr>"

definition two_presets :: "preset list" where
  "two_presets = [plain_preset ''a'' [plain_outbound ''add'' ''vpn'' ''base''],
                  plain_preset ''b'' [plain_outbound ''update'' ''vpn'' ''patched'']]"

theorem sync_outbounds_converges_witness:
  "let sync = sync_outbounds (\<lambda>_ _. None) linux_target two_presets
                [preset_rule ''a'' True, preset_rule ''b'' True]
   in sync (sync (sync [])) = sync (sync []) \<and> length (sync []) = 1"
proof -
  let ?rs = "[preset_rule ''a'' True, preset_rule ''b'' True]"
  have "ref_template \<notin> p_id ` set two_presets" by code_simp
  from sync_outbounds_converges[OF this, of "\<lambda>_ _. None" linux_target ?rs "[]"]
  have "let sync = sync_outbounds (\<lambda>_ _. None) linux_target two_presets ?rs
        in sync (sync (sync [])) = sync (sync [])" by (simp add: Let_def)
  moreover have "length (sync_outbounds (\<lambda>_ _. None) linux_target two_presets ?rs []) = 1" by code_simp
  ultimately show ?thesis by (simp add: Let_def)
qed

text \<open>
  Synchronisation is not idempotent, although its comment says so: the entry that one preset
  adds is appended without the patch another enabled preset has for it, so a build right after
  the presets are enabled misses the patch, and the next run brings it.
\<close>

theorem sync_outbounds_not_idempotent:
  "let sync = sync_outbounds (\<lambda>_ _. None) linux_target two_presets
                [preset_rule ''a'' True, preset_rule ''b'' True];
       body = (\<lambda>obs. map oc_comment (merge_outbound_updates_in_place (\<lambda>_ _. None)
                 (Some \<lparr>td_outbounds = [], td_presets = two_presets\<rparr>) linux_target obs))
   in body (sync []) = [''base''] \<and> body (sync (sync [])) = [''patched'']"
  by code_simp

text \<open>
  Every stack that synchronisation leaves is what the resolver needs: the patches of enabled
  presets in rule order, each at most once, and then at most one patch of the user. An entry that
  names a preset has a tag that an enabled preset adds.
\<close>

theorem sync_stacks_ordered:
  "list_all (\<lambda>ob. (\<exists>ps. oc_updates ob = ps @ user_slot (oc_updates ob) \<and>
        subseq (map ou_ref ps) (sp_active (make_plan re t presets rules))) \<and>
      (oc_ref ob = [] \<or> oc_ref ob = ref_template \<or>
       oc_tag ob \<in> add_tags (rule_entries re t presets rules)))
     (sync_outbounds re t presets rules obs)"
proof -
  let ?P = "make_plan re t presets rules" and ?T = "add_tags (rule_entries re t presets rules)"
  let ?ok = "\<lambda>ob. (\<exists>ps. oc_updates ob = ps @ user_slot (oc_updates ob) \<and>
        subseq (map ou_ref ps) (sp_active ?P)) \<and>
      (oc_ref ob = [] \<or> oc_ref ob = ref_template \<or> oc_tag ob \<in> ?T)"
  obtain E where E: "sync_outbounds re t presets rules obs = pass ?P obs @ E"
    "\<And>ob. ob \<in> set E \<Longrightarrow> oc_tag ob \<in> ?T \<and> oc_tag ob \<notin> oc_tag ` set (pass ?P obs) \<and>
       (\<exists>p \<in> set presets. p_id p \<noteq> [] \<and> ob = thin_entry (oc_tag ob) (p_id p))"
    using sync_outbounds_shape[of re t presets rules obs] by metis
  have "?ok ob" if "ob \<in> set E" for ob
  proof -
    have "oc_updates ob = []"
      using E(2)[OF that] by (metis thin_entry_def outbound_config.select_convs(10))
    then show ?thesis using E(2)[OF that] by (simp add: user_slot_def)
  qed
  moreover have "?ok ob" if "ob \<in> set (pass ?P obs)" for ob
  proof -
    from that obtain ob0 b where s: "sync_existing ?P ob0 = Some (ob, b)"
      by (auto simp: pass_def set_map_filter)
    then obtain x where x: "rebind ?P ob0 = Some (x, b)"
      and ob: "ob = x\<lparr>oc_updates := sync_updates ?P (oc_tag x) (oc_updates x)\<rparr>"
      by (auto simp: sync_existing_def split: option.splits)
    have "oc_ref x = [] \<or> oc_ref x = ref_template \<or> sp_adds ?P (oc_tag x) \<noteq> None"
      using x by (auto simp: rebind_def split: if_splits option.splits)
    then have "oc_ref ob = [] \<or> oc_ref ob = ref_template \<or> oc_tag ob \<in> ?T"
      unfolding ob dom_adds_make_plan[symmetric] by auto
    with sync_updates_shape[OF plan_ok_make_plan, of re t presets rules "oc_tag x" "oc_updates x"]
    show ?thesis by (simp add: ob)
  qed
  ultimately show ?thesis unfolding E(1) list_all_iff by auto
qed

text \<open>
  The user's work survives synchronisation: an entry that is the user's own, a template's, or
  that some enabled preset adds is still there with its tag, the user's patch on it is the same,
  the user's own entry keeps every field but the stack (unless a preset takes its tag over), and
  an entry with a reference keeps everything but its thin body.
\<close>

theorem sync_keeps_user_work:
  assumes "ref_user \<notin> p_id ` set presets" "ob \<in> set obs"
    and "oc_ref ob = [] \<or> oc_ref ob = ref_template \<or> oc_tag ob \<in> add_tags (rule_entries re t presets rules)"
  shows "list_ex (\<lambda>ob'. oc_tag ob' = oc_tag ob \<and>
       user_slot (oc_updates ob') = user_slot (oc_updates ob) \<and>
       (oc_ref ob = [] \<and> oc_tag ob \<notin> add_tags (rule_entries re t presets rules) \<longrightarrow>
          ob' = ob\<lparr>oc_updates := oc_updates ob'\<rparr>) \<and>
       (oc_ref ob \<noteq> [] \<longrightarrow> ob' = (strip_referenced_body ob)\<lparr>oc_updates := oc_updates ob'\<rparr>))
     (sync_outbounds re t presets rules obs)"
proof -
  let ?P = "make_plan re t presets rules" and ?T = "add_tags (rule_entries re t presets rules)"
  note ok = plan_ok_make_plan[of presets re t rules]
  have d: "oc_tag ob \<in> ?T \<longleftrightarrow> sp_adds ?P (oc_tag ob) \<noteq> None"
    unfolding dom_adds_make_plan[symmetric] by auto
  obtain x b where x: "rebind ?P ob = Some (x, b)" "oc_tag x = oc_tag ob" "oc_updates x = oc_updates ob"
      "oc_ref ob = [] \<and> oc_tag ob \<notin> ?T \<longrightarrow> x = ob" "oc_ref ob \<noteq> [] \<longrightarrow> x = strip_referenced_body ob"
  proof (cases "oc_ref ob = []")
    case True
    then show ?thesis using that d
      by (cases "sp_adds ?P (oc_tag ob)") (auto simp: rebind_def ref_template_def)
  next
    case False
    with assms(3) d have "rebind ?P ob = Some (strip_referenced_body ob, oc_ref ob \<noteq> ref_template)"
      by (auto simp: rebind_def)
    then show ?thesis using that False by simp
  qed
  define ob' where "ob' = x\<lparr>oc_updates := sync_updates ?P (oc_tag x) (oc_updates x)\<rparr>"
  have "sync_existing ?P ob = Some (ob', b)" using x(1) by (simp add: sync_existing_def ob'_def)
  with assms(2) have "ob' \<in> set (pass ?P obs)" by (force simp: pass_def set_map_filter)
  then have "ob' \<in> set (sync_outbounds re t presets rules obs)"
    using sync_outbounds_shape[of re t presets rules obs] by (metis Un_iff set_append)
  moreover have "user_slot (oc_updates ob') = user_slot (oc_updates ob)"
    using user_slot_sync[OF ok assms(1)] x(3) by (simp add: ob'_def)
  ultimately show ?thesis
    using x unfolding list_ex_iff by (intro bexI[of _ ob']) (auto simp: ob'_def)
qed

theorem sync_keeps_user_work_witness:
  "list_ex (\<lambda>ob'. oc_tag ob' = ''mine'' \<and> oc_add ob' = [''x''] \<and> map ou_ref (oc_updates ob') = [ref_user])
     (sync_outbounds (\<lambda>_ _. None) linux_target two_presets [preset_rule ''a'' True]
        [(sample_outbound ''mine'' [''x''] [] [])
           \<lparr>oc_ref := [], oc_updates := [\<lparr>ou_ref = ref_user, ou_patch = []\<rparr>]\<rparr>])"
proof -
  let ?ob = "(sample_outbound ''mine'' [''x''] [] [])
     \<lparr>oc_ref := [], oc_updates := [\<lparr>ou_ref = ref_user, ou_patch = []\<rparr>]\<rparr>"
  have u: "ref_user \<notin> p_id ` set two_presets" by code_simp
  have "list_ex (\<lambda>ob'. oc_tag ob' = oc_tag ?ob \<and>
       user_slot (oc_updates ob') = user_slot (oc_updates ?ob) \<and> True)
     (sync_outbounds (\<lambda>_ _. None) linux_target two_presets [preset_rule ''a'' True] [?ob])"
    using sync_keeps_user_work[OF u, of ?ob "[?ob]" "\<lambda>_ _. None" linux_target "[preset_rule ''a'' True]"]
    by (auto simp: list_ex_iff)
  moreover have "sync_outbounds (\<lambda>_ _. None) linux_target two_presets [preset_rule ''a'' True] [?ob] =
      [?ob, thin_entry ''vpn'' ''a'']" by code_simp
  ultimately show ?thesis by (simp add: sample_outbound_def thin_entry_def user_slot_def ref_user_def)
qed

text \<open>
  A stored preset patch is frozen: as long as its preset stays enabled, synchronisation keeps
  the patch in the stack, whatever the preset would contribute now, so a change of the preset's
  variables or of the template does not reach an entry that carries a patch of it already.
\<close>

theorem sync_never_refreshes_patch:
  assumes "updates_by_ref (oc_updates ob) r = Some u"
    and "map_of (sp_updates P (oc_tag ob)) r \<noteq> None"
    and "sync_existing P ob = Some (ob', b)" "distinct (sp_active P)"
  shows "updates_by_ref (oc_updates ob') r = Some u"
proof -
  let ?E = "sp_updates P (oc_tag ob)" and ?us = "oc_updates ob"
  let ?kept = "filter (\<lambda>u. ou_ref u = ref_user \<or> map_of ?E (ou_ref u) \<noteq> None) ?us"
  let ?missing = "map snd (filter (\<lambda>(r, u). r \<notin> set (map ou_ref ?kept)) ?E)"
  have "oc_updates ob' = reorder_updates (?kept @ ?missing) (sp_active P)"
    using assms(3) by (auto simp: sync_existing_def rebind_def sync_updates_def Let_def
        split: if_splits option.splits)
  then have "updates_by_ref (oc_updates ob') = updates_by_ref (?kept @ ?missing)"
    by (simp only: updates_by_ref_reorder[OF assms(4)])
  moreover have "updates_by_ref (?kept @ ms) r = Some u" for ms
  proof -
    have "map_of (map (\<lambda>u. (ou_ref u, u)) (filter (\<lambda>u. ou_ref u \<noteq> ref_user)
            (filter (\<lambda>u. ou_ref u = ref_user \<or> map_of ?E (ou_ref u) \<noteq> None) us))) r = Some u"
      if "map_of (map (\<lambda>u. (ou_ref u, u)) (filter (\<lambda>u. ou_ref u \<noteq> ref_user) us)) r = Some u" for us
      using that assms(2) by (induction us) (auto split: if_splits)
    then show ?thesis
      using assms(1) by (simp add: updates_by_ref_def map_add_Some_iff)
  qed
  ultimately show ?thesis by simp
qed

theorem sync_never_refreshes_patch_witness:
  "let ob = (sample_outbound ''vpn'' [] [] [])
              \<lparr>oc_ref := ''a'', oc_updates := [\<lparr>ou_ref = ''b'', ou_patch = [(''comment'', JStr ''old'')]\<rparr>]\<rparr>;
       P = make_plan (\<lambda>_ _. None) linux_target two_presets [preset_rule ''a'' True, preset_rule ''b'' True]
   in map_option (\<lambda>u. map_of (ou_patch u) ''comment'') (map_of (sp_updates P ''vpn'') ''b'')
        = Some (Some (JStr ''patched'')) \<and>
      Option.bind (sync_existing P ob) (\<lambda>x. updates_by_ref (oc_updates (fst x)) ''b'')
        = Some \<lparr>ou_ref = ''b'', ou_patch = [(''comment'', JStr ''old'')]\<rparr>"
proof -
  let ?u = "\<lparr>ou_ref = ''b'', ou_patch = [(''comment'', JStr ''old'')]\<rparr>"
  let ?ob = "(sample_outbound ''vpn'' [] [] [])\<lparr>oc_ref := ''a'', oc_updates := [?u]\<rparr>"
  let ?P = "make_plan (\<lambda>_ _. None) linux_target two_presets [preset_rule ''a'' True, preset_rule ''b'' True]"
  have v: "map_option (\<lambda>u. map_of (ou_patch u) ''comment'') (map_of (sp_updates ?P ''vpn'') ''b'')
        = Some (Some (JStr ''patched''))" by code_simp
  have a: "updates_by_ref (oc_updates ?ob) ''b'' = Some ?u" by code_simp
  have t: "oc_tag ?ob = ''vpn''" by (simp add: sample_outbound_def)
  have b: "map_of (sp_updates ?P (oc_tag ?ob)) ''b'' \<noteq> None"
    unfolding t using v by (cases "map_of (sp_updates ?P ''vpn'') ''b''") auto
  have c: "distinct (sp_active ?P)" by code_simp
  have "sync_existing ?P ?ob \<noteq> None" by code_simp
  then obtain ob' f where d: "sync_existing ?P ?ob = Some (ob', f)" by auto
  from sync_never_refreshes_patch[OF a b d c] v d show ?thesis by (simp add: Let_def)
qed

text \<open>
  An entry outlives its preset when another preset adds the same tag: the pass asks only
  whether the tag is expected, not whether the entry's own preset is enabled, so the entry keeps
  the reference, and the body, of a preset the user has switched off.
\<close>

theorem disabled_preset_entry_survives:
  "let presets = [plain_preset ''a'' [plain_outbound ''add'' ''vpn'' ''of a''],
                  plain_preset ''b'' [plain_outbound ''add'' ''vpn'' ''of b'']];
       sync = (\<lambda>a b. sync_outbounds (\<lambda>_ _. None) linux_target presets
                       [preset_rule ''a'' a, preset_rule ''b'' b]);
       body = (\<lambda>obs. map oc_comment (merge_outbound_updates_in_place (\<lambda>_ _. None)
                 (Some \<lparr>td_outbounds = [], td_presets = presets\<rparr>) linux_target obs))
   in body (sync False True (sync True False [])) = [''of a''] \<and> body (sync False True []) = [''of b'']"
  by code_simp

end
