(* ===== verification/Process.thy ===== *)
theory Process
  imports Prelude
begin

text \<open>
  The sing-box process: \<open>core/process_service.go\<close> and \<open>core/crash_handler.go\<close>. The state is
  what the controller's mutex guards, together with the processes that are alive and the
  goroutines that are pending; a step is one critical section, or one action between two of them,
  so every interleaving of the code's goroutines is a sequence of steps. What the platform
  answers (a check, a start, a kill) is an argument of the step. Dialogs, logs, the adapter
  clean-up and the proxy loading are left out; the configuration rebuild, whose failure is
  ignored, belongs to another component.
\<close>

section \<open>The crash decision\<close>

datatype crash_action =
    ActionStoppedByUser | ActionUserRestart | ActionCrashRestart | ActionMaxAttempts | ActionClean

definition restart_attempts :: nat where "restart_attempts = 3"

definition decide_crash_action :: "bool \<Rightarrow> bool \<Rightarrow> bool \<Rightarrow> nat \<Rightarrow> nat \<Rightarrow> crash_action \<times> nat" where
  "decide_crash_action stopped restart clean n max_n =
     (if stopped then (ActionStoppedByUser, 0)
      else if restart then (ActionUserRestart, 0)
      else if clean then (ActionClean, 0)
      else (let inc = n + 1 in
            if inc > max_n then (ActionMaxAttempts, 0) else (ActionCrashRestart, inc)))"

section \<open>State and goroutines\<close>

type_synonym pid = nat

record svc =
  running :: bool
  cmd :: "pid option"
  stopped_by_user :: bool
  restart_requested :: bool
  attempts :: nat
  priv_mode :: bool
  priv_pid :: pid
  priv_singbox_pid :: pid
  priv_pid_file :: string
  auto_update_failed :: nat
  alive :: "pid list"
  next_pid :: pid

text \<open>Why a start runs: nobody waits for it, the Restart button does, or a crash handler does.\<close>

datatype start_kind = ByUser | AfterRestart | AfterCrash

text \<open>A pending goroutine, or the rest of one, by the next thing it does.\<close>

datatype thread =
    TMonitor pid
  | TRestart start_kind
  | TStart start_kind
  | TAfterCrash
  | TStability nat
  | TPrivStarted pid pid
  | TPrivWait pid
  | TSignal pid bool
  | TWatchdog pid
  | TKillPriv pid bool
  | TStopClear bool

text \<open>What the platform answers while a start runs.\<close>

record start_env =
  caps_ok :: bool
  darwin :: bool
  has_tun :: bool
  script_written :: bool
  spawned :: bool

definition kill_pid :: "pid \<Rightarrow> svc \<Rightarrow> svc" where
  "kill_pid p s = s\<lparr>alive := filter (\<lambda>q. q \<noteq> p) (alive s)\<rparr>"

section \<open>\<open>Start\<close>\<close>

text \<open>The unlocked part: both checks, then the goroutine waits for the mutex.\<close>

definition start_call :: "bool \<Rightarrow> bool \<Rightarrow> start_kind \<Rightarrow> svc \<Rightarrow> svc \<times> thread list" where
  "start_call skip found k s =
     (if running s then (s, if k = AfterCrash then [TAfterCrash] else [])
      else if \<not> skip \<and> found then (s, [])
      else (s, [TStart k]))"

text \<open>
  \<open>startSingBoxPrivileged\<close>: the script and sing-box come up as two processes; the state is only
  updated by the goroutine that waited for them, after \<open>Start\<close> has released the mutex.
\<close>

definition start_privileged :: "start_env \<Rightarrow> svc \<Rightarrow> svc \<times> thread list" where
  "start_privileged e s =
     (if \<not> script_written e \<or> \<not> spawned e then (s, [])
      else (s\<lparr>alive := next_pid s # alive s, next_pid := next_pid s + 2\<rparr>,
            [TPrivStarted (next_pid s) (next_pid s + 1)]))"

definition priv_started :: "pid \<Rightarrow> pid \<Rightarrow> svc \<Rightarrow> svc \<times> thread list" where
  "priv_started script singbox s =
     (s\<lparr>cmd := None, priv_mode := True, priv_pid := script, priv_singbox_pid := singbox,
        priv_pid_file := ''pidfile'', running := True, stopped_by_user := False,
        auto_update_failed := 0\<rparr>, [TPrivWait script])"

text \<open>The locked part, with the second check that loses the race of two starts.\<close>

definition start_locked :: "start_env \<Rightarrow> svc \<Rightarrow> svc \<times> thread list" where
  "start_locked e s =
     (if running s then (s, [])
      else if \<not> caps_ok e then (s, [])
      else if darwin e \<and> has_tun e then start_privileged e s
      else if \<not> spawned e then (s\<lparr>cmd := None\<rparr>, [])
      else (s\<lparr>cmd := Some (next_pid s), running := True, stopped_by_user := False,
              auto_update_failed := 0, alive := next_pid s # alive s, next_pid := next_pid s + 1\<rparr>,
            [TMonitor (next_pid s)]))"

definition start_section :: "start_env \<Rightarrow> start_kind \<Rightarrow> svc \<Rightarrow> svc \<times> thread list" where
  "start_section e k s =
     (let (s', ts) = start_locked e s in (s', ts @ (if k = AfterCrash then [TAfterCrash] else [])))"

section \<open>\<open>Monitor\<close>, the privileged exit, and the stability timer\<close>

definition monitor :: "pid \<Rightarrow> bool \<Rightarrow> svc \<Rightarrow> svc \<times> thread list" where
  "monitor p clean s =
     (if cmd s \<noteq> Some p then (s, [])
      else
        (let (action, n) = decide_crash_action (stopped_by_user s) (restart_requested s) clean
                             (attempts s) restart_attempts in
         case action of
           ActionStoppedByUser \<Rightarrow>
             (s\<lparr>attempts := n, running := False, stopped_by_user := False\<rparr>, [])
         | ActionUserRestart \<Rightarrow>
             (s\<lparr>restart_requested := False, running := False, attempts := n\<rparr>, [TRestart AfterRestart])
         | ActionClean \<Rightarrow> (s\<lparr>attempts := n, running := False\<rparr>, [])
         | ActionMaxAttempts \<Rightarrow> (s\<lparr>running := False, attempts := n\<rparr>, [])
         | ActionCrashRestart \<Rightarrow> (s\<lparr>running := False, attempts := n\<rparr>, [TRestart AfterCrash])))"

definition on_privileged_script_exited :: "svc \<Rightarrow> svc \<times> thread list" where
  "on_privileged_script_exited s0 =
     (if \<not> priv_mode s0 then (s0, [])
      else
        (let s = s0\<lparr>priv_mode := False, priv_pid := 0, priv_singbox_pid := 0, priv_pid_file := [],
                    running := False\<rparr>;
             (action, n) = decide_crash_action (stopped_by_user s) (restart_requested s) False
                             (attempts s) restart_attempts;
             s = s\<lparr>attempts := n\<rparr> in
         case action of
           ActionStoppedByUser \<Rightarrow> (s\<lparr>stopped_by_user := False\<rparr>, [])
         | ActionUserRestart \<Rightarrow> (s\<lparr>restart_requested := False\<rparr>, [TRestart AfterRestart])
         | ActionMaxAttempts \<Rightarrow> (s, [])
         | _ \<Rightarrow> (s, [TRestart AfterCrash])))"

definition after_crash :: "svc \<Rightarrow> svc \<times> thread list" where
  "after_crash s = (s, if running s then [TStability (attempts s)] else [])"

definition stability :: "nat \<Rightarrow> svc \<Rightarrow> svc \<times> thread list" where
  "stability n s = (if running s \<and> attempts s = n then s\<lparr>attempts := 0\<rparr> else s, [])"

section \<open>\<open>Stop\<close> and \<open>KillForRestart\<close>\<close>

definition priv_tracked :: "svc \<Rightarrow> bool" where
  "priv_tracked s \<longleftrightarrow> priv_mode s \<and> priv_pid s \<noteq> 0 \<and> priv_pid_file s \<noteq> []"

definition stop :: "svc \<Rightarrow> svc \<times> thread list" where
  "stop s0 =
     (let s = s0\<lparr>stopped_by_user := True, attempts := 0\<rparr> in
      if \<not> running s then (s\<lparr>stopped_by_user := False\<rparr>, [])
      else if priv_tracked s then (s, [TKillPriv (priv_pid s) True])
      else (case cmd s of
              None \<Rightarrow> (s\<lparr>running := False, stopped_by_user := False\<rparr>, [])
            | Some p \<Rightarrow> (s, [TSignal p True])))"

definition stop_clear :: "bool \<Rightarrow> svc \<Rightarrow> svc \<times> thread list" where
  "stop_clear killed s =
     (if \<not> killed then (s\<lparr>stopped_by_user := False\<rparr>, [])
      else (s\<lparr>priv_mode := False, priv_pid := 0, priv_singbox_pid := 0, priv_pid_file := [],
              running := False, stopped_by_user := False\<rparr>, []))"

definition kill_for_restart :: "svc \<Rightarrow> svc \<times> thread list" where
  "kill_for_restart s0 =
     (if \<not> running s0 then (s0, [])
      else
        (let s = s0\<lparr>restart_requested := True\<rparr> in
         if priv_tracked s then (s, [TKillPriv (priv_pid s) False])
         else (case cmd s of None \<Rightarrow> (s, []) | Some p \<Rightarrow> (s, [TSignal p False]))))"

text \<open>
  The signal: when it cannot be sent the process is killed at once (which may fail), and a stop
  also arms a watchdog when it could be sent. The process itself exits whenever it does.
\<close>

definition send_signal :: "pid \<Rightarrow> bool \<Rightarrow> bool \<Rightarrow> bool \<Rightarrow> svc \<Rightarrow> svc \<times> thread list" where
  "send_signal p from_stop sent killed s =
     (if sent then (s, if from_stop then [TWatchdog p] else [])
      else (if killed then kill_pid p s else s, []))"

definition kill_priv :: "pid \<Rightarrow> bool \<Rightarrow> bool \<Rightarrow> svc \<Rightarrow> svc \<times> thread list" where
  "kill_priv p from_stop killed s =
     (if killed then kill_pid p s else s, if from_stop then [TStopClear killed] else [])"

section \<open>Steps\<close>

text \<open>What the platform answers to the step a goroutine takes.\<close>

record answers =
  an_start :: start_env
  an_clean :: bool
  an_sent :: bool
  an_killed :: bool

text \<open>A goroutine that waits for a process takes its step only once the process is gone.\<close>

definition ready :: "thread \<Rightarrow> svc \<Rightarrow> bool" where
  "ready t s \<longleftrightarrow> (case t of TMonitor p \<Rightarrow> p \<notin> set (alive s) | TPrivWait p \<Rightarrow> p \<notin> set (alive s) | _ \<Rightarrow> True)"

definition run_thread :: "answers \<Rightarrow> thread \<Rightarrow> svc \<Rightarrow> svc \<times> thread list" where
  "run_thread a t s =
     (case t of
        TMonitor p \<Rightarrow> monitor p (an_clean a) s
      | TRestart k \<Rightarrow> start_call True False k s
      | TStart k \<Rightarrow> start_section (an_start a) k s
      | TAfterCrash \<Rightarrow> after_crash s
      | TStability n \<Rightarrow> stability n s
      | TPrivStarted p q \<Rightarrow> priv_started p q s
      | TPrivWait p \<Rightarrow> on_privileged_script_exited s
      | TSignal p from_stop \<Rightarrow> send_signal p from_stop (an_sent a) (an_killed a) s
      | TWatchdog p \<Rightarrow> (if an_killed a then kill_pid p s else s, [])
      | TKillPriv p from_stop \<Rightarrow> kill_priv p from_stop (an_killed a) s
      | TStopClear killed \<Rightarrow> stop_clear killed s)"

datatype user_event = UStart bool | UStop | URestart | UDialogKill "pid list"

text \<open>
  The dialog over a foreign instance kills every process of the name, the launcher's own among
  them, and declares the core stopped, whatever withstood the kill.
\<close>

definition dialog_kill :: "pid list \<Rightarrow> svc \<Rightarrow> svc \<times> thread list" where
  "dialog_kill survivors s =
     (s\<lparr>alive := filter (\<lambda>p. p \<in> set survivors) (alive s), running := False\<rparr>, [])"

definition user_call :: "user_event \<Rightarrow> svc \<Rightarrow> svc \<times> thread list" where
  "user_call u s =
     (case u of
        UStart found \<Rightarrow> start_call False found ByUser s
      | UStop \<Rightarrow> stop s
      | URestart \<Rightarrow> kill_for_restart s
      | UDialogKill ps \<Rightarrow> dialog_kill ps s)"

datatype label = LUser user_event | LThread thread answers | LExit pid

type_synonym config = "svc \<times> thread list"

text \<open>One step, as a function (\<open>None\<close> when it is not possible) and as a relation.\<close>

definition exec_label :: "label \<Rightarrow> config \<Rightarrow> config option" where
  "exec_label l c =
     (let (s, ts) = c in
      case l of
        LUser u \<Rightarrow> (let (s', new) = user_call u s in Some (s', ts @ new))
      | LThread t a \<Rightarrow>
          (if t \<in> set ts \<and> ready t s
           then (let (s', new) = run_thread a t s in Some (s', remove1 t ts @ new)) else None)
      | LExit p \<Rightarrow> (if p \<in> set (alive s) then Some (kill_pid p s, ts) else None))"

fun exec_labels :: "label list \<Rightarrow> config \<Rightarrow> config option" where
  "exec_labels [] c = Some c"
| "exec_labels (l # ls) c = (case exec_label l c of None \<Rightarrow> None | Some c' \<Rightarrow> exec_labels ls c')"

inductive step :: "config \<Rightarrow> label \<Rightarrow> config \<Rightarrow> bool" where
  user: "user_call u s = (s', new) \<Longrightarrow> step (s, ts) (LUser u) (s', ts @ new)"
| thread: "t \<in> set ts \<Longrightarrow> ready t s \<Longrightarrow> run_thread a t s = (s', new) \<Longrightarrow>
    step (s, ts) (LThread t a) (s', remove1 t ts @ new)"
| exit: "p \<in> set (alive s) \<Longrightarrow> step (s, ts) (LExit p) (kill_pid p s, ts)"

inductive_cases stepE: "step c l c'"

definition initial :: config where
  "initial =
     (\<lparr>running = False, cmd = None, stopped_by_user = False, restart_requested = False, attempts = 0,
       priv_mode = False, priv_pid = 0, priv_singbox_pid = 0, priv_pid_file = [],
       auto_update_failed = 0, alive = [], next_pid = 1\<rparr>, [])"

text \<open>Configurations reachable by steps whose labels all satisfy a condition.\<close>

inductive reach :: "(label \<Rightarrow> bool) \<Rightarrow> config \<Rightarrow> bool" for ok where
  init: "reach ok initial"
| step: "reach ok c \<Longrightarrow> step c l c' \<Longrightarrow> ok l \<Longrightarrow> reach ok c'"

lemma exec_label_step: "exec_label l c = Some c' \<longleftrightarrow> step c l c'"
  by (cases c; cases l)
    (auto simp: exec_label_def split: prod.splits if_splits intro: step.intros elim!: stepE)

lemma exec_labels_reach:
  "exec_labels ls c = Some c' \<Longrightarrow> reach ok c \<Longrightarrow> list_all ok ls \<Longrightarrow> reach ok c'"
  by (induction ls arbitrary: c)
    (auto split: option.splits simp: exec_label_step intro: reach.step)

section \<open>Detecting a running instance\<close>

text \<open>\<open>parseCSVLine\<close> over the bytes of a line.\<close>

fun csv_fields :: "bool \<Rightarrow> string \<Rightarrow> string \<Rightarrow> string list \<times> string" where
  "csv_fields q cur [] = ([], cur)"
| "csv_fields q cur (c # cs) =
     (if c = CHR 0x22 then csv_fields (\<not> q) cur cs
      else if c = CHR '','' \<and> \<not> q then
        (let (fs, lst) = csv_fields q [] cs in (cur # fs, lst))
      else csv_fields q (cur @ [c]) cs)"

definition parse_csv_line :: "string \<Rightarrow> string list" where
  "parse_csv_line line =
     (let (fs, lst) = csv_fields False [] line in if lst \<noteq> [] \<or> fs \<noteq> [] then fs @ [lst] else fs)"

definition get_tracked_pid :: "svc \<Rightarrow> int" where
  "get_tracked_pid s =
     (if priv_mode s \<and> priv_pid s \<noteq> 0 then int (priv_pid s)
      else (case cmd s of Some p \<Rightarrow> int p | None \<Rightarrow> -1))"

definition trim_quotes :: "string \<Rightarrow> string" where
  "trim_quotes s =
     rev (dropWhile (\<lambda>c. c = CHR 0x22) (rev (dropWhile (\<lambda>c. c = CHR 0x22) s)))"

text \<open>The scan of \<open>tasklist\<close>'s output: the first line whose name and process id can be read.\<close>

fun scan_tasklist :: "string \<Rightarrow> string list \<Rightarrow> bool \<times> int" where
  "scan_tasklist name [] = (False, -1)"
| "scan_tasklist name (l # ls) =
     (case parse_csv_line (trim_space l) of
        n # p # _ \<Rightarrow>
          (if equal_fold (trim_quotes n) name then
             (case atoi (trim_quotes p) of Some pid \<Rightarrow> (True, pid) | None \<Rightarrow> scan_tasklist name ls)
           else scan_tasklist name ls)
      | _ \<Rightarrow> scan_tasklist name ls)"

definition running_in_tasklist :: "string \<Rightarrow> string \<Rightarrow> bool \<times> int" where
  "running_in_tasklist name output = scan_tasklist name (split_char (CHR 0x0A) output)"

text \<open>\<open>isSingBoxProcessRunningWithPS\<close>; \<open>None\<close> is a failed listing.\<close>

definition running_with_ps :: "string \<Rightarrow> (string \<times> int) list option \<Rightarrow> bool \<times> int" where
  "running_with_ps name procs =
     (case procs of
        None \<Rightarrow> (False, -1)
      | Some ps \<Rightarrow>
          (case find (\<lambda>p. equal_fold (fst p) name) ps of Some p \<Rightarrow> (True, snd p) | None \<Rightarrow> (False, -1)))"

section \<open>Invariants\<close>

lemma kill_pid_frame [simp]:
  "running (kill_pid p s) = running s" "cmd (kill_pid p s) = cmd s"
  "stopped_by_user (kill_pid p s) = stopped_by_user s"
  "restart_requested (kill_pid p s) = restart_requested s" "attempts (kill_pid p s) = attempts s"
  "priv_mode (kill_pid p s) = priv_mode s" "priv_pid (kill_pid p s) = priv_pid s"
  "priv_pid_file (kill_pid p s) = priv_pid_file s" "next_pid (kill_pid p s) = next_pid s"
  "alive (kill_pid p s) = filter (\<lambda>q. q \<noteq> p) (alive s)"
  by (simp_all add: kill_pid_def)

lemma decide_cases:
  obtains "decide_crash_action st rs cl n m = (ActionStoppedByUser, 0)" st
  | "decide_crash_action st rs cl n m = (ActionUserRestart, 0)" "\<not> st" rs
  | "decide_crash_action st rs cl n m = (ActionClean, 0)" "\<not> st" "\<not> rs" cl
  | "decide_crash_action st rs cl n m = (ActionMaxAttempts, 0)" "\<not> st" "\<not> rs" "\<not> cl" "m \<le> n"
  | "decide_crash_action st rs cl n m = (ActionCrashRestart, n + 1)" "\<not> st" "\<not> rs" "\<not> cl" "n < m"
  by (cases st; cases rs; cases cl; cases "m \<le> n") (auto simp: decide_crash_action_def Let_def)

text \<open>A predicate that every user call, goroutine step and exit preserves is an invariant.\<close>

lemma reach_invariant:
  assumes "I initial"
    and "\<And>u s ts s' new. ok (LUser u) \<Longrightarrow> I (s, ts) \<Longrightarrow> user_call u s = (s', new) \<Longrightarrow> I (s', ts @ new)"
    and "\<And>t a s ts s' new. ok (LThread t a) \<Longrightarrow> I (s, ts) \<Longrightarrow> t \<in> set ts \<Longrightarrow> ready t s \<Longrightarrow>
           run_thread a t s = (s', new) \<Longrightarrow> I (s', remove1 t ts @ new)"
    and "\<And>p s ts. I (s, ts) \<Longrightarrow> p \<in> set (alive s) \<Longrightarrow> I (kill_pid p s, ts)"
    and "reach ok c"
  shows "I c"
  using assms(5)
proof induction
  case (step c l c')
  from step(2) show ?case
  proof cases
    case (user u s s' new ts)
    with step(3,4) assms(2) show ?thesis by simp
  next
    case (thread t ts s a s' new)
    with step(3,4) assms(3) show ?thesis by simp
  next
    case (exit p s ts)
    with step(4) assms(4) show ?thesis by simp
  qed
qed (rule assms(1))

text \<open>The bookkeeping of a running core is complete: a process handle or a privileged script.\<close>

definition coherent :: "config \<Rightarrow> bool" where
  "coherent c \<longleftrightarrow>
     (let (s, ts) = c in
      attempts s \<le> restart_attempts \<and> 0 < next_pid s \<and>
      (priv_mode s \<longrightarrow> priv_pid s \<noteq> 0 \<and> priv_pid_file s \<noteq> []) \<and>
      (running s \<longrightarrow> cmd s \<noteq> None \<or> priv_mode s) \<and>
      (\<forall>p q. TPrivStarted p q \<in> set ts \<longrightarrow> p \<noteq> 0))"

lemma coherent_start_locked:
  "coherent (s, ts) \<Longrightarrow> start_locked e s = (s', new) \<Longrightarrow> coherent (s', ts @ new)"
  by (auto simp: coherent_def start_locked_def start_privileged_def split: if_splits)

lemma coherent_monitor:
  "coherent (s, ts) \<Longrightarrow> monitor p cl s = (s', new) \<Longrightarrow> coherent (s', ts @ new)"
  by (cases rule: decide_cases[of "stopped_by_user s" "restart_requested s" cl "attempts s" restart_attempts])
    (auto simp: coherent_def monitor_def split: if_splits)

lemma coherent_priv_exit:
  "coherent (s, ts) \<Longrightarrow> on_privileged_script_exited s = (s', new) \<Longrightarrow> coherent (s', ts @ new)"
  by (cases rule: decide_cases[of "stopped_by_user s" "restart_requested s" False "attempts s" restart_attempts])
    (auto simp: coherent_def on_privileged_script_exited_def Let_def split: if_splits)

lemma coherent_drop: "coherent (s, ts) \<Longrightarrow> coherent (s, remove1 t ts)"
  using set_remove1_subset[of t ts] by (auto simp: coherent_def)

lemma coherent_more: "coherent (s, ts @ new) \<Longrightarrow> (\<forall>p q. TPrivStarted p q \<notin> set x) \<Longrightarrow> coherent (s, ts @ new @ x)"
  by (auto simp: coherent_def)

lemma coherent_thread:
  assumes "coherent (s, ts)" "t \<in> set ts" "run_thread a t s = (s', new)"
  shows "coherent (s', remove1 t ts @ new)"
proof -
  let ?ts = "remove1 t ts"
  have c: "coherent (s, ?ts)" using assms(1) by (rule coherent_drop)
  show ?thesis
  proof (cases t)
    case (TMonitor p)
    with c assms(3) coherent_monitor show ?thesis by (simp add: run_thread_def)
  next
    case (TPrivWait p)
    with c assms(3) coherent_priv_exit show ?thesis by (simp add: run_thread_def)
  next
    case (TStart k)
    then obtain new' where "start_locked (an_start a) s = (s', new')"
      "new = new' @ (if k = AfterCrash then [TAfterCrash] else [])"
      using assms(3) by (auto simp: run_thread_def start_section_def split: prod.splits)
    with coherent_start_locked[OF c] coherent_more show ?thesis by simp
  next
    case (TPrivStarted p q)
    with assms c show ?thesis
      by (auto simp: run_thread_def priv_started_def coherent_def)
  qed (use c assms(3) in \<open>auto simp: run_thread_def start_call_def after_crash_def stability_def
      send_signal_def kill_priv_def stop_clear_def coherent_def split: if_splits\<close>)
qed

lemma reach_coherent: "reach ok c \<Longrightarrow> coherent c"
proof (rule reach_invariant[where I = coherent and ok = ok and c = c], goal_cases)
  case 1
  show ?case by (simp add: coherent_def initial_def)
next
  case (2 u s ts s' new)
  then show ?case
    by (cases u) (auto simp: user_call_def start_call_def stop_def kill_for_restart_def dialog_kill_def
        coherent_def Let_def split: if_splits option.splits)
next
  case (3 t a s ts s' new)
  then show ?case by (intro coherent_thread)
next
  case (4 p s ts)
  then show ?case by (auto simp: coherent_def)
qed

text \<open>
  Steps of a launcher that starts no elevated core (on macOS a configuration with a TUN inbound is
  started elevated) and whose dialog kills what it is meant to kill.
\<close>

definition unelevated :: "label \<Rightarrow> bool" where
  "unelevated l \<longleftrightarrow>
     (case l of
        LUser (UDialogKill survivors) \<Rightarrow> survivors = []
      | LThread t a \<Rightarrow> \<not> (darwin (an_start a) \<and> has_tun (an_start a))
      | _ \<Rightarrow> True)"

definition no_dialog :: "label \<Rightarrow> bool" where
  "no_dialog l \<longleftrightarrow> (case l of LUser (UDialogKill survivors) \<Rightarrow> False | _ \<Rightarrow> True)"

definition priv_thread :: "thread \<Rightarrow> bool" where
  "priv_thread t \<longleftrightarrow> (case t of TPrivStarted p q \<Rightarrow> True | TPrivWait p \<Rightarrow> True | TKillPriv p b \<Rightarrow> True
     | TStopClear b \<Rightarrow> True | _ \<Rightarrow> False)"

definition single :: "config \<Rightarrow> bool" where
  "single c \<longleftrightarrow>
     (let (s, ts) = c in
      \<not> priv_mode s \<and> list_all (\<lambda>t. \<not> priv_thread t) ts \<and>
      length (alive s) \<le> 1 \<and>
      set (alive s) \<subseteq> set_option (cmd s) \<and> (alive s \<noteq> [] \<longrightarrow> running s) \<and>
      (running s \<longrightarrow> (\<exists>p. cmd s = Some p \<and> TMonitor p \<in> set ts)))"

lemma single_alive_Nil: "single (s, ts) \<Longrightarrow> \<not> running s \<Longrightarrow> alive s = []"
  by (cases "alive s") (auto simp: single_def)

lemma list_all_remove1: "list_all P xs \<Longrightarrow> list_all P (remove1 x xs)"
  using set_remove1_subset[of x xs] by (auto simp: list_all_iff)

lemma single_drop:
  assumes "single (s, ts)" "\<And>p. t \<noteq> TMonitor p"
  shows "single (s, remove1 t ts)"
proof -
  have "TMonitor p \<in> set (remove1 t ts) \<longleftrightarrow> TMonitor p \<in> set ts" for p
    using assms(2)[of p] by (metis in_set_remove1)
  with assms(1) show ?thesis by (simp add: single_def list_all_remove1)
qed

lemma single_start_locked:
  assumes "single (s, ts)" "\<not> (darwin e \<and> has_tun e)" "start_locked e s = (s', new)"
  shows "single (s', ts @ new)"
proof (cases "running s \<or> \<not> caps_ok e")
  case True
  then have "start_locked e s = (s, [])" unfolding start_locked_def by metis
  with assms show ?thesis by simp
next
  case False
  then have a: "alive s = []" using single_alive_Nil[OF assms(1)] by blast
  show ?thesis
  proof (cases "spawned e")
    case True
    have "s' = s\<lparr>cmd := Some (next_pid s), running := True, stopped_by_user := False,
              auto_update_failed := 0, alive := next_pid s # alive s, next_pid := next_pid s + 1\<rparr>"
      "new = [TMonitor (next_pid s)]"
      using assms(2,3) False True by (auto simp: start_locked_def)
    with assms(1) a show ?thesis by (simp add: single_def priv_thread_def)
  next
    case nospawn: False
    have "s' = s\<lparr>cmd := None\<rparr>" "new = []"
      using assms(2,3) False nospawn by (auto simp: start_locked_def)
    with assms(1) a False show ?thesis by (simp add: single_def)
  qed
qed

lemma single_monitor:
  assumes "single (s, ts)" "p \<notin> set (alive s)" "monitor p cl s = (s', new)"
  shows "single (s', remove1 (TMonitor p) ts @ new)"
proof (cases "cmd s = Some p")
  case False
  with assms(3) have "s' = s" "new = []" by (auto simp: monitor_def)
  with assms(1) False show ?thesis by (auto simp: single_def list_all_remove1 in_set_remove1)
next
  case True
  then have "alive s = []" using assms(1,2) by (cases "alive s") (auto simp: single_def)
  with assms True show ?thesis
    by (cases rule: decide_cases[of "stopped_by_user s" "restart_requested s" cl "attempts s" restart_attempts])
      (auto simp: single_def monitor_def list_all_remove1 priv_thread_def)
qed

lemma single_kill: "single (s, ts) \<Longrightarrow> single (kill_pid p s, ts)"
  using order_trans[OF length_filter_le, of "alive s" 1 "\<lambda>q. q \<noteq> p"]
  by (auto simp: single_def filter_empty_conv)

lemma single_add: "single (s, ts) \<Longrightarrow> \<not> priv_thread t \<Longrightarrow> single (s, ts @ [t])"
  by (auto simp: single_def)

lemma single_attempts [simp]: "single (s\<lparr>attempts := n\<rparr>, ts) = single (s, ts)"
  by (simp add: single_def)

lemma single_thread:
  assumes "single (s, ts)" "t \<in> set ts" "ready t s" "run_thread a t s = (s', new)"
    and "\<not> (darwin (an_start a) \<and> has_tun (an_start a))"
  shows "single (s', remove1 t ts @ new)"
proof (cases "\<exists>p. t = TMonitor p")
  case True
  with assms single_monitor show ?thesis by (auto simp: run_thread_def ready_def)
next
  case False
  let ?ts = "remove1 t ts"
  have c: "single (s, ?ts)" using assms(1) False by (intro single_drop) auto
  have np: "\<not> priv_thread t" using assms(1,2) by (auto simp: single_def list_all_iff)
  show ?thesis
  proof (cases t)
    case (TStart k)
    then obtain new' where "start_locked (an_start a) s = (s', new')"
      "new = new' @ (if k = AfterCrash then [TAfterCrash] else [])"
      using assms(4) by (auto simp: run_thread_def start_section_def split: prod.splits)
    with single_start_locked[OF c assms(5)] have "single (s', ?ts @ new')" by blast
    with \<open>new = _\<close> show ?thesis by (auto simp: single_def priv_thread_def)
  qed (use c np False assms(4) in \<open>auto simp: run_thread_def start_call_def after_crash_def stability_def
      send_signal_def split: if_splits intro: single_kill intro!: single_add simp: priv_thread_def\<close>)
qed

lemma reach_single: "reach unelevated c \<Longrightarrow> single c"
proof (rule reach_invariant[where I = single and ok = unelevated and c = c], goal_cases)
  case 1
  show ?case by (simp add: single_def initial_def)
next
  case (2 u s ts s' new)
  then show ?case
    by (cases u) (auto simp: user_call_def start_call_def stop_def kill_for_restart_def dialog_kill_def unelevated_def
        single_def priv_thread_def priv_tracked_def Let_def split: if_splits option.splits)
next
  case (3 t a s ts s' new)
  then show ?case by (intro single_thread[of s ts t a]) (auto simp: unelevated_def)
next
  case (4 p s ts)
  then show ?case by (simp add: single_kill)
qed

text \<open>A stop in effect: nothing but the monitor of the process it is for can end it.\<close>

definition stopping :: "pid \<Rightarrow> config \<Rightarrow> bool" where
  "stopping p c \<longleftrightarrow>
     single c \<and> running (fst c) \<and> stopped_by_user (fst c) \<and> cmd (fst c) = Some p"

definition monitors :: "pid \<Rightarrow> label \<Rightarrow> bool" where
  "monitors p l \<longleftrightarrow> (case l of LThread t a \<Rightarrow> t = TMonitor p | _ \<Rightarrow> False)"

lemma single_step: "single c \<Longrightarrow> step c l c' \<Longrightarrow> unelevated l \<Longrightarrow> single c'"
proof (erule stepE, goal_cases)
  case (1 u s s' new ts)
  then show ?case
    by (cases u) (auto simp: user_call_def start_call_def stop_def kill_for_restart_def dialog_kill_def unelevated_def
        single_def priv_thread_def priv_tracked_def Let_def split: if_splits option.splits)
next
  case (2 t ts s a s' new)
  then show ?case by (auto simp: unelevated_def intro!: single_thread[of s ts t a])
next
  case (3 p s ts)
  then show ?case by (simp add: single_kill)
qed

lemma stopping_user:
  "stopping p (s, ts) \<Longrightarrow> no_dialog (LUser u) \<Longrightarrow> user_call u s = (s', new) \<Longrightarrow>
   running s' \<and> stopped_by_user s' \<and> cmd s' = Some p"
  by (cases u) (auto simp: stopping_def single_def user_call_def start_call_def stop_def
      kill_for_restart_def no_dialog_def priv_tracked_def Let_def split: if_splits)

lemma stopping_thread:
  assumes "stopping p (s, ts)" "t \<in> set ts" "t \<noteq> TMonitor p" "run_thread a t s = (s', new)"
  shows "running s' \<and> stopped_by_user s' \<and> cmd s' = Some p"
proof -
  have s: "running s" "stopped_by_user s" "cmd s = Some p" "\<not> priv_thread t"
    using assms(1,2) by (auto simp: stopping_def single_def list_all_iff)
  show ?thesis
  proof (cases t)
    case (TStart k)
    have "start_locked (an_start a) s = (s, [])" using s(1) by (simp add: start_locked_def)
    with TStart s assms(4) show ?thesis by (auto simp: run_thread_def start_section_def)
  qed (use s assms(3,4) in \<open>auto simp: run_thread_def monitor_def start_call_def after_crash_def
      stability_def send_signal_def priv_thread_def split: if_splits\<close>)
qed

lemma stopping_step:
  assumes "stopping p c" "step c l c'" "unelevated l" "no_dialog l" "\<not> monitors p l"
  shows "stopping p c'"
proof -
  have "running (fst c') \<and> stopped_by_user (fst c') \<and> cmd (fst c') = Some p"
    using assms(2)
  proof cases
    case (user u s s' new ts)
    with assms stopping_user show ?thesis by simp
  next
    case (thread t ts s a s' new)
    with assms(1,5) stopping_thread[of p s ts t a s' new] show ?thesis by (simp add: monitors_def)
  next
    case (exit q s ts)
    with assms(1) show ?thesis by (simp add: stopping_def)
  qed
  with single_step[OF _ assms(2,3)] assms(1) show ?thesis by (simp add: stopping_def)
qed

lemma stopping_exec:
  "exec_labels ls c = Some c' \<Longrightarrow> stopping p c \<Longrightarrow> list_all unelevated ls \<Longrightarrow> list_all no_dialog ls \<Longrightarrow>
   list_all (\<lambda>l. \<not> monitors p l) ls \<Longrightarrow> stopping p c'"
  by (induction ls arbitrary: c) (auto simp: exec_label_step intro: stopping_step split: option.splits)

text \<open>One lineage of restarts: at most one pending start, and a monitor exactly while running.\<close>

definition is_start :: "thread \<Rightarrow> bool" where
  "is_start t \<longleftrightarrow> (case t of TRestart k \<Rightarrow> True | TStart k \<Rightarrow> True | _ \<Rightarrow> False)"

definition is_monitor :: "thread \<Rightarrow> bool" where
  "is_monitor t \<longleftrightarrow> (case t of TMonitor p \<Rightarrow> True | _ \<Rightarrow> False)"

definition lineage :: "nat \<Rightarrow> config \<Rightarrow> bool" where
  "lineage b c \<longleftrightarrow>
     (let (s, ts) = c; pend = length (filter is_start ts) in
      \<not> stopped_by_user s \<and> \<not> restart_requested s \<and> attempts s \<le> restart_attempts \<and>
      list_all (\<lambda>t. \<not> priv_thread t) ts \<and>
      (if running s
       then pend = 0 \<and> (\<exists>p. cmd s = Some p \<and> filter is_monitor ts = [TMonitor p]) \<and>
            next_pid s + (restart_attempts - attempts s) \<le> b
       else pend \<le> 1 \<and> filter is_monitor ts = [] \<and>
            (if pend = 0 then next_pid s \<le> b
             else next_pid s + 1 + (restart_attempts - attempts s) \<le> b)))"

text \<open>Steps without the user and without an elevated start; the stability timer going off.\<close>

definition unattended :: "label \<Rightarrow> bool" where
  "unattended l \<longleftrightarrow>
     (case l of
        LUser u \<Rightarrow> False
      | LThread t a \<Rightarrow> \<not> (darwin (an_start a) \<and> has_tun (an_start a))
      | LExit p \<Rightarrow> True)"

definition stability_timer :: "label \<Rightarrow> bool" where
  "stability_timer l \<longleftrightarrow> (case l of LThread (TStability n) a \<Rightarrow> True | _ \<Rightarrow> False)"

lemma thread_class [simp]:
  "is_start (TRestart k)" "is_start (TStart k)" "\<not> is_start (TMonitor p)" "\<not> is_start TAfterCrash"
  "\<not> is_start (TStability n)" "\<not> is_start (TSignal p b)" "\<not> is_start (TWatchdog p)"
  "is_monitor (TMonitor p)" "\<not> is_monitor (TRestart k)" "\<not> is_monitor (TStart k)"
  "\<not> is_monitor TAfterCrash" "\<not> is_monitor (TStability n)" "\<not> is_monitor (TSignal p b)"
  "\<not> is_monitor (TWatchdog p)"
  "\<not> priv_thread (TMonitor p)" "\<not> priv_thread (TRestart k)" "\<not> priv_thread (TStart k)"
  "\<not> priv_thread TAfterCrash" "\<not> priv_thread (TStability n)" "\<not> priv_thread (TSignal p b)"
  "\<not> priv_thread (TWatchdog p)"
  by (simp_all add: is_start_def is_monitor_def priv_thread_def)

lemma filter_remove1_other: "\<not> P t \<Longrightarrow> filter P (remove1 t ts) = filter P ts"
  by (simp add: filter_remove1 remove1_idem)

lemma length_filter_remove1:
  "t \<in> set ts \<Longrightarrow> P t \<Longrightarrow> length (filter P (remove1 t ts)) = length (filter P ts) - 1"
  by (simp add: filter_remove1 length_remove1)

lemma lineage_kill: "lineage b (kill_pid p s, ts) = lineage b (s, ts)"
  by (simp only: lineage_def Let_def case_prod_conv kill_pid_frame)

lemma lineage_monitors: "lineage b (s, ts) \<Longrightarrow> filter is_monitor ts \<noteq> [] \<Longrightarrow>
   running s \<and> (\<exists>p. cmd s = Some p \<and> filter is_monitor ts = [TMonitor p])"
  by (cases "running s") (simp_all only: lineage_def Let_def case_prod_conv if_True if_False simp_thms)

lemma lineage_monitor:
  assumes "lineage b (s, ts)" "TMonitor p \<in> set ts" "monitor p cl s = (s', new)"
  shows "lineage b (s', remove1 (TMonitor p) ts @ new)"
proof -
  have m: "TMonitor p \<in> set (filter is_monitor ts)" using assms(2) by simp
  then have ne: "filter is_monitor ts \<noteq> []" by (metis empty_iff empty_set)
  have eq: "filter is_monitor ts = [TMonitor q] \<Longrightarrow> q = p" for q
    using m by (metis empty_set list.simps(15) singletonD thread.inject(1))
  from lineage_monitors[OF assms(1) ne] obtain q where r1: "running s"
    and q: "cmd s = Some q" "filter is_monitor ts = [TMonitor q]" by blast
  have r: "running s" "cmd s = Some p" "filter is_monitor ts = [TMonitor p]"
    using r1 q eq[OF q(2)] by simp_all
  with assms(1) have l: "filter is_start ts = []" "\<not> stopped_by_user s" "\<not> restart_requested s"
    "next_pid s + (restart_attempts - attempts s) \<le> b" "list_all (\<lambda>t. \<not> priv_thread t) ts"
    by (auto simp: lineage_def Let_def)
  have f: "filter is_monitor (remove1 (TMonitor p) ts) = []" "filter is_start (remove1 (TMonitor p) ts) = []"
    "list_all (\<lambda>t. \<not> priv_thread t) (remove1 (TMonitor p) ts)"
    using r(3) l by (simp_all add: filter_remove1 list_all_remove1)
  show ?thesis
    using assms(3) r l f
    by (cases rule: decide_cases[of "stopped_by_user s" "restart_requested s" cl "attempts s" restart_attempts])
      (auto simp: lineage_def monitor_def)
qed

lemma lineage_start:
  assumes "lineage b (s, ts)" "TStart k \<in> set ts" "\<not> (darwin e \<and> has_tun e)"
    and "start_section e k s = (s', new)"
  shows "lineage b (s', remove1 (TStart k) ts @ new)"
proof -
  have "TStart k \<in> set (filter is_start ts)" using assms(2) by simp
  then have p: "0 < length (filter is_start ts)" by (cases "filter is_start ts") auto
  with assms(1) have r': "\<not> running s" "length (filter is_start ts) \<le> 1"
    "filter is_monitor ts = []" "next_pid s + 1 + (restart_attempts - attempts s) \<le> b"
    "\<not> stopped_by_user s" "\<not> restart_requested s" "attempts s \<le> restart_attempts"
    "list_all (\<lambda>t. \<not> priv_thread t) ts"
    by (auto simp: lineage_def Let_def split: if_splits)
  with p have "length (filter is_start ts) = 1" by linarith
  note r = this r'
  have "length (filter is_start (remove1 (TStart k) ts)) = 0"
    using r(1) assms(2) by (simp add: length_filter_remove1)
  then have f: "filter is_start (remove1 (TStart k) ts) = []" "filter is_monitor (remove1 (TStart k) ts) = []"
    "list_all (\<lambda>t. \<not> priv_thread t) (remove1 (TStart k) ts)"
    using r by (simp_all add: filter_remove1 list_all_remove1)
  obtain s1 new1 where s1: "start_locked e s = (s1, new1)" by fastforce
  then have new: "s' = s1" "new = new1 @ (if k = AfterCrash then [TAfterCrash] else [])"
    using assms(4) by (simp_all add: start_section_def)
  have "(s1, new1) = (s, []) \<or> (s1, new1) = (s\<lparr>cmd := None\<rparr>, []) \<or>
     (s1, new1) = (s\<lparr>cmd := Some (next_pid s), running := True, stopped_by_user := False,
              auto_update_failed := 0, alive := next_pid s # alive s, next_pid := next_pid s + 1\<rparr>,
            [TMonitor (next_pid s)])"
    using s1 assms(3) r(2) unfolding start_locked_def by metis
  then show ?thesis
  proof (elim disjE)
    assume "(s1, new1) = (s, [])"
    with r f new show ?thesis by (simp add: lineage_def)
  next
    assume "(s1, new1) = (s\<lparr>cmd := None\<rparr>, [])"
    with r f new show ?thesis by (simp add: lineage_def)
  next
    assume "(s1, new1) = (s\<lparr>cmd := Some (next_pid s), running := True, stopped_by_user := False,
              auto_update_failed := 0, alive := next_pid s # alive s, next_pid := next_pid s + 1\<rparr>,
            [TMonitor (next_pid s)])"
    with r f new show ?thesis by (simp add: lineage_def)
  qed
qed

lemma lineage_mono: "lineage b c \<Longrightarrow> b \<le> b' \<Longrightarrow> lineage b' c"
  by (auto simp: lineage_def Let_def split: prod.splits if_splits)

lemma lineage_stability:
  "lineage b (s, ts) \<Longrightarrow> stability n s = (s', new) \<Longrightarrow>
   lineage (b + restart_attempts) (s', remove1 (TStability n) ts @ new)"
  by (auto simp: lineage_def stability_def Let_def list_all_remove1 filter_remove1_other split: if_splits)

lemma lineage_thread:
  assumes "lineage b (s, ts)" "t \<in> set ts" "unattended (LThread t a)" "run_thread a t s = (s', new)"
    and "\<not> stability_timer (LThread t a)"
  shows "lineage b (s', remove1 t ts @ new)"
proof -
  have np: "\<not> priv_thread t" using assms(1,2) by (auto simp: lineage_def list_all_iff Let_def)
  note c = assms(3)[unfolded unattended_def, simplified] assms(5)[unfolded stability_timer_def, simplified]
  show ?thesis
  proof (cases t)
    case (TMonitor p)
    with assms c lineage_monitor show ?thesis by (simp add: run_thread_def)
  next
    case (TStart k)
    with assms c lineage_start[of b s ts k "an_start a" s' new] show ?thesis
      by (auto simp: run_thread_def)
  next
    case (TRestart k)
    then have "TRestart k \<in> set (filter is_start ts)" using assms(2) by simp
    then have p: "0 < length (filter is_start ts)" by (cases "filter is_start ts") auto
    then have "\<not> running s" using assms(1) by (auto simp: lineage_def Let_def)
    with TRestart assms(4) have "s' = s" "new = [TStart k]" by (simp_all add: run_thread_def start_call_def)
    moreover have "length (filter is_start (remove1 t ts)) = length (filter is_start ts) - 1"
      using TRestart assms(2) by (simp add: length_filter_remove1)
    ultimately show ?thesis
      using assms(1) p \<open>\<not> running s\<close> TRestart
      by (auto simp: lineage_def Let_def list_all_remove1 filter_remove1_other)
  qed (use np c assms in \<open>auto simp: run_thread_def after_crash_def send_signal_def lineage_def Let_def
      list_all_remove1 filter_remove1_other priv_thread_def split: if_splits\<close>)
qed

lemma lineage_step:
  "lineage b c \<Longrightarrow> step c l c' \<Longrightarrow> unattended l \<Longrightarrow>
   lineage (b + (if stability_timer l then restart_attempts else 0)) c'"
proof (erule stepE, goal_cases)
  case (1 u s s' new ts)
  then show ?case by (simp add: unattended_def)
next
  case (2 t ts s a s' new)
  show ?case
  proof (cases "stability_timer l")
    case True
    with 2 obtain n where "t = TStability n" by (auto simp: stability_timer_def split: thread.splits)
    with 2 True lineage_stability[of b s ts n s' new] show ?thesis by (simp add: run_thread_def)
  next
    case False
    with 2 lineage_thread[of b s ts t a s' new] show ?thesis by simp
  qed
next
  case (3 p s ts)
  then show ?case by (simp add: lineage_kill stability_timer_def)
qed

lemma lineage_exec:
  "exec_labels ls c = Some c' \<Longrightarrow> lineage b c \<Longrightarrow> list_all unattended ls \<Longrightarrow>
   lineage (b + restart_attempts * length (filter stability_timer ls)) c'"
proof (induction ls arbitrary: c b)
  case (Cons l ls)
  from Cons.prems(1) obtain c1 where c1: "step c l c1" "exec_labels ls c1 = Some c'"
    by (auto simp: exec_label_step split: option.splits)
  from lineage_step[OF Cons.prems(2) c1(1)] Cons.prems(3)
  have "lineage (b + (if stability_timer l then restart_attempts else 0)) c1" by simp
  from Cons.IH[OF c1(2) this] Cons.prems(3) show ?case by (simp add: algebra_simps split: if_splits)
qed simp

section \<open>Properties\<close>


text \<open>Answers of a platform on which everything works, and a process that crashes.\<close>

definition plain_env :: start_env where
  "plain_env = \<lparr>caps_ok = True, darwin = False, has_tun = False, script_written = True, spawned = True\<rparr>"

definition crashed :: answers where
  "crashed = \<lparr>an_start = plain_env, an_clean = False, an_sent = True, an_killed = True\<rparr>"

definition exited :: answers where
  "exited = \<lparr>an_start = plain_env, an_clean = True, an_sent = True, an_killed = True\<rparr>"

text \<open>Two starts at once: both pass the unlocked check, the second loses under the mutex.\<close>

definition two_starts :: "label list" where
  "two_starts = [LUser (UStart False), LUser (UStart False), LThread (TStart ByUser) crashed,
                 LThread (TStart ByUser) crashed]"


text \<open>
  C30. A stop of a core that is not elevated is obeyed: from the moment the user stops a running
  core, no interleaving of the other goroutines, of further calls or of the process's exit clears
  the flag before that process's monitor has run, and the monitor then declares the core stopped
  and starts nothing. (The dialog that kills by name is left out: it declares the core stopped
  itself.)
\<close>

theorem stop_is_obeyed:
  assumes "reach unelevated (s, ts)" "running s"
    and "exec_labels (LUser UStop # ls) (s, ts) = Some (s', ts')"
    and "list_all (\<lambda>l. unelevated l \<and> no_dialog l \<and> \<not> monitors (the (cmd s)) l) ls"
  shows "\<exists>p. cmd s = Some p \<and> running s' \<and> stopped_by_user s' \<and> cmd s' = Some p \<and>
    monitor p clean s' = (s'\<lparr>attempts := 0, running := False, stopped_by_user := False\<rparr>, [])"
proof -
  obtain s1 new where u: "user_call UStop s = (s1, new)" by fastforce
  then have e: "exec_labels ls (s1, ts @ new) = Some (s', ts')"
    using assms(3) by (simp add: exec_label_def)
  have sg: "single (s, ts)" by (rule reach_single[OF assms(1)])
  then obtain p where p: "cmd s = Some p" using assms(2) by (auto simp: single_def)
  from sg have "stopping p (s1, ts @ new)"
    using u assms(2) p single_step[OF sg step.user[OF u, of ts]]
    by (auto simp: stopping_def single_def user_call_def stop_def priv_tracked_def unelevated_def Let_def)
  from stopping_exec[OF e this] assms(4) p have "stopping p (s', ts')" by (simp add: list_all_iff)
  with p show ?thesis by (simp add: stopping_def monitor_def decide_crash_action_def)
qed

definition stop_trace :: "label list" where
  "stop_trace = [LThread (TSignal 1 True) crashed, LUser URestart, LExit 1]"

theorem stop_is_obeyed_witness:
  "\<exists>s ts s' ts'. exec_labels [LUser (UStart False), LThread (TStart ByUser) crashed] initial = Some (s, ts) \<and>
     exec_labels (LUser UStop # stop_trace) (s, ts) = Some (s', ts') \<and>
     restart_requested s' \<and> alive s' = [] \<and> snd (monitor 1 False s') = []"
proof -
  let ?l0 = "[LUser (UStart False), LThread (TStart ByUser) crashed]"
  have t: "map_option (\<lambda>c. (running (fst c), cmd (fst c))) (exec_labels ?l0 initial) = Some (True, Some 1)"
    by code_simp
  then obtain s ts where s: "exec_labels ?l0 initial = Some (s, ts)" by auto
  have "map_option (\<lambda>c. (restart_requested (fst c), alive (fst c)))
      (Option.bind (exec_labels ?l0 initial) (exec_labels (LUser UStop # stop_trace))) = Some (True, [])"
    by code_simp
  with s obtain s' ts' where s': "exec_labels (LUser UStop # stop_trace) (s, ts) = Some (s', ts')"
    "restart_requested s'" "alive s' = []" by (auto simp: bind_eq_Some_conv)
  have r: "reach unelevated (s, ts)"
    by (rule exec_labels_reach[OF s reach.init]) (simp add: unelevated_def crashed_def plain_env_def)
  have "list_all (\<lambda>l. unelevated l \<and> no_dialog l \<and> \<not> monitors 1 l) stop_trace"
    by (simp add: stop_trace_def unelevated_def no_dialog_def monitors_def crashed_def plain_env_def)
  with stop_is_obeyed[OF r _ s'(1), of False] s t s' show ?thesis by auto
qed

text \<open>The crash of process \<open>n\<close> and the automatic restart that follows.\<close>

definition crash_round :: "pid \<Rightarrow> label list" where
  "crash_round n = [LExit n, LThread (TMonitor n) crashed, LThread (TRestart AfterCrash) crashed,
                    LThread (TStart AfterCrash) crashed, LThread TAfterCrash crashed]"

definition crash_loop :: "label list" where
  "crash_loop = crash_round 1 @ crash_round 2 @ crash_round 3 @ [LExit 4, LThread (TMonitor 4) crashed]"

text \<open>A running core nobody is stopping, restarting or starting a second time, elevated ones aside.\<close>

definition undisturbed :: "pid \<Rightarrow> config \<Rightarrow> bool" where
  "undisturbed p c \<longleftrightarrow>
     (let (s, ts) = c in
      running s \<and> cmd s = Some p \<and> attempts s \<le> restart_attempts \<and>
      \<not> stopped_by_user s \<and> \<not> restart_requested s \<and>
      filter is_start ts = [] \<and> filter is_monitor ts = [TMonitor p] \<and> list_all (\<lambda>t. \<not> priv_thread t) ts)"

text \<open>
  C38. Automatic restarts are bounded: left alone, a running core that is not elevated is followed by
  at most three processes (less the attempts already made) and three more for every time the
  stability timer goes off, whatever the interleaving, whether exits are clean and whether the
  starts succeed. Without the timer a core that keeps crashing is restarted three times at most.
\<close>

theorem crash_restarts_bounded:
  assumes "undisturbed p (s, ts)"
    and "exec_labels ls (s, ts) = Some (s', ts')" "list_all unattended ls"
  shows "next_pid s' + (if running s' then restart_attempts - attempts s' else 0)
         \<le> next_pid s + (restart_attempts - attempts s) + restart_attempts * length (filter stability_timer ls)"
proof -
  have "lineage (next_pid s + (restart_attempts - attempts s)) (s, ts)"
    using assms(1) by (simp add: lineage_def undisturbed_def)
  from lineage_exec[OF assms(2) this assms(3)] show ?thesis
    by (auto simp: lineage_def Let_def split: if_splits)
qed

theorem crash_restarts_bounded_witness:
  "\<exists>s s' ts'. exec_labels [LUser (UStart False), LThread (TStart ByUser) crashed] initial = Some (s, [TMonitor 1]) \<and>
     next_pid s = 2 \<and> exec_labels crash_loop (s, [TMonitor 1]) = Some (s', ts') \<and>
     next_pid s' \<le> 5 \<and> next_pid s' = 5 \<and> \<not> running s' \<and> filter is_start ts' = []"
proof -
  let ?l0 = "[LUser (UStart False), LThread (TStart ByUser) crashed]"
  have t: "map_option (\<lambda>c. (running (fst c), cmd (fst c), attempts (fst c), next_pid (fst c),
        stopped_by_user (fst c), restart_requested (fst c), snd c)) (exec_labels ?l0 initial)
      = Some (True, Some 1, 0, 2, False, False, [TMonitor 1])" by code_simp
  then obtain s where s: "exec_labels ?l0 initial = Some (s, [TMonitor 1])" by auto
  have "map_option (\<lambda>c. (next_pid (fst c), running (fst c), filter is_start (snd c)))
      (Option.bind (exec_labels ?l0 initial) (exec_labels crash_loop)) = Some (5, False, [])"
    by code_simp
  with s obtain s' ts' where s': "exec_labels crash_loop (s, [TMonitor 1]) = Some (s', ts')"
    "next_pid s' = 5" "\<not> running s'" "filter is_start ts' = []" by (auto simp: bind_eq_Some_conv)
  have u: "list_all unattended crash_loop" "filter stability_timer crash_loop = []"
    by (simp_all add: crash_loop_def crash_round_def unattended_def stability_timer_def crashed_def plain_env_def)
  have "undisturbed 1 (s, [TMonitor 1])" using s t by (simp add: undisturbed_def)
  from crash_restarts_bounded[OF this s'(1) u(1)] s t u(2) have "next_pid s' \<le> 5"
    by (simp add: restart_attempts_def)
  with s s' t show ?thesis by auto
qed

text \<open>
  The bookkeeping never loses a running core, elevated ones included: at every reachable
  point the crash counter is within its limit, and a stop (or a restart) of a core that the state
  calls running has something to signal, so the repair branch of the stop is never taken.
\<close>

theorem running_core_is_stoppable:
  assumes "reach ok (s, ts)"
  shows "attempts s \<le> restart_attempts \<and>
    (running s \<longrightarrow> snd (stop s) \<noteq> [] \<and> stopped_by_user (fst (stop s)) \<and>
       snd (kill_for_restart s) \<noteq> [] \<and> restart_requested (fst (kill_for_restart s)))"
  using reach_coherent[OF assms]
  by (auto simp: coherent_def stop_def kill_for_restart_def priv_tracked_def Let_def)

text \<open>An elevated start on macOS.\<close>

definition elevated :: answers where
  "elevated = \<lparr>an_start = plain_env\<lparr>darwin := True, has_tun := True\<rparr>, an_clean = False, an_sent = True,
     an_killed = True\<rparr>"

definition elevated_start :: "label list" where
  "elevated_start = [LUser (UStart False), LThread (TStart ByUser) elevated,
                     LThread (TPrivStarted 1 2) elevated]"

theorem running_core_is_stoppable_witness:
  "\<exists>s ts. exec_labels elevated_start initial = Some (s, ts) \<and> running s \<and> snd (stop s) = [TKillPriv 1 True] \<and>
     attempts s \<le> restart_attempts \<and> snd (kill_for_restart s) \<noteq> []"
proof -
  have t: "map_option (\<lambda>c. (running (fst c), snd (stop (fst c)))) (exec_labels elevated_start initial)
      = Some (True, [TKillPriv 1 True])" by code_simp
  then obtain s ts where s: "exec_labels elevated_start initial = Some (s, ts)" by auto
  have "reach (\<lambda>_. True) (s, ts)" by (rule exec_labels_reach[OF s reach.init]) (simp add: list_all_iff)
  from running_core_is_stoppable[OF this] s t show ?thesis by auto
qed

text \<open>
  An elevated start marks the core as running only after it has released the mutex: a second start
  that was waiting for the mutex gets in first and brings up a second elevated core.
\<close>

theorem two_elevated_starts_race:
  "map_option (\<lambda>c. (alive (fst c), snd c))
     (exec_labels [LUser (UStart False), LUser (UStart False), LThread (TStart ByUser) elevated,
                   LThread (TStart ByUser) elevated] initial)
   = Some ([3, 1], [TPrivStarted 1 2, TPrivStarted 3 4])"
  by code_simp

text \<open>
  A stop pressed while the launcher waits to restart a crashed core is lost: nothing is running
  at that moment, so the stop clears its own flag, and the pending restart starts the core again.
\<close>

theorem stop_during_restart_delay_is_lost:
  "map_option (\<lambda>c. (running (fst c), alive (fst c)))
     (exec_labels [LUser (UStart False), LThread (TStart ByUser) crashed,
                   LExit 1, LThread (TMonitor 1) crashed,
                   LUser UStop,
                   LThread (TRestart AfterCrash) crashed, LThread (TStart AfterCrash) crashed] initial)
   = Some (True, [2])"
  by code_simp

text \<open>
  A restart request outlives the stop that overrules it: the branch of a user's stop does not
  clear the request, nor does a start, so in the next session a core that exits cleanly is
  started again although nobody asked for it.
\<close>

theorem restart_request_survives_stop:
  "map_option (\<lambda>c. (running (fst c), snd c))
     (exec_labels [LUser (UStart False), LThread (TStart ByUser) exited,
                   LUser URestart, LUser UStop, LExit 1, LThread (TMonitor 1) exited,
                   LThread (TSignal 1 False) exited, LThread (TSignal 1 True) exited, LThread (TWatchdog 1) exited,
                   LUser (UStart False), LThread (TStart ByUser) exited,
                   LExit 2, LThread (TMonitor 2) exited] initial)
   = Some (False, [TRestart AfterRestart])"
  by code_simp

text \<open>The line \<open>tasklist /FO CSV\<close> prints for fields without a quote in them.\<close>

definition csv_quote :: "string \<Rightarrow> string" where
  "csv_quote f = CHR 0x22 # f @ [CHR 0x22]"

lemma csv_fields_plain:
  "CHR 0x22 \<notin> set f \<Longrightarrow> csv_fields True cur (f @ rest) = csv_fields True (cur @ f) rest"
  by (induction f arbitrary: cur) auto

lemma csv_fields_quoted:
  assumes "CHR 0x22 \<notin> set f"
  shows "csv_fields False cur (csv_quote f @ rest) = csv_fields False (cur @ f) rest"
  using csv_fields_plain[OF assms, of cur "CHR 0x22 # rest"] by (simp add: csv_quote_def)

lemma csv_fields_join:
  "fs \<noteq> [] \<Longrightarrow> list_all (\<lambda>f. CHR 0x22 \<notin> set f) fs \<Longrightarrow>
   csv_fields False [] (join_with '','' (map csv_quote fs)) = (butlast fs, last fs)"
proof (induction fs rule: induct_list012)
  case (2 f)
  then show ?case using csv_fields_quoted[of f "[]" "[]"] by simp
next
  case (3 f g fs)
  then show ?case
    using csv_fields_quoted[of f "[]" "CHR '','' # join_with '','' (map csv_quote (g # fs))"]
    by (simp split: prod.split)
qed simp

text \<open>
  The instance check reads the process list as it was printed: quoted, comma-separated fields
  (commas in a field included) come back as the fields.
\<close>

theorem parse_csv_line_roundtrip:
  assumes "list_all (\<lambda>f. CHR 0x22 \<notin> set f) fs" "fs \<noteq> [[]]"
  shows "parse_csv_line (join_with '','' (map csv_quote fs)) = fs"
proof (cases "fs = []")
  case False
  then have "fs = butlast fs @ [last fs]" by simp
  with assms(2) have "butlast fs \<noteq> [] \<or> last fs \<noteq> []" by (metis append_Nil)
  with csv_fields_join[OF False assms(1)] False show ?thesis by (auto simp: parse_csv_line_def)
qed (simp add: parse_csv_line_def)

theorem parse_csv_line_roundtrip_witness:
  "parse_csv_line (join_with '','' (map csv_quote [''sing-box.exe'', ''4711'', ''12,3 K'']))
     = [''sing-box.exe'', ''4711'', ''12,3 K''] \<and>
   running_in_tasklist ''Sing-Box.exe'' (join_with '','' (map csv_quote [''sing-box.exe'', ''4711'', ''12,3 K'']))
     = (True, 4711)"
  using parse_csv_line_roundtrip[of "[''sing-box.exe'', ''4711'', ''12,3 K'']"]
  by (auto; code_simp)

end
