(* ===== verification/Route.thy ===== *)
theory Route
  imports PresetExpand ResolveOutbounds
begin

text \<open>
  The route section of the emitted configuration: the resolver of \<open>core/build/resolve_route.go\<close>,
  the merges of \<open>core/build/preset_merge.go\<close> and \<open>core/build/route_merge.go\<close>, and the clean-up
  of dangling outbounds in \<open>core/build/preset_outbounds.go\<close>. The file system is a view that
  answers \<open>os.Stat\<close>; the content-addressed name of a rule-set URL (a hash) is a function given as
  an argument. Joining paths is joining with a slash, as for clean Unix paths.
\<close>

section \<open>Files\<close>

record fs_view =
  fs_exists :: "string \<Rightarrow> bool"
  fs_is_dir :: "string \<Rightarrow> bool"

definition path_join :: "string list \<Rightarrow> string" where
  "path_join parts = join_with ''/'' (filter (\<lambda>p. p \<noteq> []) parts)"

definition rule_srs_path :: "string \<Rightarrow> string \<Rightarrow> string" where
  "rule_srs_path exec_dir tag = path_join [exec_dir, ''bin'', ''rule-sets'', tag @ ''.srs'']"

definition srs_file_exists :: "fs_view \<Rightarrow> string \<Rightarrow> string \<Rightarrow> bool" where
  "srs_file_exists fs exec_dir tag \<longleftrightarrow>
     fs_exists fs (rule_srs_path exec_dir tag) \<and> \<not> fs_is_dir fs (rule_srs_path exec_dir tag)"

definition resource_name_for_srs :: "string \<Rightarrow> string" where
  "resource_name_for_srs tag = tag @ ''.srs''"

section \<open>Rule sets of presets, \<open>preset_merge.go\<close>\<close>

text \<open>\<open>None\<close> is the skip of a rule set that is not downloaded.\<close>

definition convert_preset_rule_set ::
  "fs_view \<Rightarrow> (string \<Rightarrow> string) \<Rightarrow> string \<Rightarrow> string \<Rightarrow> string \<Rightarrow> obj \<Rightarrow> obj option" where
  "convert_preset_rule_set fs tag_of exec_dir resource_dir srs_local_dir rs =
     (if str_field rs ''type'' \<noteq> ''remote'' then Some rs
      else
        (let url = str_field rs ''url'' in
         if url = [] \<or> exec_dir = [] then None
         else
           (let content_tag = tag_of url in
            if content_tag = [] then None
            else
              (let local_path = exec_dir @ ''/bin/rule-sets/'' @ content_tag @ ''.srs'';
                   path = (if resource_dir \<noteq> [] then resource_dir @ ''/'' @ resource_name_for_srs content_tag
                           else local_path);
                   check_path = (if resource_dir \<noteq> []
                                 then srs_local_dir @ ''/'' @ resource_name_for_srs content_tag
                                 else local_path)
               in if \<not> fs_exists fs check_path then None
                  else
                    (let out = sput ''type'' (JStr ''local'')
                                 (sdel ''update_interval'' (sdel ''download_detour'' (sdel ''url'' rs)));
                         out = sput ''path'' (JStr path) out;
                         out = (if map_of out ''format'' = None then sput ''format'' (JStr ''binary'') out else out)
                     in Some out)))))"

text \<open>Removing references to rule sets that are not there, from a route rule and from a DNS rule.\<close>

definition keep_rule_set_refs :: "bool \<Rightarrow> string list \<Rightarrow> obj \<Rightarrow> obj" where
  "keep_rule_set_refs keep_empty valid rule =
     (case map_of rule ''rule_set'' of
        Some (JStr v) \<Rightarrow>
          (if v \<in> set valid \<or> (keep_empty \<and> v = []) then rule else sdel ''rule_set'' rule)
      | Some (JArr vs) \<Rightarrow>
          (let kept = filter (\<lambda>s. s \<in> set valid) (str_elems vs)
           in if kept = [] then sdel ''rule_set'' rule
              else sput ''rule_set'' (JArr (map JStr kept)) rule)
      | _ \<Rightarrow> rule)"

definition clean_dangling_rule_set_in_rule :: "string list \<Rightarrow> obj \<Rightarrow> obj option" where
  "clean_dangling_rule_set_in_rule emitted rule =
     (if map_of rule ''rule_set'' = None then Some rule
      else
        (let out = keep_rule_set_refs False emitted rule
         in if is_rule_empty out then None else Some out))"

definition dns_match_keys :: "string list" where
  "dns_match_keys =
     [''server'', ''rule_set'', ''domain'', ''domain_suffix'', ''domain_keyword'', ''domain_regex'',
      ''ip_cidr'', ''source_ip_cidr'', ''port'', ''source_port'', ''network'', ''protocol'', ''inbound'',
      ''outbound'', ''process_name'', ''process_path'', ''process_path_regex'',
      ''rule_set_ip_cidr_match_source'', ''query_type'', ''client_subnet'']"

definition clean_dangling_dns_rule :: "string list \<Rightarrow> obj \<Rightarrow> obj option" where
  "clean_dangling_dns_rule valid rule =
     (let out = keep_rule_set_refs True valid rule
      in if list_ex (\<lambda>p. fst p \<in> set dns_match_keys) out then Some out else None)"

text \<open>\<open>CollectSrsCachedPaths\<close>: paths by computed rule id; a later rule with the same id wins.\<close>

definition srs_url_of :: "rule \<Rightarrow> string option" where
  "srs_url_of r =
     (if r_kind r \<noteq> RKSrs then None
      else (case decode_body r of Inr (SrsBody n u out) \<Rightarrow> if u = [] then None else Some u | _ \<Rightarrow> None))"

definition collect_srs_cached_paths ::
  "(string \<Rightarrow> string) \<Rightarrow> rule list \<Rightarrow> string \<Rightarrow> string \<Rightarrow> string \<rightharpoonup> string" where
  "collect_srs_cached_paths tag_of rules exec_dir resource_dir =
     (if exec_dir = [] \<or> rules = [] then Map.empty
      else
        fold (\<lambda>r m.
          (case srs_url_of r of
             None \<Rightarrow> m
           | Some u \<Rightarrow>
               m(stable_rule_id r \<mapsto>
                   (if resource_dir \<noteq> [] then resource_dir @ ''/'' @ resource_name_for_srs (tag_of u)
                    else exec_dir @ ''/bin/rule-sets/'' @ tag_of u @ ''.srs'')))) rules Map.empty)"

section \<open>\<open>ResolveRoute\<close>\<close>

datatype route_source = FromPreset | FromInline | FromSrs

record resolved_rule_set =
  rrs_tag :: string
  rrs_body :: "obj option"
  rrs_source :: route_source
  rrs_preset_id :: string
  rrs_preset_label :: string
  rrs_srs_id :: string
  rrs_skipped :: bool
  rrs_reason :: string
  rrs_enabled :: bool

record resolved_rule =
  rru_body :: obj
  rru_source :: route_source
  rru_preset_id :: string
  rru_preset_label :: string
  rru_inline_id :: string
  rru_srs_id :: string
  rru_active :: bool
  rru_enabled :: bool
  rru_reason :: string

text \<open>The resolved route so far, and the rule-set tags emitted.\<close>

record route_acc =
  ra_sets :: "resolved_rule_set list"
  ra_rules :: "resolved_rule list"
  ra_tags :: "string list"

text \<open>What the resolver reads besides the state.\<close>

record route_env =
  re_presets :: "preset list"
  re_exec_dir :: string
  re_srs_paths :: "string \<rightharpoonup> string"
  re_target :: target_spec
  re_fs :: fs_view
  re_tag_of :: "string \<Rightarrow> string"
  re_regex :: "string \<Rightarrow> string \<Rightarrow> bool option"

definition preset_set_entry :: "preset \<Rightarrow> bool \<Rightarrow> string \<Rightarrow> obj option \<Rightarrow> resolved_rule_set" where
  "preset_set_entry p en tag body =
     \<lparr>rrs_tag = tag, rrs_body = body, rrs_source = FromPreset, rrs_preset_id = p_id p,
      rrs_preset_label = display_label p, rrs_srs_id = [], rrs_skipped = (body = None),
      rrs_reason = (if body = None then ''remote .srs not cached'' else []), rrs_enabled = en\<rparr>"

definition add_preset_rule_set :: "route_env \<Rightarrow> preset \<Rightarrow> bool \<Rightarrow> obj \<Rightarrow> route_acc \<Rightarrow> route_acc" where
  "add_preset_rule_set E p en rs acc =
     (let tag = str_field rs ''tag'' in
      if tag = [] \<or> tag \<in> set (ra_tags acc) then acc
      else
        (case convert_preset_rule_set (re_fs E) (re_tag_of E) (re_exec_dir E)
                (ts_resource_dir (re_target E)) (ts_srs_local_dir (re_target E)) rs of
           None \<Rightarrow> acc\<lparr>ra_sets := ra_sets acc @ [preset_set_entry p en tag None]\<rparr>
         | Some body \<Rightarrow>
             acc\<lparr>ra_sets := ra_sets acc @ [preset_set_entry p en tag (Some body)],
                 ra_tags := tag # ra_tags acc\<rparr>))"

definition add_preset_rule :: "preset \<Rightarrow> bool \<Rightarrow> obj \<Rightarrow> route_acc \<Rightarrow> route_acc" where
  "add_preset_rule p en rr acc =
     (case clean_dangling_rule_set_in_rule (ra_tags acc) rr of
        None \<Rightarrow> acc
      | Some body \<Rightarrow>
          acc\<lparr>ra_rules := ra_rules acc @
            [\<lparr>rru_body = body, rru_source = FromPreset, rru_preset_id = p_id p,
              rru_preset_label = display_label p, rru_inline_id = [], rru_srs_id = [],
              rru_active = True, rru_enabled = en, rru_reason = []\<rparr>]\<rparr>)"

definition resolve_preset_route_rule :: "route_env \<Rightarrow> rule \<Rightarrow> route_acc \<Rightarrow> route_acc" where
  "resolve_preset_route_rule E r acc =
     (case preset_by_id (re_presets E) (r_ref r) of
        None \<Rightarrow> acc
      | Some p \<Rightarrow>
          (case decode_body r of
             Inr (PresetBody vs) \<Rightarrow>
               (case expand_preset p (map_of vs) (re_target E) (re_regex E) of
                  Inl ws \<Rightarrow> acc
                | Inr (f, ws) \<Rightarrow>
                    fold (add_preset_rule p (r_enabled r)) (pf_routing_rules f)
                      (fold (add_preset_rule_set E p (r_enabled r)) (pf_rule_sets f) acc))
           | _ \<Rightarrow> acc))"

definition resolve_inline_route_rule :: "rule \<Rightarrow> route_acc \<Rightarrow> route_acc" where
  "resolve_inline_route_rule r acc =
     (case decode_body r of
        Inr (InlineBody n mt out) \<Rightarrow>
          acc\<lparr>ra_rules := ra_rules acc @
            [\<lparr>rru_body = apply_outbound_to_rule (obj_of mt) out, rru_source = FromInline,
              rru_preset_id = [], rru_preset_label = [], rru_inline_id = stable_rule_id r,
              rru_srs_id = [], rru_active = True, rru_enabled = r_enabled r, rru_reason = []\<rparr>]\<rparr>
      | _ \<Rightarrow> acc)"

definition srs_set_entry :: "string \<Rightarrow> bool \<Rightarrow> obj option \<Rightarrow> resolved_rule_set" where
  "srs_set_entry i en body =
     \<lparr>rrs_tag = ''user:'' @ i, rrs_body = body, rrs_source = FromSrs, rrs_preset_id = [],
      rrs_preset_label = [], rrs_srs_id = i, rrs_skipped = (body = None),
      rrs_reason = (if body = None then ''srs file not cached'' else []), rrs_enabled = en\<rparr>"

definition srs_rule_set_body :: "string \<Rightarrow> string \<Rightarrow> obj" where
  "srs_rule_set_body tag path =
     (sput ''tag'' (JStr tag) \<circ> sput ''type'' (JStr ''local'') \<circ>
      sput ''format'' (JStr ''binary'') \<circ> sput ''path'' (JStr path)) []"

definition resolve_srs_route_rule :: "route_env \<Rightarrow> rule \<Rightarrow> route_acc \<Rightarrow> route_acc" where
  "resolve_srs_route_rule E r acc =
     (case decode_body r of
        Inr (SrsBody n u out) \<Rightarrow>
          (let i = stable_rule_id r; tag = ''user:'' @ i in
           case re_srs_paths E i of
             None \<Rightarrow> acc\<lparr>ra_sets := ra_sets acc @ [srs_set_entry i (r_enabled r) None]\<rparr>
           | Some path \<Rightarrow>
               (let acc = (if tag \<in> set (ra_tags acc) then acc
                           else acc\<lparr>ra_sets := ra_sets acc @
                                      [srs_set_entry i (r_enabled r) (Some (srs_rule_set_body tag path))],
                                    ra_tags := tag # ra_tags acc\<rparr>)
                in acc\<lparr>ra_rules := ra_rules acc @
                     [\<lparr>rru_body = apply_outbound_to_rule [(''rule_set'', JStr tag)] out,
                       rru_source = FromSrs, rru_preset_id = [], rru_preset_label = [],
                       rru_inline_id = [], rru_srs_id = i, rru_active = True,
                       rru_enabled = r_enabled r, rru_reason = []\<rparr>]\<rparr>))
      | _ \<Rightarrow> acc)"

definition resolve_route_rule :: "route_env \<Rightarrow> rule \<Rightarrow> route_acc \<Rightarrow> route_acc" where
  "resolve_route_rule E r acc =
     (case r_kind r of
        RKPreset \<Rightarrow> resolve_preset_route_rule E r acc
      | RKInline \<Rightarrow> resolve_inline_route_rule r acc
      | RKSrs \<Rightarrow> resolve_srs_route_rule E r acc
      | RKOther k \<Rightarrow> acc)"

definition empty_acc :: route_acc where
  "empty_acc = \<lparr>ra_sets = [], ra_rules = [], ra_tags = []\<rparr>"

definition resolve_route :: "route_env \<Rightarrow> rule list \<Rightarrow> route_acc" where
  "resolve_route E rules = fold (resolve_route_rule E) rules empty_acc"

section \<open>\<open>MergePresetsIntoRoute\<close>\<close>

definition has_any_v6_rule :: "rule list \<Rightarrow> bool" where
  "has_any_v6_rule rules \<longleftrightarrow> list_ex r_enabled rules"

text \<open>Emitting the rule sets: the section's array and the tags in it.\<close>

definition emit_rule_set :: "resolved_rule_set \<Rightarrow> json list \<times> string list \<Rightarrow> json list \<times> string list" where
  "emit_rule_set rs acc =
     (if rrs_skipped rs \<or> \<not> rrs_enabled rs \<or> rrs_tag rs \<in> set (snd acc) then acc
      else (fst acc @ [case rrs_body rs of Some b \<Rightarrow> JObj b | None \<Rightarrow> JNull], rrs_tag rs # snd acc))"

text \<open>The tags of the objects in an array; an object without a string tag has none.\<close>

definition json_tags :: "json list \<Rightarrow> string list" where
  "json_tags js =
     List.map_filter (\<lambda>j. case j of
         JObj m \<Rightarrow> (case map_of m ''tag'' of Some (JStr t) \<Rightarrow> Some t | _ \<Rightarrow> None)
       | _ \<Rightarrow> None) js"

definition merge_presets_into_route :: "route_env \<Rightarrow> rule list \<Rightarrow> obj \<Rightarrow> obj" where
  "merge_presets_into_route E rules route =
     (if \<not> has_any_v6_rule rules then route
      else
        (let sets0 = arr_field route ''rule_set'';
             res = resolve_route E rules;
             sets = fst (fold emit_rule_set (ra_sets res) (sets0, json_tags sets0));
             rs = arr_field route ''rules'' @
                  map (\<lambda>r. JObj (rru_body r)) (filter (\<lambda>r. rru_active r \<and> rru_enabled r) (ra_rules res));
             route = (if rs \<noteq> [] then sput ''rules'' (JArr rs) route else route);
             route = (if sets \<noteq> [] then sput ''rule_set'' (JArr sets) route else route)
         in route))"

section \<open>\<open>CleanDanglingOutboundsInRouteRules\<close>\<close>

definition outbound_sentinel_literals :: "string list" where
  "outbound_sentinel_literals = [''reject'', ''block'', ''drop'', ''direct'', ''dns-out'']"

datatype dangling_warning = ReplacedOutbound string string | DroppedRule string

text \<open>The rule to keep, if any, and the warning, if any.\<close>

definition clean_dangling_outbound_ref ::
  "obj \<Rightarrow> string set \<Rightarrow> string \<Rightarrow> obj option \<times> dangling_warning option" where
  "clean_dangling_outbound_ref rule final_tags fallback =
     (let out = str_field rule ''outbound'' in
      if out = [] then (Some rule, None)
      else if out \<in> set outbound_sentinel_literals then (Some rule, None)
      else if out \<in> final_tags then (Some rule, None)
      else if fallback \<noteq> [] \<and> fallback \<in> final_tags
        then (Some (sput ''outbound'' (JStr fallback) rule), Some (ReplacedOutbound out fallback))
      else (None, Some (DroppedRule out)))"

definition clean_route_item ::
  "string set \<Rightarrow> string \<Rightarrow> json \<Rightarrow> json option \<times> dangling_warning option" where
  "clean_route_item final_tags fallback j =
     (case j of
        JObj m \<Rightarrow>
          (let (r, w) = clean_dangling_outbound_ref m final_tags fallback in (map_option JObj r, w))
      | _ \<Rightarrow> (Some j, None))"

definition clean_dangling_outbounds ::
  "string set \<Rightarrow> string \<Rightarrow> obj \<Rightarrow> obj \<times> dangling_warning list" where
  "clean_dangling_outbounds final_tags fallback route =
     (let items = arr_field route ''rules'' in
      if items = [] then (route, [])
      else
        (let kept = List.map_filter (\<lambda>j. fst (clean_route_item final_tags fallback j)) items;
             ws = List.map_filter (\<lambda>j. snd (clean_route_item final_tags fallback j)) items
         in (if kept \<noteq> [] then sput ''rules'' (JArr kept) route else sdel ''rules'' route, ws)))"

section \<open>\<open>MergeRouteSection\<close>, \<open>route_merge.go\<close>\<close>

record route_rule =
  rr_enabled :: bool
  rr_outbound :: string
  rr_primary :: "obj option"
  rr_rules :: "obj list"
  rr_rule_sets :: "json list"

record route_config =
  rc_rules :: "route_rule list"
  rc_final :: string
  rc_exec_dir :: string
  rc_resource_dir :: string
  rc_resolver :: string
  rc_omit_resolver :: bool

datatype route_error =
    InvalidRuleSet
  | LocalWithoutPath string
  | LocalFileMissing string string
  | RemoteWithoutTag
  | EmptyExecDir string
  | RemoteFileMissing string string

definition convert_rule_set_to_local ::
  "fs_view \<Rightarrow> string \<Rightarrow> string \<Rightarrow> json \<Rightarrow> route_error + json" where
  "convert_rule_set_to_local fs exec_dir resource_dir rs =
     (case rs of
        JNull \<Rightarrow> Inr JNull
      | JObj m \<Rightarrow>
          (let typ = str_field m ''type''; tag = str_field m ''tag'' in
           if typ = ''inline'' then Inr (JObj m)
           else if typ = ''local'' then
             (let path = str_field m ''path'' in
              if path = [] then Inl (LocalWithoutPath tag)
              else if resource_dir = [] \<and> \<not> fs_exists fs path
                then Inl (LocalFileMissing (if tag = [] then path else tag) path)
              else Inr (JObj m))
           else if typ = ''remote'' then
             (if tag = [] then Inl RemoteWithoutTag
              else if exec_dir = [] then Inl (EmptyExecDir tag)
              else if \<not> srs_file_exists fs exec_dir tag
                then Inl (RemoteFileMissing tag (rule_srs_path exec_dir tag))
              else Inr (JObj (srs_rule_set_body tag
                     (if resource_dir \<noteq> [] then resource_dir @ ''/'' @ resource_name_for_srs tag
                      else rule_srs_path exec_dir tag))))
           else Inr (JObj m))
      | _ \<Rightarrow> Inl InvalidRuleSet)"

fun convert_rule_sets ::
  "fs_view \<Rightarrow> string \<Rightarrow> string \<Rightarrow> json list \<Rightarrow> route_error + json list" where
  "convert_rule_sets fs exec_dir resource_dir [] = Inr []"
| "convert_rule_sets fs exec_dir resource_dir (j # js) =
     (case convert_rule_set_to_local fs exec_dir resource_dir j of
        Inl e \<Rightarrow> Inl e
      | Inr j' \<Rightarrow>
          (case convert_rule_sets fs exec_dir resource_dir js of
             Inl e \<Rightarrow> Inl e
           | Inr js' \<Rightarrow> Inr (j' # js')))"

definition rule_bodies :: "route_rule \<Rightarrow> obj list" where
  "rule_bodies r =
     (if rr_rules r \<noteq> [] then map (\<lambda>m. apply_outbound_to_rule m (rr_outbound r)) (rr_rules r)
      else (case rr_primary r of Some m \<Rightarrow> [apply_outbound_to_rule m (rr_outbound r)] | None \<Rightarrow> []))"

text \<open>The loop over the enabled rules: the arrays built so far.\<close>

fun merge_route_rules ::
  "fs_view \<Rightarrow> string \<Rightarrow> string \<Rightarrow> route_rule list \<Rightarrow> json list \<times> json list \<Rightarrow>
   route_error + json list \<times> json list" where
  "merge_route_rules fs exec_dir resource_dir [] acc = Inr acc"
| "merge_route_rules fs exec_dir resource_dir (r # rs) acc =
     (if \<not> rr_enabled r then merge_route_rules fs exec_dir resource_dir rs acc
      else
        (case convert_rule_sets fs exec_dir resource_dir (rr_rule_sets r) of
           Inl e \<Rightarrow> Inl e
         | Inr sets \<Rightarrow>
             merge_route_rules fs exec_dir resource_dir rs
               (fst acc @ map JObj (rule_bodies r), snd acc @ sets)))"

definition merge_route_section :: "fs_view \<Rightarrow> obj \<Rightarrow> route_config \<Rightarrow> route_error + obj" where
  "merge_route_section fs route cfg =
     (case merge_route_rules fs (rc_exec_dir cfg) (rc_resource_dir cfg) (rc_rules cfg)
             (arr_field route ''rules'', arr_field route ''rule_set'') of
        Inl e \<Rightarrow> Inl e
      | Inr (rules, sets) \<Rightarrow>
          (let route = (if rules \<noteq> [] then sput ''rules'' (JArr rules) route else route);
               route = (if sets \<noteq> [] then sput ''rule_set'' (JArr sets) route else route);
               route = (if rc_final cfg \<noteq> [] then sput ''final'' (JStr (rc_final cfg)) route else route);
               route = (if rc_omit_resolver cfg then sdel ''default_domain_resolver'' route
                        else if trim_space (rc_resolver cfg) \<noteq> []
                        then sput ''default_domain_resolver'' (JStr (trim_space (rc_resolver cfg))) route
                        else route)
           in Inr route))"

section \<open>Lemmas\<close>

lemma set_str_elems: "set (str_elems js) = {s. JStr s \<in> set js}"
proof -
  have "as_str j = Some s \<longleftrightarrow> j = JStr s" for j s by (cases j) (auto simp: as_str_def)
  then show ?thesis by (auto simp: str_elems_def set_map_filter)
qed

lemma refs_keep:
  "set (rule_set_refs (keep_rule_set_refs ke valid rule)) \<subseteq> set valid"
proof (cases "map_of rule ''rule_set''")
  case (Some j)
  then show ?thesis
    by (cases j) (auto simp: keep_rule_set_refs_def rule_set_refs_def Let_def)
qed (simp add: keep_rule_set_refs_def rule_set_refs_def)

lemma refs_clean_rule:
  "clean_dangling_rule_set_in_rule valid rule = Some body \<Longrightarrow> t \<in> set (rule_set_refs body) \<Longrightarrow> t \<in> set valid"
  using refs_keep[of False valid rule]
  by (auto simp: clean_dangling_rule_set_in_rule_def Let_def rule_set_refs_def split: if_splits)

lemma convert_preset_tag:
  assumes "convert_preset_rule_set fs g ed rd sd rs = Some body"
  shows "map_of body ''tag'' = map_of rs ''tag''"
  using assms
  by (auto simp: convert_preset_rule_set_def Let_def split: if_splits)

text \<open>
  The resolver's accumulator: the tags it remembers are those of the rule sets that have a body,
  the body carries the tag, and a rule that is not the user's own match refers to them only.
\<close>

definition live_tags :: "resolved_rule_set list \<Rightarrow> string set" where
  "live_tags sets = rrs_tag ` {s \<in> set sets. \<not> rrs_skipped s}"

lemma live_tags_append [simp]:
  "live_tags (sets @ [s]) = (if rrs_skipped s then live_tags sets else insert (rrs_tag s) (live_tags sets))"
  by (auto simp: live_tags_def)

definition acc_ok :: "route_acc \<Rightarrow> bool" where
  "acc_ok acc \<longleftrightarrow>
     live_tags (ra_sets acc) = set (ra_tags acc) \<and>
     (\<forall>s \<in> set (ra_sets acc). \<not> rrs_skipped s \<longrightarrow>
        (\<exists>b. rrs_body s = Some b \<and> map_of b ''tag'' = Some (JStr (rrs_tag s)))) \<and>
     (\<forall>r \<in> set (ra_rules acc). rru_active r \<and>
        (rru_source r \<noteq> FromInline \<longrightarrow> (\<forall>t \<in> set (rule_set_refs (rru_body r)). t \<in> set (ra_tags acc))))"

lemma str_field_tag: "str_field rs k = t \<Longrightarrow> t \<noteq> [] \<Longrightarrow> map_of rs k = Some (JStr t)"
  by (auto simp: str_field_def split: option.splits json.splits)

lemma acc_ok_rule_set: "acc_ok acc \<Longrightarrow> acc_ok (add_preset_rule_set E p en rs acc)"
proof -
  assume a: "acc_ok acc"
  let ?tag = "str_field rs ''tag''"
  show "acc_ok (add_preset_rule_set E p en rs acc)"
  proof (cases "?tag = [] \<or> ?tag \<in> set (ra_tags acc)")
    case False
    then have t: "map_of rs ''tag'' = Some (JStr ?tag)" using str_field_tag by blast
    show ?thesis
    proof (cases "convert_preset_rule_set (re_fs E) (re_tag_of E) (re_exec_dir E)
                (ts_resource_dir (re_target E)) (ts_srs_local_dir (re_target E)) rs")
      case None
      with False a show ?thesis
        by (auto simp: add_preset_rule_set_def Let_def acc_ok_def preset_set_entry_def)
    next
      case (Some body)
      with False t convert_preset_tag[OF Some] a show ?thesis
        by (auto simp: add_preset_rule_set_def Let_def acc_ok_def preset_set_entry_def)
    qed
  qed (use a in \<open>auto simp: add_preset_rule_set_def Let_def\<close>)
qed

lemma acc_ok_rule: "acc_ok acc \<Longrightarrow> acc_ok (add_preset_rule p en rr acc)"
  using refs_clean_rule[of "ra_tags acc" rr]
  by (auto simp: add_preset_rule_def acc_ok_def split: option.splits)

lemma acc_ok_fold: "(\<And>x a. acc_ok a \<Longrightarrow> acc_ok (f x a)) \<Longrightarrow> acc_ok a \<Longrightarrow> acc_ok (fold f xs a)"
  by (induction xs arbitrary: a) auto

lemma refs_user_tag [simp]: "rule_set_refs [(''rule_set'', JStr tag)] = (if tag = [] then [] else [tag])"
  by (simp add: rule_set_refs_def)

lemma srs_body_tag: "map_of (srs_rule_set_body tag path) ''tag'' = Some (JStr tag)"
  by (simp add: srs_rule_set_body_def)

lemma acc_ok_srs: "acc_ok acc \<Longrightarrow> acc_ok (resolve_srs_route_rule E r acc)"
proof -
  assume a: "acc_ok acc"
  let ?i = "stable_rule_id r"
  show ?thesis
  proof (cases "\<exists>n u out. decode_body r = Inr (SrsBody n u out)")
    case True
    then obtain n u out where d: "decode_body r = Inr (SrsBody n u out)" by blast
    show ?thesis
    proof (cases "re_srs_paths E ?i")
      case None
      with d a show ?thesis
        by (auto simp: resolve_srs_route_rule_def Let_def acc_ok_def srs_set_entry_def)
    next
      case (Some path)
      with d a show ?thesis
        by (auto simp: resolve_srs_route_rule_def Let_def acc_ok_def srs_set_entry_def srs_body_tag)
    qed
  next
    case False
    then have "resolve_srs_route_rule E r acc = acc"
      by (auto simp: resolve_srs_route_rule_def split: sum.splits rule_body.splits)
    with a show ?thesis by simp
  qed
qed

lemma acc_ok_inline: "acc_ok acc \<Longrightarrow> acc_ok (resolve_inline_route_rule r acc)"
  by (auto simp: resolve_inline_route_rule_def acc_ok_def split: sum.splits rule_body.splits)

lemma acc_ok_preset: "acc_ok acc \<Longrightarrow> acc_ok (resolve_preset_route_rule E r acc)"
  by (auto simp: resolve_preset_route_rule_def acc_ok_rule_set acc_ok_rule
      intro!: acc_ok_fold split: option.splits sum.splits rule_body.splits)

lemma acc_ok_resolve: "acc_ok (resolve_route E rules)"
proof -
  have "acc_ok empty_acc" by (simp add: acc_ok_def empty_acc_def live_tags_def)
  then show ?thesis
    unfolding resolve_route_def
    by (rule acc_ok_fold[rotated])
      (auto simp: resolve_route_rule_def acc_ok_preset acc_ok_inline acc_ok_srs split: rule_kind.split)
qed

text \<open>The tags of the emitted array are those in it before and those of the emitted rule sets.\<close>

lemma json_tags_append: "json_tags (xs @ ys) = json_tags xs @ json_tags ys"
  by (simp add: json_tags_def map_filter_append)

lemma json_tags_obj: "map_of m ''tag'' = Some (JStr t) \<Longrightarrow> json_tags [JObj m] = [t]"
  by (simp add: json_tags_def List.map_filter_simps)

definition emitted_set :: "resolved_rule_set \<Rightarrow> bool" where
  "emitted_set s \<longleftrightarrow> \<not> rrs_skipped s \<and> rrs_enabled s"

lemma fold_emit_tags:
  assumes "\<forall>s \<in> set sets. \<not> rrs_skipped s \<longrightarrow>
        (\<exists>b. rrs_body s = Some b \<and> map_of b ''tag'' = Some (JStr (rrs_tag s)))"
    and "set ts = set (json_tags js)"
  shows "set (json_tags (fst (fold emit_rule_set sets (js, ts)))) =
     set (json_tags js) \<union> rrs_tag ` {s \<in> set sets. emitted_set s}"
  using assms
proof (induction sets arbitrary: js ts)
  case (Cons s sets)
  show ?case
  proof (cases "emitted_set s \<and> rrs_tag s \<notin> set ts")
    case True
    then obtain b where b: "rrs_body s = Some b" "map_of b ''tag'' = Some (JStr (rrs_tag s))"
      using Cons.prems(1) by (auto simp: emitted_set_def)
    have "set (rrs_tag s # ts) = set (json_tags (js @ [JObj b]))"
      using Cons.prems(2) b by (auto simp: json_tags_append json_tags_obj)
    with Cons.IH[of "rrs_tag s # ts" "js @ [JObj b]"] Cons.prems(1) True b show ?thesis
      by (auto simp: emit_rule_set_def emitted_set_def json_tags_append json_tags_obj)
  next
    case False
    then have "emit_rule_set s (js, ts) = (js, ts)" by (auto simp: emit_rule_set_def emitted_set_def)
    with Cons False show ?thesis by (auto simp: image_iff)
  qed
qed simp

text \<open>When every rule is enabled, so is everything resolved from them.\<close>

definition all_enabled :: "route_acc \<Rightarrow> bool" where
  "all_enabled acc \<longleftrightarrow>
     (\<forall>s \<in> set (ra_sets acc). rrs_enabled s) \<and> (\<forall>r \<in> set (ra_rules acc). rru_enabled r)"

lemma all_enabled_rule_set: "all_enabled acc \<Longrightarrow> all_enabled (add_preset_rule_set E p True rs acc)"
  by (auto simp: all_enabled_def add_preset_rule_set_def preset_set_entry_def Let_def split: option.splits)

lemma all_enabled_rule: "all_enabled acc \<Longrightarrow> all_enabled (add_preset_rule p True rr acc)"
  by (auto simp: all_enabled_def add_preset_rule_def split: option.splits)

lemma all_enabled_fold: "(\<And>x a. all_enabled a \<Longrightarrow> all_enabled (f x a)) \<Longrightarrow> all_enabled a \<Longrightarrow> all_enabled (fold f xs a)"
  by (induction xs arbitrary: a) auto

lemma all_enabled_preset:
  "r_enabled r \<Longrightarrow> all_enabled acc \<Longrightarrow> all_enabled (resolve_preset_route_rule E r acc)"
  by (auto simp: resolve_preset_route_rule_def all_enabled_rule_set all_enabled_rule
      intro!: all_enabled_fold split: option.splits sum.splits rule_body.splits)

lemma all_enabled_srs:
  "r_enabled r \<Longrightarrow> all_enabled acc \<Longrightarrow> all_enabled (resolve_srs_route_rule E r acc)"
  by (auto simp: resolve_srs_route_rule_def all_enabled_def srs_set_entry_def Let_def
      split: option.splits sum.splits rule_body.splits)

lemma all_enabled_inline:
  "r_enabled r \<Longrightarrow> all_enabled acc \<Longrightarrow> all_enabled (resolve_inline_route_rule r acc)"
  by (auto simp: resolve_inline_route_rule_def all_enabled_def split: sum.splits rule_body.splits)

lemma all_enabled_one: "r_enabled r \<Longrightarrow> all_enabled acc \<Longrightarrow> all_enabled (resolve_route_rule E r acc)"
  unfolding resolve_route_rule_def
  by (cases "r_kind r") (simp_all add: all_enabled_preset all_enabled_srs all_enabled_inline)

lemma all_enabled_resolve:
  assumes "list_all r_enabled rules"
  shows "all_enabled (resolve_route E rules)"
proof -
  have "list_all r_enabled rules \<Longrightarrow> all_enabled acc \<Longrightarrow>
      all_enabled (fold (resolve_route_rule E) rules acc)" for acc
    by (induction rules arbitrary: acc) (simp_all add: all_enabled_one)
  moreover have "all_enabled empty_acc" by (simp add: empty_acc_def all_enabled_def)
  ultimately show ?thesis using assms by (simp add: resolve_route_def)
qed

text \<open>The arrays of the merged section: what was there, then what is appended.\<close>

lemma arr_field_sput [simp]:
  "arr_field (sput k (JArr xs) m) k = xs" "k \<noteq> l \<Longrightarrow> arr_field (sput l v m) k = arr_field m k"
  by (simp_all add: arr_field_def)

lemma fold_emit_appends: "\<exists>ys. fst (fold emit_rule_set sets (js, ts)) = js @ ys"
proof (induction sets arbitrary: js ts)
  case (Cons s sets)
  show ?case
  proof (cases "emit_rule_set s (js, ts) = (js, ts)")
    case True
    with Cons show ?thesis by simp
  next
    case False
    then obtain x t where "emit_rule_set s (js, ts) = (js @ [x], t # ts)"
      by (auto simp: emit_rule_set_def split: if_splits)
    with Cons[of "js @ [x]" "t # ts"] show ?thesis by auto
  qed
qed simp

lemma merged_arrays:
  assumes "has_any_v6_rule rules"
  shows "arr_field (merge_presets_into_route E rules route) ''rule_set'' =
      fst (fold emit_rule_set (ra_sets (resolve_route E rules))
             (arr_field route ''rule_set'', json_tags (arr_field route ''rule_set'')))"
    and "arr_field (merge_presets_into_route E rules route) ''rules'' =
      arr_field route ''rules'' @
      map (\<lambda>r. JObj (rru_body r)) (filter (\<lambda>r. rru_active r \<and> rru_enabled r) (ra_rules (resolve_route E rules)))"
proof -
  obtain ys where "fst (fold emit_rule_set (ra_sets (resolve_route E rules))
             (arr_field route ''rule_set'', json_tags (arr_field route ''rule_set''))) =
      arr_field route ''rule_set'' @ ys"
    using fold_emit_appends by blast
  then show "arr_field (merge_presets_into_route E rules route) ''rule_set'' =
      fst (fold emit_rule_set (ra_sets (resolve_route E rules))
             (arr_field route ''rule_set'', json_tags (arr_field route ''rule_set'')))"
    using assms by (cases "arr_field route ''rule_set'' @ ys = []")
      (simp_all add: merge_presets_into_route_def Let_def)
  let ?new = "map (\<lambda>r. JObj (rru_body r)) (filter (\<lambda>r. rru_active r \<and> rru_enabled r) (ra_rules (resolve_route E rules)))"
  show "arr_field (merge_presets_into_route E rules route) ''rules'' = arr_field route ''rules'' @ ?new"
    using assms by (cases "arr_field route ''rules'' @ ?new = []")
      (simp_all add: merge_presets_into_route_def Let_def)
qed

text \<open>
  The tags a disabled rule has claimed: the resolver has recorded the rule set under the disabled
  rule, and the merge then leaves it out.
\<close>

definition claimed_by_disabled :: "route_env \<Rightarrow> rule list \<Rightarrow> string set" where
  "claimed_by_disabled E rules =
     rrs_tag ` {s \<in> set (ra_sets (resolve_route E rules)). \<not> rrs_skipped s \<and> \<not> rrs_enabled s}"

lemma claimed_none: "list_all r_enabled rules \<Longrightarrow> claimed_by_disabled E rules = {}"
  using all_enabled_resolve[of rules E] by (auto simp: claimed_by_disabled_def all_enabled_def)

text \<open>Every tag the resolver remembers is defined in the emitted section or claimed in this way.\<close>

lemma emitted_route_tags:
  assumes "has_any_v6_rule rules"
  shows "set (ra_tags (resolve_route E rules)) \<subseteq>
    set (json_tags (arr_field (merge_presets_into_route E rules route) ''rule_set'')) \<union>
    claimed_by_disabled E rules"
proof -
  let ?res = "resolve_route E rules" and ?base = "arr_field route ''rule_set''"
  let ?sets = "fst (fold emit_rule_set (ra_sets ?res) (?base, json_tags ?base))"
  have ok: "acc_ok ?res" by (rule acc_ok_resolve)
  have "set (json_tags ?sets) = set (json_tags ?base) \<union> rrs_tag ` {s \<in> set (ra_sets ?res). emitted_set s}"
    by (rule fold_emit_tags) (use ok in \<open>simp_all add: acc_ok_def\<close>)
  moreover have "live_tags (ra_sets ?res) \<subseteq>
      rrs_tag ` {s \<in> set (ra_sets ?res). emitted_set s} \<union> claimed_by_disabled E rules"
    by (auto simp: live_tags_def emitted_set_def claimed_by_disabled_def)
  moreover have "live_tags (ra_sets ?res) = set (ra_tags ?res)" using ok by (simp add: acc_ok_def)
  ultimately show ?thesis unfolding merged_arrays(1)[OF assms] by blast
qed

text \<open>Without an enabled rule nothing resolved is enabled.\<close>

definition none_enabled :: "route_acc \<Rightarrow> bool" where
  "none_enabled acc \<longleftrightarrow> list_all (\<lambda>r. \<not> rru_enabled r) (ra_rules acc)"

lemma none_enabled_sets [simp]:
  "ra_rules (fold (add_preset_rule_set E p en) rss acc) = ra_rules acc"
proof (induction rss arbitrary: acc)
  case (Cons rs rss)
  have "ra_rules (add_preset_rule_set E p en rs acc) = ra_rules acc"
    by (simp add: add_preset_rule_set_def Let_def split: option.split)
  with Cons show ?case by simp
qed simp

lemma none_enabled_rules: "none_enabled acc \<Longrightarrow> none_enabled (fold (add_preset_rule p False) rrs acc)"
  by (induction rrs arbitrary: acc) (auto simp: add_preset_rule_def none_enabled_def split: option.split)

lemma none_enabled_one: "\<not> r_enabled r \<Longrightarrow> none_enabled acc \<Longrightarrow> none_enabled (resolve_route_rule E r acc)"
  using none_enabled_rules
  by (auto simp: resolve_route_rule_def resolve_preset_route_rule_def resolve_inline_route_rule_def
      resolve_srs_route_rule_def none_enabled_def Let_def
      split: rule_kind.split option.split sum.split rule_body.split)

lemma none_enabled_resolve:
  assumes "\<not> has_any_v6_rule rules"
  shows "none_enabled (resolve_route E rules)"
proof -
  have "\<not> list_ex r_enabled rules \<Longrightarrow> none_enabled acc \<Longrightarrow>
      none_enabled (fold (resolve_route_rule E) rules acc)" for acc
    by (induction rules arbitrary: acc) (simp_all add: none_enabled_one)
  moreover have "none_enabled empty_acc" by (simp add: empty_acc_def none_enabled_def)
  ultimately show ?thesis using assms by (simp add: resolve_route_def has_any_v6_rule_def)
qed


text \<open>A machine that has every file, and rules over downloaded lists.\<close>

definition srs_rule :: "string \<Rightarrow> string \<Rightarrow> bool \<Rightarrow> rule" where
  "srs_rule n url en =
     \<lparr>r_kind = RKSrs, r_ref = [], r_enabled = en,
      r_body = Some (JObj [(''name'', JStr n), (''outbound'', JStr ''proxy''), (''srs_url'', JStr url)])\<rparr>"

definition srs_env :: "rule list \<Rightarrow> route_env" where
  "srs_env rules =
     \<lparr>re_presets = [ads_preset], re_exec_dir = ''/app'',
      re_srs_paths = collect_srs_cached_paths (\<lambda>u. u) rules ''/app'' [],
      re_target = linux_target, re_fs = \<lparr>fs_exists = (\<lambda>_. True), fs_is_dir = (\<lambda>_. False)\<rparr>,
      re_tag_of = (\<lambda>u. ''h''), re_regex = (\<lambda>_ _. None)\<rparr>"

definition route_summary :: "rule list \<Rightarrow> string list \<times> string list list" where
  "route_summary rules =
     (let out = merge_presets_into_route (srs_env rules) rules []
      in (json_tags (arr_field out ''rule_set''),
          map (\<lambda>j. case j of JObj m \<Rightarrow> rule_set_refs m | _ \<Rightarrow> []) (arr_field out ''rules'')))"

definition ads_rules :: "rule list" where
  "ads_rules = [\<lparr>r_kind = RKPreset, r_ref = ''ads'', r_enabled = True, r_body = None\<rparr>,
                srs_rule ''mine'' ''u'' True]"


text \<open>
  With disabled rules the section can name a rule set that is missing: the resolver lets a
  disabled rule claim the tag, the merge then drops that rule set, and an enabled rule with the
  same identity keeps referring to it. Two lists with non-Latin names share their identity.
\<close>

theorem disabled_rule_leaves_dangling_rule_set:
  "route_summary [srs_rule [CHR 0xD0, CHR 0xA0] ''u1'' False, srs_rule [CHR 0xD0, CHR 0xA1] ''u2'' True]
     = ([], [[''user:rule'']]) \<and>
   stable_rule_id (srs_rule [CHR 0xD0, CHR 0xA0] ''u1'' False) = ''rule'' \<and>
   stable_rule_id (srs_rule [CHR 0xD0, CHR 0xA1] ''u2'' True) = ''rule''"
  by (intro conjI; code_simp)

text \<open>
  Two enabled lists with non-Latin names are one list to the build: one rule set is emitted,
  with the file of the later rule, and both rules match on it.
\<close>

theorem non_latin_lists_share_one_file:
  "map (\<lambda>j. case j of JObj m \<Rightarrow> str_field m ''path'' | _ \<Rightarrow> [])
       (arr_field (merge_presets_into_route
          (srs_env [srs_rule [CHR 0xD0, CHR 0xA0] ''u1'' True, srs_rule [CHR 0xD0, CHR 0xA1] ''u2'' True])
          [srs_rule [CHR 0xD0, CHR 0xA0] ''u1'' True, srs_rule [CHR 0xD0, CHR 0xA1] ''u2'' True] []) ''rule_set'')
     = [''/app/bin/rule-sets/u2.srs'']"
  by code_simp

text \<open>
  A rule that loses its last rule set is kept when it matches on anything else, and then
  matches more than it was written for, although the comment of the clean-up says that such a
  rule is dropped.
\<close>

theorem rule_without_rule_set_widens:
  "clean_dangling_rule_set_in_rule []
     [(''network'', JStr ''udp''), (''outbound'', JStr ''block''), (''rule_set'', JStr ''gone'')]
   = Some [(''network'', JStr ''udp''), (''outbound'', JStr ''block'')]"
  by code_simp

text \<open>One item of the clean-up of dangling outbounds.\<close>

definition outbound_resolves :: "string set \<Rightarrow> json \<Rightarrow> bool" where
  "outbound_resolves final_tags j =
     (case j of
        JObj m \<Rightarrow> str_field m ''outbound'' = [] \<or>
          str_field m ''outbound'' \<in> set outbound_sentinel_literals \<union> final_tags
      | _ \<Rightarrow> True)"

lemma clean_item_resolves:
  "fst (clean_route_item final_tags fallback j) = Some j' \<Longrightarrow> outbound_resolves final_tags j'"
  by (auto simp: clean_route_item_def clean_dangling_outbound_ref_def outbound_resolves_def Let_def
      str_field_def[of "sput k v m" for k v m] split: json.splits if_splits)

lemma clean_item_fixed:
  "outbound_resolves final_tags j \<Longrightarrow> clean_route_item final_tags fallback j = (Some j, None)"
  by (cases j) (auto simp: clean_route_item_def clean_dangling_outbound_ref_def outbound_resolves_def Let_def)

lemma clean_item_warns:
  "snd (clean_route_item final_tags fallback j) = None \<longleftrightarrow> outbound_resolves final_tags j"
  by (cases j) (auto simp: clean_route_item_def clean_dangling_outbound_ref_def outbound_resolves_def Let_def)

lemma map_filter_all_Some: "(\<forall>x \<in> set xs. f x = Some x) \<Longrightarrow> List.map_filter f xs = xs"
  by (induction xs) (auto simp: List.map_filter_simps)

lemma map_filter_all_None: "(\<forall>x \<in> set xs. f x = None) \<Longrightarrow> List.map_filter f xs = []"
  by (induction xs) (auto simp: List.map_filter_simps)

text \<open>
  C36. After the clean-up no route rule points at an outbound that will not exist: every rule left
  has no outbound, a literal the core knows, or an emitted tag; every rule that had a dangling
  one was reported; rules that resolved are left as they are, in order; the rest of the section
  is untouched; and a second clean-up changes nothing and reports nothing.
\<close>

theorem no_dangling_outbound_left:
  assumes "clean_dangling_outbounds final_tags fallback route = (out, ws)"
  shows "list_all (outbound_resolves final_tags) (arr_field out ''rules'') \<and>
    length ws = length (filter (\<lambda>j. \<not> outbound_resolves final_tags j) (arr_field route ''rules'')) \<and>
    subseq (filter (outbound_resolves final_tags) (arr_field route ''rules'')) (arr_field out ''rules'') \<and>
    (\<forall>k. k \<noteq> ''rules'' \<longrightarrow> map_of out k = map_of route k) \<and>
    clean_dangling_outbounds final_tags fallback out = (out, [])"
proof (cases "arr_field route ''rules'' = []")
  case True
  with assms have "out = route" "ws = []" by (auto simp: clean_dangling_outbounds_def)
  with True show ?thesis by (simp add: clean_dangling_outbounds_def)
next
  case False
  let ?f = "\<lambda>j. fst (clean_route_item final_tags fallback j)"
  let ?g = "\<lambda>j. snd (clean_route_item final_tags fallback j)"
  let ?items = "arr_field route ''rules''"
  let ?kept = "List.map_filter ?f ?items"
  have out: "out = (if ?kept \<noteq> [] then sput ''rules'' (JArr ?kept) route else sdel ''rules'' route)"
    and ws: "ws = List.map_filter ?g ?items"
    using assms False by (auto simp: clean_dangling_outbounds_def Let_def)
  have rules: "arr_field out ''rules'' = ?kept"
    by (simp add: out) (simp add: arr_field_def)
  have res: "\<forall>j \<in> set ?kept. outbound_resolves final_tags j"
    using clean_item_resolves by (auto simp: set_map_filter)
  have count: "length (List.map_filter ?g js) = length (filter (\<lambda>j. \<not> outbound_resolves final_tags j) js)" for js
  proof (induction js)
    case (Cons j js)
    then show ?case using clean_item_warns[of final_tags fallback j]
      by (auto simp: List.map_filter_simps split: option.split)
  qed (simp add: List.map_filter_simps)
  have sub: "subseq (filter (outbound_resolves final_tags) js) (List.map_filter ?f js)" for js
  proof (induction js)
    case (Cons j js)
    then show ?case using clean_item_fixed[of final_tags j fallback]
      by (auto simp: List.map_filter_simps split: option.split)
  qed simp
  have again: "List.map_filter ?f ?kept = ?kept" "List.map_filter ?g ?kept = []"
    using res clean_item_fixed by (auto intro!: map_filter_all_Some map_filter_all_None)
  have "clean_dangling_outbounds final_tags fallback out = (out, [])"
  proof (cases "?kept = []")
    case True
    with rules show ?thesis by (simp add: clean_dangling_outbounds_def)
  next
    case ne: False
    then have o: "out = sput ''rules'' (JArr ?kept) route" by (simp add: out)
    have "sput ''rules'' (JArr ?kept) (sput ''rules'' (JArr ?kept) route) = sput ''rules'' (JArr ?kept) route"
      by (rule sput_sput)
    with ne rules again o show ?thesis by (simp add: clean_dangling_outbounds_def Let_def)
  qed
  moreover have "\<forall>k. k \<noteq> ''rules'' \<longrightarrow> map_of out k = map_of route k" by (simp add: out)
  ultimately show ?thesis using res count[of ?items] sub[of ?items] rules ws by (simp add: list_all_iff)
qed

theorem no_dangling_outbound_left_witness:
  "let rule = (\<lambda>t. JObj [(''domain'', JStr t), (''outbound'', JStr t)]);
       route = [(''final'', JStr ''x''), (''rules'', JArr [rule ''proxy'', rule ''gone'', rule ''reject''])];
       c = clean_dangling_outbounds {''proxy''} [] route
   in clean_dangling_outbounds {''proxy''} [] (fst c) = (fst c, []) \<and> snd c = [DroppedRule ''gone''] \<and>
      arr_field (fst c) ''rules'' = [rule ''proxy'', rule ''reject'']"
proof -
  let ?rule = "\<lambda>t. JObj [(''domain'', JStr t), (''outbound'', JStr t)]"
  let ?route = "[(''final'', JStr ''x''), (''rules'', JArr [?rule ''proxy'', ?rule ''gone'', ?rule ''reject''])]"
  have c: "clean_dangling_outbounds {''proxy''} [] ?route =
      ([(''final'', JStr ''x''), (''rules'', JArr [?rule ''proxy'', ?rule ''reject''])], [DroppedRule ''gone''])"
    by code_simp
  from no_dangling_outbound_left[OF c] c show ?thesis by (simp add: Let_def arr_field_def)
qed

text \<open>Rule sets that are converted are never remote, and converting them again does nothing.\<close>

lemma rule_srs_path_ne: "rule_srs_path ed tag \<noteq> []"
  by (simp add: rule_srs_path_def path_join_def)

lemma str_field_srs_body [simp]:
  "str_field (srs_rule_set_body tag path) ''type'' = ''local''"
  "str_field (srs_rule_set_body tag path) ''path'' = path"
  "str_field (srs_rule_set_body tag path) ''tag'' = tag"
  by (simp_all add: srs_rule_set_body_def str_field_def)

lemma convert_rule_set_result:
  assumes "convert_rule_set_to_local fs ed rd rs = Inr j"
  shows "convert_rule_set_to_local fs ed rd j = Inr j \<and>
    (\<forall>m. j = JObj m \<longrightarrow> str_field m ''type'' \<noteq> ''remote'')"
proof (cases rs)
  case (JObj m)
  consider "str_field m ''type'' = ''remote''" | "str_field m ''type'' \<noteq> ''remote''" by blast
  then show ?thesis
  proof cases
    case 1
    define path where "path = (if rd \<noteq> [] then rd @ ''/'' @ resource_name_for_srs (str_field m ''tag'')
                      else rule_srs_path ed (str_field m ''tag''))"
    from 1 assms JObj have j: "j = JObj (srs_rule_set_body (str_field m ''tag'') path)"
      and f: "srs_file_exists fs ed (str_field m ''tag'')"
      by (auto simp: convert_rule_set_to_local_def Let_def path_def split: if_splits)
    have "path \<noteq> []" using rule_srs_path_ne by (simp add: path_def)
    moreover have "rd = [] \<Longrightarrow> fs_exists fs path" using f by (simp add: path_def srs_file_exists_def)
    ultimately show ?thesis
      unfolding j by (simp add: convert_rule_set_to_local_def Let_def)
  next
    case 2
    then have "j = JObj m"
      using assms JObj by (auto simp: convert_rule_set_to_local_def Let_def split: if_splits)
    with 2 assms JObj show ?thesis by simp
  qed
qed (use assms in \<open>simp_all add: convert_rule_set_to_local_def\<close>)

definition not_remote :: "json \<Rightarrow> bool" where
  "not_remote j = (case j of JObj m \<Rightarrow> str_field m ''type'' \<noteq> ''remote'' | _ \<Rightarrow> True)"

lemma convert_rule_sets_result:
  "convert_rule_sets fs ed rd js = Inr js' \<Longrightarrow>
   length js' = length js \<and> convert_rule_sets fs ed rd js' = Inr js' \<and> list_all not_remote js'"
proof (induction js arbitrary: js')
  case (Cons j js)
  from Cons.prems obtain x xs where x: "convert_rule_set_to_local fs ed rd j = Inr x"
    "convert_rule_sets fs ed rd js = Inr xs" "js' = x # xs"
    by (auto split: sum.splits)
  with Cons.IH convert_rule_set_result[OF x(1)] show ?case
    by (auto simp: not_remote_def split: json.split)
qed simp

lemma merge_route_rules_result:
  assumes "merge_route_rules fs ed rd rs (rules, sets) = Inr (rules', sets')"
  shows "rules' = rules @ map JObj (concat (map rule_bodies (filter rr_enabled rs))) \<and>
    (\<exists>new. sets' = sets @ new \<and> list_all not_remote new \<and>
       length new = length (concat (map rr_rule_sets (filter rr_enabled rs))))"
  using assms
proof (induction rs arbitrary: rules sets)
  case (Cons r rs)
  show ?case
  proof (cases "rr_enabled r")
    case True
    with Cons.prems obtain xs where x: "convert_rule_sets fs ed rd (rr_rule_sets r) = Inr xs"
      "merge_route_rules fs ed rd rs (rules @ map JObj (rule_bodies r), sets @ xs) = Inr (rules', sets')"
      by (auto split: sum.splits)
    from Cons.IH[OF x(2)] convert_rule_sets_result[OF x(1)] True show ?thesis by auto
  next
    case False
    with Cons show ?thesis by simp
  qed
qed simp

text \<open>
  The legacy merge only appends: the template's rules stay first and unchanged, then come the
  bodies of the enabled rules in order with their outbound applied, the rule sets added for them
  are all local or inline (none makes the core download at start), one per declaration, and a
  non-empty final outbound is the one configured.
\<close>

theorem merge_route_section_appends:
  assumes "merge_route_section fs route cfg = Inr out"
  shows "arr_field out ''rules'' = arr_field route ''rules'' @
      map JObj (concat (map rule_bodies (filter rr_enabled (rc_rules cfg)))) \<and>
    prefix (arr_field route ''rule_set'') (arr_field out ''rule_set'') \<and>
    list_all not_remote (drop (length (arr_field route ''rule_set'')) (arr_field out ''rule_set'')) \<and>
    length (arr_field out ''rule_set'') = length (arr_field route ''rule_set'') +
      length (concat (map rr_rule_sets (filter rr_enabled (rc_rules cfg)))) \<and>
    map_of out ''final'' = (if rc_final cfg = [] then map_of route ''final'' else Some (JStr (rc_final cfg)))"
proof -
  from assms obtain rules sets where m: "merge_route_rules fs (rc_exec_dir cfg) (rc_resource_dir cfg) (rc_rules cfg)
             (arr_field route ''rules'', arr_field route ''rule_set'') = Inr (rules, sets)"
    by (auto simp: merge_route_section_def split: sum.splits)
  define r1 where "r1 = (if rules \<noteq> [] then sput ''rules'' (JArr rules) route else route)"
  define r2 where "r2 = (if sets \<noteq> [] then sput ''rule_set'' (JArr sets) r1 else r1)"
  define r3 where "r3 = (if rc_final cfg \<noteq> [] then sput ''final'' (JStr (rc_final cfg)) r2 else r2)"
  from merge_route_rules_result[OF m] obtain new where n:
    "rules = arr_field route ''rules'' @ map JObj (concat (map rule_bodies (filter rr_enabled (rc_rules cfg))))"
    "sets = arr_field route ''rule_set'' @ new" "list_all not_remote new"
    "length new = length (concat (map rr_rule_sets (filter rr_enabled (rc_rules cfg))))" by auto
  have out: "out = (if rc_omit_resolver cfg then sdel ''default_domain_resolver'' r3
        else if trim_space (rc_resolver cfg) \<noteq> []
        then sput ''default_domain_resolver'' (JStr (trim_space (rc_resolver cfg))) r3 else r3)"
    using assms m unfolding merge_route_section_def Let_def
    by (simp only: sum.case prod.case sum.inject r3_def r2_def r1_def)
  have "map_of out k = map_of r3 k" if "k \<noteq> ''default_domain_resolver''" for k
    using that by (simp add: out)
  then have f: "arr_field out ''rules'' = arr_field r3 ''rules''" "arr_field out ''rule_set'' = arr_field r3 ''rule_set''"
    "map_of out ''final'' = map_of r3 ''final''"
    by (simp_all add: arr_field_def)
  have "arr_field r3 ''rules'' = rules" using n(1) by (simp add: r1_def r2_def r3_def)
  moreover have "arr_field r3 ''rule_set'' = sets" using n(2) by (simp add: r1_def r2_def r3_def)
  moreover have "map_of r3 ''final'' =
      (if rc_final cfg = [] then map_of route ''final'' else Some (JStr (rc_final cfg)))"
    by (simp add: r1_def r2_def r3_def)
  ultimately show ?thesis using f n by simp
qed

theorem merge_route_section_appends_witness:
  "let cfg = \<lparr>rc_rules = [\<lparr>rr_enabled = True, rr_outbound = ''drop'', rr_primary = None,
                 rr_rules = [[(''domain'', JStr ''a'')]],
                 rr_rule_sets = [JObj [(''tag'', JStr ''t''), (''type'', JStr ''remote'')]]\<rparr>],
              rc_final = ''proxy'', rc_exec_dir = ''/app'', rc_resource_dir = [], rc_resolver = [],
              rc_omit_resolver = False\<rparr>;
       fs = \<lparr>fs_exists = (\<lambda>_. True), fs_is_dir = (\<lambda>_. False)\<rparr>
   in \<exists>out. merge_route_section fs [(''rules'', JArr [JStr ''hijack''])] cfg = Inr out \<and>
        length (arr_field out ''rules'') = 2 \<and> length (arr_field out ''rule_set'') = 1 \<and>
        list_all not_remote (arr_field out ''rule_set'') \<and> map_of out ''final'' = Some (JStr ''proxy'')"
proof -
  let ?cfg = "\<lparr>rc_rules = [\<lparr>rr_enabled = True, rr_outbound = ''drop'', rr_primary = None,
                 rr_rules = [[(''domain'', JStr ''a'')]],
                 rr_rule_sets = [JObj [(''tag'', JStr ''t''), (''type'', JStr ''remote'')]]\<rparr>],
              rc_final = ''proxy'', rc_exec_dir = ''/app'', rc_resource_dir = [], rc_resolver = [],
              rc_omit_resolver = False\<rparr>"
  let ?fs = "\<lparr>fs_exists = (\<lambda>_. True), fs_is_dir = (\<lambda>_. False)\<rparr>"
  have "isl (merge_route_section ?fs [(''rules'', JArr [JStr ''hijack''])] ?cfg) = False" by code_simp
  then obtain out where o: "merge_route_section ?fs [(''rules'', JArr [JStr ''hijack''])] ?cfg = Inr out"
    by (cases "merge_route_section ?fs [(''rules'', JArr [JStr ''hijack''])] ?cfg") auto
  from merge_route_section_appends[OF o] o show ?thesis
    by (simp add: Let_def rule_bodies_def arr_field_def)
qed

end
