(* ===== verification/Tls.thy ===== *)
theory Tls
  imports Json "HOL-Library.Word"
begin

text \<open>
  The anti-inspection transforms of \<open>core/build/tls_transforms.go\<close>: which outbounds they touch,
  the fields they set, and the mixed-case server name with its 64-bit FNV-1a hash, computed on
  machine words.
\<close>

unbundle bit_operations_syntax

section \<open>Options\<close>

record tls_options =
  to_fragment :: bool
  to_record_fragment :: bool
  to_fallback_delay :: string
  to_mixed_case_sni :: bool

definition any_enabled :: "tls_options \<Rightarrow> bool" where
  "any_enabled opts \<longleftrightarrow> to_fragment opts \<or> to_record_fragment opts \<or> to_mixed_case_sni opts"

definition var_is_true :: "(string \<rightharpoonup> string) \<Rightarrow> string \<Rightarrow> bool" where
  "var_is_true vars key \<longleftrightarrow>
     (case vars key of None \<Rightarrow> False | Some v \<Rightarrow> v \<in> set [''true'', ''1'', ''yes'', ''on''])"

definition tls_options_from_vars :: "(string \<rightharpoonup> string) \<Rightarrow> tls_options" where
  "tls_options_from_vars vars =
     \<lparr>to_fragment = var_is_true vars ''tls_fragment'',
      to_record_fragment = var_is_true vars ''tls_record_fragment'',
      to_fallback_delay = (case vars ''tls_fragment_fallback_delay'' of None \<Rightarrow> [] | Some d \<Rightarrow> d),
      to_mixed_case_sni = var_is_true vars ''tls_mixed_case_sni''\<rparr>"

section \<open>Mixed-case server names\<close>

text \<open>\<open>hash/fnv\<close>'s 64-bit FNV-1a over the bytes of a string.\<close>

definition fnv64a :: "string \<Rightarrow> 64 word" where
  "fnv64a s = fold (\<lambda>c h. (h XOR of_char c) * 1099511628211) s 14695981039346656037"

definition is_letter :: "char \<Rightarrow> bool" where
  "is_letter c \<longleftrightarrow> (let n = (of_char c :: nat) in (97 \<le> n \<and> n \<le> 122) \<or> (65 \<le> n \<and> n \<le> 90))"

text \<open>A byte with bit 5 (\<open>0x20\<close>) cleared, and with it set.\<close>

fun clear_case_bit :: "char \<Rightarrow> char" where
  "clear_case_bit (Char b0 b1 b2 b3 b4 b5 b6 b7) = Char b0 b1 b2 b3 b4 False b6 b7"

fun set_case_bit :: "char \<Rightarrow> char" where
  "set_case_bit (Char b0 b1 b2 b3 b4 b5 b6 b7) = Char b0 b1 b2 b3 b4 True b6 b7"

text \<open>The bytes of one label; \<open>k\<close> counts its letters so far, \<open>flip\<close> holds for every second label.\<close>

fun mix_bytes :: "64 word \<Rightarrow> bool \<Rightarrow> nat \<Rightarrow> string \<Rightarrow> string" where
  "mix_bytes seed flip k [] = []"
| "mix_bytes seed flip k (c # cs) =
     (if \<not> is_letter c then c # mix_bytes seed flip k cs
      else
        (let up = (drop_bit (k mod 64) seed AND 1 = 1);
             up = (if flip then \<not> up else up)
         in (if up then clear_case_bit c else set_case_bit c) # mix_bytes seed flip (k + 1) cs))"

definition is_punycode :: "string \<Rightarrow> bool" where
  "is_punycode label \<longleftrightarrow> prefix ''xn--'' (to_lower label)"

fun mix_labels :: "64 word \<Rightarrow> nat \<Rightarrow> string list \<Rightarrow> string list" where
  "mix_labels seed li [] = []"
| "mix_labels seed li (l # ls) =
     (if is_punycode l then l else mix_bytes seed (odd li) 0 l) # mix_labels seed (li + 1) ls"

definition mixed_case_sni :: "string \<Rightarrow> string" where
  "mixed_case_sni host = join_with ''.'' (mix_labels (fnv64a host) 0 (split_char (CHR ''.'') host))"

section \<open>Applying the transforms\<close>

definition utility_types :: "string list" where
  "utility_types = [''direct'', ''block'', ''dns'', ''selector'', ''urltest'', ''naive'', ''masque'', []]"

definition first_hop_tls :: "obj \<Rightarrow> obj option" where
  "first_hop_tls ob =
     (if str_field ob ''detour'' \<noteq> [] then None
      else if str_field ob ''type'' \<in> set utility_types then None
      else (case map_of ob ''tls'' of
              Some (JObj tls) \<Rightarrow> if bool_field tls ''enabled'' then Some tls else None
            | _ \<Rightarrow> None))"

text \<open>The transformed outbound, or \<open>None\<close> when it is not modified.\<close>

definition apply_tls_to_outbound :: "tls_options \<Rightarrow> obj \<Rightarrow> obj option" where
  "apply_tls_to_outbound opts ob =
     (case first_hop_tls ob of
        None \<Rightarrow> None
      | Some tls \<Rightarrow>
          (let t1 = (if to_fragment opts then sput ''fragment'' (JBool True) tls else tls);
               t1 = (if to_fragment opts \<and> to_fallback_delay opts \<noteq> []
                     then sput ''fragment_fallback_delay'' (JStr (to_fallback_delay opts)) t1 else t1);
               t2 = (if to_record_fragment opts then sput ''record_fragment'' (JBool True) t1 else t1);
               sni = str_field t2 ''server_name'';
               mix = to_mixed_case_sni opts \<and> sni \<noteq> [] \<and> mixed_case_sni sni \<noteq> sni;
               t3 = (if mix then sput ''server_name'' (JStr (mixed_case_sni sni)) t2 else t2)
           in if to_fragment opts \<or> to_record_fragment opts \<or> mix
              then Some (sput ''tls'' (JObj t3) ob) else None))"

definition apply_tls_transforms :: "json list \<Rightarrow> tls_options \<Rightarrow> json list" where
  "apply_tls_transforms obs opts =
     (if \<not> any_enabled opts then obs
      else map (\<lambda>j. case j of
             JObj ob \<Rightarrow> (case apply_tls_to_outbound opts ob of Some ob' \<Rightarrow> JObj ob' | None \<Rightarrow> j)
           | _ \<Rightarrow> j) obs)"

section \<open>Lemmas\<close>

definition letters :: "char list" where
  "letters = ''abcdefghijklmnopqrstuvwxyzABCDEFGHIJKLMNOPQRSTUVWXYZ''"

lemma letters_range: "map char_of ([97..<123] @ [65..<91] :: nat list) = letters"
  by code_simp

lemma is_letter_mem:
  assumes "is_letter c"
  shows "c \<in> set letters"
proof -
  have "(of_char c :: nat) \<in> set ([97..<123] @ [65..<91])"
    using assms unfolding is_letter_def Let_def set_append set_upt Un_iff atLeastLessThan_iff
    by linarith
  then have "char_of (of_char c :: nat) \<in> set (map char_of ([97..<123] @ [65..<91] :: nat list))"
    by (simp only: set_map) (rule imageI)
  then show ?thesis by (simp only: letters_range char_of_char)
qed

lemma case_bit_letters:
  "list_all (\<lambda>c. lower_char (clear_case_bit c) = lower_char c \<and> lower_char (set_case_bit c) = lower_char c \<and>
      clear_case_bit c \<noteq> CHR ''.'' \<and> set_case_bit c \<noteq> CHR ''.'') letters"
  by code_simp

lemma case_bit_letter:
  assumes "is_letter c"
  shows "lower_char (clear_case_bit c) = lower_char c" "lower_char (set_case_bit c) = lower_char c"
    "clear_case_bit c \<noteq> CHR ''.''" "set_case_bit c \<noteq> CHR ''.''"
  using bspec[OF case_bit_letters[unfolded list_all_iff] is_letter_mem[OF assms]] by blast+

lemma mix_bytes_step:
  "is_letter c \<Longrightarrow> \<exists>c'. mix_bytes seed flip k (c # cs) = c' # mix_bytes seed flip (k + 1) cs \<and>
     (c' = clear_case_bit c \<or> c' = set_case_bit c)"
  by (simp add: Let_def)

lemma mix_bytes_case: "to_lower (mix_bytes seed flip k cs) = to_lower cs"
proof (induction cs arbitrary: k)
  case (Cons c cs)
  show ?case
  proof (cases "is_letter c")
    case True
    from mix_bytes_step[OF this, of seed flip k cs] obtain c' where
      "mix_bytes seed flip k (c # cs) = c' # mix_bytes seed flip (k + 1) cs"
      "c' = clear_case_bit c \<or> c' = set_case_bit c" by blast
    with case_bit_letter[OF True] Cons show ?thesis by auto
  next
    case False
    with Cons show ?thesis by simp
  qed
qed simp

lemma mix_bytes_no_dot: "CHR ''.'' \<notin> set cs \<Longrightarrow> CHR ''.'' \<notin> set (mix_bytes seed flip k cs)"
proof (induction cs arbitrary: k)
  case (Cons c cs)
  show ?case
  proof (cases "is_letter c")
    case True
    from mix_bytes_step[OF this, of seed flip k cs] obtain c' where
      "mix_bytes seed flip k (c # cs) = c' # mix_bytes seed flip (k + 1) cs"
      "c' = clear_case_bit c \<or> c' = set_case_bit c" by blast
    with case_bit_letter[OF True] Cons show ?thesis by auto
  next
    case False
    with Cons show ?thesis by simp
  qed
qed simp

lemma mix_labels_spec:
  "list_all2 (\<lambda>a b. to_lower b = to_lower a \<and> (is_punycode a \<longrightarrow> b = a)) ls (mix_labels seed li ls)"
  by (induction seed li ls rule: mix_labels.induct) (auto simp: mix_bytes_case)

lemma mix_labels_no_dot:
  "list_all (\<lambda>l. CHR ''.'' \<notin> set l) ls \<Longrightarrow> list_all (\<lambda>l. CHR ''.'' \<notin> set l) (mix_labels seed li ls)"
  by (induction seed li ls rule: mix_labels.induct) (auto simp: mix_bytes_no_dot)

lemma mix_labels_length [simp]: "length (mix_labels seed li ls) = length ls"
  by (induction seed li ls rule: mix_labels.induct) auto

lemma split_char_word: "d \<notin> set w \<Longrightarrow> split_char d w = [w]"
  by (induction w) auto

lemma split_char_cons: "d \<notin> set w \<Longrightarrow> split_char d (w @ d # rest) = w # split_char d rest"
  by (induction w) auto

lemma split_join_with: "ws \<noteq> [] \<Longrightarrow> list_all (\<lambda>w. d \<notin> set w) ws \<Longrightarrow> split_char d (join_with [d] ws) = ws"
  by (induction "[d]" ws rule: join_with.induct) (auto simp: split_char_word split_char_cons)

lemma to_lower_append [simp]: "to_lower (s @ t) = to_lower s @ to_lower t"
  by (simp add: to_lower_def)

lemma to_lower_join:
  "list_all2 (\<lambda>a b. to_lower b = to_lower a) xs ys \<Longrightarrow>
   to_lower (join_with sep ys) = to_lower (join_with sep xs)"
proof (induction sep xs arbitrary: ys rule: join_with.induct)
  case (3 sep w v ws)
  then show ?case by (cases ys; cases "tl ys") auto
qed (auto simp: list_all2_Cons1)

lemma mixed_case_sni_labels:
  "split_char (CHR ''.'') (mixed_case_sni host) = mix_labels (fnv64a host) 0 (split_char (CHR ''.'') host)"
proof -
  let ?ms = "mix_labels (fnv64a host) 0 (split_char (CHR ''.'') host)"
  have "list_all (\<lambda>l. CHR ''.'' \<notin> set l) ?ms"
    by (rule mix_labels_no_dot) (auto simp: list_all_iff dest: split_char_no_sep)
  moreover have "?ms \<noteq> []" by (metis mix_labels_length length_0_conv split_char_ne)
  ultimately show ?thesis using split_join_with by (simp add: mixed_case_sni_def)
qed

lemma mixed_case_sni_equal_fold: "equal_fold (mixed_case_sni host) host"
proof -
  have "to_lower (join_with ''.'' (mix_labels (fnv64a host) 0 (split_char (CHR ''.'') host))) =
      to_lower (join_with ''.'' (split_char (CHR ''.'') host))"
    by (rule to_lower_join) (rule list_all2_mono[OF mix_labels_spec], simp)
  then show ?thesis by (simp add: equal_fold_def mixed_case_sni_def join_split_char)
qed

section \<open>Properties\<close>

text \<open>
  The scrambled server name is the same host: it differs from the original in letter case
  only, it has the same labels one for one, and punycode labels, whose case matters, are exactly
  as they were.
\<close>

theorem mixed_case_sni_same_host:
  "equal_fold (mixed_case_sni host) host \<and>
   list_all2 (\<lambda>a b. equal_fold a b \<and> (is_punycode a \<longrightarrow> b = a))
     (split_char (CHR ''.'') host) (split_char (CHR ''.'') (mixed_case_sni host))"
  using mixed_case_sni_equal_fold[of host] mix_labels_spec[of "split_char (CHR ''.'') host" "fnv64a host" 0]
  by (auto simp: equal_fold_def mixed_case_sni_labels elim!: list_all2_mono)

theorem mixed_case_sni_same_host_witness:
  "mixed_case_sni ''www.example.com'' \<noteq> ''www.example.com'' \<and>
   equal_fold (mixed_case_sni ''www.example.com'') ''www.example.com'' \<and>
   mixed_case_sni ''xn--p1ai'' = ''xn--p1ai'' \<and> mixed_case_sni ''10.0.0.1'' = ''10.0.0.1''"
proof (intro conjI)
  show "equal_fold (mixed_case_sni ''www.example.com'') ''www.example.com''"
    using mixed_case_sni_same_host by blast
qed code_simp+

definition tls_fields :: "string list" where
  "tls_fields = [''fragment'', ''fragment_fallback_delay'', ''record_fragment'', ''server_name'']"

definition same_outbound :: "json \<Rightarrow> json \<Rightarrow> bool" where
  "same_outbound a b \<longleftrightarrow>
     a = b \<or>
     (\<exists>m m' t t'. a = JObj m \<and> b = JObj m' \<and> first_hop_tls m = Some t \<and>
        map_of m' = (map_of m)(''tls'' \<mapsto> JObj t') \<and>
        (\<forall>k. k \<notin> set tls_fields \<longrightarrow> map_of t' k = map_of t k) \<and>
        equal_fold (str_field t' ''server_name'') (str_field t ''server_name''))"

lemma apply_tls_same:
  assumes "apply_tls_to_outbound opts ob = Some ob'"
  shows "same_outbound (JObj ob) (JObj ob')"
proof -
  obtain tls where tls: "first_hop_tls ob = Some tls"
    using assms by (auto simp: apply_tls_to_outbound_def split: option.splits)
  define t1 where "t1 = (if to_fragment opts \<and> to_fallback_delay opts \<noteq> []
     then sput ''fragment_fallback_delay'' (JStr (to_fallback_delay opts))
            (if to_fragment opts then sput ''fragment'' (JBool True) tls else tls)
     else (if to_fragment opts then sput ''fragment'' (JBool True) tls else tls))"
  define t2 where "t2 = (if to_record_fragment opts then sput ''record_fragment'' (JBool True) t1 else t1)"
  define t3 where "t3 = (if to_mixed_case_sni opts \<and> str_field t2 ''server_name'' \<noteq> [] \<and>
       mixed_case_sni (str_field t2 ''server_name'') \<noteq> str_field t2 ''server_name''
     then sput ''server_name'' (JStr (mixed_case_sni (str_field t2 ''server_name''))) t2 else t2)"
  have "ob' = sput ''tls'' (JObj t3) ob"
    using assms tls unfolding apply_tls_to_outbound_def Let_def t3_def t2_def t1_def
    by (auto split: if_splits)
  moreover have "map_of t2 k = map_of tls k" if "k \<notin> set tls_fields \<or> k = ''server_name''" for k
    using that by (auto simp: t2_def t1_def tls_fields_def)
  moreover have "map_of t3 k = map_of t2 k" if "k \<noteq> ''server_name''" for k
    using that by (simp add: t3_def)
  moreover have "equal_fold (str_field t3 ''server_name'') (str_field t2 ''server_name'')"
    using mixed_case_sni_equal_fold by (simp add: t3_def str_field_def[of "sput k v m" for k v m])
  ultimately have "\<forall>k. k \<notin> set tls_fields \<longrightarrow> map_of t3 k = map_of tls k"
    "equal_fold (str_field t3 ''server_name'') (str_field tls ''server_name'')"
    "map_of ob' = (map_of ob)(''tls'' \<mapsto> JObj t3)"
    by (auto simp: tls_fields_def str_field_def)
  with tls show ?thesis unfolding same_outbound_def by blast
qed

text \<open>
  The transforms have the scope they are documented with: with no option on, the outbounds are
  the same; with options on, their number and order are the same, anything but a first-hop TLS
  outbound is the same, and of such an outbound only the TLS block changes, and in it only the
  fragment fields and the letter case of the server name.
\<close>

theorem tls_transforms_scope:
  "(\<not> any_enabled opts \<longrightarrow> apply_tls_transforms obs opts = obs) \<and>
   list_all2 same_outbound obs (apply_tls_transforms obs opts)"
proof -
  have "same_outbound j (case j of
             JObj ob \<Rightarrow> (case apply_tls_to_outbound opts ob of Some ob' \<Rightarrow> JObj ob' | None \<Rightarrow> j)
           | _ \<Rightarrow> j)" for j
    using apply_tls_same[of opts] by (auto simp: same_outbound_def split: json.split option.split)
  then have "list_all2 same_outbound obs (map (\<lambda>j. case j of
             JObj ob \<Rightarrow> (case apply_tls_to_outbound opts ob of Some ob' \<Rightarrow> JObj ob' | None \<Rightarrow> j)
           | _ \<Rightarrow> j) obs)"
    by (induction obs) auto
  moreover have "list_all2 same_outbound obs obs" by (rule list.rel_refl) (simp add: same_outbound_def)
  ultimately show ?thesis by (simp add: apply_tls_transforms_def)
qed

definition sample_hop :: obj where
  "sample_hop = [(''tag'', JStr ''a''), (''tls'', JObj [(''enabled'', JBool True), (''server_name'', JStr ''example.org'')]),
                 (''type'', JStr ''vless'')]"

definition sample_opts :: tls_options where
  "sample_opts = \<lparr>to_fragment = False, to_record_fragment = True, to_fallback_delay = [],
                  to_mixed_case_sni = False\<rparr>"

theorem tls_transforms_scope_witness:
  "same_outbound (JObj sample_hop) (hd (apply_tls_transforms [JObj sample_hop] sample_opts)) \<and>
   hd (apply_tls_transforms [JObj sample_hop] sample_opts) =
     JObj (sput ''tls'' (JObj [(''enabled'', JBool True), (''record_fragment'', JBool True),
                               (''server_name'', JStr ''example.org'')]) sample_hop)"
proof
  have "list_all2 same_outbound [JObj sample_hop] (apply_tls_transforms [JObj sample_hop] sample_opts)"
    using tls_transforms_scope by blast
  then show "same_outbound (JObj sample_hop) (hd (apply_tls_transforms [JObj sample_hop] sample_opts))"
    by (auto simp: list_all2_Cons1)
qed code_simp

end
