(* ===== verification/Vars.thy ===== *)
theory Vars
  imports Substitute
begin

text \<open>
  Template variables and parameters: \<open>core/template/target.go\<close>, \<open>vars_default.go\<close>,
  \<open>vars_resolve.go\<close> and the parameter application of \<open>loader.go\<close>. A variable takes its value
  from the stored state, else from its default (which may branch on variables declared before it),
  else from a node of the template. JSON texts are decoded values here; what comes from outside
  the source is collected in \<open>host\<close>: the platform the launcher runs on, the regular-expression
  engine, the JSON reader for predicates stored as text, and \<open>fmt.Sprint\<close> of a composite value.
\<close>

section \<open>The target machine\<close>

record host =
  h_goos :: string
  h_goarch :: string
  h_re :: "string \<Rightarrow> string \<Rightarrow> bool option"
  h_parse :: "string \<Rightarrow> json option"
  h_sprint :: "json \<Rightarrow> string"

definition normalized :: "host \<Rightarrow> target_spec \<Rightarrow> target_spec" where
  "normalized H t =
     (let t1 = (if trim_space (ts_goos t) = [] then t\<lparr>ts_goos := h_goos H\<rparr> else t);
          t2 = (if trim_space (ts_goarch t1) = [] then t1\<lparr>ts_goarch := h_goarch H\<rparr> else t1)
      in if trim_space (ts_target t2) = [] then t2\<lparr>ts_target := ''local''\<rparr> else t2)"

definition is_remote :: "target_spec \<Rightarrow> bool" where
  "is_remote t = equal_fold (trim_space (ts_target t)) ''remote''"

definition local_target :: "host \<Rightarrow> target_spec" where
  "local_target H = \<lparr>ts_goos = h_goos H, ts_goarch = h_goarch H, ts_target = ''local'',
                     ts_machine_id = [], ts_resource_dir = [], ts_srs_local_dir = []\<rparr>"

definition remote_target_for :: "host \<Rightarrow> string \<Rightarrow> string \<Rightarrow> string \<Rightarrow> target_spec" where
  "remote_target_for H os arch mid =
     normalized H \<lparr>ts_goos = os, ts_goarch = arch, ts_target = ''remote'',
                   ts_machine_id = trim_space mid, ts_resource_dir = [], ts_srs_local_dir = []\<rparr>"

definition machine_id_or_empty :: "target_spec \<Rightarrow> string" where
  "machine_id_or_empty t = (if \<not> is_remote t then [] else trim_space (ts_machine_id t))"

definition target_tab_vars :: "template_var list \<Rightarrow> template_var list" where
  "target_tab_vars vars =
     filter (\<lambda>v. \<not> tv_separator v \<and> equal_fold (trim_space (wizard_ui v)) ''target'') vars"

text \<open>The spec \<open>TargetSpec{GOOS: goos}\<close> the wrappers without a target build.\<close>

definition goos_target :: "host \<Rightarrow> string \<Rightarrow> target_spec" where
  "goos_target H os =
     normalized H \<lparr>ts_goos = os, ts_goarch = [], ts_target = [],
                   ts_machine_id = [], ts_resource_dir = [], ts_srs_local_dir = []\<rparr>"

section \<open>Default values\<close>

definition var_default_is_empty :: "var_default \<Rightarrow> bool" where
  "var_default_is_empty v \<longleftrightarrow> trim_space (vd_scalar v) = [] \<and> per_platform v = []"

definition default_value_key_order :: "string \<Rightarrow> string \<Rightarrow> string list" where
  "default_value_key_order os arch =
     (let os = to_lower (trim_space os); arch = to_lower (trim_space arch)
      in (if os = ''windows'' \<and> arch = ''386'' then [''win7''] else [])
         @ (if os \<noteq> [] then [os] else []) @ [''default''])"

definition default_value_stringify :: "host \<Rightarrow> json \<Rightarrow> string" where
  "default_value_stringify H j =
     (case j of
        JStr s \<Rightarrow> trim_space s
      | JNum n \<Rightarrow> trim_space (itoa n)
      | JBool b \<Rightarrow> (if b then ''true'' else ''false'')
      | JNull \<Rightarrow> []
      | _ \<Rightarrow> trim_space (h_sprint H j))"

text \<open>
  \<open>VarDefaultValue.UnmarshalJSON\<close> on a decoded value: a scalar, or an object whose keys are
  lower-cased and whose scalar members become strings; an array is an error.
\<close>

definition put_platform :: "host \<Rightarrow> string \<times> json \<Rightarrow> obj \<Rightarrow> obj" where
  "put_platform H kv acc =
     (let sk = to_lower (trim_space (fst kv))
      in if sk = [] then acc
         else sput sk (case snd kv of JObj m \<Rightarrow> JObj m | v \<Rightarrow> JStr (default_value_stringify H v)) acc)"

definition decode_var_default :: "host \<Rightarrow> json \<Rightarrow> var_default option" where
  "decode_var_default H j =
     (case j of
        JNull \<Rightarrow> Some \<lparr>vd_scalar = [], per_platform = []\<rparr>
      | JStr s \<Rightarrow> Some \<lparr>vd_scalar = s, per_platform = []\<rparr>
      | JNum n \<Rightarrow> Some \<lparr>vd_scalar = itoa n, per_platform = []\<rparr>
      | JBool b \<Rightarrow> Some \<lparr>vd_scalar = (if b then ''true'' else ''false''), per_platform = []\<rparr>
      | JObj m \<Rightarrow> Some \<lparr>vd_scalar = [], per_platform = fold (put_platform H) m []\<rparr>
      | JArr _ \<Rightarrow> None)"

lemma select_if_branch_size: "select_if_branch E body = Some b \<Longrightarrow> size b < size (JObj body)"
  by (auto simp: select_if_branch_def simp del: json.size intro: size_obj_lookup split: if_splits)

function resolve_default_node :: "host \<Rightarrow> sub_env \<Rightarrow> json \<Rightarrow> string" where
  "resolve_default_node H E (JObj m) =
     (case map_of m ''#if'' of
        Some (JObj body) \<Rightarrow>
          (case select_if_branch E body of
             None \<Rightarrow> []
           | Some branch \<Rightarrow> resolve_default_node H E branch)
      | _ \<Rightarrow> [])"
| "resolve_default_node H E (JStr s) = trim_space s"
| "resolve_default_node H E JNull = []"
| "resolve_default_node H E (JBool b) = default_value_stringify H (JBool b)"
| "resolve_default_node H E (JNum n) = default_value_stringify H (JNum n)"
| "resolve_default_node H E (JArr xs) = default_value_stringify H (JArr xs)"
  by pat_completeness auto
termination resolve_default_node
  by (relation "measure (\<lambda>(H, E, j). size j)")
     (auto simp del: json.size dest!: select_if_branch_size size_obj_lookup)

text \<open>\<open>ForTargetIn\<close>; the loop over the keys returns the first nonempty value.\<close>

fun first_platform_value :: "host \<Rightarrow> sub_env \<Rightarrow> obj \<Rightarrow> string list \<Rightarrow> string option" where
  "first_platform_value H E m [] = None"
| "first_platform_value H E m (k # ks) =
     (case map_of m k of
        None \<Rightarrow> first_platform_value H E m ks
      | Some v \<Rightarrow>
          (let s = resolve_default_node H E v
           in if s \<noteq> [] then Some s else first_platform_value H E m ks))"

definition for_target_in ::
  "host \<Rightarrow> var_default \<Rightarrow> target_spec \<Rightarrow> (string \<rightharpoonup> string) \<Rightarrow> (string \<rightharpoonup> resolved_var) \<Rightarrow> string" where
  "for_target_in H v t types res =
     (let t = normalized H t;
          E = \<lparr>var_types = types, resolved = res, tgt = t, re_match = h_re H\<rparr>;
          fallback = trim_space (vd_scalar v)
      in case per_platform v of
           [] \<Rightarrow> fallback
         | [(k, node)] \<Rightarrow>
             (if k = ''#if'' then resolve_default_node H E (JObj [(''#if'', node)])
              else (case first_platform_value H E (per_platform v)
                           (default_value_key_order (ts_goos t) (ts_goarch t)) of
                      Some s \<Rightarrow> s | None \<Rightarrow> fallback))
         | _ \<Rightarrow> (case first_platform_value H E (per_platform v)
                         (default_value_key_order (ts_goos t) (ts_goarch t)) of
                    Some s \<Rightarrow> s | None \<Rightarrow> fallback))"

section \<open>Option lists of a declaration\<close>

text \<open>
  \<open>TemplateVar.UnmarshalJSON\<close> on the \<open>options\<close> payload. \<open>None\<close> is an error. The result holds
  the values, the titles (empty when none is given) and whether an object form occurred.
\<close>

definition plain_option :: "json \<Rightarrow> string option" where
  "plain_option j = (case j of JStr s \<Rightarrow> Some s | JNull \<Rightarrow> Some [] | _ \<Rightarrow> None)"

fun all_some :: "'a option list \<Rightarrow> 'a list option" where
  "all_some [] = Some []"
| "all_some (None # xs) = None"
| "all_some (Some x # xs) = map_option ((#) x) (all_some xs)"

definition option_member :: "obj \<Rightarrow> string \<Rightarrow> string option" where
  "option_member m k = (case map_of m k of None \<Rightarrow> Some [] | Some j \<Rightarrow> plain_option j)"

record option_acc =
  oa_values :: "string list"
  oa_titles :: "string list"
  any_title :: bool
  any_object :: bool

definition add_option :: "json \<Rightarrow> option_acc \<Rightarrow> option_acc option" where
  "add_option r a =
     (case plain_option r of
        Some s \<Rightarrow> Some (a\<lparr>oa_values := oa_values a @ [s], oa_titles := oa_titles a @ [s]\<rparr>)
      | None \<Rightarrow>
          (case r of
             JObj m \<Rightarrow>
               (case (option_member m ''title'', option_member m ''value'') of
                  (Some t, Some v) \<Rightarrow>
                    (let blank = trim_space t = []
                     in Some \<lparr>oa_values = oa_values a @ [v],
                              oa_titles = oa_titles a @ [if blank then v else t],
                              any_title = any_title a \<or> \<not> blank, any_object = True\<rparr>)
                | _ \<Rightarrow> None)
           | _ \<Rightarrow> None))"

fun add_options :: "json list \<Rightarrow> option_acc \<Rightarrow> option_acc option" where
  "add_options [] a = Some a"
| "add_options (r # rs) a = (case add_option r a of None \<Rightarrow> None | Some a' \<Rightarrow> add_options rs a')"

definition set_options :: "json option \<Rightarrow> template_var \<Rightarrow> template_var option" where
  "set_options opts v =
     (case opts of
        None \<Rightarrow> Some v
      | Some JNull \<Rightarrow> Some v
      | Some (JArr raws) \<Rightarrow>
          (case all_some (map plain_option raws) of
             Some strs \<Rightarrow> Some (v\<lparr>tv_options := strs\<rparr>)
           | None \<Rightarrow>
               (case add_options raws \<lparr>oa_values = [], oa_titles = [], any_title = False, any_object = False\<rparr> of
                  None \<Rightarrow> None
                | Some a \<Rightarrow>
                    (let v1 = v\<lparr>tv_options := oa_values a\<rparr>;
                         v2 = (if any_title a then v1\<lparr>option_titles := oa_titles a\<rparr> else v1)
                     in Some (if any_object a then v2\<lparr>tv_type := ''enum''\<rparr> else v2))))
      | _ \<Rightarrow> None)"

definition option_title :: "template_var \<Rightarrow> int \<Rightarrow> string" where
  "option_title v i =
     (if i < 0 \<or> int (length (tv_options v)) \<le> i then []
      else if i < int (length (option_titles v)) \<and> trim_space (option_titles v ! nat i) \<noteq> []
      then option_titles v ! nat i
      else tv_options v ! nat i)"

definition var_display_title :: "template_var \<Rightarrow> string" where
  "var_display_title v =
     (let s = trim_space (tv_title v) in if s \<noteq> [] then s else trim_space (tv_name v))"

definition var_display_tooltip :: "template_var \<Rightarrow> string" where
  "var_display_tooltip v = trim_space (tooltip v)"

fun var_by_name :: "template_var list \<Rightarrow> string \<Rightarrow> template_var option" where
  "var_by_name [] name = None"
| "var_by_name (v # vs) name =
     (if tv_separator v then var_by_name vs name
      else if trim_space (tv_name v) = trim_space name then Some v
      else var_by_name vs name)"

section \<open>Resolution\<close>

fun replace_crlf :: "string \<Rightarrow> string" where
  "replace_crlf (c # d # cs) =
     (if c = CHR 0x0D \<and> d = CHR 0x0A then d # replace_crlf cs else c # replace_crlf (d # cs))"
| "replace_crlf cs = cs"

definition text_list_lines :: "string \<Rightarrow> string list" where
  "text_list_lines s =
     filter (\<lambda>l. l \<noteq> []) (map trim_space (split_char (CHR 0x0A) (replace_crlf s)))"

text \<open>A nil slice is \<open>None\<close>, also when a JSON \<open>null\<close> is read into it.\<close>

definition nil_if_empty :: "'a list \<Rightarrow> 'a list option" where
  "nil_if_empty xs = (if xs = [] then None else Some xs)"

definition list_var :: "string list option \<Rightarrow> resolved_var" where
  "list_var xs = \<lparr>rv_scalar = [], rv_list = xs\<rparr>"

definition scalar_var :: "string \<Rightarrow> resolved_var" where
  "scalar_var s = \<lparr>rv_scalar = s, rv_list = None\<rparr>"

fun get_raw_at :: "obj \<Rightarrow> string list \<Rightarrow> json option" where
  "get_raw_at m [] = None"
| "get_raw_at m [p] = map_of m p"
| "get_raw_at m (p # q # ps) =
     (case map_of m p of Some (JObj n) \<Rightarrow> get_raw_at n (q # ps) | _ \<Rightarrow> None)"

definition get_raw_at_path :: "obj \<Rightarrow> string \<Rightarrow> json option" where
  "get_raw_at_path root path = get_raw_at root (split_char (CHR ''.'') path)"

definition read_json_literal_as_string :: "json option \<Rightarrow> string" where
  "read_json_literal_as_string raw =
     (case raw of
        Some (JStr s) \<Rightarrow> s
      | Some (JNum n) \<Rightarrow> itoa n
      | Some (JBool b) \<Rightarrow> (if b then ''true'' else ''false'')
      | _ \<Rightarrow> [])"

text \<open>\<open>json.Unmarshal\<close> into \<open>[]string\<close>; the outer \<open>None\<close> is the error.\<close>

definition read_string_array :: "json \<Rightarrow> string list option option" where
  "read_string_array j =
     (case j of
        JNull \<Rightarrow> Some None
      | JArr xs \<Rightarrow> map_option Some (all_some (map plain_option xs))
      | _ \<Rightarrow> None)"

text \<open>
  \<open>resolveOneVar\<close>. The source calls itself on the default of a list variable with a declaration
  that has no default and no node: what remains of that call is its first and its last branch.
\<close>

definition resolve_one_var ::
  "host \<Rightarrow> template_var \<Rightarrow> string \<Rightarrow> obj option \<Rightarrow> target_spec \<Rightarrow>
   (string \<rightharpoonup> string) \<Rightarrow> (string \<rightharpoonup> resolved_var) \<Rightarrow> resolved_var" where
  "resolve_one_var H v state_val root t types res =
     (let def = (if var_default_is_empty (default_value v) then []
                 else for_target_in H (default_value v) t types res);
          node = (if default_node v \<noteq> [] then root else None)
      in if tv_type v = ''text_list'' then
           (if trim_space state_val \<noteq> [] then list_var (nil_if_empty (text_list_lines state_val))
            else if def \<noteq> [] then
              (if trim_space def \<noteq> [] then list_var (nil_if_empty (text_list_lines def))
               else list_var (Some []))
            else
              (case node of
                 None \<Rightarrow> list_var (Some [])
               | Some r \<Rightarrow>
                   (case get_raw_at_path r (default_node v) of
                      None \<Rightarrow> list_var (Some [])
                    | Some raw \<Rightarrow>
                        (case read_string_array raw of
                           None \<Rightarrow> list_var (Some [])
                         | Some arr \<Rightarrow> list_var arr))))
         else
           (if trim_space state_val \<noteq> [] then scalar_var (trim_space state_val)
            else if def \<noteq> [] then scalar_var def
            else
              (case node of
                 None \<Rightarrow> scalar_var []
               | Some r \<Rightarrow>
                   scalar_var (read_json_literal_as_string (get_raw_at_path r (default_node v))))))"

definition state_val :: "(string \<rightharpoonup> string) \<Rightarrow> string \<Rightarrow> string" where
  "state_val st name = (case st name of None \<Rightarrow> [] | Some s \<Rightarrow> s)"

fun resolve_vars ::
  "host \<Rightarrow> (string \<rightharpoonup> string) \<Rightarrow> obj option \<Rightarrow> target_spec \<Rightarrow> (string \<rightharpoonup> string) \<Rightarrow>
   template_var list \<Rightarrow> (string \<rightharpoonup> resolved_var) \<Rightarrow> (string \<rightharpoonup> resolved_var)" where
  "resolve_vars H st root t types [] out = out"
| "resolve_vars H st root t types (v # vs) out =
     (if tv_separator v then resolve_vars H st root t types vs out
      else resolve_vars H st root t types vs
             (out(tv_name v \<mapsto> resolve_one_var H v (state_val st (tv_name v)) root t types out)))"

definition resolve_template_vars_for ::
  "host \<Rightarrow> template_var list \<Rightarrow> (string \<rightharpoonup> string) \<Rightarrow> obj option \<Rightarrow> target_spec \<Rightarrow>
   (string \<rightharpoonup> resolved_var)" where
  "resolve_template_vars_for H vars st root t =
     resolve_vars H st root (normalized H t) (var_types_of vars) vars Map.empty"

definition display_setting_value_for ::
  "host \<Rightarrow> template_var list \<Rightarrow> (string \<rightharpoonup> string) \<Rightarrow> obj option \<Rightarrow> string \<Rightarrow> target_spec \<Rightarrow> string" where
  "display_setting_value_for H vars st root name t =
     (case resolve_template_vars_for H vars st root t name of
        None \<Rightarrow> []
      | Some rv \<Rightarrow> if list_of rv \<noteq> [] then join_with [CHR 0x0A] (list_of rv) else rv_scalar rv)"

section \<open>Secrets\<close>

definition secret_unresolved :: "string \<Rightarrow> bool" where
  "secret_unresolved s \<longleftrightarrow> (let s = trim_space s in s = [] \<or> prefix ''CHANGE_THIS_'' s)"

definition secret_alphabet :: string where
  "secret_alphabet = ''ABCDEFGHIJKLMNOPQRSTUVWXYZabcdefghijklmnopqrstuvwxyz0123456789''"

text \<open>
  \<open>generateSecret\<close>. The entropy source is the list of results of the coming \<open>rand.Int\<close>
  calls, \<open>None\<close> for a failed read; an exhausted list fails as well.
\<close>

fun generate_chars :: "nat \<Rightarrow> nat option list \<Rightarrow> string option \<times> nat option list" where
  "generate_chars 0 ds = (Some [], ds)"
| "generate_chars (Suc n) [] = (None, [])"
| "generate_chars (Suc n) (None # ds) = (None, ds)"
| "generate_chars (Suc n) (Some i # ds) =
     (case generate_chars n ds of
        (None, ds') \<Rightarrow> (None, ds')
      | (Some cs, ds') \<Rightarrow> (Some (secret_alphabet ! i # cs), ds'))"

definition generate_secret :: "nat option list \<Rightarrow> string option \<times> nat option list" where
  "generate_secret ds = generate_chars 16 ds"

definition is_secret_var :: "template_var \<Rightarrow> bool" where
  "is_secret_var v \<longleftrightarrow> \<not> tv_separator v \<and> equal_fold (trim_space (tv_type v)) ''secret''"

definition resolved_scalar :: "(string \<rightharpoonup> resolved_var) \<Rightarrow> string \<Rightarrow> string" where
  "resolved_scalar res name = (case res name of None \<Rightarrow> [] | Some r \<Rightarrow> rv_scalar r)"

fun maybe_generate_secrets ::
  "template_var list \<Rightarrow> nat option list \<Rightarrow> (string \<rightharpoonup> resolved_var) \<Rightarrow> (string \<rightharpoonup> resolved_var)" where
  "maybe_generate_secrets [] ds res = res"
| "maybe_generate_secrets (v # vs) ds res =
     (if \<not> is_secret_var v then maybe_generate_secrets vs ds res
      else if \<not> secret_unresolved (resolved_scalar res (tv_name v)) then maybe_generate_secrets vs ds res
      else (case generate_secret ds of
              (None, ds') \<Rightarrow> maybe_generate_secrets vs ds' res
            | (Some gen, ds') \<Rightarrow> maybe_generate_secrets vs ds' (res(tv_name v \<mapsto> scalar_var gen))))"

section \<open>Conditions of rows and parameters\<close>

definition var_applies_on_goos :: "string list \<Rightarrow> string \<Rightarrow> bool" where
  "var_applies_on_goos ps os \<longleftrightarrow> ps = [] \<or> os \<in> set ps"

definition var_index :: "template_var list \<Rightarrow> string \<rightharpoonup> template_var" where
  "var_index vars = map_of (rev (map (\<lambda>v. (tv_name v, v)) (filter (\<lambda>v. \<not> tv_separator v) vars)))"

definition param_bool_var_true ::
  "string \<Rightarrow> (string \<rightharpoonup> template_var) \<Rightarrow> (string \<rightharpoonup> resolved_var) \<Rightarrow> string \<Rightarrow> bool" where
  "param_bool_var_true name vi res os =
     (let name = trim_prefix name ''@'' in
      case vi name of
        None \<Rightarrow> False
      | Some vd \<Rightarrow>
          tv_type vd = ''bool'' \<and> var_applies_on_goos (platforms vd) os \<and>
          (case res name of None \<Rightarrow> False | Some r \<Rightarrow> trim_space (rv_scalar r) = ''true''))"

definition cond_entry_true ::
  "host \<Rightarrow> string \<Rightarrow> (string \<rightharpoonup> template_var) \<Rightarrow> (string \<rightharpoonup> resolved_var) \<Rightarrow> target_spec \<Rightarrow> bool" where
  "cond_entry_true H expr vi res t =
     (let trimmed = trim_space expr in
      if \<not> prefix ''{'' trimmed then param_bool_var_true trimmed vi res (ts_goos (normalized H t))
      else (case h_parse H trimmed of
              None \<Rightarrow> False
            | Some node \<Rightarrow>
                evaluate_predicate
                  \<lparr>var_types = map_option tv_type \<circ> vi, resolved = res,
                   tgt = normalized H t, re_match = h_re H\<rparr> node))"

definition param_if_satisfied_for ::
  "host \<Rightarrow> string list \<Rightarrow> (string \<rightharpoonup> template_var) \<Rightarrow> (string \<rightharpoonup> resolved_var) \<Rightarrow> target_spec \<Rightarrow> bool" where
  "param_if_satisfied_for H names vi res t = list_all (\<lambda>e. cond_entry_true H e vi res t) names"

definition param_if_or_satisfied_for ::
  "host \<Rightarrow> string list \<Rightarrow> (string \<rightharpoonup> template_var) \<Rightarrow> (string \<rightharpoonup> resolved_var) \<Rightarrow> target_spec \<Rightarrow> bool" where
  "param_if_or_satisfied_for H names vi res t = list_ex (\<lambda>e. cond_entry_true H e vi res t) names"

definition param_if_satisfied ::
  "host \<Rightarrow> string list \<Rightarrow> (string \<rightharpoonup> template_var) \<Rightarrow> (string \<rightharpoonup> resolved_var) \<Rightarrow> string \<Rightarrow> bool" where
  "param_if_satisfied H names vi res os = param_if_satisfied_for H names vi res (goos_target H os)"

definition param_if_or_satisfied ::
  "host \<Rightarrow> string list \<Rightarrow> (string \<rightharpoonup> template_var) \<Rightarrow> (string \<rightharpoonup> resolved_var) \<Rightarrow> string \<Rightarrow> bool" where
  "param_if_or_satisfied H names vi res os = param_if_or_satisfied_for H names vi res (goos_target H os)"

definition var_ui_satisfied_for ::
  "host \<Rightarrow> template_var \<Rightarrow> (string \<rightharpoonup> template_var) \<Rightarrow> (string \<rightharpoonup> resolved_var) \<Rightarrow> target_spec \<Rightarrow> bool" where
  "var_ui_satisfied_for H v vi res t =
     (if tv_if v \<noteq> [] \<and> tv_if_or v \<noteq> [] then False
      else if \<not> var_applies_on_goos (platforms v) (ts_goos (normalized H t)) then False
      else if tv_if v \<noteq> [] then param_if_satisfied_for H (tv_if v) vi res t
      else if tv_if_or v \<noteq> [] then param_if_or_satisfied_for H (tv_if_or v) vi res t
      else True)"

text \<open>The matches of the pattern \<open>"@([A-Za-z0-9_.]+)"\<close>, left to right, quotes included.\<close>

definition ref_char :: "char \<Rightarrow> bool" where
  "ref_char c =
     (let n = (of_char c :: nat)
      in (65 \<le> n \<and> n \<le> 90) \<or> (97 \<le> n \<and> n \<le> 122) \<or> (48 \<le> n \<and> n \<le> 57) \<or>
         c = CHR ''_'' \<or> c = CHR ''.'')"

function at_refs :: "string \<Rightarrow> string list" where
  "at_refs s =
     (case s of
        c # d # cs \<Rightarrow>
          (if c = CHR 0x22 \<and> d = CHR ''@'' then
             (let name = takeWhile ref_char cs; rest = dropWhile ref_char cs
              in if name \<noteq> [] \<and> rest \<noteq> [] \<and> hd rest = CHR 0x22
                 then name # at_refs (tl rest) else at_refs (d # cs))
           else at_refs (d # cs))
      | _ \<Rightarrow> [])"
  by pat_completeness auto
termination at_refs
proof (relation "measure length")
  show "(tl rest, s) \<in> measure length"
    if "s = c # xs" "xs = d # cs" "name = takeWhile ref_char cs" "rest = dropWhile ref_char cs"
    for s xs cs name rest :: string and c d :: char
    using that length_dropWhile_le[of ref_char cs] by (cases rest) auto
qed auto

declare at_refs.simps [simp del]

definition only_runtime_global_refs :: "string \<Rightarrow> bool" where
  "only_runtime_global_refs e = list_all is_runtime_global_ref (at_refs e)"

definition var_condition_is_target_only :: "template_var \<Rightarrow> bool" where
  "var_condition_is_target_only v =
     (let entries = (if tv_if v = [] then tv_if_or v else tv_if v)
      in entries \<noteq> [] \<and>
         list_all (\<lambda>e. prefix ''{'' (trim_space e) \<and> only_runtime_global_refs (trim_space e)) entries)"

section \<open>Parameters of the configuration\<close>

record template_param =
  pm_name :: string
  pm_platforms :: "string list"
  pm_value :: json
  pm_mode :: string
  pm_if :: "string list"
  pm_if_or :: "string list"

datatype apply_error =
    SectionNotObject string
  | UnknownMode string
  | ArrayInvalid string
  | NilMapWrite

datatype template_error =
    ConfigNotObject
  | IfAndIfOr string
  | ParamFailed string apply_error
  | Unresolved "string list"

text \<open>A decoded object: \<open>null\<close> becomes a nil map, which can be read but not written.\<close>

definition as_gomap :: "json \<Rightarrow> obj option option" where
  "as_gomap j = (case j of JNull \<Rightarrow> Some None | JObj m \<Rightarrow> Some (Some m) | _ \<Rightarrow> None)"

definition gomap_get :: "obj option \<Rightarrow> string \<Rightarrow> json option" where
  "gomap_get c k = (case c of None \<Rightarrow> None | Some m \<Rightarrow> map_of m k)"

definition gomap_set :: "obj option \<Rightarrow> string \<Rightarrow> json \<Rightarrow> apply_error + obj option" where
  "gomap_set c k v = (case c of None \<Rightarrow> Inl NilMapWrite | Some m \<Rightarrow> Inr (Some (sput k v m)))"

definition gomap_json :: "obj option \<Rightarrow> json" where
  "gomap_json c = (case c of None \<Rightarrow> JNull | Some m \<Rightarrow> JObj m)"

definition as_goslice :: "json \<Rightarrow> json list option option" where
  "as_goslice j = (case j of JNull \<Rightarrow> Some None | JArr xs \<Rightarrow> Some (Some xs) | _ \<Rightarrow> None)"

definition merge_arrays :: "obj option \<Rightarrow> string \<Rightarrow> json \<Rightarrow> json \<Rightarrow> apply_error + obj option" where
  "merge_arrays c k first second =
     (case (as_goslice first, as_goslice second) of
        (Some a, Some b) \<Rightarrow>
          (let ys = (case b of None \<Rightarrow> [] | Some ys \<Rightarrow> ys)
           in gomap_set c k
                (case a of
                   None \<Rightarrow> (if ys = [] then JNull else JArr ys)
                 | Some xs \<Rightarrow> JArr (xs @ ys)))
      | _ \<Rightarrow> Inl (ArrayInvalid k))"

definition apply_value :: "obj option \<Rightarrow> string \<Rightarrow> json \<Rightarrow> string \<Rightarrow> apply_error + obj option" where
  "apply_value c k v mode =
     (if mode = ''replace'' then gomap_set c k v
      else if mode = ''prepend'' then
        (case gomap_get c k of None \<Rightarrow> gomap_set c k v | Some old \<Rightarrow> merge_arrays c k v old)
      else if mode = ''append'' then
        (case gomap_get c k of None \<Rightarrow> gomap_set c k v | Some old \<Rightarrow> merge_arrays c k old v)
      else Inl (UnknownMode mode))"

text \<open>
  \<open>applyParam\<close>; the path is the name split at its dots (\<open>SplitN(name, ".", 2)\<close> at every level).
\<close>

fun apply_param :: "obj option \<Rightarrow> string list \<Rightarrow> json \<Rightarrow> string \<Rightarrow> apply_error + obj option" where
  "apply_param c [] v mode = Inr c"
| "apply_param c [k] v mode = apply_value c k v mode"
| "apply_param c (k # k' # ks) v mode =
     (let existing = (case gomap_get c k of None \<Rightarrow> JObj [] | Some j \<Rightarrow> j) in
      case as_gomap existing of
        None \<Rightarrow> Inl (SectionNotObject k)
      | Some sub \<Rightarrow>
          (case apply_param sub (k' # ks) v mode of
             Inl e \<Rightarrow> Inl e
           | Inr sub' \<Rightarrow> gomap_set c k (gomap_json sub')))"

definition param_selected ::
  "host \<Rightarrow> template_param \<Rightarrow> string \<Rightarrow> (string \<rightharpoonup> template_var) \<Rightarrow> (string \<rightharpoonup> resolved_var) \<Rightarrow>
   template_error + bool" where
  "param_selected H p os vi res =
     (if \<not> var_applies_on_goos (pm_platforms p) os then Inr False
      else if pm_if p \<noteq> [] \<and> pm_if_or p \<noteq> [] then Inl (IfAndIfOr (pm_name p))
      else if pm_if p \<noteq> [] \<and> \<not> param_if_satisfied H (pm_if p) vi res os then Inr False
      else if pm_if_or p \<noteq> [] \<and> \<not> param_if_or_satisfied H (pm_if_or p) vi res os then Inr False
      else Inr True)"

fun apply_param_list ::
  "host \<Rightarrow> template_param list \<Rightarrow> string \<Rightarrow> (string \<rightharpoonup> template_var) \<Rightarrow> (string \<rightharpoonup> resolved_var) \<Rightarrow>
   obj option \<Rightarrow> template_error + obj option" where
  "apply_param_list H [] os vi res c = Inr c"
| "apply_param_list H (p # ps) os vi res c =
     (case param_selected H p os vi res of
        Inl e \<Rightarrow> Inl e
      | Inr False \<Rightarrow> apply_param_list H ps os vi res c
      | Inr True \<Rightarrow>
          (case apply_param c (split_char (CHR ''.'') (pm_name p)) (pm_value p)
                  (if pm_mode p = [] then ''replace'' else pm_mode p) of
             Inl e \<Rightarrow> Inl (ParamFailed (pm_name p) e)
           | Inr c' \<Rightarrow> apply_param_list H ps os vi res c'))"

definition apply_params_filtered ::
  "host \<Rightarrow> json \<Rightarrow> template_param list \<Rightarrow> string \<Rightarrow> (string \<rightharpoonup> template_var) \<Rightarrow>
   (string \<rightharpoonup> resolved_var) \<Rightarrow> template_error + json" where
  "apply_params_filtered H config params os vi res =
     (if params = [] then Inr config
      else (case as_gomap config of
              None \<Rightarrow> Inl ConfigNotObject
            | Some c \<Rightarrow>
                (case apply_param_list H params os vi res c of
                   Inl e \<Rightarrow> Inl e
                 | Inr c' \<Rightarrow> Inr (gomap_json c'))))"

definition apply_template_with_vars_for ::
  "host \<Rightarrow> nat option list \<Rightarrow> json \<Rightarrow> template_param list \<Rightarrow> template_var list \<Rightarrow> (string \<rightharpoonup> string) \<Rightarrow>
   obj option \<Rightarrow> target_spec \<Rightarrow> template_error + json" where
  "apply_template_with_vars_for H ds config params vars st root t =
     (let t = normalized H t;
          res = maybe_generate_secrets vars ds (resolve_template_vars_for H vars st root t)
      in case apply_params_filtered H config params (ts_goos t) (var_index vars) res of
           Inl e \<Rightarrow> Inl e
         | Inr out \<Rightarrow>
             (if vars = [] then Inr out
              else (case substitute_vars_in_json vars res t (h_re H) out of
                      Inl names \<Rightarrow> Inl (Unresolved names)
                    | Inr j \<Rightarrow> Inr j)))"

text \<open>\<open>GetEffectiveConfigFor\<close>: the sections of the result; \<open>Inl None\<close> is a result that is no object.\<close>

definition get_effective_config_for ::
  "host \<Rightarrow> nat option list \<Rightarrow> json \<Rightarrow> template_param list \<Rightarrow> template_var list \<Rightarrow> (string \<rightharpoonup> string) \<Rightarrow>
   obj option \<Rightarrow> target_spec \<Rightarrow> template_error option + obj" where
  "get_effective_config_for H ds config params vars st root t =
     (case apply_template_with_vars_for H ds config params vars st root t of
        Inl e \<Rightarrow> Inl (Some e)
      | Inr (JObj m) \<Rightarrow> Inr m
      | Inr _ \<Rightarrow> Inl None)"

definition filter_presets_by_platform :: "('p \<Rightarrow> string list) \<Rightarrow> 'p list \<Rightarrow> string \<Rightarrow> 'p list" where
  "filter_presets_by_platform plats ps os = filter (\<lambda>p. var_applies_on_goos (plats p) os) ps"

definition extract_default_final :: "obj \<Rightarrow> string" where
  "extract_default_final sections =
     (case map_of sections ''route'' of Some (JObj r) \<Rightarrow> str_field r ''final'' | _ \<Rightarrow> [])"

definition resolver_candidate :: "obj \<Rightarrow> string \<Rightarrow> string" where
  "resolver_candidate m k = trim_space (str_field m k)"

definition extract_default_domain_resolver_from_dns_options :: "json option \<Rightarrow> string" where
  "extract_default_domain_resolver_from_dns_options raw =
     (case raw of
        Some (JObj m) \<Rightarrow>
          (let a = resolver_candidate m ''default_domain_resolver''
           in if a \<noteq> [] then a else resolver_candidate m ''route.default_domain_resolver'')
      | _ \<Rightarrow> [])"

definition extract_default_domain_resolver :: "host \<Rightarrow> obj \<Rightarrow> string" where
  "extract_default_domain_resolver H sections =
     (case map_of sections ''route'' of
        Some (JObj r) \<Rightarrow>
          (case map_of r ''default_domain_resolver'' of
             None \<Rightarrow> []
           | Some JNull \<Rightarrow> []
           | Some (JStr s) \<Rightarrow> trim_space s
           | Some j \<Rightarrow> trim_space (h_sprint H j))
      | _ \<Rightarrow> [])"

section \<open>Resolution reads only what is declared earlier\<close>

text \<open>
  Two environments with the same values, target and patterns, whose types agree on the variables
  that have a value and on the names of the runtime namespace. Every predicate is the same in both.
\<close>

definition same_view :: "sub_env \<Rightarrow> sub_env \<Rightarrow> bool" where
  "same_view E F \<longleftrightarrow>
     resolved F = resolved E \<and> tgt F = tgt E \<and> re_match F = re_match E \<and>
     (\<forall>n. n \<in> dom (resolved E) \<or> is_runtime_global_ref n \<longrightarrow> var_types F n = var_types E n)"

lemma same_view_lookup: "same_view E F \<Longrightarrow> lookup_var_scalar F = lookup_var_scalar E"
  by (rule ext) (simp add: same_view_def lookup_var_scalar_def Let_def)

lemma same_view_types:
  "same_view E F \<Longrightarrow> lookup_var_scalar E n \<noteq> None \<Longrightarrow> var_types F n = var_types E n"
  by (auto simp: same_view_def lookup_var_scalar_def dom_def split: if_splits option.splits)

lemma same_view_replacement:
  assumes "same_view E F"
  shows "replacement_for_placeholder F n = replacement_for_placeholder E n"
proof (cases "resolved E n")
  case None
  with assms show ?thesis by (simp add: replacement_for_placeholder_def same_view_def)
next
  case (Some r)
  with assms have "resolved F n = Some r" "type_of_var F n = type_of_var E n"
    by (auto simp: same_view_def type_of_var_def dom_def)
  with Some show ?thesis by (simp add: replacement_for_placeholder_def)
qed

lemma same_view_simple: "same_view E F \<Longrightarrow> substitute_simple_string F s = substitute_simple_string E s"
  by (simp add: substitute_simple_string_def same_view_replacement split: option.splits)

lemma same_view_in_list:
  assumes "same_view E F"
  shows "check_in_list F scalar arg = check_in_list E scalar arg"
proof (cases arg)
  case (JStr s)
  show ?thesis
  proof (cases "resolved E (drop 1 s)")
    case None
    with assms have "resolved F (drop 1 s) = None" by (simp add: same_view_def)
    with None JStr show ?thesis by (simp add: check_in_list_def)
  next
    case (Some r)
    with assms have "resolved F (drop 1 s) = Some r" "var_types F (drop 1 s) = var_types E (drop 1 s)"
      by (auto simp: same_view_def dom_def)
    with Some JStr show ?thesis by (simp add: check_in_list_def)
  qed
next
  case (JArr xs)
  with assms show ?thesis
    by (simp add: check_in_list_def list_ex_iff same_view_simple cong: json.case_cong)
qed (simp_all add: check_in_list_def)

lemma same_view_var_predicate:
  assumes "same_view E F"
  shows "evaluate_var_predicate F name rhs = evaluate_var_predicate E name rhs"
proof (cases "lookup_var_scalar E name")
  case None
  then show ?thesis by (simp add: evaluate_var_predicate_def same_view_lookup[OF assms])
next
  case (Some p)
  have ne: "check_not_empty F a b c name = check_not_empty E a b c name" for a b c
    using same_view_types[OF assms, of name] Some by (simp add: check_not_empty_def)
  have ma: "check_matches F a b = check_matches E a b" for a b
    using assms by (simp add: check_matches_def same_view_simple[OF assms] same_view_def cong: json.case_cong)
  show ?thesis
    using Some
    by (simp add: evaluate_var_predicate_def same_view_lookup[OF assms] ne ma
        same_view_in_list[OF assms] same_view_simple[OF assms]
        cong: json.case_cong list.case_cong prod.case_cong)
qed

lemma same_view_predicate: "same_view E F \<Longrightarrow> evaluate_predicate F p = evaluate_predicate E p"
  by (induction E p rule: evaluate_predicate.induct)
     (simp_all add: same_view_lookup same_view_var_predicate)

lemma same_view_predicate_list:
  "same_view E F \<Longrightarrow> evaluate_predicate_list F b ps = evaluate_predicate_list E b ps"
  by (induction ps arbitrary: b) (simp_all add: same_view_predicate)

lemma same_view_branch: "same_view E F \<Longrightarrow> select_if_branch F body = select_if_branch E body"
  by (simp add: select_if_branch_def evaluate_if_condition_def same_view_predicate_list
      cong: option.case_cong json.case_cong)

lemma same_view_default_node:
  "same_view E F \<Longrightarrow> resolve_default_node H F j = resolve_default_node H E j"
  by (induction H E j rule: resolve_default_node.induct)
     (auto simp: same_view_branch split: option.splits json.splits)

lemma same_view_platform:
  "same_view E F \<Longrightarrow> first_platform_value H F m ks = first_platform_value H E m ks"
  by (induction ks) (simp_all add: same_view_default_node Let_def split: option.splits)

definition types_agree :: "(string \<rightharpoonup> string) \<Rightarrow> (string \<rightharpoonup> string) \<Rightarrow> (string \<rightharpoonup> resolved_var) \<Rightarrow> bool" where
  "types_agree ty ty' res \<longleftrightarrow> (\<forall>n. n \<in> dom res \<or> is_runtime_global_ref n \<longrightarrow> ty' n = ty n)"

lemma for_target_types:
  assumes "types_agree ty ty' res"
  shows "for_target_in H v t ty' res = for_target_in H v t ty res"
proof -
  have v: "same_view \<lparr>var_types = ty, resolved = res, tgt = s, re_match = h_re H\<rparr>
                     \<lparr>var_types = ty', resolved = res, tgt = s, re_match = h_re H\<rparr>" for s
    using assms by (simp add: same_view_def types_agree_def)
  show ?thesis
    by (simp only: for_target_in_def Let_def same_view_default_node[OF v] same_view_platform[OF v])
qed

lemma resolve_one_types:
  "types_agree ty ty' res \<Longrightarrow> resolve_one_var H v s root t ty' res = resolve_one_var H v s root t ty res"
  by (simp add: resolve_one_var_def for_target_types)

definition var_names :: "template_var list \<Rightarrow> string set" where
  "var_names vars = tv_name ` {v \<in> set vars. \<not> tv_separator v}"

lemma var_names_simps [simp]:
  "var_names [] = {}"
  "var_names (v # vs) = (if tv_separator v then var_names vs else insert (tv_name v) (var_names vs))"
  "var_names (xs @ ys) = var_names xs \<union> var_names ys"
  by (auto simp: var_names_def)

lemma dom_resolve_vars: "dom (resolve_vars H st root t ty vs out) = dom out \<union> var_names vs"
  by (induction vs arbitrary: out) auto

lemma resolve_vars_append:
  "resolve_vars H st root t ty (xs @ ys) out =
   resolve_vars H st root t ty ys (resolve_vars H st root t ty xs out)"
  by (induction xs arbitrary: out) auto

lemma resolve_vars_other:
  "n \<notin> var_names vs \<Longrightarrow> resolve_vars H st root t ty vs out n = out n"
  by (induction vs arbitrary: out) (auto split: if_splits)

lemma resolve_vars_cong:
  assumes "\<And>n. n \<in> var_names vs \<union> dom out \<or> is_runtime_global_ref n \<Longrightarrow> ty' n = ty n"
    and "\<And>n. n \<in> var_names vs \<Longrightarrow> st' n = st n"
  shows "resolve_vars H st' root t ty' vs out = resolve_vars H st root t ty vs out"
  using assms
proof (induction vs arbitrary: out)
  case (Cons v vs)
  show ?case
  proof (cases "tv_separator v")
    case True
    with Cons show ?thesis by simp
  next
    case False
    have "types_agree ty ty' out" using Cons.prems(1) by (auto simp: types_agree_def)
    then have "resolve_one_var H v s root t ty' out = resolve_one_var H v s root t ty out" for s
      by (rule resolve_one_types)
    moreover have "state_val st' (tv_name v) = state_val st (tv_name v)"
      using Cons.prems(2)[of "tv_name v"] False by (simp add: state_val_def)
    moreover have "resolve_vars H st' root t ty' vs (out(tv_name v \<mapsto> r)) =
                   resolve_vars H st root t ty vs (out(tv_name v \<mapsto> r))" for r
    proof (rule Cons.IH)
      show "ty' n = ty n" if "n \<in> var_names vs \<union> dom (out(tv_name v \<mapsto> r)) \<or> is_runtime_global_ref n" for n
        using that False by (intro Cons.prems(1)) auto
      show "st' n = st n" if "n \<in> var_names vs" for n
        using that False by (intro Cons.prems(2)) auto
    qed
    ultimately show ?thesis using False by simp
  qed
qed simp

lemma var_types_of_notin: "n \<notin> var_names vs \<Longrightarrow> var_types_of vs n = None"
  by (auto simp: var_types_of_def var_names_def map_of_eq_None_iff)

lemma var_types_of_append:
  "n \<notin> var_names ys \<Longrightarrow> var_types_of (xs @ ys) n = var_types_of xs n"
  using var_types_of_notin[of n ys]
  by (simp add: var_types_of_def map_add_def)

lemma resolution_prefix:
  assumes "var_names ys \<inter> var_names xs = {}" "var_names zs \<inter> var_names xs = {}"
    and "\<forall>n \<in> var_names ys \<union> var_names zs. \<not> is_runtime_global_ref n"
    and "\<forall>n \<in> var_names xs. st' n = st n"
    and "n \<in> var_names xs"
  shows "resolve_template_vars_for H (xs @ zs) st' root t n =
         resolve_template_vars_for H (xs @ ys) st root t n"
proof -
  have ty: "var_types_of (xs @ zs) k = var_types_of (xs @ ys) k"
    if "k \<in> var_names xs \<or> is_runtime_global_ref k" for k
  proof -
    have "k \<notin> var_names ys" "k \<notin> var_names zs" using that assms(1-3) by blast+
    then show ?thesis by (simp add: var_types_of_append)
  qed
  have "resolve_vars H st' root (normalized H t) (var_types_of (xs @ zs)) xs Map.empty =
        resolve_vars H st root (normalized H t) (var_types_of (xs @ ys)) xs Map.empty"
    using assms(4) ty by (intro resolve_vars_cong) auto
  moreover have "n \<notin> var_names ys" "n \<notin> var_names zs" using assms by blast+
  ultimately show ?thesis
    by (simp add: resolve_template_vars_for_def resolve_vars_append resolve_vars_other)
qed

text \<open>
  C40. What a variable resolves to depends only on the declarations up to it and on their stored
  values: two templates that share a prefix, whatever follows it and whatever the state holds for
  the rest, give its variables the same values, provided the rest declares none of them again and
  nothing in the runtime namespace.
\<close>

theorem resolution_ignores_later_vars:
  assumes "var_names ys \<inter> var_names xs = {}" "var_names zs \<inter> var_names xs = {}"
    and "\<forall>n \<in> var_names ys \<union> var_names zs. \<not> is_runtime_global_ref n"
    and "\<forall>n \<in> var_names xs. st' n = st n"
    and "n \<in> var_names xs"
  shows "resolve_template_vars_for H (xs @ zs) st' root t n =
         resolve_template_vars_for H (xs @ ys) st root t n"
  using assms by (rule resolution_prefix)

text \<open>A template of three variables: a flag, a listener that follows it, and a later one.\<close>

definition plain_var :: "string \<Rightarrow> string \<Rightarrow> var_default \<Rightarrow> template_var" where
  "plain_var name typ dv =
     \<lparr>tv_separator = False, tv_name = name, tv_type = typ, default_value = dv, default_node = [],
      tv_options = [], option_titles = [], wizard_ui = [], platforms = [], tv_title = [], tooltip = [],
      tv_if = [], tv_if_or = []\<rparr>"

definition no_default :: var_default where
  "no_default = \<lparr>vd_scalar = [], per_platform = []\<rparr>"

definition gateway_var :: template_var where
  "gateway_var = plain_var ''gateway_mode'' ''bool'' no_default"

definition proxy_var :: template_var where
  "proxy_var = plain_var ''proxy_in_listen'' ''text''
     \<lparr>vd_scalar = [],
      per_platform = [(''#if'', JObj [(''and'', JArr [JStr ''@gateway_mode'']),
                                      (''else'', JStr ''127.0.0.1''), (''value'', JStr ''0.0.0.0'')])]\<rparr>"

definition linux_host :: host where
  "linux_host = \<lparr>h_goos = ''linux'', h_goarch = ''amd64'', h_re = (\<lambda>p s. Some (p = s)),
                 h_parse = (\<lambda>s. None), h_sprint = (\<lambda>j. [])\<rparr>"

lemma resolution_ignores_later_vars_witness:
  "resolve_template_vars_for linux_host ([gateway_var, proxy_var] @ [plain_var ''mtu'' ''text'' no_default])
     (Map.empty(''gateway_mode'' \<mapsto> ''true'', ''mtu'' \<mapsto> ''1400'')) None (local_target linux_host) ''proxy_in_listen'' =
   resolve_template_vars_for linux_host ([gateway_var, proxy_var] @ [])
     (Map.empty(''gateway_mode'' \<mapsto> ''true'')) None (local_target linux_host) ''proxy_in_listen'' \<and>
   resolve_template_vars_for linux_host [gateway_var, proxy_var]
     (Map.empty(''gateway_mode'' \<mapsto> ''true'')) None (local_target linux_host) ''proxy_in_listen'' =
   Some (scalar_var ''0.0.0.0'')"
proof
  show "resolve_template_vars_for linux_host ([gateway_var, proxy_var] @ [plain_var ''mtu'' ''text'' no_default])
     (Map.empty(''gateway_mode'' \<mapsto> ''true'', ''mtu'' \<mapsto> ''1400'')) None (local_target linux_host) ''proxy_in_listen'' =
   resolve_template_vars_for linux_host ([gateway_var, proxy_var] @ [])
     (Map.empty(''gateway_mode'' \<mapsto> ''true'')) None (local_target linux_host) ''proxy_in_listen''"
    by (rule resolution_ignores_later_vars)
       (simp_all add: gateway_var_def proxy_var_def plain_var_def is_runtime_global_ref_def)
  show "resolve_template_vars_for linux_host [gateway_var, proxy_var]
     (Map.empty(''gateway_mode'' \<mapsto> ''true'')) None (local_target linux_host) ''proxy_in_listen'' =
   Some (scalar_var ''0.0.0.0'')"
    by code_simp
qed

section \<open>What the settings tab shows is what resolution reads back\<close>

lemma trim_space_ne_iff: "trim_space s \<noteq> [] \<longleftrightarrow> (\<exists>c \<in> set s. \<not> is_space c)"
proof
  assume "trim_space s \<noteq> []"
  then have "dropWhile is_space s \<noteq> []"
    unfolding trim_space_def by (metis dropWhile.simps(1) rev.simps(1))
  then show "\<exists>c \<in> set s. \<not> is_space c" by simp
next
  assume "\<exists>c \<in> set s. \<not> is_space c"
  then have "dropWhile is_space s \<noteq> []" by (auto simp: dropWhile_eq_Nil_conv)
  then obtain c cs where c: "dropWhile is_space s = c # cs" by (cases "dropWhile is_space s") auto
  then have "\<not> is_space c" by (rule dropWhile_not_hd)
  then show "trim_space s \<noteq> []" using c by (auto simp: trim_space_def dropWhile_eq_Nil_conv)
qed

definition clean_line :: "string \<Rightarrow> bool" where
  "clean_line l \<longleftrightarrow> l \<noteq> [] \<and> trim_space l = l \<and> CHR 0x0A \<notin> set l"

lemma text_list_lines_clean: "l \<in> set (text_list_lines s) \<Longrightarrow> clean_line l"
  using split_char_no_sep set_trim_space
  by (fastforce simp: text_list_lines_def clean_line_def)

lemma clean_line_no_lf: "clean_line l \<Longrightarrow> CHR 0x0A \<notin> set l"
  by (simp add: clean_line_def)

lemma last_trimmed: "trim_space l = l \<Longrightarrow> l \<noteq> [] \<Longrightarrow> \<not> is_space (last l)"
  unfolding trim_space_def
  by (metis dropWhile_not_hd hd_Cons_tl hd_rev list.exhaust rev_is_Nil_conv rev_rev_ident)

lemma replace_crlf_append:
  assumes "CHR 0x0A \<notin> set l" "l = [] \<or> last l \<noteq> CHR 0x0D"
  shows "replace_crlf (l @ t) = l @ replace_crlf t"
  using assms
proof (induction l)
  case (Cons c l)
  show ?case
  proof (cases "l @ t")
    case Nil
    then show ?thesis by simp
  next
    case (Cons d u)
    have "\<not> (c = CHR 0x0D \<and> d = CHR 0x0A)"
      using Cons.prems local.Cons by (cases l) (auto split: if_splits)
    then show ?thesis using Cons.IH Cons.prems local.Cons by (auto split: if_splits)
  qed
qed simp

lemma replace_crlf_lf: "replace_crlf (CHR 0x0A # t) = CHR 0x0A # replace_crlf t"
  by (cases t) auto

lemma replace_crlf_join:
  "\<forall>l \<in> set ls. clean_line l \<Longrightarrow> replace_crlf (join_with [CHR 0x0A] ls) = join_with [CHR 0x0A] ls"
proof (induction "[CHR 0x0A]" ls rule: join_with.induct)
  case (2 w)
  then have "replace_crlf (w @ []) = w @ replace_crlf []"
    using last_trimmed[of w] by (intro replace_crlf_append) (auto simp: clean_line_def is_space_def)
  then show ?case by simp
next
  case (3 w v ws)
  then have "replace_crlf (w @ CHR 0x0A # join_with [CHR 0x0A] (v # ws)) =
             w @ replace_crlf (CHR 0x0A # join_with [CHR 0x0A] (v # ws))"
    using last_trimmed[of w] by (intro replace_crlf_append) (auto simp: clean_line_def is_space_def)
  with 3 show ?case by (simp add: replace_crlf_lf)
qed simp

lemma split_char_clean: "d \<notin> set w \<Longrightarrow> split_char d w = [w]"
  by (induction w) auto

lemma split_char_append: "d \<notin> set w \<Longrightarrow> split_char d (w @ d # t) = w # split_char d t"
  by (induction w) auto

lemma split_join:
  "ls \<noteq> [] \<Longrightarrow> \<forall>l \<in> set ls. d \<notin> set l \<Longrightarrow> split_char d (join_with [d] ls) = ls"
  by (induction "[d]" ls rule: join_with.induct) (auto simp: split_char_clean split_char_append)

lemma text_list_lines_join:
  assumes "\<forall>l \<in> set ls. clean_line l" "ls \<noteq> []"
  shows "text_list_lines (join_with [CHR 0x0A] ls) = ls"
proof -
  have "split_char (CHR 0x0A) (join_with [CHR 0x0A] ls) = ls"
    using assms by (intro split_join) (auto simp: clean_line_def)
  moreover have "map trim_space ls = ls" "filter (\<lambda>l. l \<noteq> []) ls = ls"
    using assms by (auto simp: clean_line_def intro!: map_idI filter_True)
  ultimately show ?thesis
    using assms by (simp add: text_list_lines_def replace_crlf_join)
qed

lemma replace_crlf_keeps: "c \<in> set s \<Longrightarrow> c \<noteq> CHR 0x0D \<Longrightarrow> c \<in> set (replace_crlf s)"
  by (induction s rule: replace_crlf.induct) auto

lemma split_char_keeps: "c \<in> set s \<Longrightarrow> c \<noteq> d \<Longrightarrow> \<exists>w \<in> set (split_char d s). c \<in> set w"
  by (induction s) (auto split: list.splits)

lemma text_list_lines_ne:
  assumes "trim_space s \<noteq> []"
  shows "text_list_lines s \<noteq> []"
proof -
  obtain c where c: "c \<in> set s" "\<not> is_space c" using assms trim_space_ne_iff by blast
  then have "c \<noteq> CHR 0x0D" "c \<noteq> CHR 0x0A" by (auto simp: is_space_def)
  then obtain w where "w \<in> set (split_char (CHR 0x0A) (replace_crlf s))" "c \<in> set w"
    using c replace_crlf_keeps split_char_keeps by metis
  moreover from this c have "trim_space w \<noteq> []" using trim_space_ne_iff by blast
  ultimately show ?thesis by (auto simp: text_list_lines_def filter_empty_conv)
qed

lemma join_with_ne: "ls \<noteq> [] \<Longrightarrow> \<forall>l \<in> set ls. l \<noteq> [] \<Longrightarrow> set (hd ls) \<subseteq> set (join_with sep ls)"
  by (induction sep ls rule: join_with.induct) auto

lemma trim_join_ne:
  assumes "\<forall>l \<in> set ls. clean_line l" "ls \<noteq> []"
  shows "trim_space (join_with [CHR 0x0A] ls) \<noteq> []"
proof -
  have h: "clean_line (hd ls)" using assms by simp
  then have "trim_space (hd ls) \<noteq> []" by (simp add: clean_line_def)
  then obtain c where "c \<in> set (hd ls)" "\<not> is_space c" using trim_space_ne_iff by blast
  moreover have "set (hd ls) \<subseteq> set (join_with [CHR 0x0A] ls)"
    using assms by (intro join_with_ne) (auto simp: clean_line_def)
  ultimately show ?thesis using trim_space_ne_iff by blast
qed

definition display_value :: "resolved_var \<Rightarrow> string" where
  "display_value rv = (if list_of rv \<noteq> [] then join_with [CHR 0x0A] (list_of rv) else rv_scalar rv)"

text \<open>A value that came from the state or from a default, not read from a template node.\<close>

definition typed_value :: "template_var \<Rightarrow> resolved_var \<Rightarrow> bool" where
  "typed_value v rv \<longleftrightarrow>
     (if tv_type v = ''text_list''
      then (\<exists>ls. rv = list_var (Some ls) \<and> ls \<noteq> [] \<and> (\<forall>l \<in> set ls. clean_line l))
      else (\<exists>s. rv = scalar_var s \<and> s \<noteq> [] \<and> trim_space s = s))"

lemma typed_value_from_state:
  assumes "trim_space s \<noteq> []"
  shows "typed_value v (resolve_one_var H v s root t ty res)"
  using assms text_list_lines_ne[OF assms] text_list_lines_clean
  by (auto simp: resolve_one_var_def typed_value_def nil_if_empty_def)

lemma resolve_display_typed:
  assumes "typed_value v rv"
  shows "resolve_one_var H v (display_value rv) root t ty res = rv"
proof (cases "tv_type v = ''text_list''")
  case True
  with assms obtain ls where ls: "rv = list_var (Some ls)" "ls \<noteq> []" "\<forall>l \<in> set ls. clean_line l"
    by (auto simp: typed_value_def)
  then have "display_value rv = join_with [CHR 0x0A] ls"
    by (simp add: display_value_def list_var_def list_of_def)
  with ls True trim_join_ne[OF ls(3,2)] text_list_lines_join[OF ls(3,2)] show ?thesis
    by (simp add: resolve_one_var_def nil_if_empty_def)
next
  case False
  with assms obtain s where "rv = scalar_var s" "s \<noteq> []" "trim_space s = s"
    by (auto simp: typed_value_def)
  with False show ?thesis
    by (simp add: resolve_one_var_def display_value_def scalar_var_def list_of_def)
qed

text \<open>
  The settings tab shows a resolved variable as text, and that text is stored when the row is
  saved: if the variable had a stored, nonblank value (of any shape: CRLF line ends, blank lines,
  surrounding space), saving what is shown resolves to the same value again, so a variable never
  drifts by being displayed and saved.
\<close>

theorem shown_value_resolves_to_itself:
  assumes "var_names ys \<inter> insert (tv_name v) (var_names xs) = {}" "\<not> tv_separator v"
    and "tv_name v \<notin> var_names xs"
    and "trim_space (state_val st (tv_name v)) \<noteq> []"
  shows "resolve_template_vars_for H (xs @ v # ys)
           (st(tv_name v \<mapsto> display_setting_value_for H (xs @ v # ys) st root (tv_name v) t)) root t (tv_name v) =
         resolve_template_vars_for H (xs @ v # ys) st root t (tv_name v)"
proof -
  let ?ty = "var_types_of (xs @ v # ys)" and ?t = "normalized H t"
  let ?out = "resolve_vars H st root ?t ?ty xs Map.empty"
  let ?rv = "resolve_one_var H v (state_val st (tv_name v)) root ?t ?ty ?out"
  let ?shown = "display_setting_value_for H (xs @ v # ys) st root (tv_name v) t"
  have n: "tv_name v \<notin> var_names ys" using assms(1) by blast
  have rv: "resolve_template_vars_for H (xs @ v # ys) st root t (tv_name v) = Some ?rv"
    using assms(2) n by (simp add: resolve_template_vars_for_def resolve_vars_append resolve_vars_other)
  then have sh: "?shown = display_value ?rv"
    by (simp add: display_setting_value_for_def display_value_def)
  have out: "resolve_vars H (st(tv_name v \<mapsto> ?shown)) root ?t ?ty xs Map.empty = ?out"
    using assms(3) by (intro resolve_vars_cong) auto
  have st: "state_val (st(tv_name v \<mapsto> ?shown)) (tv_name v) = ?shown"
    by (simp add: state_val_def)
  have "resolve_template_vars_for H (xs @ v # ys) (st(tv_name v \<mapsto> ?shown)) root t (tv_name v) =
        Some (resolve_one_var H v ?shown root ?t ?ty ?out)"
    unfolding resolve_template_vars_for_def resolve_vars_append
    using assms(2) n by (simp only: resolve_vars.simps out st resolve_vars_other fun_upd_same if_False not_False_eq_True)
  also have "\<dots> = Some ?rv"
    unfolding sh using typed_value_from_state[OF assms(4)] by (simp add: resolve_display_typed)
  finally show ?thesis using rv by simp
qed

definition notes_var :: template_var where
  "notes_var = plain_var ''dns_list'' ''text_list'' no_default"

lemma shown_value_resolves_to_itself_witness:
  "resolve_template_vars_for linux_host ([gateway_var] @ notes_var # [])
     ((Map.empty(''dns_list'' \<mapsto> [CHR '' '', CHR ''a'', CHR 0x0D, CHR 0x0A, CHR 0x0A, CHR ''b'']))
        (tv_name notes_var \<mapsto>
           display_setting_value_for linux_host ([gateway_var] @ notes_var # [])
             (Map.empty(''dns_list'' \<mapsto> [CHR '' '', CHR ''a'', CHR 0x0D, CHR 0x0A, CHR 0x0A, CHR ''b'']))
             None (tv_name notes_var) (local_target linux_host)))
     None (local_target linux_host) (tv_name notes_var) =
   resolve_template_vars_for linux_host ([gateway_var] @ notes_var # [])
     (Map.empty(''dns_list'' \<mapsto> [CHR '' '', CHR ''a'', CHR 0x0D, CHR 0x0A, CHR 0x0A, CHR ''b'']))
     None (local_target linux_host) (tv_name notes_var) \<and>
   display_setting_value_for linux_host [gateway_var, notes_var]
     (Map.empty(''dns_list'' \<mapsto> [CHR '' '', CHR ''a'', CHR 0x0D, CHR 0x0A, CHR 0x0A, CHR ''b'']))
     None ''dns_list'' (local_target linux_host) = [CHR ''a'', CHR 0x0A, CHR ''b'']"
proof (rule conjI, rule shown_value_resolves_to_itself)
  show "trim_space (state_val (Map.empty(''dns_list'' \<mapsto> [CHR '' '', CHR ''a'', CHR 0x0D, CHR 0x0A, CHR 0x0A, CHR ''b'']))
         (tv_name notes_var)) \<noteq> []" by code_simp
  show "display_setting_value_for linux_host [gateway_var, notes_var]
     (Map.empty(''dns_list'' \<mapsto> [CHR '' '', CHR ''a'', CHR 0x0D, CHR 0x0A, CHR 0x0A, CHR ''b'']))
     None ''dns_list'' (local_target linux_host) = [CHR ''a'', CHR 0x0A, CHR ''b'']" by code_simp
qed (simp_all add: gateway_var_def notes_var_def plain_var_def)

section \<open>Secrets are always materialised\<close>

definition draws_ok :: "nat option list \<Rightarrow> bool" where
  "draws_ok ds \<longleftrightarrow> list_all (\<lambda>d. d \<noteq> None \<and> the d < 62) ds"

lemma draws_ok_Cons [simp]: "draws_ok (d # ds) \<longleftrightarrow> d \<noteq> None \<and> the d < 62 \<and> draws_ok ds"
  by (simp add: draws_ok_def)

lemma length_secret_alphabet: "length secret_alphabet = 62"
  by code_simp

lemma secret_alphabet_plain: "i < 62 \<Longrightarrow> secret_alphabet ! i \<in> set secret_alphabet"
  by (simp add: length_secret_alphabet)

lemma secret_chars: "c \<in> set secret_alphabet \<Longrightarrow> \<not> is_space c \<and> c \<noteq> CHR ''_''"
proof -
  have "list_all (\<lambda>c. \<not> is_space c \<and> c \<noteq> CHR ''_'') secret_alphabet" by code_simp
  then show "c \<in> set secret_alphabet \<Longrightarrow> \<not> is_space c \<and> c \<noteq> CHR ''_''" by (simp add: list_all_iff)
qed

lemma generate_chars_ok:
  "draws_ok ds \<Longrightarrow> n \<le> length ds \<Longrightarrow>
   \<exists>cs. generate_chars n ds = (Some cs, drop n ds) \<and> length cs = n \<and> set cs \<subseteq> set secret_alphabet"
proof (induction n ds rule: generate_chars.induct)
  case (4 n i ds)
  then obtain cs where "generate_chars n ds = (Some cs, drop n ds)" "length cs = n"
    "set cs \<subseteq> set secret_alphabet" by auto
  with 4 secret_alphabet_plain show ?case by auto
qed auto

lemma trim_no_space: "\<forall>c \<in> set s. \<not> is_space c \<Longrightarrow> trim_space s = s"
proof -
  have d: "\<forall>c \<in> set t. \<not> is_space c \<Longrightarrow> dropWhile is_space t = t" for t
    by (cases t) auto
  show "\<forall>c \<in> set s. \<not> is_space c \<Longrightarrow> trim_space s = s"
    using d[of s] d[of "rev s"] by (simp add: trim_space_def)
qed

lemma generated_secret_resolved:
  assumes "length cs = 16" "set cs \<subseteq> set secret_alphabet"
  shows "\<not> secret_unresolved cs"
proof -
  have t: "trim_space cs = cs" using assms secret_chars by (intro trim_no_space) blast
  have "CHR ''_'' \<notin> set cs" using assms secret_chars by blast
  then have "\<not> prefix ''CHANGE_THIS_'' cs" by (auto dest!: set_mono_prefix)
  with t assms(1) show ?thesis by (auto simp: secret_unresolved_def)
qed

definition unresolved_secrets :: "template_var list \<Rightarrow> template_var list" where
  "unresolved_secrets vars = filter is_secret_var vars"

lemma maybe_generate_keeps:
  "\<not> secret_unresolved (resolved_scalar res n) \<or> (\<forall>v \<in> set vars. is_secret_var v \<longrightarrow> tv_name v \<noteq> n) \<Longrightarrow>
   maybe_generate_secrets vars ds res n = res n"
proof (induction vars arbitrary: ds res)
  case (Cons v vs)
  then have ih: "maybe_generate_secrets vs ds' res n = res n" for ds' by auto
  show ?case
  proof (cases "is_secret_var v \<and> secret_unresolved (resolved_scalar res (tv_name v))")
    case False
    with ih show ?thesis by auto
  next
    case True
    then have ne: "tv_name v \<noteq> n" using Cons.prems by auto
    obtain g ds' where g: "generate_secret ds = (g, ds')" by fastforce
    have "resolved_scalar (res(tv_name v \<mapsto> r)) n = resolved_scalar res n" for r
      using ne by (simp add: resolved_scalar_def)
    then have "maybe_generate_secrets vs ds' (res(tv_name v \<mapsto> r)) n = (res(tv_name v \<mapsto> r)) n" for r
      using Cons.prems by (intro Cons.IH) (auto simp del: fun_upd_apply)
    with True g ne ih show ?thesis by (auto split: option.splits)
  qed
qed simp

text \<open>
  With a working entropy source, after generation no secret variable is empty or holds the
  template's placeholder, and nothing else has changed: a value that was already set, of a secret
  or of any other variable, is what it was.
\<close>

theorem secrets_materialised:
  assumes "draws_ok ds" "16 * length (unresolved_secrets vars) \<le> length ds"
  shows "(\<forall>v \<in> set vars. is_secret_var v \<longrightarrow>
            \<not> secret_unresolved (resolved_scalar (maybe_generate_secrets vars ds res) (tv_name v))) \<and>
         (\<forall>n. \<not> secret_unresolved (resolved_scalar res n) \<or>
              (\<forall>v \<in> set vars. is_secret_var v \<longrightarrow> tv_name v \<noteq> n) \<longrightarrow>
            maybe_generate_secrets vars ds res n = res n)"
proof (rule conjI)
  show "\<forall>n. \<not> secret_unresolved (resolved_scalar res n) \<or>
          (\<forall>v \<in> set vars. is_secret_var v \<longrightarrow> tv_name v \<noteq> n) \<longrightarrow>
        maybe_generate_secrets vars ds res n = res n"
    using maybe_generate_keeps by blast
  show "\<forall>v \<in> set vars. is_secret_var v \<longrightarrow>
          \<not> secret_unresolved (resolved_scalar (maybe_generate_secrets vars ds res) (tv_name v))"
    using assms
  proof (induction vars arbitrary: ds res)
    case (Cons v vs)
    have keep: "\<not> secret_unresolved (resolved_scalar (maybe_generate_secrets vs ds' res') (tv_name v))"
      if "\<not> secret_unresolved (resolved_scalar res' (tv_name v))" for ds' res'
      using that maybe_generate_keeps[of res' "tv_name v" vs ds'] by (simp add: resolved_scalar_def)
    show ?case
    proof (cases "is_secret_var v \<and> secret_unresolved (resolved_scalar res (tv_name v))")
      case False
      have "16 * length (unresolved_secrets vs) \<le> length ds"
        using Cons.prems by (simp add: unresolved_secrets_def split: if_splits)
      from Cons.IH[OF Cons.prems(1) this, of res] False keep[of res ds] show ?thesis by auto
    next
      case True
      then have "16 + 16 * length (unresolved_secrets vs) \<le> length ds"
        using Cons.prems by (simp add: unresolved_secrets_def)
      then obtain cs where cs: "generate_secret ds = (Some cs, drop 16 ds)" "length cs = 16"
        "set cs \<subseteq> set secret_alphabet"
        using generate_chars_ok[OF Cons.prems(1), of 16] by (auto simp: generate_secret_def)
      have dd: "draws_ok (drop 16 ds)" "16 * length (unresolved_secrets vs) \<le> length (drop 16 ds)"
        using Cons.prems \<open>16 + _ \<le> length ds\<close> by (auto simp: draws_ok_def list_all_iff dest: in_set_dropD)
      have r: "\<not> secret_unresolved (resolved_scalar (res(tv_name v \<mapsto> scalar_var cs)) (tv_name v))"
        using generated_secret_resolved[OF cs(2,3)] by (simp add: resolved_scalar_def scalar_var_def)
      from Cons.IH[OF dd, of "res(tv_name v \<mapsto> scalar_var cs)"] keep[OF r] True cs(1)
      show ?thesis by (simp del: fun_upd_apply)
    qed
  qed simp
qed

definition password_var :: template_var where
  "password_var = plain_var ''clash_secret'' ''secret'' no_default"

lemma secrets_materialised_witness:
  "\<not> secret_unresolved
       (resolved_scalar
          (maybe_generate_secrets [gateway_var, password_var] (replicate 16 (Some 35))
             (Map.empty(''clash_secret'' \<mapsto> scalar_var ''CHANGE_THIS_TOKEN''))) ''clash_secret'') \<and>
   secret_unresolved ''CHANGE_THIS_TOKEN''"
proof
  have h: "draws_ok (replicate 16 (Some 35))"
    "16 * length (unresolved_secrets [gateway_var, password_var]) \<le> length (replicate 16 (Some (35::nat)))"
    "is_secret_var password_var" "tv_name password_var = ''clash_secret''"
    by code_simp+
  show "\<not> secret_unresolved
       (resolved_scalar
          (maybe_generate_secrets [gateway_var, password_var] (replicate 16 (Some 35))
             (Map.empty(''clash_secret'' \<mapsto> scalar_var ''CHANGE_THIS_TOKEN''))) ''clash_secret'')"
    using secrets_materialised[OF h(1,2), of "Map.empty(''clash_secret'' \<mapsto> scalar_var ''CHANGE_THIS_TOKEN'')"]
      h(3,4) by (metis list.set_intros(1) list.set_intros(2))
  show "secret_unresolved ''CHANGE_THIS_TOKEN''" by code_simp
qed

section \<open>A parameter changes its own path only\<close>

text \<open>What a mode makes of the value at the path: arrays are joined in the order of the mode.\<close>

definition slice_items :: "json \<Rightarrow> json list" where
  "slice_items j = (case j of JArr xs \<Rightarrow> xs | _ \<Rightarrow> [])"

definition joined :: "json \<Rightarrow> json \<Rightarrow> json \<Rightarrow> bool" where
  "joined a b r \<longleftrightarrow>
     slice_items r = slice_items a @ slice_items b \<and> (a \<noteq> JNull \<longrightarrow> (\<exists>xs. r = JArr xs))"

definition param_effect :: "string \<Rightarrow> json option \<Rightarrow> json \<Rightarrow> json \<Rightarrow> bool" where
  "param_effect mode old v new \<longleftrightarrow>
     (if mode = ''replace'' \<or> old = None then new = v
      else if mode = ''prepend'' then joined v (the old) new
      else joined (the old) v new)"

lemma merge_arrays_ok:
  assumes "merge_arrays (Some m) k a b = Inr c"
  shows "\<exists>r. c = Some (sput k r m) \<and> joined a b r"
  using assms
  by (cases a; cases b)
     (auto simp: merge_arrays_def as_goslice_def gomap_set_def joined_def slice_items_def
           split: if_splits)

lemma apply_value_ok:
  assumes "apply_value (Some m) k v mode = Inr c"
  shows "\<exists>r. c = Some (sput k r m) \<and> param_effect mode (map_of m k) v r"
proof (cases "mode = ''replace'' \<or> map_of m k = None")
  case True
  with assms show ?thesis
    by (auto simp: apply_value_def param_effect_def gomap_set_def gomap_get_def split: if_splits)
next
  case False
  then obtain old where old: "map_of m k = Some old" "mode \<noteq> ''replace''" by auto
  with assms have "mode = ''prepend'' \<and> merge_arrays (Some m) k v old = Inr c \<or>
                   mode = ''append'' \<and> merge_arrays (Some m) k old v = Inr c"
    by (auto simp: apply_value_def gomap_get_def split: if_splits)
  with old show ?thesis by (auto simp: param_effect_def dest!: merge_arrays_ok)
qed

lemma get_raw_at_Cons:
  "q \<noteq> [] \<Longrightarrow> get_raw_at m (k # q) = (case map_of m k of Some (JObj n) \<Rightarrow> get_raw_at n q | _ \<Rightarrow> None)"
  by (cases q) auto

text \<open>
  A parameter writes at its own path and nowhere else: the value there becomes the
  parameter's (\<open>replace\<close>, or nothing was there) or the two arrays joined in the order of the mode,
  and every path that is neither above nor below it reads as before.
\<close>

theorem param_writes_only_its_path:
  assumes "apply_param (Some m) p v mode = Inr c" "p \<noteq> []"
  shows "\<exists>m' r. c = Some m' \<and> get_raw_at m' p = Some r \<and> param_effect mode (get_raw_at m p) v r \<and>
           (\<forall>q. \<not> prefix p q \<longrightarrow> \<not> prefix q p \<longrightarrow> get_raw_at m' q = get_raw_at m q)"
  using assms
proof (induction "Some m" p v mode arbitrary: m c rule: apply_param.induct)
  case (2 k v mode)
  then obtain r where r: "c = Some (sput k r m)" "param_effect mode (map_of m k) v r"
    using apply_value_ok by (metis apply_param.simps(2))
  have "get_raw_at (sput k r m) q = get_raw_at m q" if "\<not> prefix [k] q" for q
    using that by (cases q; cases "tl q") auto
  with r show ?case by auto
next
  case (3 k k' ks v mode)
  define ex where "ex = (case gomap_get (Some m) k of None \<Rightarrow> JObj [] | Some j \<Rightarrow> j)"
  from 3(2) obtain sub sub' where s: "as_gomap ex = Some sub"
    "apply_param sub (k' # ks) v mode = Inr sub'"
    "c = Some (sput k (gomap_json sub') m)"
    by (auto simp: ex_def[symmetric] Let_def gomap_set_def split: option.splits sum.splits)
  show ?case
  proof (cases sub)
    case None
    have "apply_param None (a # as) v mode \<noteq> Inr x" for a as x
      by (induction as arbitrary: a x)
         (auto simp: apply_value_def gomap_set_def gomap_get_def as_gomap_def Let_def
               split: option.splits sum.splits)
    with s(2) None show ?thesis by blast
  next
    case (Some n)
    then have exn: "ex = JObj n" using s(1) by (auto simp: as_gomap_def split: json.splits)
    obtain n' r where ih: "sub' = Some n'" "get_raw_at n' (k' # ks) = Some r"
      "param_effect mode (get_raw_at n (k' # ks)) v r"
      "\<forall>q. \<not> prefix (k' # ks) q \<longrightarrow> \<not> prefix q (k' # ks) \<longrightarrow> get_raw_at n' q = get_raw_at n q"
      using 3(1)[OF ex_def, of n sub'] s(1,2) Some by auto
    have old: "get_raw_at m (k # q) = get_raw_at n q" if "q \<noteq> []" for q
    proof (cases "map_of m k")
      case None
      then have "n = []" using exn by (simp add: ex_def gomap_get_def)
      moreover have "get_raw_at [] q = None" by (cases q; cases "tl q") auto
      ultimately show ?thesis using that None by (simp add: get_raw_at_Cons)
    next
      case (Some j)
      then have "j = JObj n" using exn by (simp add: ex_def gomap_get_def)
      with Some that show ?thesis by (simp add: get_raw_at_Cons)
    qed
    have new: "get_raw_at (sput k (JObj n') m) (k # q) = get_raw_at n' q" if "q \<noteq> []" for q
      using that by (simp add: get_raw_at_Cons)
    have "get_raw_at (sput k (JObj n') m) q = get_raw_at m q"
      if q: "\<not> prefix (k # k' # ks) q" "\<not> prefix q (k # k' # ks)" for q
    proof (cases q)
      case Nil
      with q show ?thesis by simp
    next
      case (Cons a as)
      show ?thesis
      proof (cases "a = k")
        case True
        with q Cons have "as \<noteq> []" "\<not> prefix (k' # ks) as" "\<not> prefix as (k' # ks)" by auto
        with ih(4) Cons True old new show ?thesis by simp
      next
        case False
        with Cons show ?thesis by (cases as) auto
      qed
    qed
    then show ?thesis
      using s(3) ih old[of "k' # ks"] new[of "k' # ks"] by (auto simp: gomap_json_def)
  qed
qed simp_all

lemma param_writes_only_its_path_witness:
  "get_raw_at [(''log'', JObj []), (''route'', JObj [(''final'', JStr ''a''), (''rules'', JArr [JNum 1, JNum 2])])]
     [''route'', ''final''] =
   get_raw_at [(''log'', JObj []), (''route'', JObj [(''final'', JStr ''a''), (''rules'', JArr [JNum 1])])]
     [''route'', ''final'']"
proof -
  have r: "apply_param
       (Some [(''log'', JObj []), (''route'', JObj [(''final'', JStr ''a''), (''rules'', JArr [JNum 1])])])
       [''route'', ''rules''] (JArr [JNum 2]) ''append'' =
     Inr (Some [(''log'', JObj []), (''route'', JObj [(''final'', JStr ''a''), (''rules'', JArr [JNum 1, JNum 2])])])"
    by code_simp
  show ?thesis using param_writes_only_its_path[OF r] by auto
qed

section \<open>Parameters do not see the target\<close>

definition local_predicate :: string where
  "local_predicate = ''{\"@runtime.target\":\"local\"}''"

definition remote_param :: template_param where
  "remote_param = \<lparr>pm_name = ''experimental'', pm_platforms = [], pm_value = JStr ''clash_api'',
                   pm_mode = ''replace'', pm_if = [local_predicate], pm_if_or = []\<rparr>"

definition lxd_host :: host where
  "lxd_host = linux_host\<lparr>h_parse := (\<lambda>s. if s = local_predicate
     then Some (JObj [(''@runtime.target'', JStr ''local'')]) else None)\<rparr>"

text \<open>
  A parameter guarded by the predicate that the target is local is applied to the configuration
  of a remote machine: parameter guards are evaluated with the platform only, so the target they
  see is always local, while the same predicate on a settings row and inside the configuration is
  evaluated for the machine the configuration is built for.
\<close>

theorem param_guard_ignores_target:
  "let t = remote_target_for lxd_host ''linux'' ''arm64'' ''router'' in
   apply_template_with_vars_for lxd_host [] (JObj []) [remote_param] [] Map.empty None t =
     Inr (JObj [(''experimental'', JStr ''clash_api'')]) \<and>
   \<not> var_ui_satisfied_for lxd_host (gateway_var\<lparr>tv_if := [local_predicate]\<rparr>) Map.empty Map.empty t"
  unfolding Let_def by (rule conjI; code_simp)

end
