(* ===== verification/Validate.thy ===== *)
theory Validate
  imports Vars
begin

text \<open>
  The load-time checks of a template, \<open>core/template/template_validate.go\<close>: names of the
  variables, activation guards, the shape of every \<open>#if\<close> construct and the placeholders of the
  configuration. A check returns its first error (\<open>None\<close> for a nil error); an error keeps what its
  message names, not the path. JSON texts are decoded values, so the decoding errors have no
  counterpart; members of an object are visited in key order.
\<close>

section \<open>Errors and context\<close>

datatype template_fault =
    SeparatorField string
  | EmptyName | InvalidName string | DuplicateName string | ReservedName string
  | GuardBoth | PredicateNotJSON string | BareVarRef string | EmptyVarRef
  | GlobalBare string | UnknownVar string | NotBool string
  | NotDeclared string
  | BodyNotObject | AndOrBoth | AndOrMissing | ListNotArray | ListEmpty
  | ValueMissing | ValueNull | ElseNull
  | PredicateNoAt string | PredicateKeys | NotNull | NotEmptyObject | PredicateKey string
  | PredicateShape
  | UnknownGlobal string | NoArgType string | UnknownNoArg string | EqualityType string
  | RhsKeys | UnknownArg string | RhsShape
  | InType string | InArgNotRef string | InArgNotList string | InListEmpty | InListElem | InArgShape
  | MatchesType string | MatchesNotString | BadRegex string

definition or_err :: "'e option \<Rightarrow> 'e option \<Rightarrow> 'e option" where
  "or_err a b = (case a of None \<Rightarrow> b | Some e \<Rightarrow> Some e)"

fun first_err :: "'e option list \<Rightarrow> 'e option" where
  "first_err [] = None"
| "first_err (e # es) = or_err e (first_err es)"

lemma or_err_None [simp]: "or_err a b = None \<longleftrightarrow> a = None \<and> b = None"
  by (auto simp: or_err_def split: option.splits)

lemma first_err_None [simp]: "first_err es = None \<longleftrightarrow> (\<forall>e \<in> set es. e = None)"
  by (induction es) auto

text \<open>What the checks look at: the variables by name, the pattern compiler and the JSON reader.\<close>

definition re_compiles :: "host \<Rightarrow> string \<Rightarrow> bool" where
  "re_compiles H p \<longleftrightarrow> h_re H p [] \<noteq> None"

definition is_known_runtime_global :: "string \<Rightarrow> bool" where
  "is_known_runtime_global name \<longleftrightarrow>
     prefix ''runtime.'' name \<and> drop 8 name \<in> {''platform'', ''arch'', ''target''}"

type_synonym var_env = "string \<rightharpoonup> template_var"

section \<open>Predicates\<close>

definition validate_in_arg :: "var_env \<Rightarrow> string \<Rightarrow> bool \<Rightarrow> json \<Rightarrow> template_fault option" where
  "validate_in_arg V typ is_global arg =
     (if \<not> is_global \<and> typ \<noteq> ''text'' \<and> typ \<noteq> ''text_list'' then Some (InType typ)
      else (case arg of
              JStr a \<Rightarrow>
                (if \<not> prefix ''@'' a then Some (InArgNotRef a)
                 else (case V (trim_prefix a ''@'') of
                         None \<Rightarrow> Some (UnknownVar a)
                       | Some vd \<Rightarrow> if tv_type vd \<noteq> ''text_list'' then Some (InArgNotList a) else None))
            | JArr xs \<Rightarrow>
                (if xs = [] then Some InListEmpty
                 else first_err (map (\<lambda>x. case x of JStr _ \<Rightarrow> None | _ \<Rightarrow> Some InListElem) xs))
            | _ \<Rightarrow> Some InArgShape))"

definition validate_matches_arg :: "host \<Rightarrow> string \<Rightarrow> bool \<Rightarrow> json \<Rightarrow> template_fault option" where
  "validate_matches_arg H typ is_global arg =
     (if \<not> is_global \<and> typ \<noteq> ''text'' then Some (MatchesType typ)
      else (case arg of
              JStr p \<Rightarrow>
                (if prefix ''@'' p then None
                 else if \<not> re_compiles H p then Some (BadRegex p) else None)
            | _ \<Rightarrow> Some MatchesNotString))"

definition validate_rhs_of_type :: "host \<Rightarrow> var_env \<Rightarrow> string \<Rightarrow> bool \<Rightarrow> json \<Rightarrow> template_fault option" where
  "validate_rhs_of_type H V typ is_global rhs =
     (case rhs of
        JStr r \<Rightarrow>
          (if r = ''#notEmpty'' \<or> r = ''#isEmpty'' then
             (if typ = ''text'' \<or> typ = ''text_list'' \<or> typ = ''bool'' then None else Some (NoArgType typ))
           else if prefix ''#'' r then Some (UnknownNoArg r)
           else if is_global then None
           else if typ = ''text'' then None
           else Some (EqualityType typ))
      | JObj [(k, arg)] \<Rightarrow>
          (if k = ''#in'' \<or> k = ''#notIn'' then validate_in_arg V typ is_global arg
           else if k = ''#matches'' then validate_matches_arg H typ is_global arg
           else Some (UnknownArg k))
      | JObj _ \<Rightarrow> Some RhsKeys
      | _ \<Rightarrow> Some RhsShape)"

definition validate_var_predicate_rhs ::
  "host \<Rightarrow> var_env \<Rightarrow> string \<Rightarrow> json \<Rightarrow> template_fault option" where
  "validate_var_predicate_rhs H V name rhs =
     (if is_runtime_global_ref name then
        (if \<not> is_known_runtime_global name then Some (UnknownGlobal name)
         else validate_rhs_of_type H V ''text'' True rhs)
      else (case V name of
              None \<Rightarrow> Some (UnknownVar name)
            | Some vd \<Rightarrow> validate_rhs_of_type H V (tv_type vd) False rhs))"

definition validate_bool_ref :: "var_env \<Rightarrow> string \<Rightarrow> template_fault option" where
  "validate_bool_ref V name =
     (if name = [] then Some EmptyVarRef
      else if is_runtime_global_ref name then Some (GlobalBare name)
      else (case V name of
              None \<Rightarrow> Some (UnknownVar name)
            | Some vd \<Rightarrow> if tv_type vd \<noteq> ''bool'' then Some (NotBool name) else None))"

fun validate_if_predicate :: "host \<Rightarrow> var_env \<Rightarrow> json \<Rightarrow> template_fault option" where
  "validate_if_predicate H V (JStr pv) =
     (if \<not> prefix ''@'' pv then Some (PredicateNoAt pv) else validate_bool_ref V (trim_prefix pv ''@''))"
| "validate_if_predicate H V (JObj [(k, rhs)]) =
     (if k = ''#not'' then
        (if rhs = JNull then Some NotNull
         else if rhs = JObj [] then Some NotEmptyObject
         else validate_if_predicate H V rhs)
      else if \<not> prefix ''@'' k then Some (PredicateKey k)
      else if trim_prefix k ''@'' = [] then Some EmptyVarRef
      else validate_var_predicate_rhs H V (trim_prefix k ''@'') rhs)"
| "validate_if_predicate H V (JObj m) = Some PredicateKeys"
| "validate_if_predicate H V _ = Some PredicateShape"

section \<open>Bodies of \<open>#if\<close> and trees that contain them\<close>

definition validate_predicate_list :: "host \<Rightarrow> var_env \<Rightarrow> json \<Rightarrow> template_fault option" where
  "validate_predicate_list H V j =
     (case j of
        JArr ps \<Rightarrow> if ps = [] then Some ListEmpty else first_err (map (validate_if_predicate H V) ps)
      | _ \<Rightarrow> Some ListNotArray)"

text \<open>\<open>validateIfBody\<close> up to the presence of the value; the two branches are walked below.\<close>

definition if_body_head :: "host \<Rightarrow> var_env \<Rightarrow> json \<Rightarrow> template_fault option" where
  "if_body_head H V raw =
     (case raw of
        JObj body \<Rightarrow>
          (case (map_of body ''and'', map_of body ''or'') of
             (Some _, Some _) \<Rightarrow> Some AndOrBoth
           | (None, None) \<Rightarrow> Some AndOrMissing
           | (Some l, None) \<Rightarrow> or_err (validate_predicate_list H V l)
               (case map_of body ''value'' of None \<Rightarrow> Some ValueMissing
                | Some v \<Rightarrow> if v = JNull then Some ValueNull else None)
           | (None, Some l) \<Rightarrow> or_err (validate_predicate_list H V l)
               (case map_of body ''value'' of None \<Rightarrow> Some ValueMissing
                | Some v \<Rightarrow> if v = JNull then Some ValueNull else None))
      | _ \<Rightarrow> Some BodyNotObject)"

definition body_member :: "json \<Rightarrow> string \<Rightarrow> json option" where
  "body_member raw k = (case raw of JObj body \<Rightarrow> map_of body k | _ \<Rightarrow> None)"

definition else_null :: "json \<Rightarrow> template_fault option" where
  "else_null raw = (if body_member raw ''else'' = Some JNull then Some ElseNull else None)"

definition if_wrapper_raw :: "json \<Rightarrow> json option" where
  "if_wrapper_raw j = (case j of JObj [(k, raw)] \<Rightarrow> (if k = ''#if'' then Some raw else None) | _ \<Rightarrow> None)"

lemma body_member_size: "body_member raw k = Some j \<Longrightarrow> size j < size raw"
  by (auto simp: body_member_def simp del: json.size intro: size_obj_lookup split: json.splits)

lemma if_wrapper_raw_Some: "if_wrapper_raw j = Some raw \<Longrightarrow> j = JObj [(''#if'', raw)]"
  by (auto simp: if_wrapper_raw_def split: json.splits list.splits if_splits)

function walk_validate_if :: "host \<Rightarrow> var_env \<Rightarrow> json \<Rightarrow> template_fault option"
  and validate_if_body :: "host \<Rightarrow> var_env \<Rightarrow> json \<Rightarrow> template_fault option" where
  "walk_validate_if H V (JObj m) =
     or_err (case map_of m ''#if'' of None \<Rightarrow> None | Some raw \<Rightarrow> validate_if_body H V raw)
            (first_err (map (\<lambda>p. walk_validate_if H V (snd p)) m))"
| "walk_validate_if H V (JArr xs) =
     first_err (map (\<lambda>x. case if_wrapper_raw x of
                           Some raw \<Rightarrow> validate_if_body H V raw
                         | None \<Rightarrow> walk_validate_if H V x) xs)"
| "walk_validate_if H V (JStr s) = None"
| "walk_validate_if H V (JNum n) = None"
| "walk_validate_if H V (JBool b) = None"
| "walk_validate_if H V JNull = None"
| "validate_if_body H V raw =
     or_err (if_body_head H V raw)
       (or_err (case body_member raw ''value'' of None \<Rightarrow> None | Some v \<Rightarrow> walk_validate_if H V v)
          (or_err (else_null raw)
             (case body_member raw ''else'' of None \<Rightarrow> None | Some e \<Rightarrow> walk_validate_if H V e)))"
  by pat_completeness auto
termination walk_validate_if
proof (relation "measure (\<lambda>x. case x of Inl (H, V, j) \<Rightarrow> size j | Inr (H, V, j) \<Rightarrow> size j)")
  show "(Inr (H, V, raw), Inl (H, V, JArr xs)) \<in>
          measure (\<lambda>x. case x of Inl (H, V, j) \<Rightarrow> size j | Inr (H, V, j) \<Rightarrow> size j)"
    if "x \<in> set xs" "if_wrapper_raw x = Some raw" for H :: host and V :: var_env and xs x raw
    using size_list_mem[OF that(1)] if_wrapper_raw_Some[OF that(2)] by simp
qed (auto simp del: json.size intro: size_obj_lookup size_obj_mem size_list_mem body_member_size)

section \<open>Guards and variables\<close>

definition validate_outer_if_entry :: "host \<Rightarrow> var_env \<Rightarrow> string \<Rightarrow> template_fault option" where
  "validate_outer_if_entry H V raw =
     (if prefix ''{'' (trim_space raw) then
        (case h_parse H (trim_space raw) of
           None \<Rightarrow> Some (PredicateNotJSON raw)
         | Some node \<Rightarrow> validate_if_predicate H V node)
      else if \<not> prefix ''@'' raw then Some (BareVarRef raw)
      else validate_bool_ref V (trim_prefix raw ''@''))"

definition validate_outer_if_refs ::
  "host \<Rightarrow> var_env \<Rightarrow> string list \<Rightarrow> string list \<Rightarrow> template_fault option" where
  "validate_outer_if_refs H V ifs ors =
     (if ifs \<noteq> [] \<and> ors \<noteq> [] then Some GuardBoth
      else or_err (first_err (map (validate_outer_if_entry H V) ifs))
                  (first_err (map (validate_outer_if_entry H V) ors)))"

definition validate_default_value_if :: "host \<Rightarrow> var_default \<Rightarrow> var_env \<Rightarrow> template_fault option" where
  "validate_default_value_if H dv earlier =
     (let trees = first_err (map (\<lambda>p. case snd p of JObj t \<Rightarrow> walk_validate_if H earlier (JObj t)
                                                   | _ \<Rightarrow> None) (per_platform dv))
      in case per_platform dv of
           [] \<Rightarrow> None
         | [(k, body)] \<Rightarrow> if k = ''#if'' then validate_if_body H earlier body else trees
         | _ \<Rightarrow> trees)"

definition validate_vars_separator :: "template_var \<Rightarrow> template_fault option" where
  "validate_vars_separator v =
     (if trim_space (tv_name v) \<noteq> [] then Some (SeparatorField ''name'')
      else if trim_space (tv_type v) \<noteq> [] then Some (SeparatorField ''type'')
      else if \<not> var_default_is_empty (default_value v) \<or> trim_space (default_node v) \<noteq> []
        then Some (SeparatorField ''default_value'')
      else if tv_options v \<noteq> [] then Some (SeparatorField ''options'')
      else if trim_space (tv_title v) \<noteq> [] \<or> trim_space (tooltip v) \<noteq> []
        then Some (SeparatorField ''title'')
      else if tv_if v \<noteq> [] \<or> tv_if_or v \<noteq> [] then Some (SeparatorField ''if'')
      else if to_lower (trim_space (wizard_ui v)) \<notin> {[], ''hidden''} then Some (SeparatorField ''wizard_ui'')
      else None)"

definition name_start :: "char \<Rightarrow> bool" where
  "name_start c =
     (let n = (of_char c :: nat)
      in (65 \<le> n \<and> n \<le> 90) \<or> (97 \<le> n \<and> n \<le> 122) \<or> c = CHR ''_'')"

definition name_char :: "char \<Rightarrow> bool" where
  "name_char c = (let n = (of_char c :: nat) in name_start c \<or> (48 \<le> n \<and> n \<le> 57))"

definition valid_wizard_var_name :: "string \<Rightarrow> bool" where
  "valid_wizard_var_name s =
     (case s of [] \<Rightarrow> False | c # cs \<Rightarrow> name_start c \<and> list_all name_char cs)"

fun check_names :: "template_var list \<Rightarrow> string list \<Rightarrow> template_fault option" where
  "check_names [] seen = None"
| "check_names (v # vs) seen =
     (if tv_separator v then
        (case validate_vars_separator v of Some e \<Rightarrow> Some e | None \<Rightarrow> check_names vs seen)
      else
        (let nm = trim_space (tv_name v) in
         if nm = [] then Some EmptyName
         else if \<not> valid_wizard_var_name nm then Some (InvalidName nm)
         else if nm \<in> set seen then Some (DuplicateName nm)
         else if nm = ''runtime'' then Some (ReservedName nm)
         else check_names vs (nm # seen)))"

text \<open>\<open>varByName\<close> of the validator: the trimmed names, each declared once.\<close>

definition trimmed_index :: "template_var list \<Rightarrow> var_env" where
  "trimmed_index vars =
     map_of (rev (map (\<lambda>v. (trim_space (tv_name v), v)) (filter (\<lambda>v. \<not> tv_separator v) vars)))"

fun check_vars :: "host \<Rightarrow> var_env \<Rightarrow> template_var list \<Rightarrow> var_env \<Rightarrow> template_fault option" where
  "check_vars H V [] earlier = None"
| "check_vars H V (v # vs) earlier =
     or_err (validate_outer_if_refs H V (tv_if v) (tv_if_or v))
       (or_err (validate_default_value_if H (default_value v) earlier)
          (check_vars H V vs
             (if tv_separator v then earlier else earlier(trim_space (tv_name v) \<mapsto> v))))"

section \<open>Placeholders\<close>

definition parse_at_var_name :: "string \<Rightarrow> string" where
  "parse_at_var_name s =
     (let s = trim_space s in
      if \<not> prefix ''@'' s then []
      else (let name = trim_space (drop 1 s)
            in if name = [] \<or> CHR ''@'' \<in> set name then [] else name))"

definition name_list :: "string \<Rightarrow> string list" where
  "name_list s = (if parse_at_var_name s \<noteq> [] then [parse_at_var_name s] else [])"

fun walk_json_placeholders :: "json \<Rightarrow> string list" where
  "walk_json_placeholders (JObj m) = concat (map (\<lambda>p. walk_json_placeholders (snd p)) m)"
| "walk_json_placeholders (JArr xs) = concat (map walk_json_placeholders xs)"
| "walk_json_placeholders (JStr s) = name_list s"
| "walk_json_placeholders _ = []"

definition undeclared :: "var_env \<Rightarrow> bool \<Rightarrow> string \<Rightarrow> template_fault option" where
  "undeclared V globals_ok ref =
     (if globals_ok \<and> is_runtime_global_ref ref then None
      else if V ref = None then Some (NotDeclared ref) else None)"

definition check_param :: "host \<Rightarrow> var_env \<Rightarrow> template_param \<Rightarrow> template_fault option" where
  "check_param H V p =
     or_err (validate_outer_if_refs H V (pm_if p) (pm_if_or p))
       (or_err (walk_validate_if H V (pm_value p))
          (first_err (map (undeclared V True) (walk_json_placeholders (pm_value p)))))"

definition validate_wizard_template ::
  "host \<Rightarrow> template_var list \<Rightarrow> template_param list \<Rightarrow> json \<Rightarrow> template_fault option" where
  "validate_wizard_template H vars params config =
     (let V = trimmed_index vars in
      or_err (check_names vars [])
        (or_err (check_vars H V vars Map.empty)
           (or_err (first_err (map (check_param H V) params))
              (first_err (map (undeclared V False) (walk_json_placeholders config))))))"

section \<open>What a predicate looks up\<close>

definition in_arg_refs :: "json \<Rightarrow> string list" where
  "in_arg_refs rhs =
     (case rhs of
        JObj [(k, JStr a)] \<Rightarrow> if k = ''#in'' \<or> k = ''#notIn'' then [drop 1 a] else []
      | _ \<Rightarrow> [])"

fun pred_refs :: "json \<Rightarrow> string list" where
  "pred_refs (JStr s) = [drop 1 s]"
| "pred_refs (JObj [(k, rhs)]) =
     (if k = ''#not'' then pred_refs rhs else drop 1 k # in_arg_refs rhs)"
| "pred_refs _ = []"

definition list_refs :: "json option \<Rightarrow> string list" where
  "list_refs l = (case l of Some (JArr ps) \<Rightarrow> concat (map pred_refs ps) | _ \<Rightarrow> [])"

definition body_refs :: "obj \<Rightarrow> string list" where
  "body_refs body = list_refs (map_of body ''and'') @ list_refs (map_of body ''or'')"

text \<open>The names looked up while a default is evaluated, along the branches that are taken.\<close>

function default_reads :: "sub_env \<Rightarrow> json \<Rightarrow> string list" where
  "default_reads E j =
     (case body_member j ''#if'' of
        Some (JObj body) \<Rightarrow>
          body_refs body @
          (case select_if_branch E body of None \<Rightarrow> [] | Some br \<Rightarrow> default_reads E br)
      | _ \<Rightarrow> [])"
  by pat_completeness auto
termination default_reads
  by (relation "measure (\<lambda>(E, j). size j)")
     (auto simp del: json.size dest!: select_if_branch_size body_member_size)

declare default_reads.simps [simp del]

definition ref_ok :: "var_env \<Rightarrow> string \<Rightarrow> bool" where
  "ref_ok V n \<longleftrightarrow> is_known_runtime_global n \<or> n \<in> dom V"

lemma trim_prefix_drop: "prefix ''@'' s \<Longrightarrow> trim_prefix s ''@'' = drop 1 s"
  by (simp add: trim_prefix_def)

lemma bool_ref_ok: "validate_bool_ref V n = None \<Longrightarrow> ref_ok V n"
  by (auto simp: validate_bool_ref_def ref_ok_def split: option.splits if_splits)

lemma in_arg_ok:
  assumes "validate_in_arg V typ g (JStr a) = None"
  shows "ref_ok V (drop 1 a)"
proof -
  from assms have "prefix ''@'' a" "V (trim_prefix a ''@'') \<noteq> None"
    by (auto simp: validate_in_arg_def split: option.splits if_splits)
  then show ?thesis by (auto simp: ref_ok_def trim_prefix_drop)
qed

lemma in_arg_refs_cases:
  assumes "n \<in> set (in_arg_refs rhs)"
  obtains k a where "rhs = JObj [(k, JStr a)]" "k = ''#in'' \<or> k = ''#notIn''" "n = drop 1 a"
  using assms
  by (auto simp: in_arg_refs_def split: json.splits list.splits prod.splits if_splits)

lemma rhs_refs_ok:
  assumes "validate_rhs_of_type H V typ g rhs = None" "n \<in> set (in_arg_refs rhs)"
  shows "ref_ok V n"
  using assms(2)
proof (rule in_arg_refs_cases)
  fix k a assume "rhs = JObj [(k, JStr a)]" "k = ''#in'' \<or> k = ''#notIn''" "n = drop 1 a"
  with assms(1) show ?thesis
    using in_arg_ok by (auto simp: validate_rhs_of_type_def)
qed

lemma var_predicate_refs_ok:
  assumes "validate_var_predicate_rhs H V name rhs = None" "n \<in> set (name # in_arg_refs rhs)"
  shows "ref_ok V n"
proof -
  have "ref_ok V name"
    using assms(1) by (auto simp: validate_var_predicate_rhs_def ref_ok_def split: if_splits option.splits)
  moreover have "\<exists>typ g. validate_rhs_of_type H V typ g rhs = None"
    using assms(1) by (auto simp: validate_var_predicate_rhs_def split: if_splits option.splits)
  ultimately show ?thesis using assms(2) rhs_refs_ok by auto
qed

lemma pred_refs_ok:
  "validate_if_predicate H V p = None \<Longrightarrow> n \<in> set (pred_refs p) \<Longrightarrow> ref_ok V n"
proof (induction H V p rule: validate_if_predicate.induct)
  case (1 H V pv)
  then show ?case using bool_ref_ok[of V "drop 1 pv"] by (auto simp: trim_prefix_drop split: if_splits)
next
  case (2 H V k rhs)
  show ?case
  proof (cases "k = ''#not''")
    case True
    with 2 show ?thesis by (auto split: if_splits)
  next
    case False
    with 2(2) have "prefix ''@'' k" "validate_var_predicate_rhs H V (drop 1 k) rhs = None"
      by (auto simp: trim_prefix_drop split: if_splits)
    with False 2(3) show ?thesis by (auto intro: var_predicate_refs_ok)
  qed
qed auto

lemma list_refs_ok:
  assumes "validate_predicate_list H V l = None" "n \<in> set (list_refs (Some l))"
  shows "ref_ok V n"
  using assms pred_refs_ok
  by (auto simp: validate_predicate_list_def list_refs_def split: json.splits if_splits)

lemma body_head_refs_ok:
  assumes "if_body_head H V (JObj body) = None" "n \<in> set (body_refs body)"
  shows "ref_ok V n"
  using assms list_refs_ok
  by (cases "map_of body ''and''"; cases "map_of body ''or''")
     (auto simp: if_body_head_def body_refs_def list_refs_def[of None])

lemma body_branch_ok:
  assumes "validate_if_body H V (JObj body) = None" "select_if_branch E body = Some br"
  shows "walk_validate_if H V br = None"
  using assms by (auto simp: select_if_branch_def body_member_def split: if_splits option.splits)

lemma default_reads_ok:
  "(case body_member j ''#if'' of None \<Rightarrow> True | Some raw \<Rightarrow> validate_if_body H V raw = None) \<Longrightarrow>
   n \<in> set (default_reads E j) \<Longrightarrow> ref_ok V n"
proof (induction E j rule: default_reads.induct)
  case (1 E j)
  from 1(3) obtain body where b: "body_member j ''#if'' = Some (JObj body)"
    unfolding default_reads.simps[of E j]
    by (cases "body_member j ''#if''"; cases "the (body_member j ''#if'')") auto
  with 1(2) have ok: "validate_if_body H V (JObj body) = None" by simp
  consider "n \<in> set (body_refs body)"
    | br where "select_if_branch E body = Some br" "n \<in> set (default_reads E br)"
    using 1(3) b unfolding default_reads.simps[of E j]
    by (cases "select_if_branch E body") auto
  then show ?case
  proof cases
    case 1
    with ok show ?thesis by (auto intro: body_head_refs_ok)
  next
    case (2 br)
    have w: "walk_validate_if H V br = None" using body_branch_ok[OF ok 2(1)] .
    have "case body_member br ''#if'' of None \<Rightarrow> True | Some raw \<Rightarrow> validate_if_body H V raw = None"
      using w by (cases br) (auto simp: body_member_def split: option.splits)
    then show ?thesis using 1(1)[OF b refl 2(1)] 2(2) by blast
  qed
qed

section \<open>Validated declarations\<close>

definition trimmed_names :: "template_var list \<Rightarrow> string list" where
  "trimmed_names vars = map (\<lambda>v. trim_space (tv_name v)) (filter (\<lambda>v. \<not> tv_separator v) vars)"

definition names_are_trimmed :: "template_var list \<Rightarrow> bool" where
  "names_are_trimmed vars = list_all (\<lambda>v. tv_separator v \<or> trim_space (tv_name v) = tv_name v) vars"

lemma valid_name_no_dot: "valid_wizard_var_name s \<Longrightarrow> CHR ''.'' \<notin> set s"
  by (cases s) (auto simp: valid_wizard_var_name_def name_start_def name_char_def list_all_iff)

lemma valid_name_not_global: "valid_wizard_var_name s \<Longrightarrow> \<not> is_runtime_global_ref s"
  using valid_name_no_dot[of s] by (auto simp: is_runtime_global_ref_def dest!: set_mono_prefix)

lemma check_names_ok:
  "check_names vars seen = None \<Longrightarrow>
   distinct (trimmed_names vars) \<and> set (trimmed_names vars) \<inter> set seen = {} \<and>
   list_all valid_wizard_var_name (trimmed_names vars)"
proof (induction vars arbitrary: seen)
  case (Cons v vars)
  show ?case
  proof (cases "tv_separator v")
    case True
    with Cons show ?thesis by (auto simp: trimmed_names_def split: option.splits)
  next
    case False
    let ?nm = "trim_space (tv_name v)"
    from Cons.prems False have "valid_wizard_var_name ?nm" "?nm \<notin> set seen"
      "check_names vars (?nm # seen) = None"
      by (auto simp: Let_def split: if_splits)
    with Cons.IH[of "?nm # seen"] False show ?thesis by (auto simp: trimmed_names_def)
  qed
qed (simp add: trimmed_names_def)

lemma trimmed_names_set: "names_are_trimmed vars \<Longrightarrow> set (trimmed_names vars) = var_names vars"
  by (force simp: trimmed_names_def names_are_trimmed_def var_names_def list_all_iff)

lemma trimmed_names_append: "trimmed_names (xs @ ys) = trimmed_names xs @ trimmed_names ys"
  by (simp add: trimmed_names_def)

lemma names_are_trimmed_append:
  "names_are_trimmed (xs @ ys) \<longleftrightarrow> names_are_trimmed xs \<and> names_are_trimmed ys"
  by (simp add: names_are_trimmed_def)

definition earlier_after :: "template_var list \<Rightarrow> var_env \<Rightarrow> var_env" where
  "earlier_after xs e =
     fold (\<lambda>v m. if tv_separator v then m else m(trim_space (tv_name v) \<mapsto> v)) xs e"

lemma dom_earlier_after: "dom (earlier_after xs e) = dom e \<union> set (trimmed_names xs)"
  unfolding earlier_after_def
  by (induction xs arbitrary: e) (auto simp: trimmed_names_def)

lemma check_vars_default:
  "check_vars H V (xs @ v # ys) e = None \<Longrightarrow>
   validate_default_value_if H (default_value v) (earlier_after xs e) = None"
  by (induction xs arbitrary: e) (auto simp: earlier_after_def split: if_splits)

text \<open>The trees of a default that resolution evaluates.\<close>

definition default_nodes :: "var_default \<Rightarrow> json list" where
  "default_nodes dv =
     (case per_platform dv of
        [(k, node)] \<Rightarrow> if k = ''#if'' then [JObj [(''#if'', node)]] else [node]
      | m \<Rightarrow> map snd m)"

definition head_ok :: "host \<Rightarrow> var_env \<Rightarrow> json \<Rightarrow> bool" where
  "head_ok H V j \<longleftrightarrow>
     (case body_member j ''#if'' of None \<Rightarrow> True | Some raw \<Rightarrow> validate_if_body H V raw = None)"

lemma head_ok_walk: "walk_validate_if H V j = None \<Longrightarrow> head_ok H V j"
  by (cases j) (auto simp: head_ok_def body_member_def split: option.splits)

lemma head_ok_member:
  assumes "(case j of JObj t \<Rightarrow> walk_validate_if H V (JObj t) | _ \<Rightarrow> None) = None"
  shows "head_ok H V j"
proof (cases j)
  case (JObj t)
  with assms have "walk_validate_if H V j = None" by simp
  then show ?thesis by (rule head_ok_walk)
qed (simp_all add: head_ok_def body_member_def)

lemma default_nodes_ok:
  assumes "validate_default_value_if H dv V = None" "j \<in> set (default_nodes dv)"
  shows "head_ok H V j"
proof (cases "\<exists>node. per_platform dv = [(''#if'', node)]")
  case True
  then obtain node where "per_platform dv = [(''#if'', node)]" by blast
  with assms show ?thesis
    by (simp add: validate_default_value_if_def default_nodes_def head_ok_def body_member_def)
next
  case False
  have m: "default_nodes dv = map snd (per_platform dv)"
    using False by (auto simp: default_nodes_def split: list.splits prod.splits)
  have "first_err (map (\<lambda>p. case snd p of JObj t \<Rightarrow> walk_validate_if H V (JObj t) | _ \<Rightarrow> None)
          (per_platform dv)) = None"
    using assms(1) False
    by (auto simp: validate_default_value_if_def Let_def split: list.splits prod.splits if_splits)
  then show ?thesis using assms(2) m by (auto intro!: head_ok_member)
qed

lemma first_platform_value_mem:
  "first_platform_value H E m ks = Some s \<Longrightarrow> \<exists>j \<in> snd ` set m. s = resolve_default_node H E j"
  by (induction ks) (force simp: Let_def split: option.splits if_splits dest: map_of_SomeD)+

text \<open>Evaluating a default is evaluating one of its nodes, or the scalar.\<close>

lemma for_target_in_nodes:
  "for_target_in H dv t ty res = trim_space (vd_scalar dv) \<or>
   (\<exists>j \<in> set (default_nodes dv).
      for_target_in H dv t ty res =
      resolve_default_node H \<lparr>var_types = ty, resolved = res, tgt = normalized H t, re_match = h_re H\<rparr> j)"
proof (cases "\<exists>node. per_platform dv = [(''#if'', node)]")
  case True
  then show ?thesis by (auto simp: for_target_in_def default_nodes_def Let_def)
next
  case False
  let ?E = "\<lparr>var_types = ty, resolved = res, tgt = normalized H t, re_match = h_re H\<rparr>"
  let ?ks = "default_value_key_order (ts_goos (normalized H t)) (ts_goarch (normalized H t))"
  have m: "default_nodes dv = map snd (per_platform dv)"
    using False by (auto simp: default_nodes_def split: list.splits prod.splits)
  have "for_target_in H dv t ty res = trim_space (vd_scalar dv) \<or>
        first_platform_value H ?E (per_platform dv) ?ks = Some (for_target_in H dv t ty res)"
    using False by (auto simp: for_target_in_def Let_def split: list.splits prod.splits option.splits if_splits)
  with m show ?thesis using first_platform_value_mem by fastforce
qed

text \<open>
  C39. In a template that passes validation and whose names carry no space at their ends, the
  conditions of a default ask about earlier variables only: when the variable is resolved, every
  name that a condition of its default tests on the way it takes (the left-hand side of a
  comparison, a variable tested for truth, the list of a membership test) has already got a value
  or is a known runtime global. The right-hand side of a comparison is not among these names:
  validation does not check it (see \<open>forward_comparison_passes_validation\<close>).
\<close>

theorem validated_defaults_look_back:
  assumes "validate_wizard_template H (xs @ v # ys) params config = None"
    and "names_are_trimmed (xs @ v # ys)"
    and "j \<in> set (default_nodes (default_value v))"
    and "n \<in> set (default_reads \<lparr>var_types = ty, resolved = resolve_vars H st root t ty xs Map.empty,
                                 tgt = t, re_match = h_re H\<rparr> j)"
  shows "lookup_var_scalar \<lparr>var_types = ty, resolved = resolve_vars H st root t ty xs Map.empty,
                            tgt = t, re_match = h_re H\<rparr> n \<noteq> None"
proof -
  let ?V = "earlier_after xs Map.empty"
  let ?E = "\<lparr>var_types = ty, resolved = resolve_vars H st root t ty xs Map.empty, tgt = t, re_match = h_re H\<rparr>"
  have names: "check_names (xs @ v # ys) [] = None"
    and vars: "check_vars H (trimmed_index (xs @ v # ys)) (xs @ v # ys) Map.empty = None"
    using assms(1) by (simp_all add: validate_wizard_template_def Let_def)
  have "head_ok H ?V j"
    using check_vars_default[OF vars] assms(3) by (rule default_nodes_ok)
  then have "ref_ok ?V n"
    using default_reads_ok[where j = j and H = H and V = ?V and n = n and E = ?E] assms(4) by (simp add: head_ok_def)
  then consider "is_known_runtime_global n" | "n \<in> set (trimmed_names xs)"
    by (auto simp: ref_ok_def dom_earlier_after)
  then show ?thesis
  proof cases
    case 1
    then show ?thesis
      by (auto simp: is_known_runtime_global_def lookup_var_scalar_def is_runtime_global_ref_def Let_def
          eval_nat_numeral)
  next
    case 2
    then have "\<not> is_runtime_global_ref n"
      using check_names_ok[OF names] valid_name_not_global
      by (auto simp: trimmed_names_append list_all_iff)
    moreover have "n \<in> dom (resolve_vars H st root t ty xs Map.empty)"
      using 2 assms(2) by (simp add: dom_resolve_vars names_are_trimmed_append trimmed_names_set)
    ultimately show ?thesis
      by (auto simp: lookup_var_scalar_def dom_def split: option.splits)
  qed
qed

lemma validated_defaults_look_back_witness:
  "lookup_var_scalar
     \<lparr>var_types = var_types_of [gateway_var, proxy_var],
      resolved = resolve_vars linux_host Map.empty None (local_target linux_host)
                   (var_types_of [gateway_var, proxy_var]) [gateway_var] Map.empty,
      tgt = local_target linux_host, re_match = h_re linux_host\<rparr> ''gateway_mode'' \<noteq> None"
proof (rule validated_defaults_look_back)
  show "validate_wizard_template linux_host ([gateway_var] @ proxy_var # []) [] (JObj []) = None"
    by code_simp
  show "names_are_trimmed ([gateway_var] @ proxy_var # [])" by code_simp
  show "hd (default_nodes (default_value proxy_var)) \<in> set (default_nodes (default_value proxy_var))"
    by code_simp
  show "''gateway_mode'' \<in> set (default_reads
     \<lparr>var_types = var_types_of [gateway_var, proxy_var],
      resolved = resolve_vars linux_host Map.empty None (local_target linux_host)
                   (var_types_of [gateway_var, proxy_var]) [gateway_var] Map.empty,
      tgt = local_target linux_host, re_match = h_re linux_host\<rparr>
     (hd (default_nodes (default_value proxy_var))))"
    by code_simp
qed

section \<open>Placeholders of a validated configuration\<close>

fun raw_names :: "json \<Rightarrow> string list" where
  "raw_names (JObj m) = concat (map (\<lambda>p. raw_names (snd p)) m)"
| "raw_names (JArr xs) = concat (map raw_names xs)"
| "raw_names (JStr s) = (case placeholder s of None \<Rightarrow> [] | Some n \<Rightarrow> [n])"
| "raw_names _ = []"

lemma raw_names_lookup: "map_of m k = Some v \<Longrightarrow> set (raw_names v) \<subseteq> set (raw_names (JObj m))"
  using map_of_SomeD[of m k v] by auto

lemma raw_names_branch:
  assumes "select_if_branch E body = Some br"
  shows "set (raw_names br) \<subseteq> set (raw_names (JObj body))"
  using assms raw_names_lookup unfolding select_if_branch_def by metis

lemma raw_names_if_branch: "if_branch E m = Some br \<Longrightarrow> set (raw_names br) \<subseteq> set (raw_names (JObj m))"
  by (meson if_branch_Some raw_names_branch raw_names_lookup subset_trans)

lemma raw_names_if_element:
  assumes "if_element E x = Some y"
  shows "set (raw_names y) \<subseteq> set (raw_names x)"
proof (cases "if_wrapper_body x")
  case None
  with assms show ?thesis by (simp add: if_element_def)
next
  case (Some body)
  then have x: "x = JObj [(''#if'', JObj body)]" by (rule if_wrapper_body_Some)
  have "select_if_branch E body = Some y" using assms Some by (simp add: if_element_def)
  from raw_names_branch[OF this] show ?thesis by (simp add: x)
qed

lemma collapse_raw_name: "collapse_name xs = Some n \<Longrightarrow> n \<in> set (raw_names (JArr xs))"
  by (auto simp: collapse_name_def split: list.splits json.splits)

lemma replacement_names: "n' \<in> set (snd (replacement_for_placeholder E n)) \<Longrightarrow> n' = n"
  by (auto simp: replacement_for_placeholder_def Let_def split: option.splits if_splits)

lemma spread_branch_inert:
  assumes "\<forall>j u. w = Some (j, u) \<longrightarrow> inert j" "p \<in> set (spread_branch m w)"
  shows "p \<in> set m \<or> inert (snd p)"
proof (cases "\<exists>bm u. w = Some (JObj bm, u)")
  case True
  then obtain bm u where w: "w = Some (JObj bm, u)" by blast
  then have "p \<in> set bm \<or> p \<in> set (drop_ctrl m)"
    using assms(2) set_sput_all_subset[of bm "drop_ctrl m"] by (auto simp: spread_branch_def)
  moreover have "inert (JObj bm)" using assms(1) w by blast
  ultimately show ?thesis using drop_ctrl_no_ctrl[of p m] by (auto simp: list_all_iff)
next
  case False
  then have "spread_branch m w = drop_ctrl m"
    by (auto simp: spread_branch_def split: option.splits json.splits)
  with assms(2) show ?thesis using drop_ctrl_no_ctrl[of p m] by auto
qed

lemma walked_field_cases:
  assumes "clean_env E" "p \<in> set (walked_fields E m)"
  shows "p \<in> set m \<or> walk_names E (snd p) = []"
proof -
  have "\<forall>j u. map_option (walk E) (if_branch E m) = Some (j, u) \<longrightarrow> inert j"
    using inert_walk_val[OF assms(1), unfolded walk_val_def] by (metis map_option_SomeD fst_conv)
  from spread_branch_inert[OF this assms(2)] have "p \<in> set m \<or> inert (snd p)" .
  then show ?thesis by (auto simp: walk_names_def walk_inert)
qed

text \<open>The walker meets no name that the tree does not spell out.\<close>

lemma walk_names_raw: "clean_env E \<Longrightarrow> set (walk_names E j) \<subseteq> set (raw_names j)"
proof (induction E j rule: walk.induct)
  case (1 E m)
  have br: "set (walk_names E br) \<subseteq> set (raw_names (JObj m))" if "if_branch E m = Some br" for br
    using 1(1)[OF that 1(3)] raw_names_if_branch[OF that] by blast
  have "set (walk_names E (snd p)) \<subseteq> set (raw_names (JObj m))" if "p \<in> set (walked_fields E m)" for p
  proof -
    from walked_field_cases[OF 1(3) that] show ?thesis
    proof
      assume "p \<in> set m"
      then have "set (raw_names (snd p)) \<subseteq> set (raw_names (JObj m))" by auto
      moreover have "set (walk_names E (snd p)) \<subseteq> set (raw_names (snd p))"
        using 1(2)[OF refl that 1(3)] by blast
      ultimately show ?thesis by blast
    qed simp
  qed
  then have f: "set (concat (map (\<lambda>p. walk_names E (snd p)) (walked_fields E m))) \<subseteq> set (raw_names (JObj m))"
    by (simp only: set_concat set_map) blast
  have "set (case if_branch E m of None \<Rightarrow> [] | Some br \<Rightarrow> walk_names E br) \<subseteq> set (raw_names (JObj m))"
    using br by (cases "if_branch E m") (simp_all del: raw_names.simps)
  with f show ?case unfolding walk_obj(2) set_append by blast
next
  case (2 E xs)
  show ?case
  proof (cases "list_ex is_if_wrapper xs")
    case True
    have "set (walk_names E y) \<subseteq> set (raw_names (JArr xs))"
      if "y \<in> set (List.map_filter (if_element E) xs)" for y
    proof -
      from that obtain x where x: "x \<in> set xs" "if_element E x = Some y" by (auto simp: set_map_filter)
      have "set (walk_names E y) \<subseteq> set (raw_names y)" using 2(1)[OF True that 2(3)] .
      with x raw_names_if_element[OF x(2)] show ?thesis by auto
    qed
    with True show ?thesis by (auto simp: walk_arr)
  next
    case False
    show ?thesis
    proof (cases "collapse_name xs")
      case None
      with False 2 show ?thesis by (fastforce simp: walk_arr)
    next
      case (Some n)
      with False collapse_raw_name[OF Some] replacement_names show ?thesis
        by (auto simp: walk_names_def walk_arr simp del: raw_names.simps)
    qed
  qed
next
  case (3 E x)
  then show ?case using replacement_names by (auto simp: walk_names_def split: option.splits)
qed (simp_all add: walk_names_def)

lemma placeholder_parsed:
  assumes "placeholder s = Some n" "trim_space n = n"
  shows "parse_at_var_name s = n"
proof -
  from assms(1) have s: "s = CHR ''@'' # n" "n \<noteq> []" "CHR ''@'' \<notin> set n"
    by (auto simp: placeholder_def prefix_def split: if_splits)
  have "rev (dropWhile is_space (rev (CHR ''@'' # n))) = CHR ''@'' # n"
    using last_trimmed[OF assms(2) s(2)] s(2) by (cases n rule: rev_cases) auto
  then have "trim_space s = s" using s(1) by (simp add: trim_space_def is_space_def)
  with s assms(2) show ?thesis by (simp add: parse_at_var_name_def Let_def)
qed

lemma raw_names_collected:
  "n \<in> set (raw_names j) \<Longrightarrow> trim_space n = n \<Longrightarrow> n \<noteq> [] \<Longrightarrow> n \<in> set (walk_json_placeholders j)"
  by (induction j rule: raw_names.induct)
     (auto simp: name_list_def placeholder_parsed split: option.splits
      dest: placeholder_parsed[OF sym])

lemma raw_name_ne: "n \<in> set (raw_names j) \<Longrightarrow> n \<noteq> []"
  by (induction j rule: raw_names.induct) (auto simp: placeholder_def split: option.splits if_splits)

lemma dom_maybe_generate: "n \<in> dom res \<Longrightarrow> n \<in> dom (maybe_generate_secrets vars ds res)"
proof (induction vars arbitrary: ds res)
  case (Cons v vars)
  obtain g ds' where g: "generate_secret ds = (g, ds')" by fastforce
  have "n \<in> dom (maybe_generate_secrets vars d res)" for d by (rule Cons.IH[OF Cons.prems])
  moreover have "n \<in> dom (maybe_generate_secrets vars d (res(tv_name v \<mapsto> r)))" for d r
    using Cons.prems by (intro Cons.IH) (auto simp: dom_def)
  ultimately show ?case using g by (cases g) (simp_all del: fun_upd_apply)
qed simp

lemma trimmed_index_dom: "trimmed_index vars n \<noteq> None \<longleftrightarrow> n \<in> set (trimmed_names vars)"
proof -
  have "set (map fst (rev (map (\<lambda>v. (trim_space (tv_name v), v)) (filter (\<lambda>v. \<not> tv_separator v) vars)))) =
        set (trimmed_names vars)"
    by (simp add: trimmed_names_def rev_map[symmetric] comp_def)
  then show ?thesis
    unfolding trimmed_index_def map_of_eq_None_iff by simp
qed

text \<open>The placeholders of a tree carry no space at the ends of their names.\<close>

definition placeholders_trimmed :: "json \<Rightarrow> bool" where
  "placeholders_trimmed config \<longleftrightarrow> list_all (\<lambda>n. trim_space n = n) (raw_names config)"

text \<open>
  C8. Substituting the configuration of a validated template succeeds and leaves nothing
  unresolved: with the values that resolution and secret generation give, strict substitution
  returns a tree without any placeholder or control key. The names in declarations and placeholders
  carry no space at their ends, which validation ignores and substitution does not (see
  \<open>spaced_placeholder_passes_validation\<close>), and no resolved value looks like a placeholder
  again (\<open>clean_env\<close>).
\<close>

theorem validated_config_resolves:
  assumes "validate_wizard_template H vars params config = None"
    and "names_are_trimmed vars" "placeholders_trimmed config"
    and "clean_env \<lparr>var_types = var_types_of vars,
                    resolved = maybe_generate_secrets vars ds (resolve_template_vars_for H vars st root t),
                    tgt = t, re_match = re\<rparr>"
  shows "\<exists>out. substitute_vars_in_json_strict vars
      (maybe_generate_secrets vars ds (resolve_template_vars_for H vars st root t)) t re config = Inr (out, []) \<and> inert out"
proof -
  let ?res = "maybe_generate_secrets vars ds (resolve_template_vars_for H vars st root t)"
  let ?E = "\<lparr>var_types = var_types_of vars, resolved = ?res, tgt = t, re_match = re\<rparr>"
  have "False" if n: "n \<in> set (walk_names ?E config)" for n
  proof -
    have raw: "n \<in> set (raw_names config)" using walk_names_raw[OF assms(4)] n by blast
    then have "trim_space n = n" using assms(3) by (simp add: placeholders_trimmed_def list_all_iff)
    with raw have "n \<in> set (walk_json_placeholders config)"
      using raw_names_collected raw_name_ne by blast
    moreover have "first_err (map (undeclared (trimmed_index vars) False) (walk_json_placeholders config)) = None"
      using assms(1) by (simp add: validate_wizard_template_def Let_def del: first_err_None)
    ultimately have "undeclared (trimmed_index vars) False n = None" by simp
    then have "trimmed_index vars n \<noteq> None" by (auto simp: undeclared_def split: if_splits)
    then have "n \<in> var_names vars" using trimmed_index_dom trimmed_names_set[OF assms(2)] by blast
    then have "n \<in> dom (resolve_template_vars_for H vars st root t)"
      by (simp add: resolve_template_vars_for_def dom_resolve_vars)
    then have "?res n \<noteq> None" using dom_maybe_generate by (metis domIff)
    with walk_names_unresolved[OF n] show False by simp
  qed
  then have "walk_names ?E config = []" by (cases "walk_names ?E config") auto
  then show ?thesis
    using inert_walk_val[OF assms(4), of config]
    by (auto simp: substitute_vars_in_json_strict_def substitute_internal_eq Let_def)
qed

lemma bool_env_clean:
  "clean_env \<lparr>var_types = var_types_of [gateway_var],
     resolved = maybe_generate_secrets [gateway_var] []
                  (resolve_template_vars_for linux_host [gateway_var] Map.empty None (local_target linux_host)),
     tgt = local_target linux_host, re_match = (\<lambda>_ _. None)\<rparr>"
  by (simp add: clean_env_def replacement_for_placeholder_def resolve_template_vars_for_def is_secret_var_def
      gateway_var_def plain_var_def var_types_of_def type_of_var_def placeholder_def Let_def equal_fold_def
      trim_space_def lower_char_def is_space_def split: option.splits)

lemma validated_config_resolves_witness:
  "\<exists>out. substitute_vars_in_json_strict [gateway_var]
      (maybe_generate_secrets [gateway_var] []
         (resolve_template_vars_for linux_host [gateway_var] Map.empty None (local_target linux_host)))
      (local_target linux_host) (\<lambda>_ _. None) (JObj [(''gw'', JStr ''@gateway_mode'')]) = Inr (out, []) \<and> inert out"
proof (rule validated_config_resolves)
  show "validate_wizard_template linux_host [gateway_var] [] (JObj [(''gw'', JStr ''@gateway_mode'')]) = None"
    by code_simp
  show "names_are_trimmed [gateway_var]" by code_simp
  show "placeholders_trimmed (JObj [(''gw'', JStr ''@gateway_mode'')])" by code_simp
qed (rule bool_env_clean)

section \<open>Validated templates resolve in one pass\<close>

text \<open>
  In a validated template a variable resolves to the same value as if the declarations after it
  were not there and nothing was stored for them: one pass in declaration order is enough.
\<close>

theorem validated_resolution_is_one_pass:
  assumes "validate_wizard_template H (xs @ ys) params config = None"
    and "names_are_trimmed (xs @ ys)"
    and "\<forall>n \<in> var_names xs. st' n = st n"
    and "n \<in> var_names xs"
  shows "resolve_template_vars_for H (xs @ ys) st' root t n = resolve_template_vars_for H xs st root t n"
proof -
  have "check_names (xs @ ys) [] = None"
    using assms(1) by (simp add: validate_wizard_template_def Let_def)
  then have c: "distinct (trimmed_names xs @ trimmed_names ys)"
    "list_all valid_wizard_var_name (trimmed_names ys)"
    by (auto simp: trimmed_names_append dest!: check_names_ok)
  have n: "set (trimmed_names xs) = var_names xs" "set (trimmed_names ys) = var_names ys"
    using assms(2) by (simp_all add: names_are_trimmed_append trimmed_names_set)
  have "resolve_template_vars_for H (xs @ ys) st' root t n = resolve_template_vars_for H (xs @ []) st root t n"
  proof (rule resolution_prefix)
    show "var_names ys \<inter> var_names xs = {}" using c n by auto
    show "\<forall>n \<in> var_names [] \<union> var_names ys. \<not> is_runtime_global_ref n"
      using c n valid_name_not_global by (auto simp: list_all_iff)
  qed (use assms in auto)
  then show ?thesis by simp
qed

lemma validated_resolution_is_one_pass_witness:
  "resolve_template_vars_for linux_host ([gateway_var, proxy_var] @ [notes_var])
     (Map.empty(''gateway_mode'' \<mapsto> ''true'', ''dns_list'' \<mapsto> ''a'')) None (local_target linux_host) ''proxy_in_listen'' =
   resolve_template_vars_for linux_host [gateway_var, proxy_var]
     (Map.empty(''gateway_mode'' \<mapsto> ''true'')) None (local_target linux_host) ''proxy_in_listen''"
proof (rule validated_resolution_is_one_pass)
  show "validate_wizard_template linux_host ([gateway_var, proxy_var] @ [notes_var]) [] (JObj []) = None"
    by code_simp
  show "names_are_trimmed ([gateway_var, proxy_var] @ [notes_var])" by code_simp
qed (simp_all add: gateway_var_def proxy_var_def plain_var_def)

section \<open>What validation lets through\<close>

text \<open>
  A placeholder with a space after the sign passes validation, because the validator trims the
  name, and is not resolved, because substitution does not.
\<close>

theorem spaced_placeholder_passes_validation:
  "validate_wizard_template linux_host [gateway_var] [] (JObj [(''gw'', JStr ''@ gateway_mode'')]) = None \<and>
   substitute_vars_in_json_strict [gateway_var]
     (resolve_template_vars_for linux_host [gateway_var] Map.empty None (local_target linux_host))
     (local_target linux_host) (\<lambda>_ _. None) (JObj [(''gw'', JStr ''@ gateway_mode'')]) =
   Inl ['' gateway_mode'']"
  by (rule conjI; code_simp)

definition later_ref_var :: template_var where
  "later_ref_var = plain_var ''first'' ''text''
     \<lparr>vd_scalar = [],
      per_platform = [(''#if'', JObj [(''and'', JArr [JObj [(''@runtime.platform'', JStr ''@second'')]]),
                                      (''else'', JStr ''no''), (''value'', JStr ''yes'')])]\<rparr>"

definition second_var :: template_var where
  "second_var = plain_var ''second'' ''text'' \<lparr>vd_scalar = ''linux'', per_platform = []\<rparr>"

text \<open>
  Validation checks the name a condition asks about but not the value it is compared with: a
  default that compares with a variable declared later passes, and at run time it compares with the
  empty string, so the condition is silently false although the two are equal.
\<close>

theorem forward_comparison_passes_validation:
  "validate_wizard_template linux_host [later_ref_var, second_var] [] (JObj []) = None \<and>
   resolve_template_vars_for linux_host [later_ref_var, second_var] Map.empty None (local_target linux_host)
     ''first'' = Some (scalar_var ''no'') \<and>
   resolve_template_vars_for linux_host [later_ref_var, second_var] Map.empty None (local_target linux_host)
     ''second'' = Some (scalar_var ''linux'')"
  by (intro conjI; code_simp)

end
