(* ===== verification/Nodes.thy ===== *)
theory Nodes
  imports Json
begin

text \<open>
  Parsed proxy nodes, \<open>core/config/configtypes/types.go\<close> (\<open>ParsedNode\<close>, \<open>ParsedJump\<close>), and
  the text of JSON values as \<open>encoding/json\<close> writes it for the emitters of
  \<open>core/config/outbound_jsonbuilder.go\<close>. A node's \<open>Outbound\<close> is a Go map of dynamic values: a
  parser stores \<open>int\<close>, \<open>[]string\<close> and \<open>map[string]string\<close> where a decoded JSON file has
  \<open>float64\<close>, \<open>[]interface{}\<close> and \<open>map[string]interface{}\<close>, and the type assertions of the
  emitters tell them apart, so the dynamic types are constructors here. Floats carry integers,
  and strings are taken as valid UTF-8.
\<close>

section \<open>Go values behind \<open>interface{}\<close>\<close>

datatype gval =
    GNull
  | GBool bool
  | GInt int
  | GFloat int
  | GStr string
  | GStrs "string list"
  | GStrMap "(string \<times> string) list"
  | GList "gval list"
  | GMap "(string \<times> gval) list"

type_synonym gobj = "gval smap"

fun marshal :: "gval \<Rightarrow> json" where
  "marshal GNull = JNull"
| "marshal (GBool b) = JBool b"
| "marshal (GInt i) = JNum i"
| "marshal (GFloat i) = JNum i"
| "marshal (GStr s) = JStr s"
| "marshal (GStrs ss) = JArr (map JStr ss)"
| "marshal (GStrMap m) = JObj (map (\<lambda>p. (fst p, JStr (snd p))) m)"
| "marshal (GList xs) = JArr (map marshal xs)"
| "marshal (GMap m) = JObj (map (\<lambda>p. (fst p, marshal (snd p))) m)"

text \<open>Two-value type assertions \<open>v, ok := m[k].(T)\<close>.\<close>

definition get_str :: "gobj \<Rightarrow> string \<Rightarrow> string option" where
  "get_str m k = (case map_of m k of Some (GStr s) \<Rightarrow> Some s | _ \<Rightarrow> None)"

definition get_int :: "gobj \<Rightarrow> string \<Rightarrow> int option" where
  "get_int m k = (case map_of m k of Some (GInt i) \<Rightarrow> Some i | _ \<Rightarrow> None)"

definition get_bool :: "gobj \<Rightarrow> string \<Rightarrow> bool option" where
  "get_bool m k = (case map_of m k of Some (GBool b) \<Rightarrow> Some b | _ \<Rightarrow> None)"

definition get_strs :: "gobj \<Rightarrow> string \<Rightarrow> string list option" where
  "get_strs m k = (case map_of m k of Some (GStrs ss) \<Rightarrow> Some ss | _ \<Rightarrow> None)"

definition get_map :: "gobj \<Rightarrow> string \<Rightarrow> gobj option" where
  "get_map m k = (case map_of m k of Some (GMap x) \<Rightarrow> Some x | _ \<Rightarrow> None)"

text \<open>Every map inside a value has its keys sorted and distinct, as a Go map read in key order.\<close>

fun wf_gval :: "gval \<Rightarrow> bool" where
  "wf_gval (GStrMap m) \<longleftrightarrow> scanon m"
| "wf_gval (GList xs) \<longleftrightarrow> list_all wf_gval xs"
| "wf_gval (GMap m) \<longleftrightarrow> scanon m \<and> list_all (\<lambda>p. wf_gval (snd p)) m"
| "wf_gval _ \<longleftrightarrow> True"

lemma scanon_map_snd [simp]: "scanon (map (\<lambda>p. (fst p, f (snd p))) m) \<longleftrightarrow> scanon m"
  by (simp add: scanon_def comp_def)

lemma wf_json_marshal: "wf_gval v \<Longrightarrow> wf_json (marshal v)"
  by (induction v rule: marshal.induct)
    (auto simp: list_all_iff scanon_map_snd split_def)

section \<open>Nodes\<close>

text \<open>
  \<open>ParsedJump\<close>; a hop of \<open>ParsedNode.Chain\<close> is used through the same fields only, so both are
  this record. \<open>None\<close> is a nil \<open>Outbound\<close> map. \<open>ParsedNode\<close> extends it. The query of the
  share link is read by the link parsers alone and is left out.
\<close>

record parsed_jump =
  nd_tag :: string
  nd_scheme :: string
  nd_server :: string
  nd_port :: int
  nd_uuid :: string
  nd_flow :: string
  nd_outbound :: "gobj option"

record parsed_node = parsed_jump +
  nd_label :: string
  nd_comment :: string
  nd_jump :: "parsed_jump option"
  nd_source_tag :: string
  nd_chain :: "parsed_jump list"
  nd_source_index :: int
  nd_emit_raw :: bool

definition unset_source_index :: int where "unset_source_index = -1"

definition scheme_group :: string where "scheme_group = ''group''"

definition group_members_key :: string where "group_members_key = ''outbounds''"

text \<open>The fields of a node's outbound; reading a nil map finds nothing.\<close>

definition ob :: "('a) parsed_jump_scheme \<Rightarrow> gobj" where
  "ob n = (case nd_outbound n of None \<Rightarrow> [] | Some m \<Rightarrow> m)"

definition sync_jump_from_chain :: "parsed_node \<Rightarrow> parsed_node" where
  "sync_jump_from_chain n =
     (case nd_chain n of [] \<Rightarrow> n\<lparr>nd_jump := None\<rparr> | hop # _ \<Rightarrow> n\<lparr>nd_jump := Some hop\<rparr>)"

definition adopt_legacy_jump :: "parsed_node \<Rightarrow> parsed_node" where
  "adopt_legacy_jump n =
     (if nd_chain n \<noteq> [] then n
      else (case nd_jump n of None \<Rightarrow> n | Some j \<Rightarrow> n\<lparr>nd_chain := [j]\<rparr>))"

text \<open>\<open>normalizeChainHop\<close>: the scheme defaults to SOCKS and a SOCKS hop to version 5.\<close>

definition normalize_chain_hop :: "parsed_jump \<Rightarrow> parsed_node \<Rightarrow> parsed_node" where
  "normalize_chain_hop hop owner =
     (let scheme = (if nd_scheme hop = [] then ''socks'' else nd_scheme hop);
          m = ob hop;
          m = (if scheme = ''socks'' \<and> map_of m ''version'' = None
               then sput ''version'' (GStr ''5'') m else m)
      in \<lparr>nd_tag = nd_tag hop, nd_scheme = scheme, nd_server = nd_server hop,
          nd_port = nd_port hop, nd_uuid = nd_uuid hop, nd_flow = nd_flow hop,
          nd_outbound = Some m, nd_label = nd_label owner, nd_comment = nd_comment owner,
          nd_jump = None, nd_source_tag = [], nd_chain = [], nd_source_index = 0,
          nd_emit_raw = False\<rparr>)"

definition chain_of_node :: "parsed_node \<Rightarrow> parsed_node list" where
  "chain_of_node n =
     (if nd_chain n \<noteq> [] then map (\<lambda>hop. normalize_chain_hop hop n) (nd_chain n)
      else (case nd_jump n of None \<Rightarrow> [] | Some j \<Rightarrow> [normalize_chain_hop j n]))"

text \<open>
  The chain and the legacy first hop describe one path: whichever of the two a state file
  carries, adopting and syncing leave the emitted hops as they are.
\<close>

lemma chain_of_adopted: "chain_of_node (adopt_legacy_jump n) = chain_of_node n"
  by (auto simp: chain_of_node_def adopt_legacy_jump_def normalize_chain_hop_def Let_def
      split: option.splits)

lemma normalize_chain_hop_chain:
  "normalize_chain_hop hop (n\<lparr>nd_chain := c, nd_jump := j\<rparr>) = normalize_chain_hop hop n"
  by (simp add: normalize_chain_hop_def Let_def)

lemma chain_of_synced:
  "nd_chain n \<noteq> [] \<Longrightarrow> chain_of_node (sync_jump_from_chain n) = chain_of_node n"
  by (cases "nd_chain n") (auto simp: chain_of_node_def sync_jump_from_chain_def
      normalize_chain_hop_def Let_def)

lemma adopt_sync_adopt:
  "sync_jump_from_chain (adopt_legacy_jump n) =
     (if nd_chain n = [] then adopt_legacy_jump n else sync_jump_from_chain n)"
  by (cases n; cases "nd_jump n") (auto simp: sync_jump_from_chain_def adopt_legacy_jump_def)

section \<open>JSON text\<close>

text \<open>
  The text \<open>encoding/json\<close> writes: strings escaped, including the characters HTML gives a
  meaning and the two Unicode line separators; numbers in decimal.
\<close>

definition hex_digit :: "nat \<Rightarrow> char" where
  "hex_digit d = (if d < 10 then char_of (48 + d) else char_of (87 + d))"

definition escape_char :: "char \<Rightarrow> string" where
  "escape_char c =
     (let n = (of_char c :: nat) in
      if c = CHR 0x22 then [CHR 0x5C, CHR 0x22]
      else if c = CHR 0x5C then [CHR 0x5C, CHR 0x5C]
      else if n = 8 then [CHR 0x5C, CHR ''b'']
      else if n = 12 then [CHR 0x5C, CHR ''f'']
      else if n = 10 then [CHR 0x5C, CHR ''n'']
      else if n = 13 then [CHR 0x5C, CHR ''r'']
      else if n = 9 then [CHR 0x5C, CHR ''t'']
      else if n < 32 \<or> c = CHR ''<'' \<or> c = CHR ''>'' \<or> c = CHR ''&''
        then CHR 0x5C # ''u00'' @ [hex_digit (n div 16), hex_digit (n mod 16)]
      else [c])"

fun escape :: "string \<Rightarrow> string" where
  "escape (a # b # c # cs) =
     (if a = CHR 0xE2 \<and> b = CHR 0x80 \<and> c = CHR 0xA8 then CHR 0x5C # ''u2028'' @ escape cs
      else if a = CHR 0xE2 \<and> b = CHR 0x80 \<and> c = CHR 0xA9 then CHR 0x5C # ''u2029'' @ escape cs
      else escape_char a @ escape (b # c # cs))"
| "escape [a, b] = escape_char a @ escape_char b"
| "escape [a] = escape_char a"
| "escape [] = []"

definition quote_json :: "string \<Rightarrow> string" where
  "quote_json s = [CHR 0x22] @ escape s @ [CHR 0x22]"

fun json_text :: "json \<Rightarrow> string" where
  "json_text JNull = ''null''"
| "json_text (JBool b) = (if b then ''true'' else ''false'')"
| "json_text (JNum i) = itoa i"
| "json_text (JStr s) = quote_json s"
| "json_text (JArr xs) = ''['' @ join_with '','' (map json_text xs) @ '']''"
| "json_text (JObj m) =
     ''{'' @ join_with '','' (map (\<lambda>p. quote_json (fst p) @ '':'' @ json_text (snd p)) m) @ ''}''"

text \<open>\<open>json.MarshalIndent(v, "", "  ")\<close>; the number is the nesting depth.\<close>

definition newline_indent :: "nat \<Rightarrow> string" where
  "newline_indent d = CHR 0x0A # replicate (2 * d) (CHR '' '')"

fun json_indent :: "nat \<Rightarrow> json \<Rightarrow> string" where
  "json_indent d (JArr xs) =
     (if xs = [] then ''[]''
      else ''['' @ newline_indent (Suc d) @
        join_with (CHR '','' # newline_indent (Suc d)) (map (json_indent (Suc d)) xs) @
        newline_indent d @ '']'')"
| "json_indent d (JObj m) =
     (if m = [] then ''{}''
      else ''{'' @ newline_indent (Suc d) @
        join_with (CHR '','' # newline_indent (Suc d))
          (map (\<lambda>p. quote_json (fst p) @ '': '' @ json_indent (Suc d) (snd p)) m) @
        newline_indent d @ ''}'')"
| "json_indent d v = json_text v"

text \<open>\<open>sanitizeOutboundLineComment\<close>: line breaks become spaces.\<close>

fun line_breaks_to_spaces :: "bool \<Rightarrow> string \<Rightarrow> string" where
  "line_breaks_to_spaces after_cr [] = []"
| "line_breaks_to_spaces after_cr (c # cs) =
     (if c = CHR 0x0A \<and> after_cr then line_breaks_to_spaces False cs
      else if c = CHR 0x0A \<or> c = CHR 0x0D then CHR '' '' # line_breaks_to_spaces (c = CHR 0x0D) cs
      else c # line_breaks_to_spaces False cs)"

definition sanitize_outbound_line_comment :: "string \<Rightarrow> string" where
  "sanitize_outbound_line_comment s = trim_space (line_breaks_to_spaces False s)"

lemma line_breaks_to_spaces_one_line:
  "CHR 0x0A \<notin> set (line_breaks_to_spaces a s) \<and> CHR 0x0D \<notin> set (line_breaks_to_spaces a s)"
  by (induction s arbitrary: a) auto

text \<open>A comment never spills onto the next line, where it would swallow JSON.\<close>

lemma comment_one_line:
  "CHR 0x0A \<notin> set (sanitize_outbound_line_comment s) \<and>
   CHR 0x0D \<notin> set (sanitize_outbound_line_comment s)"
  using line_breaks_to_spaces_one_line set_trim_space
  unfolding sanitize_outbound_line_comment_def by blast

lemma set_line_breaks_to_spaces: "set (line_breaks_to_spaces a s) \<subseteq> insert (CHR '' '') (set s)"
  by (induction s arbitrary: a) (auto split: if_splits dest: subsetD)

lemma comment_chars: "set (sanitize_outbound_line_comment s) \<subseteq> insert (CHR '' '') (set s)"
  using set_line_breaks_to_spaces set_trim_space
  unfolding sanitize_outbound_line_comment_def by blast

end
