(* ===== verification/NodeJson.thy ===== *)
theory NodeJson
  imports Nodes
begin

text \<open>
  Emission of one node: \<open>GenerateNodeJSON\<close> with its group, raw and endpoint variants and
  \<open>EmitNodeJSONs\<close> of \<open>core/config/outbound_generator.go\<close>, the transport block of
  \<open>outbound_jsonbuilder.go\<close>, the normalisers it calls in \<open>core/config/subscription\<close>, and the
  identity hash of \<open>node_hash.go\<close>. The emitters concatenate text field by field; the model keeps
  the fields in the order they are written, and \<open>emitted_text\<close> is the text. Reading that
  text back (\<open>json.Unmarshal\<close>) and SHA-256 are parameters of the identity hash. The entries of a
  transport's \<open>headers\<close>, which the code writes in Go's map order, are in key order here.
\<close>

section \<open>Normalisers of the subscription package\<close>

definition singbox_utls_fingerprints :: "string list" where
  "singbox_utls_fingerprints =
     [''chrome'', ''firefox'', ''edge'', ''safari'', ''360'', ''qq'', ''ios'', ''android'',
      ''random'', ''randomized'', ''chrome_psk'', ''chrome_psk_shuffle'',
      ''chrome_padding_psk_shuffle'', ''chrome_pq'', ''chrome_pq_psk'']"

definition utls_alias_prefixes :: "(string \<times> string) list" where
  "utls_alias_prefixes =
     [(''hellochrome'', ''chrome''), (''hellofirefox'', ''firefox''), (''helloedge'', ''edge''),
      (''hellosafari'', ''safari''), (''helloios'', ''ios''), (''helloandroid'', ''android''),
      (''hello360'', ''360''), (''helloqq'', ''qq''), (''hellorandomized'', ''randomized''),
      (''hellorandom'', ''random'')]"

definition normalize_utls_fingerprint :: "string \<Rightarrow> string" where
  "normalize_utls_fingerprint fp0 =
     (let fp = trim_space (to_lower fp0) in
      if fp = [] then []
      else if fp \<in> set singbox_utls_fingerprints then fp
      else (let bare = filter (\<lambda>c. c \<noteq> CHR ''_'' \<and> c \<noteq> CHR ''-'' \<and> c \<noteq> CHR '' '') fp
            in case List.find (\<lambda>a. prefix (fst a) bare) utls_alias_prefixes of
                 Some a \<Rightarrow> snd a | None \<Rightarrow> []))"

definition port_range :: "string \<Rightarrow> string" where
  "port_range part =
     (let pr = map (\<lambda>c. if c = CHR ''-'' then CHR '':'' else c) part
      in if CHR '':'' \<in> set pr then pr else pr @ '':'' @ pr)"

definition mport_spec_to_server_ports :: "string \<Rightarrow> string list" where
  "mport_spec_to_server_ports spec0 =
     (let spec = trim_space spec0 in
      if spec = [] then []
      else map port_range (filter (\<lambda>p. p \<noteq> []) (map trim_space (split_char (CHR '','') spec))))"

definition normalize_server_ports :: "string list \<Rightarrow> string list" where
  "normalize_server_ports ranges =
     (if ranges = [] then [] else mport_spec_to_server_ports (join_with '','' ranges))"

section \<open>Optional fields\<close>

type_synonym fields = "(string \<times> json) list"

definition str_part :: "gobj \<Rightarrow> string \<Rightarrow> fields" where
  "str_part m k = (case get_str m k of Some s \<Rightarrow> if s \<noteq> [] then [(k, JStr s)] else [] | None \<Rightarrow> [])"

definition pos_part :: "gobj \<Rightarrow> string \<Rightarrow> fields" where
  "pos_part m k = (case get_int m k of Some i \<Rightarrow> if 0 < i then [(k, JNum i)] else [] | None \<Rightarrow> [])"

definition int_part :: "gobj \<Rightarrow> string \<Rightarrow> fields" where
  "int_part m k = (case get_int m k of Some i \<Rightarrow> [(k, JNum i)] | None \<Rightarrow> [])"

definition bool_part :: "gobj \<Rightarrow> string \<Rightarrow> fields" where
  "bool_part m k = (case get_bool m k of Some b \<Rightarrow> [(k, JBool b)] | None \<Rightarrow> [])"

definition true_part :: "gobj \<Rightarrow> string \<Rightarrow> fields" where
  "true_part m k = (if get_bool m k = Some True then [(k, JBool True)] else [])"

definition any_str_part :: "gobj \<Rightarrow> string \<Rightarrow> fields" where
  "any_str_part m k = (case get_str m k of Some s \<Rightarrow> [(k, JStr s)] | None \<Rightarrow> [])"

definition strs_part :: "gobj \<Rightarrow> string \<Rightarrow> fields" where
  "strs_part m k =
     (case get_strs m k of Some ss \<Rightarrow> if ss \<noteq> [] then [(k, JArr (map JStr ss))] else [] | None \<Rightarrow> [])"

definition str_parts :: "gobj \<Rightarrow> string list \<Rightarrow> fields" where
  "str_parts m ks = concat (map (str_part m) ks)"

section \<open>Credentials, one case per scheme\<close>

definition type_of_scheme :: "string \<Rightarrow> string" where
  "type_of_scheme s =
     (if s = ''ss'' then ''shadowsocks''
      else if s = ''socks'' \<or> s = ''socks5'' then ''socks''
      else s)"

definition server_port :: "'a parsed_jump_scheme \<Rightarrow> int" where
  "server_port n =
     (case get_int (ob n) ''server_port'' of Some sp \<Rightarrow> if 0 < sp then sp else nd_port n
      | None \<Rightarrow> nd_port n)"

definition obfs_part :: "gobj \<Rightarrow> fields" where
  "obfs_part m =
     (case get_map m ''obfs'' of
        None \<Rightarrow> []
      | Some obfs \<Rightarrow>
          (let parts = any_str_part obfs ''type'' @ str_part obfs ''password''
           in if parts \<noteq> [] then [(''obfs'', JObj parts)] else []))"

definition server_ports_part :: "gobj \<Rightarrow> fields" where
  "server_ports_part m =
     (case get_strs m ''server_ports'' of
        None \<Rightarrow> []
      | Some ss \<Rightarrow>
          if ss = [] then []
          else [(''server_ports'',
                 (let ps = normalize_server_ports ss
                  in if ps = [] then JNull else JArr (map JStr ps)))])"

definition extra_headers_part :: "gobj \<Rightarrow> fields" where
  "extra_headers_part m =
     (case get_map m ''extra_headers'' of
        None \<Rightarrow> []
      | Some h \<Rightarrow> if h = [] then [] else [(''extra_headers'', marshal (GMap h))])"

definition credential_fields :: "'a parsed_jump_scheme \<Rightarrow> fields" where
  "credential_fields n =
     (let s = nd_scheme n; m = ob n in
      if s = ''vless'' \<or> s = ''vmess'' then
        [(''uuid'', JStr (nd_uuid n))] @
        (if s = ''vmess'' then str_part m ''security'' @ int_part m ''alter_id'' else [])
      else if s = ''trojan'' then [(''password'', JStr (nd_uuid n))]
      else if s = ''hysteria2'' then
        str_part m ''password'' @ server_ports_part m @ pos_part m ''up_mbps'' @
        pos_part m ''down_mbps'' @ obfs_part m
      else if s = ''ss'' then str_parts m [''method'', ''password'']
      else if s = ''socks'' \<or> s = ''socks5'' then str_parts m [''version'', ''username'', ''password'']
      else if s = ''naive'' then
        str_parts m [''username'', ''password''] @ true_part m ''quic'' @
        (if get_bool m ''quic'' = Some True then str_part m ''quic_congestion_control'' else []) @
        extra_headers_part m
      else if s = ''tuic'' then
        str_parts m [''uuid'', ''password'', ''congestion_control'', ''udp_relay_mode''] @
        true_part m ''zero_rtt_handshake'' @ str_part m ''heartbeat''
      else if s = ''masque'' then
        str_parts m [''private_key'', ''public_key'', ''ip'', ''ipv6'', ''profile'', ''vhttp'',
          ''idle_timeout'', ''keep_alive_period''] @ pos_part m ''mtu''
      else if s = ''anytls'' then
        str_parts m [''password'', ''idle_session_check_interval'', ''idle_session_timeout''] @
        int_part m ''min_idle_session''
      else if s = ''ssh'' then
        str_parts m [''user'', ''password'', ''private_key'', ''private_key_path'',
          ''private_key_passphrase'', ''client_version''] @
        strs_part m ''host_key'' @ strs_part m ''host_key_algorithms''
      else [])"

section \<open>Flow, transport, TLS, detour\<close>

definition outbound_has_transport :: "gobj \<Rightarrow> bool" where
  "outbound_has_transport m =
     (case get_map m ''transport'' of
        None \<Rightarrow> False
      | Some t \<Rightarrow> t \<noteq> [] \<and> (case get_str t ''type'' of Some s \<Rightarrow> s \<noteq> [] | None \<Rightarrow> False))"

definition flow_out :: "'a parsed_jump_scheme \<Rightarrow> string" where
  "flow_out n =
     (let f = (case get_str (ob n) ''flow'' of
                 Some f \<Rightarrow> if f \<noteq> [] then f else nd_flow n | None \<Rightarrow> nd_flow n);
          f = (if f \<noteq> [] \<and> outbound_has_transport (ob n) then [] else f)
      in if f \<noteq> [] \<and> f \<noteq> ''xtls-rprx-vision'' then [] else f)"

definition flow_part :: "'a parsed_jump_scheme \<Rightarrow> fields" where
  "flow_part n = (if flow_out n \<noteq> [] then [(''flow'', JStr (flow_out n))] else [])"

definition packet_encoding_part :: "'a parsed_jump_scheme \<Rightarrow> fields" where
  "packet_encoding_part n =
     (if nd_scheme n = ''vless'' then str_part (ob n) ''packet_encoding'' else [])"

definition xhttp_v2_string_keys :: "string list" where
  "xhttp_v2_string_keys =
     [''session_placement'', ''session_key'', ''seq_placement'', ''seq_key'',
      ''uplink_data_placement'', ''uplink_data_key'', ''uplink_chunk_size'',
      ''uplink_http_method'', ''x_padding_key'', ''x_padding_header'', ''x_padding_placement'',
      ''x_padding_method'', ''sc_max_each_post_bytes'', ''sc_min_posts_interval_ms'']"

definition transport_int :: "gval option \<Rightarrow> int" where
  "transport_int v = (case v of Some (GInt i) \<Rightarrow> i | Some (GFloat i) \<Rightarrow> i | _ \<Rightarrow> 0)"

definition early_data_part :: "gobj \<Rightarrow> fields" where
  "early_data_part t =
     (let i = transport_int (map_of t ''max_early_data'')
      in if 0 < i then [(''max_early_data'', JNum i)] else [])"

definition host_part :: "gobj \<Rightarrow> fields" where
  "host_part t =
     (case map_of t ''host'' of
        Some (GStr s) \<Rightarrow> if s \<noteq> [] then [(''host'', JStr s)] else []
      | Some (GStrs ss) \<Rightarrow> if ss \<noteq> [] then [(''host'', JArr (map JStr ss))] else []
      | _ \<Rightarrow> [])"

definition headers_part :: "gobj \<Rightarrow> fields" where
  "headers_part t =
     (case map_of t ''headers'' of
        Some (GStrMap h) \<Rightarrow> if h \<noteq> [] then [(''headers'', marshal (GStrMap h))] else []
      | Some (GMap h) \<Rightarrow> if h \<noteq> [] then [(''headers'', marshal (GMap h))] else []
      | _ \<Rightarrow> [])"

definition transport_fields :: "gobj \<Rightarrow> fields" where
  "transport_fields t =
     str_parts t [''type'', ''path''] @ early_data_part t @
     str_part t ''early_data_header_name'' @ host_part t @
     str_parts t [''service_name'', ''mode'', ''x_padding_bytes''] @ true_part t ''no_grpc_header'' @
     str_parts t xhttp_v2_string_keys @ true_part t ''x_padding_obfs_mode'' @ headers_part t"

definition transport_part :: "gobj \<Rightarrow> fields" where
  "transport_part m =
     (case get_map m ''transport'' of
        None \<Rightarrow> []
      | Some t \<Rightarrow>
          if t = [] \<or> transport_fields t = [] then []
          else [(''transport'', JObj (transport_fields t))])"

definition fingerprint_part :: "gobj \<Rightarrow> fields" where
  "fingerprint_part u =
     (case get_str u ''fingerprint'' of
        None \<Rightarrow> []
      | Some fp \<Rightarrow>
          (let f = normalize_utls_fingerprint fp
           in if f \<noteq> [] then [(''fingerprint'', JStr f)] else []))"

definition utls_part :: "gobj \<Rightarrow> fields" where
  "utls_part t =
     (case get_map t ''utls'' of
        None \<Rightarrow> []
      | Some u \<Rightarrow> [(''utls'', JObj (bool_part u ''enabled'' @ fingerprint_part u))])"

definition reality_part :: "gobj \<Rightarrow> fields" where
  "reality_part t =
     (case get_map t ''reality'' of
        None \<Rightarrow> []
      | Some r \<Rightarrow>
          [(''reality'', JObj (bool_part r ''enabled'' @ any_str_part r ''public_key'' @
             any_str_part r ''short_id''))])"

definition tls_fields :: "gobj \<Rightarrow> fields" where
  "tls_fields t =
     bool_part t ''enabled'' @ str_part t ''server_name'' @ strs_part t ''alpn'' @
     utls_part t @ true_part t ''insecure'' @ reality_part t"

definition tls_part :: "gobj \<Rightarrow> fields" where
  "tls_part m =
     (case get_map m ''tls'' of
        None \<Rightarrow> []
      | Some t \<Rightarrow> if get_bool t ''enabled'' = Some False then [] else [(''tls'', JObj (tls_fields t))])"

definition detour_part :: "gobj \<Rightarrow> fields" where
  "detour_part m =
     (case get_str m ''detour'' of
        None \<Rightarrow> []
      | Some d \<Rightarrow> if trim_space d \<noteq> [] then [(''detour'', JStr (trim_space d))] else [])"

definition plain_fields :: "parsed_node \<Rightarrow> fields" where
  "plain_fields n =
     [(''tag'', JStr (nd_tag n)), (''type'', JStr (type_of_scheme (nd_scheme n))),
      (''server'', JStr (nd_server n)), (''server_port'', JNum (server_port n))] @
     credential_fields n @ flow_part n @ packet_encoding_part n @ transport_part (ob n) @
     tls_part (ob n) @ detour_part (ob n)"

section \<open>Groups, raw nodes, endpoints\<close>

datatype emit_error = NoOutboundData | NoType | NoMembers | NotWireguard | ChainHop string emit_error

record emitted =
  em_comment :: "string option"
  em_fields :: fields

definition group_member_tags :: "parsed_node \<Rightarrow> string list" where
  "group_member_tags n =
     (case map_of (ob n) group_members_key of
        Some (GList xs) \<Rightarrow>
          List.map_filter (\<lambda>v. case v of GStr s \<Rightarrow> if trim_space s \<noteq> [] then Some s else None | _ \<Rightarrow> None) xs
      | Some (GStrs ss) \<Rightarrow> ss
      | _ \<Rightarrow> [])"

text \<open>The remaining keys, sorted; an outbound map is a sorted list already.\<close>

definition extra_fields :: "gobj \<Rightarrow> string list \<Rightarrow> fields" where
  "extra_fields m skip = map (\<lambda>p. (fst p, marshal (snd p))) (filter (\<lambda>p. fst p \<notin> set skip) m)"

definition comment_or_none :: "string \<Rightarrow> string option" where
  "comment_or_none s =
     (let c = sanitize_outbound_line_comment s in if c = [] then None else Some c)"

definition trimmed_type :: "gobj \<Rightarrow> string" where
  "trimmed_type m = (case get_str m ''type'' of None \<Rightarrow> [] | Some s \<Rightarrow> trim_space s)"

definition generate_group_node_json :: "parsed_node \<Rightarrow> emit_error + emitted" where
  "generate_group_node_json n =
     (case nd_outbound n of
        None \<Rightarrow> Inl NoOutboundData
      | Some m \<Rightarrow>
          if trimmed_type m = [] then Inl NoType
          else if group_member_tags n = [] then Inl NoMembers
          else Inr \<lparr>em_comment = comment_or_none (nd_label n),
                 em_fields =
                   [(''tag'', JStr (nd_tag n)), (''type'', JStr (trimmed_type m)),
                    (''outbounds'', JArr (map JStr (group_member_tags n)))] @
                   extra_fields m [''tag'', ''type'', group_members_key]\<rparr>)"

definition generate_raw_node_json :: "parsed_node \<Rightarrow> emit_error + emitted" where
  "generate_raw_node_json n =
     (case nd_outbound n of
        None \<Rightarrow> Inl NoOutboundData
      | Some m \<Rightarrow>
          if trimmed_type m = [] then Inl NoType
          else Inr \<lparr>em_comment = comment_or_none (nd_label n),
                 em_fields = [(''tag'', JStr (nd_tag n)), (''type'', JStr (trimmed_type m))] @
                   extra_fields m [''tag'', ''type'']\<rparr>)"

definition generate_node_json :: "parsed_node \<Rightarrow> emit_error + emitted" where
  "generate_node_json n =
     (if nd_scheme n = scheme_group then generate_group_node_json n
      else if nd_emit_raw n then generate_raw_node_json n
      else Inr \<lparr>em_comment = Some (sanitize_outbound_line_comment (nd_label n)),
             em_fields = plain_fields n\<rparr>)"

definition generate_endpoint_json :: "parsed_node \<Rightarrow> emit_error + emitted" where
  "generate_endpoint_json n =
     (case nd_outbound n of
        None \<Rightarrow> Inl NotWireguard
      | Some m \<Rightarrow>
          if nd_scheme n \<noteq> ''wireguard'' then Inl NotWireguard
          else Inr \<lparr>em_comment =
                   (if nd_comment n \<noteq> [] then Some (sanitize_outbound_line_comment (nd_comment n)) else None),
                 em_fields =
                   extra_fields (if nd_tag n \<noteq> [] then sput ''tag'' (GStr (nd_tag n)) m else m) []\<rparr>)"

text \<open>The text of an outbound fragment and of an endpoint.\<close>

definition emitted_text :: "emitted \<Rightarrow> string" where
  "emitted_text e =
     (case em_comment e of None \<Rightarrow> [] | Some c \<Rightarrow> CHR 0x09 # ''// '' @ c @ [CHR 0x0A]) @
     CHR 0x09 # json_text (JObj (em_fields e)) @ '',''"

definition endpoint_text :: "emitted \<Rightarrow> string" where
  "endpoint_text e =
     (case em_comment e of None \<Rightarrow> [] | Some c \<Rightarrow> ''// '' @ c @ [CHR 0x0A]) @
     json_indent 0 (JObj (em_fields e))"

fun emit_hops :: "parsed_node list \<Rightarrow> emit_error + emitted list" where
  "emit_hops [] = Inr []"
| "emit_hops (h # hs) =
     (case generate_node_json h of
        Inl e \<Rightarrow> Inl (ChainHop (nd_tag h) e)
      | Inr x \<Rightarrow> (case emit_hops hs of Inl e \<Rightarrow> Inl e | Inr xs \<Rightarrow> Inr (x # xs)))"

definition emit_node_jsons :: "parsed_node \<Rightarrow> emit_error + emitted list \<times> emitted option" where
  "emit_node_jsons n =
     (if nd_scheme n = ''wireguard'' then
        (case generate_endpoint_json n of Inl e \<Rightarrow> Inl e | Inr ep \<Rightarrow> Inr ([], Some ep))
      else
        (let chain = chain_of_node n in
         case emit_hops chain of
           Inl e \<Rightarrow> Inl e
         | Inr hops \<Rightarrow>
             (let main = (case chain of
                            [] \<Rightarrow> n
                          | h # _ \<Rightarrow> n\<lparr>nd_outbound := Some (sput ''detour'' (GStr (nd_tag h)) (ob n))\<rparr>)
              in case generate_node_json main of
                   Inl e \<Rightarrow> Inl e
                 | Inr x \<Rightarrow> Inr (hops @ [x], None))))"

named_theorems part_keys

lemma str_part_keys [part_keys]: "subseq (map fst (str_part m k)) [k]"
  by (auto simp: str_part_def split: option.splits)
lemma pos_part_keys [part_keys]: "subseq (map fst (pos_part m k)) [k]"
  by (auto simp: pos_part_def split: option.splits)
lemma int_part_keys [part_keys]: "subseq (map fst (int_part m k)) [k]"
  by (auto simp: int_part_def split: option.splits)
lemma bool_part_keys [part_keys]: "subseq (map fst (bool_part m k)) [k]"
  by (auto simp: bool_part_def split: option.splits)
lemma true_part_keys [part_keys]: "subseq (map fst (true_part m k)) [k]"
  by (auto simp: true_part_def)
lemma any_str_part_keys [part_keys]: "subseq (map fst (any_str_part m k)) [k]"
  by (auto simp: any_str_part_def split: option.splits)
lemma strs_part_keys [part_keys]: "subseq (map fst (strs_part m k)) [k]"
  by (auto simp: strs_part_def split: option.splits)

lemma str_parts_keys [part_keys]: "subseq (map fst (str_parts m ks)) ks"
proof (induction ks)
  case (Cons k ks)
  have "subseq (map fst (str_part m k) @ map fst (str_parts m ks)) ([k] @ ks)"
    by (intro list_emb_append_mono str_part_keys Cons)
  then show ?case by (simp add: str_parts_def)
qed (simp add: str_parts_def)

lemma special_part_keys [part_keys]:
  "subseq (map fst (obfs_part m)) [''obfs'']"
  "subseq (map fst (server_ports_part m)) [''server_ports'']"
  "subseq (map fst (extra_headers_part m)) [''extra_headers'']"
  "subseq (map fst (flow_part n)) [''flow'']"
  "subseq (map fst (packet_encoding_part n)) [''packet_encoding'']"
  "subseq (map fst (early_data_part m)) [''max_early_data'']"
  "subseq (map fst (host_part m)) [''host'']"
  "subseq (map fst (headers_part m)) [''headers'']"
  "subseq (map fst (transport_part m)) [''transport'']"
  "subseq (map fst (fingerprint_part m)) [''fingerprint'']"
  "subseq (map fst (utls_part m)) [''utls'']"
  "subseq (map fst (reality_part m)) [''reality'']"
  "subseq (map fst (tls_part m)) [''tls'']"
  "subseq (map fst (detour_part m)) [''detour'']"
  by (auto simp: obfs_part_def server_ports_part_def extra_headers_part_def flow_part_def
      packet_encoding_part_def early_data_part_def host_part_def headers_part_def
      transport_part_def fingerprint_part_def utls_part_def reality_part_def tls_part_def
      detour_part_def Let_def str_part_def split: option.splits gval.splits)

lemma keys_one:
  assumes "subseq (map fst xs) [k]" "subseq (map fst ys) ks"
  shows "subseq (map fst (xs @ ys)) (k # ks)"
  using list_emb_append_mono[OF assms] by simp

lemma keys_literal: "subseq (map fst ys) ks \<Longrightarrow> subseq (map fst ((k, v) # ys)) (k # ks)"
  by simp

lemma keys_empty: "subseq (map fst []) ks"
  by simp

lemma keys_cond: "subseq (map fst xs) ks \<Longrightarrow> subseq (map fst (if b then xs else [])) ks"
  by simp

lemma if_keys:
  "(b \<Longrightarrow> subseq (map fst xs) ks) \<Longrightarrow> (\<not> b \<Longrightarrow> subseq (map fst ys) ls) \<Longrightarrow>
   subseq (map fst (if b then xs else ys)) (if b then ks else ls)"
  by simp

lemma keys_append:
  "subseq (map fst xs) ks \<Longrightarrow> subseq (map fst ys) ls \<Longrightarrow> subseq (map fst (xs @ ys)) (ks @ ls)"
  by (simp add: list_emb_append_mono)

lemma str_parts_simps: "str_parts m [] = []" "str_parts m (k # ks) = str_part m k @ str_parts m ks"
  by (simp_all add: str_parts_def)

lemmas keys_intros = keys_one keys_literal keys_cond part_keys keys_empty

text \<open>The order in which the fields of a scheme are written.\<close>

definition credential_keys :: "string \<Rightarrow> string list" where
  "credential_keys s =
     (if s = ''vless'' \<or> s = ''vmess'' then
        ''uuid'' # (if s = ''vmess'' then [''security'', ''alter_id''] else [])
      else if s = ''trojan'' then [''password'']
      else if s = ''hysteria2'' then [''password'', ''server_ports'', ''up_mbps'', ''down_mbps'', ''obfs'']
      else if s = ''ss'' then [''method'', ''password'']
      else if s = ''socks'' \<or> s = ''socks5'' then [''version'', ''username'', ''password'']
      else if s = ''naive'' then
        [''username'', ''password'', ''quic'', ''quic_congestion_control'', ''extra_headers'']
      else if s = ''tuic'' then
        [''uuid'', ''password'', ''congestion_control'', ''udp_relay_mode'', ''zero_rtt_handshake'',
         ''heartbeat'']
      else if s = ''masque'' then
        [''private_key'', ''public_key'', ''ip'', ''ipv6'', ''profile'', ''vhttp'',
         ''idle_timeout'', ''keep_alive_period'', ''mtu'']
      else if s = ''anytls'' then
        [''password'', ''idle_session_check_interval'', ''idle_session_timeout'', ''min_idle_session'']
      else if s = ''ssh'' then
        [''user'', ''password'', ''private_key'', ''private_key_path'', ''private_key_passphrase'',
         ''client_version'', ''host_key'', ''host_key_algorithms'']
      else [])"

definition field_order :: "string \<Rightarrow> string list" where
  "field_order s =
     [''tag'', ''type'', ''server'', ''server_port''] @ credential_keys s @
     [''flow'', ''packet_encoding'', ''transport'', ''tls'', ''detour'']"

lemma credential_fields_keys: "subseq (map fst (credential_fields n)) (credential_keys (nd_scheme n))"
  unfolding credential_fields_def credential_keys_def Let_def str_parts_simps append_assoc
    append_Nil append_Cons
  by (intro if_keys keys_intros)

lemma plain_fields_keys: "subseq (map fst (plain_fields n)) (field_order (nd_scheme n))"
  unfolding plain_fields_def field_order_def append_assoc append_Nil append_Cons
  by (intro keys_literal keys_append credential_fields_keys keys_one part_keys)

lemma distinct_field_order: "distinct (field_order s)"
  unfolding field_order_def credential_keys_def by simp

lemma transport_fields_keys:
  "subseq (map fst (transport_fields t))
     ([''type'', ''path'', ''max_early_data'', ''early_data_header_name'', ''host'', ''service_name'',
       ''mode'', ''x_padding_bytes'', ''no_grpc_header''] @ xhttp_v2_string_keys @
      [''x_padding_obfs_mode'', ''headers''])"
  unfolding transport_fields_def append_assoc append_Nil append_Cons str_parts_simps(2)
  unfolding str_parts_simps append_Nil
  by (intro keys_append keys_one part_keys)

lemma tls_fields_keys:
  "subseq (map fst (tls_fields t))
     [''enabled'', ''server_name'', ''alpn'', ''utls'', ''insecure'', ''reality'']"
  unfolding tls_fields_def by (intro keys_one part_keys)


lemma key_in: "subseq (map fst xs) ks \<Longrightarrow> (k, v) \<in> set xs \<Longrightarrow> k \<in> set ks"
  using list_emb_set[of "(=)" "map fst xs" ks k] by force

lemma shared_keys_not_credentials:
  "set (credential_keys s) \<inter> {''flow'', ''packet_encoding'', ''transport'', ''tls'', ''detour''} = {}"
  using distinct_field_order[of s] by (simp only: field_order_def distinct_append list.set HOL.simp_thms)

lemma credential_fields_not_shared:
  "k \<in> {''flow'', ''transport'', ''tls'', ''detour''} \<Longrightarrow> (k, v) \<notin> set (credential_fields n)"
  using key_in[OF credential_fields_keys, of k v n] shared_keys_not_credentials[of "nd_scheme n"]
  by blast

lemma part_only:
  "subseq (map fst xs) [k] \<Longrightarrow> k' \<noteq> k \<Longrightarrow> (k', v) \<notin> set xs"
  by (auto dest: key_in)

lemmas part_other = part_keys[THEN part_only]

lemma plain_fields_mem:
  "(''flow'', v) \<in> set (plain_fields n) \<longleftrightarrow> (''flow'', v) \<in> set (flow_part n)"
  "(''transport'', v) \<in> set (plain_fields n) \<longleftrightarrow> (''transport'', v) \<in> set (transport_part (ob n))"
  "(''tls'', v) \<in> set (plain_fields n) \<longleftrightarrow> (''tls'', v) \<in> set (tls_part (ob n))"
  "(''detour'', v) \<in> set (plain_fields n) \<longleftrightarrow> (''detour'', v) \<in> set (detour_part (ob n))"
  by (simp_all add: plain_fields_def credential_fields_not_shared part_other)

lemma tls_fields_mem:
  "(''enabled'', v) \<in> set (tls_fields t) \<longleftrightarrow> (''enabled'', v) \<in> set (bool_part t ''enabled'')"
  "(''utls'', v) \<in> set (tls_fields t) \<longleftrightarrow> (''utls'', v) \<in> set (utls_part t)"
  by (simp_all add: tls_fields_def part_other)

lemma str_parts_other: "k \<notin> set ks \<Longrightarrow> (k, v) \<notin> set (str_parts m ks)"
  using key_in[OF str_parts_keys] by blast

lemma str_part_mem:
  "(k', v) \<in> set (str_part m k) \<longleftrightarrow> k' = k \<and> (\<exists>s. get_str m k = Some s \<and> s \<noteq> [] \<and> v = JStr s)"
  by (cases "get_str m k") (auto simp: str_part_def)

lemma transport_type_mem:
  "(''type'', v) \<in> set (transport_fields t) \<longleftrightarrow> (''type'', v) \<in> set (str_part t ''type'')"
  by (simp add: transport_fields_def str_parts_simps(2)[of t "''type''"] str_parts_other part_other
      xhttp_v2_string_keys_def)

lemma distinct_subseq: "subseq xs ys \<Longrightarrow> distinct ys \<Longrightarrow> distinct xs"
  by (induction rule: list_emb.induct) (auto dest: list_emb_set)

lemma distinct_plain_keys: "distinct (map fst (plain_fields n))"
  by (rule distinct_subseq[OF plain_fields_keys distinct_field_order])

lemma normalized_fingerprint_known:
  "normalize_utls_fingerprint fp \<noteq> [] \<Longrightarrow> normalize_utls_fingerprint fp \<in> set singbox_utls_fingerprints"
proof -
  have al: "a \<in> set utls_alias_prefixes \<Longrightarrow> snd a \<in> set singbox_utls_fingerprints" for a
    by (auto simp: utls_alias_prefixes_def singbox_utls_fingerprints_def)
  have fnd: "List.find P xs = Some a \<Longrightarrow> a \<in> set xs" for P and a :: "string \<times> string" and xs
    by (auto simp: find_Some_iff)
  show "normalize_utls_fingerprint fp \<noteq> [] \<Longrightarrow> normalize_utls_fingerprint fp \<in> set singbox_utls_fingerprints"
    by (auto simp: normalize_utls_fingerprint_def Let_def split: option.splits if_splits
        dest!: fnd al)
qed

definition vision_flow :: string where "vision_flow = ''xtls-rprx-vision''"

definition flow_ok :: "fields \<Rightarrow> bool" where
  "flow_ok fs =
     (case map_of fs ''flow'' of
        None \<Rightarrow> True
      | Some v \<Rightarrow> v = JStr vision_flow \<and>
          (case map_of fs ''transport'' of Some (JObj t) \<Rightarrow> map_of t ''type'' = None | _ \<Rightarrow> True))"

definition fingerprint_ok :: "fields \<Rightarrow> bool" where
  "fingerprint_ok u =
     (case map_of u ''fingerprint'' of
        Some f \<Rightarrow> f \<in> set (map JStr singbox_utls_fingerprints) | None \<Rightarrow> True)"

definition tls_block_ok :: "fields \<Rightarrow> bool" where
  "tls_block_ok t \<longleftrightarrow>
     distinct (map fst t) \<and> map_of t ''enabled'' \<noteq> Some (JBool False) \<and>
     (case map_of t ''utls'' of Some (JObj u) \<Rightarrow> fingerprint_ok u | _ \<Rightarrow> True)"

definition tls_ok :: "fields \<Rightarrow> bool" where
  "tls_ok fs = (case map_of fs ''tls'' of Some (JObj t) \<Rightarrow> tls_block_ok t | _ \<Rightarrow> True)"

definition core_accepts :: "fields \<Rightarrow> bool" where
  "core_accepts fs \<longleftrightarrow> distinct (map fst fs) \<and> flow_ok fs \<and> tls_ok fs"

lemma plain_lookup:
  "map_of (plain_fields n) ''flow'' = Some v \<Longrightarrow> (''flow'', v) \<in> set (flow_part n)"
  "map_of (plain_fields n) ''transport'' = Some v \<Longrightarrow> (''transport'', v) \<in> set (transport_part (ob n))"
  "map_of (plain_fields n) ''tls'' = Some v \<Longrightarrow> (''tls'', v) \<in> set (tls_part (ob n))"
  by (auto dest!: map_of_SomeD simp: plain_fields_mem)

lemma flow_out_values: "flow_out n \<in> {[], vision_flow}"
  by (auto simp: flow_out_def vision_flow_def Let_def)

lemma flow_out_transport: "flow_out n \<noteq> [] \<Longrightarrow> \<not> outbound_has_transport (ob n)"
  by (auto simp: flow_out_def Let_def split: if_splits)

lemma plain_flow_ok: "flow_ok (plain_fields n)"
proof (cases "map_of (plain_fields n) ''flow''")
  case (Some v)
  then have v: "flow_out n \<noteq> []" "v = JStr (flow_out n)"
    using plain_lookup(1) by (auto simp: flow_part_def split: if_splits)
  have no_type: "map_of t ''type'' = None"
    if tr: "map_of (plain_fields n) ''transport'' = Some (JObj t)" for t
  proof (rule ccontr)
    assume "map_of t ''type'' \<noteq> None"
    then obtain w where "(''type'', w) \<in> set t" by (metis map_of_SomeD not_None_eq)
    moreover obtain m where "get_map (ob n) ''transport'' = Some m" "m \<noteq> []" "t = transport_fields m"
      using plain_lookup(2)[OF tr] by (cases "get_map (ob n) ''transport''") (auto simp: transport_part_def split: if_splits)
    ultimately have "outbound_has_transport (ob n)"
      by (auto simp: transport_type_mem outbound_has_transport_def str_part_mem)
    with flow_out_transport[OF v(1)] show False by simp
  qed
  from v flow_out_values[of n] have "v = JStr vision_flow" by auto
  with Some no_type show ?thesis by (auto simp: flow_ok_def split: option.splits json.splits)
qed (simp add: flow_ok_def)

lemma fingerprint_part_ok: "fingerprint_ok (bool_part u ''enabled'' @ fingerprint_part u)"
proof (cases "map_of (bool_part u ''enabled'' @ fingerprint_part u) ''fingerprint''")
  case (Some f)
  then have "(''fingerprint'', f) \<in> set (fingerprint_part u)"
    by (auto dest!: map_of_SomeD simp: part_other)
  then have "f \<in> set (map JStr singbox_utls_fingerprints)"
    using normalized_fingerprint_known
    by (cases "get_str u ''fingerprint''") (auto simp: fingerprint_part_def Let_def split: if_splits)
  with Some show ?thesis unfolding fingerprint_ok_def by (simp only: option.case)
qed (simp only: fingerprint_ok_def option.case)

lemma tls_fields_ok:
  assumes "get_bool t ''enabled'' \<noteq> Some False"
  shows "tls_block_ok (tls_fields t)"
proof -
  have "distinct (map fst (tls_fields t))"
    using tls_fields_keys by (rule distinct_subseq) simp
  moreover have "map_of (tls_fields t) ''enabled'' \<noteq> Some (JBool False)"
    using assms by (auto dest!: map_of_SomeD simp: tls_fields_mem bool_part_def split: option.splits)
  moreover have "fingerprint_ok u" if ut: "map_of (tls_fields t) ''utls'' = Some (JObj u)" for u
    using map_of_SomeD[OF ut] fingerprint_part_ok
    by (cases "get_map t ''utls''") (auto simp: tls_fields_mem utls_part_def)
  ultimately show ?thesis by (simp add: tls_block_ok_def split: option.split json.split)
qed

lemma plain_tls_ok: "tls_ok (plain_fields n)"
proof -
  have "tls_block_ok t" if tl: "map_of (plain_fields n) ''tls'' = Some (JObj t)" for t
    using plain_lookup(3)[OF tl] tls_fields_ok
    by (cases "get_map (ob n) ''tls''") (auto simp: tls_part_def split: if_splits)
  then show ?thesis by (simp add: tls_ok_def split: option.split json.split)
qed

text \<open>
  C25. Whatever a subscription or a share link put into a node that is neither a group nor marked to
  be emitted raw, an outbound is emitted for it and keeps what the launcher is responsible for:
  no field comes twice and the fields are in the order of the scheme, \<open>flow\<close> is there only with
  its one value and never together with a typed transport, there is no disabled TLS block, and a
  uTLS fingerprint is there only when the core knows it. (That \<open>flow\<close> needs TLS is not checked
  by the emitter.)
\<close>

theorem emitted_node_accepted:
  assumes "nd_scheme n \<noteq> scheme_group" "\<not> nd_emit_raw n"
  shows "\<exists>e. generate_node_json n = Inr e \<and> core_accepts (em_fields e) \<and>
    subseq (map fst (em_fields e)) (field_order (nd_scheme n))"
  using assms distinct_plain_keys plain_flow_ok plain_tls_ok plain_fields_keys
  by (simp add: generate_node_json_def core_accepts_def)

definition sample_vless :: parsed_node where
  "sample_vless =
     \<lparr>nd_tag = ''a'', nd_scheme = ''vless'', nd_server = ''h'', nd_port = 443, nd_uuid = ''u'',
      nd_flow = ''xtls-rprx-vision'',
      nd_outbound = Some [(''tls'', GMap [(''enabled'', GBool True),
          (''utls'', GMap [(''enabled'', GBool True), (''fingerprint'', GStr ''HelloChrome_120'')])])],
      nd_label = ''a'', nd_comment = [], nd_jump = None, nd_source_tag = [], nd_chain = [],
      nd_source_index = 0, nd_emit_raw = False\<rparr>"

theorem emitted_node_accepted_witness:
  "(\<exists>e. generate_node_json sample_vless = Inr e \<and> core_accepts (em_fields e) \<and>
      subseq (map fst (em_fields e)) (field_order ''vless'')) \<and>
   map_of (plain_fields sample_vless) ''flow'' = Some (JStr ''xtls-rprx-vision'') \<and>
   map_of (plain_fields sample_vless) ''tls'' = Some (JObj [(''enabled'', JBool True),
     (''utls'', JObj [(''enabled'', JBool True), (''fingerprint'', JStr ''chrome'')])])"
proof -
  have s: "nd_scheme sample_vless = ''vless''" "\<not> nd_emit_raw sample_vless"
    by (simp_all add: sample_vless_def)
  have g: "nd_scheme sample_vless \<noteq> scheme_group" by (simp add: s scheme_group_def)
  have f: "map_of (plain_fields sample_vless) ''flow'' = Some (JStr ''xtls-rprx-vision'') \<and>
   map_of (plain_fields sample_vless) ''tls'' = Some (JObj [(''enabled'', JBool True),
     (''utls'', JObj [(''enabled'', JBool True), (''fingerprint'', JStr ''chrome'')])])"
    by code_simp
  show ?thesis using emitted_node_accepted[OF g s(2)] f by (simp add: s)
qed

section \<open>Chains\<close>

lemma map_of_extra_fields:
  "k \<notin> set skip \<Longrightarrow> map_of (extra_fields m skip) k = map_option marshal (map_of m k)"
  by (induction m) (auto simp: extra_fields_def)

lemma extra_fields_skip: "k \<in> set skip \<Longrightarrow> map_of (extra_fields m skip) k = None"
  by (induction m) (auto simp: extra_fields_def)

lemma plain_detour:
  "map_of (plain_fields n) ''detour'' = map_of (detour_part (ob n)) ''detour''"
proof -
  have iff: "map_of (plain_fields n) ''detour'' = Some v \<longleftrightarrow> map_of (detour_part (ob n)) ''detour'' = Some v" for v
  proof -
    have d: "distinct (map fst (detour_part (ob n)))"
      using special_part_keys(14) by (rule distinct_subseq) simp
    show ?thesis
      by (simp only: map_of_eq_Some_iff[OF distinct_plain_keys] map_of_eq_Some_iff[OF d] plain_fields_mem(4))
  qed
  show ?thesis by (metis not_Some_eq iff)
qed

lemma generated_tag:
  "generate_node_json n = Inr e \<Longrightarrow> map_of (em_fields e) ''tag'' = Some (JStr (nd_tag n))"
  by (auto simp: generate_node_json_def generate_group_node_json_def generate_raw_node_json_def
      plain_fields_def split: option.splits if_splits)

lemma generated_detour:
  assumes "generate_node_json n = Inr e" "get_str (ob n) ''detour'' = Some d" "trim_space d = d" "d \<noteq> []"
  shows "map_of (em_fields e) ''detour'' = Some (JStr d)"
proof -
  have m: "map_of (ob n) ''detour'' = Some (GStr d)"
    using assms(2) by (auto simp: get_str_def split: option.splits gval.splits)
  have p: "map_of (plain_fields n) ''detour'' = Some (JStr d)"
    using assms by (simp add: plain_detour detour_part_def)
  have x: "map_of (extra_fields (ob n) skip) ''detour'' = Some (JStr d)" if "''detour'' \<notin> set skip" for skip
    using m that by (simp add: map_of_extra_fields)
  show ?thesis
    using assms(1) p x m
    by (auto simp: generate_node_json_def generate_group_node_json_def generate_raw_node_json_def
        ob_def group_members_key_def split: option.splits if_splits)
qed

lemma emit_hops_Inr:
  "emit_hops hs = Inr xs \<Longrightarrow> list_all2 (\<lambda>h x. generate_node_json h = Inr x) hs xs"
  by (induction hs arbitrary: xs) (auto split: sum.splits)

text \<open>A WireGuard node is emitted as an endpoint; its chain is not looked at.\<close>

lemma emit_wireguard:
  assumes "nd_scheme n = ''wireguard''" "emit_node_jsons n = Inr (outs, ep)"
  shows "outs = [] \<and> (\<exists>e. ep = Some e \<and> generate_endpoint_json n = Inr e)"
  using assms by (auto simp: emit_node_jsons_def split: sum.splits)

text \<open>
  C27. A node behind a detour chain is never emitted dialling directly: when it is emitted at all,
  so is every hop, before it and in order, under the hop's own tag, and the node's outbound
  carries the tag of the nearest hop as its detour, whatever detour its own map held. The
  text of the detour is trimmed, so the hop's tag must not be empty nor begin or end with a space.
  WireGuard nodes are the exception: of such a node only the endpoint is emitted, as if it had no
  chain, and none of its hops.
\<close>

theorem chained_node_dials_through_hops:
  assumes "chain_of_node n = h # hs"
    and "trim_space (nd_tag h) = nd_tag h" "nd_tag h \<noteq> []"
    and "emit_node_jsons n = Inr (outs, ep)"
  shows "if nd_scheme n = ''wireguard''
    then outs = [] \<and> (\<exists>e. ep = Some e \<and> generate_endpoint_json n = Inr e \<and>
      emit_node_jsons (n\<lparr>nd_chain := [], nd_jump := None\<rparr>) = Inr (outs, ep))
    else ep = None \<and>
      map (\<lambda>e. map_of (em_fields e) ''tag'') outs = map (\<lambda>k. Some (JStr (nd_tag k))) (h # hs) @ [Some (JStr (nd_tag n))] \<and>
      map_of (em_fields (last outs)) ''detour'' = Some (JStr (nd_tag h))"
proof (cases "nd_scheme n = ''wireguard''")
  case True
  have "generate_endpoint_json (n\<lparr>nd_chain := [], nd_jump := None\<rparr>) = generate_endpoint_json n"
    by (simp add: generate_endpoint_json_def split: option.split)
  then have "emit_node_jsons (n\<lparr>nd_chain := [], nd_jump := None\<rparr>) = emit_node_jsons n"
    using True by (simp add: emit_node_jsons_def)
  with emit_wireguard[OF True assms(4)] True assms(4) show ?thesis by simp
next
  case False
  define main where "main = n\<lparr>nd_outbound := Some (sput ''detour'' (GStr (nd_tag h)) (ob n))\<rparr>"
  from assms False obtain xs x where xs: "emit_hops (h # hs) = Inr xs" and x: "generate_node_json main = Inr x"
    and outs: "outs = xs @ [x]" "ep = None"
    by (auto simp: emit_node_jsons_def Let_def main_def simp del: emit_hops.simps split: sum.splits)
  have "map (\<lambda>e. map_of (em_fields e) ''tag'') xs = map (\<lambda>k. Some (JStr (nd_tag k))) (h # hs)"
    using emit_hops_Inr[OF xs] by (induction rule: list_all2_induct) (auto dest: generated_tag)
  moreover have "map_of (em_fields x) ''tag'' = Some (JStr (nd_tag n))"
    using generated_tag[OF x] by (simp add: main_def)
  moreover have "map_of (em_fields x) ''detour'' = Some (JStr (nd_tag h))"
    using x assms(2,3) by (intro generated_detour[OF x]) (auto simp: main_def ob_def get_str_def)
  ultimately show ?thesis using False by (simp add: outs)
qed

definition sample_hop :: parsed_jump where
  "sample_hop = \<lparr>nd_tag = ''hop'', nd_scheme = [], nd_server = ''s'', nd_port = 1080, nd_uuid = [],
     nd_flow = [], nd_outbound = None\<rparr>"

theorem chained_node_dials_through_hops_witness:
  "\<exists>outs. emit_node_jsons (sample_vless\<lparr>nd_chain := [sample_hop]\<rparr>) = Inr (outs, None) \<and>
     map (\<lambda>e. map_of (em_fields e) ''tag'') outs = [Some (JStr ''hop''), Some (JStr ''a'')] \<and>
     map_of (em_fields (last outs)) ''detour'' = Some (JStr ''hop'')"
proof -
  let ?n = "sample_vless\<lparr>nd_chain := [sample_hop]\<rparr>"
  have ok: "(case emit_node_jsons ?n of Inl _ \<Rightarrow> False | Inr _ \<Rightarrow> True)" by code_simp
  then obtain outs ep where e: "emit_node_jsons ?n = Inr (outs, ep)"
    by (auto split: sum.splits)
  have c: "chain_of_node ?n = [normalize_chain_hop sample_hop ?n]"
    by (simp add: chain_of_node_def)
  have t: "nd_tag (normalize_chain_hop sample_hop ?n) = ''hop''"
    by (simp add: normalize_chain_hop_def sample_hop_def Let_def)
  have s: "nd_scheme ?n \<noteq> ''wireguard''" "nd_tag ?n = ''a''" by (simp_all add: sample_vless_def)
  have "trim_space ''hop'' = ''hop''" by code_simp
  then have "trim_space (nd_tag (normalize_chain_hop sample_hop ?n)) = nd_tag (normalize_chain_hop sample_hop ?n)"
    "nd_tag (normalize_chain_hop sample_hop ?n) \<noteq> []" by (simp_all add: t)
  from chained_node_dials_through_hops[OF c this e] e s show ?thesis
    by (simp add: t)
qed

section \<open>Identity, \<open>node_hash.go\<close>\<close>

text \<open>
  \<open>unmarshal\<close> decodes a JSON object into its fields in text order, or fails; \<open>sha\<close> is the
  hexadecimal SHA-256.
\<close>

definition trim_suffix :: "string \<Rightarrow> string \<Rightarrow> string" where
  "trim_suffix s sfx = (if suffix sfx s then take (length s - length sfx) s else s)"

definition decode_emitted_outbound :: "(string \<Rightarrow> fields option) \<Rightarrow> string \<Rightarrow> fields option" where
  "decode_emitted_outbound unmarshal emitted =
     (let rest = dropWhile (\<lambda>c. c \<noteq> CHR 0x7B) emitted
      in if rest = [] then None else unmarshal (trim_suffix (trim_space rest) '',''))"

fun canonicalize_json_value :: "json \<Rightarrow> json" where
  "canonicalize_json_value (JObj m) =
     JObj (fold (\<lambda>p acc. sput (fst p) (canonicalize_json_value (snd p)) acc) m [])"
| "canonicalize_json_value (JArr xs) = JArr (map canonicalize_json_value xs)"
| "canonicalize_json_value v = v"

definition node_hash_ignored_fields :: "string list" where
  "node_hash_ignored_fields = [''tag'', ''detour'']"

definition node_identity_hash ::
    "(string \<Rightarrow> fields option) \<Rightarrow> (string \<Rightarrow> string) \<Rightarrow> parsed_node \<Rightarrow> string" where
  "node_identity_hash unmarshal sha n =
     (let emitted =
        (if nd_scheme n = ''wireguard''
         then (case generate_endpoint_json n of Inl _ \<Rightarrow> None | Inr e \<Rightarrow> Some (endpoint_text e))
         else (case generate_node_json n of Inl _ \<Rightarrow> None | Inr e \<Rightarrow> Some (emitted_text e)))
      in case emitted of
           None \<Rightarrow> []
         | Some text \<Rightarrow>
             (case decode_emitted_outbound unmarshal text of
                None \<Rightarrow> []
              | Some fs \<Rightarrow>
                  sha (json_text (canonicalize_json_value
                    (JObj (filter (\<lambda>p. fst p \<notin> set node_hash_ignored_fields) fs))))))"

subsection \<open>The text handed to the decoder\<close>

lemma json_text_obj_ends: "\<exists>mid. json_text (JObj fs) = CHR 0x7B # mid @ [CHR 0x7D]"
  by simp

lemma dropWhile_solid: "xs \<noteq> [] \<Longrightarrow> \<not> P (hd xs) \<Longrightarrow> dropWhile P xs = xs"
  by (cases xs) auto

lemma trim_space_solid:
  "s \<noteq> [] \<Longrightarrow> \<not> is_space (hd s) \<Longrightarrow> \<not> is_space (last s) \<Longrightarrow> trim_space s = s"
  by (simp add: trim_space_def dropWhile_solid hd_rev)

lemma trim_suffix_append [simp]: "trim_suffix (s @ sfx) sfx = s"
  by (auto simp: trim_suffix_def suffix_def)

lemma decode_fragment:
  assumes "CHR 0x7B \<notin> set pre"
  shows "decode_emitted_outbound um (pre @ (CHR 0x7B # body) @ '','') = um (CHR 0x7B # body)"
proof -
  have "dropWhile (\<lambda>c. c \<noteq> CHR 0x7B) (pre @ (CHR 0x7B # body) @ '','') = (CHR 0x7B # body) @ '',''"
    using assms by (subst dropWhile_append2) auto
  moreover have "trim_space ((CHR 0x7B # body) @ '','') = (CHR 0x7B # body) @ '',''"
    by (rule trim_space_solid) (simp_all add: is_space_def)
  ultimately show ?thesis
    by (simp only: decode_emitted_outbound_def Let_def trim_suffix_append) simp
qed

lemma decode_bare:
  assumes "CHR 0x7B \<notin> set pre"
  shows "decode_emitted_outbound um (pre @ CHR 0x7B # mid @ [CHR 0x7D]) = um (CHR 0x7B # mid @ [CHR 0x7D])"
proof -
  let ?body = "CHR 0x7B # mid @ [CHR 0x7D]"
  have "dropWhile (\<lambda>c. c \<noteq> CHR 0x7B) (pre @ ?body) = ?body"
    using assms by (subst dropWhile_append2) auto
  moreover have "trim_space ?body = ?body" by (rule trim_space_solid) (simp_all add: is_space_def)
  moreover have "\<not> suffix '','' ?body" using suffix_snoc[of "'',''" "CHR 0x7B # mid" "CHR 0x7D"] by (auto simp: suffix_def)
  ultimately show ?thesis by (simp add: decode_emitted_outbound_def trim_suffix_def del: append_Cons)
qed

definition text_prefix :: "emitted \<Rightarrow> string" where
  "text_prefix e = (case em_comment e of None \<Rightarrow> [] | Some c \<Rightarrow> CHR 0x09 # ''// '' @ c @ [CHR 0x0A]) @ [CHR 0x09]"

lemma decode_emitted_text:
  assumes "\<And>c. em_comment e = Some c \<Longrightarrow> CHR 0x7B \<notin> set c"
  shows "decode_emitted_outbound um (emitted_text e) = um (json_text (JObj (em_fields e)))"
proof -
  obtain mid where mid: "json_text (JObj (em_fields e)) = CHR 0x7B # mid @ [CHR 0x7D]"
    using json_text_obj_ends by blast
  define body where "body = mid @ [CHR 0x7D]"
  have shape: "emitted_text e = text_prefix e @ (CHR 0x7B # body) @ '',''"
    unfolding emitted_text_def mid by (simp add: text_prefix_def body_def)
  have "CHR 0x7B \<notin> set (text_prefix e)"
    using assms by (auto simp: text_prefix_def split: option.splits)
  from decode_fragment[OF this] show ?thesis
    unfolding shape mid body_def[symmetric] .
qed

lemma generated_comment:
  "generate_node_json n = Inr e \<Longrightarrow> em_comment e = Some c \<Longrightarrow> c = sanitize_outbound_line_comment (nd_label n)"
  by (auto simp: generate_node_json_def generate_group_node_json_def generate_raw_node_json_def
      comment_or_none_def Let_def split: option.splits if_splits)

definition identity_fields :: "fields \<Rightarrow> fields" where
  "identity_fields fs = filter (\<lambda>p. fst p \<notin> set node_hash_ignored_fields) fs"

text \<open>
  What the identity reads: the emitted object, the text shown in the comment line before it, and
  the text of the object itself.
\<close>

definition emission :: "parsed_node \<Rightarrow> emit_error + emitted" where
  "emission n = (if nd_scheme n = ''wireguard'' then generate_endpoint_json n else generate_node_json n)"

definition shown_text :: "parsed_node \<Rightarrow> string" where
  "shown_text n = (if nd_scheme n = ''wireguard'' then nd_comment n else nd_label n)"

definition object_text :: "parsed_node \<Rightarrow> emitted \<Rightarrow> string" where
  "object_text n e =
     (if nd_scheme n = ''wireguard'' then json_indent 0 (JObj (em_fields e)) else json_text (JObj (em_fields e)))"

definition fragment_text :: "parsed_node \<Rightarrow> emitted \<Rightarrow> string" where
  "fragment_text n e = (if nd_scheme n = ''wireguard'' then endpoint_text e else emitted_text e)"

lemma node_identity_hash_emission:
  "node_identity_hash um sha n =
     (case emission n of
        Inl _ \<Rightarrow> []
      | Inr e \<Rightarrow>
          (case decode_emitted_outbound um (fragment_text n e) of
             None \<Rightarrow> []
           | Some fs \<Rightarrow> sha (json_text (canonicalize_json_value (JObj (identity_fields fs))))))"
  by (simp add: node_identity_hash_def emission_def fragment_text_def identity_fields_def
      del: json_text.simps split: sum.split option.split)

lemma emission_comment:
  "emission n = Inr e \<Longrightarrow> em_comment e = Some c \<Longrightarrow> c = sanitize_outbound_line_comment (shown_text n)"
  by (auto simp: emission_def shown_text_def generate_endpoint_json_def dest: generated_comment
      split: if_splits option.splits)

lemma json_indent_obj_ends: "\<exists>mid. json_indent d (JObj fs) = CHR 0x7B # mid @ [CHR 0x7D]"
  by simp

lemma decode_fragment_text:
  assumes "emission n = Inr e" "CHR 0x7B \<notin> set (shown_text n)"
  shows "decode_emitted_outbound um (fragment_text n e) = um (object_text n e)"
proof -
  have c: "CHR 0x7B \<notin> set c" if "em_comment e = Some c" for c
    using emission_comment[OF assms(1) that] comment_chars[of "shown_text n"] assms(2) by auto
  show ?thesis
  proof (cases "nd_scheme n = ''wireguard''")
    case True
    obtain mid where mid: "json_indent 0 (JObj (em_fields e)) = CHR 0x7B # mid @ [CHR 0x7D]"
      using json_indent_obj_ends by blast
    define pre where "pre = (case em_comment e of None \<Rightarrow> [] | Some c \<Rightarrow> ''// '' @ c @ [CHR 0x0A])"
    have "CHR 0x7B \<notin> set pre" using c by (auto simp: pre_def split: option.splits)
    moreover have "fragment_text n e = pre @ CHR 0x7B # mid @ [CHR 0x7D]"
      using True mid by (simp add: fragment_text_def endpoint_text_def pre_def del: json_indent.simps)
    ultimately show ?thesis using True mid decode_bare[of pre um mid]
      by (simp add: object_text_def del: json_indent.simps)
  next
    case False
    then show ?thesis using decode_emitted_text[OF c]
      by (simp add: object_text_def fragment_text_def del: json_text.simps)
  qed
qed

text \<open>
  What is asked of the decoder: it gives back the fields of an object printed for the node.
\<close>

definition reads_back :: "(string \<Rightarrow> fields option) \<Rightarrow> parsed_node \<Rightarrow> bool" where
  "reads_back um n =
     (case emission n of Inl _ \<Rightarrow> True | Inr e \<Rightarrow> um (object_text n e) = Some (em_fields e))"

lemma node_identity_hash_eq:
  assumes "CHR 0x7B \<notin> set (shown_text n)" "reads_back um n"
  shows "node_identity_hash um sha n =
    (case emission n of
       Inl _ \<Rightarrow> []
     | Inr e \<Rightarrow> sha (json_text (canonicalize_json_value (JObj (identity_fields (em_fields e))))))"
proof (cases "emission n")
  case (Inr e)
  then have "um (object_text n e) = Some (em_fields e)" using assms(2) by (simp only: reads_back_def sum.case)
  then show ?thesis unfolding node_identity_hash_emission Inr sum.case decode_fragment_text[OF Inr assms(1)] by simp
qed (simp add: node_identity_hash_emission)

text \<open>
  When the comment line holds an opening brace, decoding starts there, and a JSON decoder fails:
  what begins in the comment line is not closed by the object on the next one, or is followed by it.
\<close>

definition decodes :: "(string \<Rightarrow> fields option) \<Rightarrow> parsed_node \<Rightarrow> bool" where
  "decodes um n =
     (if CHR 0x7B \<in> set (shown_text n)
      then (case emission n of Inl _ \<Rightarrow> True | Inr e \<Rightarrow> decode_emitted_outbound um (fragment_text n e) = None)
      else reads_back um n)"

lemma decodes_hash:
  assumes "decodes um n"
  shows "node_identity_hash um sha n =
    (if CHR 0x7B \<in> set (shown_text n) then []
     else case emission n of
       Inl _ \<Rightarrow> []
     | Inr e \<Rightarrow> sha (json_text (canonicalize_json_value (JObj (identity_fields (em_fields e))))))"
proof (cases "CHR 0x7B \<in> set (shown_text n)")
  case True
  show ?thesis
  proof (cases "emission n")
    case (Inr e)
    with True assms have "decode_emitted_outbound um (fragment_text n e) = None" by (simp add: decodes_def)
    with True show ?thesis unfolding node_identity_hash_emission Inr by simp
  qed (use True in \<open>simp add: node_identity_hash_emission\<close>)
next
  case False
  with assms have "reads_back um n" by (simp add: decodes_def)
  from node_identity_hash_eq[OF False this] False show ?thesis by (simp only: if_False)
qed

subsection \<open>What the identity does not depend on\<close>

lemma get_sput_other [simp]:
  "k \<noteq> k' \<Longrightarrow> get_str (sput k v m) k' = get_str m k'"
  "k \<noteq> k' \<Longrightarrow> get_int (sput k v m) k' = get_int m k'"
  "k \<noteq> k' \<Longrightarrow> get_bool (sput k v m) k' = get_bool m k'"
  "k \<noteq> k' \<Longrightarrow> get_strs (sput k v m) k' = get_strs m k'"
  "k \<noteq> k' \<Longrightarrow> get_map (sput k v m) k' = get_map m k'"
  by (simp_all add: get_str_def get_int_def get_bool_def get_strs_def get_map_def)

lemma parts_sput_other [simp]:
  "k \<noteq> k' \<Longrightarrow> str_part (sput k v m) k' = str_part m k'"
  "k \<noteq> k' \<Longrightarrow> int_part (sput k v m) k' = int_part m k'"
  "k \<noteq> k' \<Longrightarrow> pos_part (sput k v m) k' = pos_part m k'"
  "k \<noteq> k' \<Longrightarrow> true_part (sput k v m) k' = true_part m k'"
  "k \<noteq> k' \<Longrightarrow> strs_part (sput k v m) k' = strs_part m k'"
  by (simp_all add: str_part_def int_part_def pos_part_def true_part_def strs_part_def)

lemma filter_sput: "(\<And>w. \<not> P (k, w)) \<Longrightarrow> filter P (sput k v m) = filter P m"
  by (induction k v m rule: sput.induct) auto

definition renamed :: "parsed_node \<Rightarrow> string \<Rightarrow> string \<Rightarrow> string \<Rightarrow> string \<Rightarrow> parsed_node" where
  "renamed n t l c d =
     n\<lparr>nd_tag := t, nd_label := l, nd_comment := c, nd_outbound := map_option (sput ''detour'' (GStr d)) (nd_outbound n)\<rparr>"

lemma special_sput_other [simp]:
  "k \<notin> set ks \<Longrightarrow> str_parts (sput k v m) ks = str_parts m ks"
  "k \<noteq> ''server_ports'' \<Longrightarrow> server_ports_part (sput k v m) = server_ports_part m"
  "k \<noteq> ''obfs'' \<Longrightarrow> obfs_part (sput k v m) = obfs_part m"
  "k \<noteq> ''extra_headers'' \<Longrightarrow> extra_headers_part (sput k v m) = extra_headers_part m"
  "k \<noteq> ''transport'' \<Longrightarrow> transport_part (sput k v m) = transport_part m"
  "k \<noteq> ''transport'' \<Longrightarrow> outbound_has_transport (sput k v m) = outbound_has_transport m"
  "k \<noteq> ''tls'' \<Longrightarrow> tls_part (sput k v m) = tls_part m"
  "k \<noteq> ''type'' \<Longrightarrow> trimmed_type (sput k v m) = trimmed_type m"
  by (induction ks)
    (simp_all add: str_parts_simps server_ports_part_def obfs_part_def extra_headers_part_def
      transport_part_def outbound_has_transport_def tls_part_def trimmed_type_def)

lemma renamed_simps [simp]:
  "nd_comment (renamed n t l c d) = c"
  "nd_tag (renamed n t l c d) = t" "nd_label (renamed n t l c d) = l"
  "nd_scheme (renamed n t l c d) = nd_scheme n" "nd_emit_raw (renamed n t l c d) = nd_emit_raw n"
  "nd_uuid (renamed n t l c d) = nd_uuid n" "nd_flow (renamed n t l c d) = nd_flow n"
  "nd_server (renamed n t l c d) = nd_server n" "nd_port (renamed n t l c d) = nd_port n"
  "nd_outbound (renamed n t l c d) = map_option (sput ''detour'' (GStr d)) (nd_outbound n)"
  by (simp_all add: renamed_def)

lemma ob_renamed:
  "nd_outbound n = None \<Longrightarrow> ob (renamed n t l c d) = ob n"
  "nd_outbound n = Some m \<Longrightarrow> ob (renamed n t l c d) = sput ''detour'' (GStr d) (ob n)"
  by (simp_all add: ob_def)

lemma parts_sput_detour:
  fixes n n' :: parsed_node
  assumes "ob n' = sput ''detour'' v (ob n) \<or> ob n' = ob n"
    and "nd_scheme n' = nd_scheme n" "nd_uuid n' = nd_uuid n" "nd_port n' = nd_port n"
      "nd_flow n' = nd_flow n"
  shows "credential_fields n' = credential_fields n" "server_port n' = server_port n"
    "flow_out n' = flow_out n" "packet_encoding_part n' = packet_encoding_part n"
    "transport_part (ob n') = transport_part (ob n)" "tls_part (ob n') = tls_part (ob n)"
    "group_member_tags n' = group_member_tags n"
  using assms(1)
  unfolding credential_fields_def server_port_def flow_out_def packet_encoding_part_def
    group_member_tags_def group_members_key_def Let_def assms(2-)
  by (elim disjE; simp split del: if_split cong del: if_weak_cong)+

lemma renamed_ob:
  "ob (renamed n t l c d) = sput ''detour'' (GStr d) (ob n) \<or> ob (renamed n t l c d) = ob n"
  by (cases "nd_outbound n") (simp_all add: ob_renamed)

lemmas parts_renamed =
  parts_sput_detour[OF renamed_ob renamed_simps(4) renamed_simps(6) renamed_simps(9) renamed_simps(7)]

lemma flow_part_renamed: "flow_part (renamed n t l c d) = flow_part n"
  by (simp only: flow_part_def parts_renamed)

lemma identity_detour_part: "identity_fields (detour_part m) = []"
  by (simp add: identity_fields_def detour_part_def node_hash_ignored_fields_def split: option.split)

lemma identity_append: "identity_fields (xs @ ys) = identity_fields xs @ identity_fields ys"
  by (simp add: identity_fields_def)

lemma identity_plain_renamed:
  "identity_fields (plain_fields (renamed n t l c d)) = identity_fields (plain_fields n)"
  unfolding plain_fields_def identity_append parts_renamed flow_part_renamed identity_detour_part
  by (simp add: identity_fields_def node_hash_ignored_fields_def)

lemma identity_extra_renamed:
  "identity_fields (extra_fields (sput ''detour'' v m) skip) = identity_fields (extra_fields m skip)"
  by (simp add: identity_fields_def extra_fields_def filter_map comp_def filter_sput
      node_hash_ignored_fields_def)

lemma generate_renamed:
  "rel_sum (=) (\<lambda>e e'. identity_fields (em_fields e) = identity_fields (em_fields e'))
     (generate_node_json (renamed n t l c d)) (generate_node_json n)"
proof (cases "nd_outbound n")
  case None
  then show ?thesis
    by (simp add: generate_node_json_def generate_group_node_json_def generate_raw_node_json_def
        identity_plain_renamed)
next
  case (Some m)
  have tag: "identity_fields ((''tag'', v) # xs) = identity_fields xs" for v xs
    by (simp add: identity_fields_def node_hash_ignored_fields_def)
  have other: "identity_fields ((k, v) # xs) = identity_fields ((k, v) # ys)"
    if "identity_fields xs = identity_fields ys" for k v xs ys
    using that by (simp add: identity_fields_def)
  show ?thesis
    using Some
    by (simp add: generate_node_json_def generate_group_node_json_def generate_raw_node_json_def
        identity_plain_renamed parts_renamed tag)
      (auto intro!: other identity_extra_renamed)
qed

lemma endpoint_renamed:
  "rel_sum (=) (\<lambda>e e'. identity_fields (em_fields e) = identity_fields (em_fields e'))
     (generate_endpoint_json (renamed n t l c d)) (generate_endpoint_json n)"
proof -
  have tag: "identity_fields (extra_fields (sput ''tag'' v m) []) = identity_fields (extra_fields m [])" for v m
    by (simp add: identity_fields_def extra_fields_def filter_map comp_def filter_sput node_hash_ignored_fields_def)
  show ?thesis by (simp add: generate_endpoint_json_def tag identity_extra_renamed split: option.split)
qed

text \<open>
  C28. A provider may rename a node and change its comment, the launcher may prefix or number its
  tag, and its detour may change: the identity that user choices are attached to stays the same,
  for outbounds and for WireGuard endpoints. The text shown in the comment line of the emitted
  fragment (the label, of an endpoint the comment) must be free of opening braces before and after
  (see \<open>brace_label_has_no_identity\<close>), and the decoder must read back the two objects printed.
\<close>

theorem identity_survives_renaming:
  assumes "CHR 0x7B \<notin> set (shown_text n)" "CHR 0x7B \<notin> set (shown_text (renamed n t l c d))"
    and "reads_back um n" "reads_back um (renamed n t l c d)"
  shows "node_identity_hash um sha (renamed n t l c d) = node_identity_hash um sha n"
proof -
  have "rel_sum (=) (\<lambda>e e'. identity_fields (em_fields e) = identity_fields (em_fields e'))
      (emission (renamed n t l c d)) (emission n)"
    using generate_renamed[of n t l c d] endpoint_renamed[of n t l c d] by (simp add: emission_def)
  then show ?thesis
    unfolding node_identity_hash_eq[OF assms(1,3)] node_identity_hash_eq[OF assms(2,4)]
    by (cases "emission n"; cases "emission (renamed n t l c d)") simp_all
qed

definition sample_unmarshal :: "parsed_node list \<Rightarrow> string \<Rightarrow> fields option" where
  "sample_unmarshal ns s =
     (case List.find (\<lambda>fs. json_text (JObj fs) = s) (map plain_fields ns) of
        None \<Rightarrow> None | Some fs \<Rightarrow> Some fs)"

theorem identity_survives_renaming_witness:
  "node_identity_hash (sample_unmarshal [sample_vless, renamed sample_vless ''p-b'' ''b'' ''c'' ''hop'']) id
     (renamed sample_vless ''p-b'' ''b'' ''c'' ''hop'') =
   node_identity_hash (sample_unmarshal [sample_vless, renamed sample_vless ''p-b'' ''b'' ''c'' ''hop'']) id
     sample_vless \<and>
   node_identity_hash (sample_unmarshal [sample_vless]) id sample_vless \<noteq> []"
proof -
  let ?um = "sample_unmarshal [sample_vless, renamed sample_vless ''p-b'' ''b'' ''c'' ''hop'']"
  have s: "CHR 0x7B \<notin> set (shown_text sample_vless)"
    "CHR 0x7B \<notin> set (shown_text (renamed sample_vless ''p-b'' ''b'' ''c'' ''hop''))"
    by (simp_all add: shown_text_def) (simp_all add: sample_vless_def)
  have r: "reads_back ?um sample_vless" "reads_back ?um (renamed sample_vless ''p-b'' ''b'' ''c'' ''hop'')"
    by code_simp+
  have ne: "node_identity_hash (sample_unmarshal [sample_vless]) id sample_vless \<noteq> []" by code_simp
  from identity_survives_renaming[OF s r] ne show ?thesis by blast
qed

text \<open>
  The decoder looks for the first brace of the whole fragment, comment line included: a node
  whose label holds an opening brace in front of anything but a quote, a space or a closing brace
  has no identity at all, because JSON has no such text. It is never a duplicate of another node,
  it cannot be switched off, and what was attached to it under an earlier label is lost.
\<close>

theorem brace_label_has_no_identity:
  assumes "nd_scheme n \<noteq> ''wireguard''" "nd_scheme n \<noteq> scheme_group" "\<not> nd_emit_raw n"
    and "sanitize_outbound_line_comment (nd_label n) = a @ CHR 0x7B # x # b" "CHR 0x7B \<notin> set a"
    and "x \<notin> {CHR 0x22, CHR 0x7D, CHR '' '', CHR 0x09, CHR 0x0A, CHR 0x0D}"
    and "\<And>c s. c \<notin> {CHR 0x22, CHR 0x7D, CHR '' '', CHR 0x09, CHR 0x0A, CHR 0x0D} \<Longrightarrow>
           um (CHR 0x7B # c # s) = None"
  shows "node_identity_hash um sha n = []"
proof -
  define rest where "rest = x # b @ CHR 0x0A # CHR 0x09 # json_text (JObj (plain_fields n))"
  define e where "e = \<lparr>em_comment = Some (sanitize_outbound_line_comment (nd_label n)), em_fields = plain_fields n\<rparr>"
  have e: "generate_node_json n = Inr e"
    using assms(2,3) by (simp add: generate_node_json_def e_def)
  have shape: "emitted_text e = (CHR 0x09 # ''// '' @ a) @ (CHR 0x7B # rest) @ '',''"
    by (simp add: emitted_text_def e_def assms(4) rest_def del: json_text.simps)
  have "CHR 0x7B \<notin> set (CHR 0x09 # ''// '' @ a)" using assms(5) by simp
  from decode_fragment[OF this, of um rest] have "decode_emitted_outbound um (emitted_text e) = None"
    unfolding shape using assms(6,7) by (simp add: rest_def)
  then show ?thesis using assms(1) e by (simp add: node_identity_hash_def)
qed

theorem brace_label_has_no_identity_witness:
  "node_identity_hash (sample_unmarshal [sample_vless, sample_vless\<lparr>nd_label := ''{DE} 1''\<rparr>]) id
     (sample_vless\<lparr>nd_label := ''{DE} 1''\<rparr>) = [] \<and>
   node_identity_hash (sample_unmarshal [sample_vless, sample_vless\<lparr>nd_label := ''{DE} 1''\<rparr>]) id
     sample_vless \<noteq> []"
proof -
  let ?n = "sample_vless\<lparr>nd_label := ''{DE} 1''\<rparr>"
  let ?um = "sample_unmarshal [sample_vless, ?n]"
  have s: "nd_scheme ?n \<noteq> ''wireguard''" "nd_scheme ?n \<noteq> scheme_group" "\<not> nd_emit_raw ?n"
    by (simp_all add: sample_vless_def scheme_group_def)
  have c: "sanitize_outbound_line_comment (nd_label ?n) = [] @ CHR 0x7B # CHR ''D'' # ''E} 1''" by code_simp
  have um: "?um (CHR 0x7B # c # s) = None" if "c \<noteq> CHR 0x22" for c s
  proof -
    have "json_text (JObj (plain_fields m)) \<noteq> CHR 0x7B # c # s" for m
      using \<open>c \<noteq> CHR 0x22\<close> by (simp add: plain_fields_def quote_json_def)
    then show ?thesis by (simp add: sample_unmarshal_def)
  qed
  have "node_identity_hash ?um id ?n = []"
    by (rule brace_label_has_no_identity[OF s c]) (simp_all add: um)
  moreover have "node_identity_hash ?um id sample_vless \<noteq> []" by code_simp
  ultimately show ?thesis by simp
qed

end
