(* ===== verification/Detours.thy ===== *)
theory Detours
  imports NodeJson Outbounds
begin

text \<open>
  Detours between nodes, \<open>core/config/outbound_generator.go\<close>: chaining a source through one
  node found by its identity (\<open>resolveNodeHashDetours\<close>) and breaking detour cycles
  (\<open>sanitizeNodeDetours\<close>), with the source and parser configuration types of
  \<open>configtypes/types.go\<close>. The identity hash is a parameter here; \<open>NodeJson\<close> models it. A node
  belongs to the source its index names, which is how the code fills \<open>nodesBySource\<close>, and a
  pointer to a node is its position in the list. The order in which Go ranges over the map of
  detours is a parameter of the cycle search.
\<close>

section \<open>Sources\<close>

record proxy_source =
  ps_source :: string
  ps_connections :: "string list"
  ps_skip :: "string smap list"
  ps_outbounds :: "outbound_config list"
  ps_tag_prefix :: string
  ps_tag_postfix :: string
  ps_tag_mask :: string
  ps_exclude_from_global :: bool
  ps_expose_group_tags :: bool
  ps_disabled :: bool
  ps_detour_tag :: string
  ps_detour_node_hash :: string
  ps_detour_node_label :: string
  ps_disabled_nodes :: "int smap"
  ps_config_json :: "json option"

record parser_config =
  pc_version :: int
  pc_proxies :: "proxy_source list"
  pc_outbounds :: "outbound_config list"
  pc_reload :: string
  pc_last_updated :: string

definition normalize_parser_config :: "string option \<Rightarrow> parser_config \<Rightarrow> parser_config" where
  "normalize_parser_config now pc =
     (let pc = pc\<lparr>pc_version := 4\<rparr>;
          pc = (if pc_reload pc = [] then pc\<lparr>pc_reload := ''4h''\<rparr> else pc)
      in case now of None \<Rightarrow> pc | Some t \<Rightarrow> pc\<lparr>pc_last_updated := t\<rparr>)"

definition of_source :: "nat \<Rightarrow> parsed_node \<Rightarrow> bool" where
  "of_source i n \<longleftrightarrow> nd_source_index n = int i"

section \<open>Stamping detours\<close>

definition stamp_detour :: "string \<Rightarrow> parsed_node \<Rightarrow> parsed_node" where
  "stamp_detour t n =
     (if nd_jump n \<noteq> None then n
      else if map_of (ob n) ''listen_port'' \<noteq> None \<and> nd_scheme n = ''wireguard'' then n
      else n\<lparr>nd_outbound := Some (sput ''detour'' (GStr t) (ob n))\<rparr>)"

definition apply_source_detour :: "parsed_node list \<Rightarrow> string \<Rightarrow> parsed_node list" where
  "apply_source_detour nodes detour_tag =
     (let t = trim_space detour_tag in if t = [] then nodes else map (stamp_detour t) nodes)"

text \<open>\<open>byHash\<close>: the first eligible node with an identity.\<close>

fun find_by_hash :: "(parsed_node \<Rightarrow> string) \<Rightarrow> string \<Rightarrow> nat \<Rightarrow> parsed_node list \<Rightarrow> nat option" where
  "find_by_hash ident h k [] = None"
| "find_by_hash ident h k (n # ns) =
     (if nd_scheme n \<noteq> scheme_group \<and> nd_tag n \<noteq> [] \<and> ident n \<noteq> [] \<and> ident n = h then Some k
      else find_by_hash ident h (Suc k) ns)"

definition source_hash :: "proxy_source list \<Rightarrow> nat \<Rightarrow> string" where
  "source_hash proxies i = trim_space (ps_detour_node_hash (proxies ! i))"

definition hash_sources :: "proxy_source list \<Rightarrow> parsed_node list \<Rightarrow> nat list" where
  "hash_sources proxies nodes =
     filter (\<lambda>i. source_hash proxies i \<noteq> [] \<and> filter (of_source i) nodes \<noteq> [])
       [0..<length proxies]"

definition stamp_source :: "nat \<Rightarrow> nat \<Rightarrow> string \<Rightarrow> parsed_node list \<Rightarrow> parsed_node list" where
  "stamp_source i j t nodes =
     map (\<lambda>(k, n). if of_source i n \<and> k \<noteq> j then stamp_detour t n else n) (enumerate 0 nodes)"

text \<open>One chained source: without its hop it is marked as dropped, else its nodes are stamped.\<close>

definition hash_step ::
    "(nat \<Rightarrow> nat option) \<Rightarrow> parsed_node list \<Rightarrow> nat \<Rightarrow> parsed_node list \<times> nat list \<Rightarrow>
     parsed_node list \<times> nat list" where
  "hash_step target nodes i s =
     (case target i of
        None \<Rightarrow> (fst s, i # snd s)
      | Some j \<Rightarrow> (stamp_source i j (nd_tag (nodes ! j)) (fst s), snd s))"

definition resolve_node_hash_detours ::
    "(parsed_node \<Rightarrow> string) \<Rightarrow> proxy_source list \<Rightarrow> parsed_node list \<Rightarrow> parsed_node list" where
  "resolve_node_hash_detours ident proxies nodes =
     (let (stamped, dropped) =
        fold (hash_step (\<lambda>i. find_by_hash ident (source_hash proxies i) 0 nodes) nodes)
          (hash_sources proxies nodes) (nodes, [])
      in filter (\<lambda>n. \<not> (\<exists>i \<in> set dropped. of_source i n)) stamped)"

section \<open>Breaking cycles\<close>

definition node_detour :: "parsed_node \<Rightarrow> string" where
  "node_detour n = (case get_str (ob n) ''detour'' of None \<Rightarrow> [] | Some d \<Rightarrow> trim_space d)"

definition drop_detour :: "parsed_node \<Rightarrow> parsed_node" where
  "drop_detour n = n\<lparr>nd_outbound := map_option (sdel ''detour'') (nd_outbound n)\<rparr>"

definition is_node_tag :: "parsed_node list \<Rightarrow> string \<Rightarrow> bool" where
  "is_node_tag nodes t \<longleftrightarrow> t \<noteq> [] \<and> t \<in> nd_tag ` set nodes"

definition detour_edges :: "parsed_node list \<Rightarrow> string smap" where
  "detour_edges nodes =
     fold (\<lambda>n m.
         if node_detour n = [] then m
         else if node_detour n = nd_tag n then m
         else if is_node_tag nodes (node_detour n) then sput (nd_tag n) (node_detour n) m
         else m) nodes []"

definition drop_self_detours :: "parsed_node list \<Rightarrow> parsed_node list" where
  "drop_self_detours nodes =
     map (\<lambda>n. if node_detour n \<noteq> [] \<and> node_detour n = nd_tag n then drop_detour n else n) nodes"

text \<open>\<open>nodeByTag\<close> holds the last node of a tag.\<close>

fun drop_first_tagged :: "string \<Rightarrow> parsed_node list \<Rightarrow> parsed_node list" where
  "drop_first_tagged t [] = []"
| "drop_first_tagged t (n # ns) =
     (if nd_tag n = t then drop_detour n # ns else n # drop_first_tagged t ns)"

definition drop_by_tag :: "string \<Rightarrow> parsed_node list \<Rightarrow> parsed_node list" where
  "drop_by_tag t nodes = (if t = [] then nodes else rev (drop_first_tagged t (rev nodes)))"

text \<open>
  One walk along the unique out-edges: \<open>path\<close> holds the grey tags, last first; the result names
  the tag whose detour closes a ring, if there is one, and the tags that turn black.
\<close>

function walk_detours ::
    "string smap \<Rightarrow> string list \<Rightarrow> string list \<Rightarrow> string \<Rightarrow> string option \<times> string list" where
  "walk_detours m black path cur =
     (if cur \<in> set path then (Some cur, path)
      else if cur \<in> set black then (None, path)
      else (case map_of m cur of
              None \<Rightarrow> (None, cur # path)
            | Some nxt \<Rightarrow> walk_detours m black (cur # path) nxt))"
  by pat_completeness auto

termination
proof (relation "measure (\<lambda>(m, black, path, cur). card (fst ` set m - set path))", goal_cases)
  case (2 m black path cur nxt)
  have "cur \<in> fst ` set m" using 2(3) by (metis domI dom_map_of_conv_image_fst)
  with 2(1) have "fst ` set m - set (cur # path) \<subset> fst ` set m - set path" by auto
  then show ?case by (simp add: psubset_card_mono)
qed simp

declare walk_detours.simps [simp del]

definition sanitize_step ::
    "string \<Rightarrow> string smap \<times> string list \<times> parsed_node list \<Rightarrow> string smap \<times> string list \<times> parsed_node list" where
  "sanitize_step start s =
     (case s of (m, black, nodes) \<Rightarrow>
        if start \<in> set black then s
        else (case walk_detours m black [] start of
                (None, path) \<Rightarrow> (m, path @ black, nodes)
              | (Some c, path) \<Rightarrow> (sdel c m, path @ black, drop_by_tag c nodes)))"

definition sanitize_node_detours :: "string list \<Rightarrow> parsed_node list \<Rightarrow> parsed_node list" where
  "sanitize_node_detours order nodes =
     snd (snd (fold sanitize_step order (detour_edges nodes, [], drop_self_detours nodes)))"

section \<open>The walk\<close>

text \<open>The grey path follows the edges: each tag's successor is the one visited after it.\<close>

fun linked :: "string smap \<Rightarrow> string list \<Rightarrow> bool" where
  "linked m (x # y # zs) \<longleftrightarrow> map_of m y = Some x \<and> linked m (y # zs)"
| "linked m _ \<longleftrightarrow> True"

definition grey :: "string smap \<Rightarrow> string list \<Rightarrow> string list \<Rightarrow> string \<Rightarrow> bool" where
  "grey m black path cur \<longleftrightarrow>
     distinct path \<and> set path \<inter> set black = {} \<and> linked m path \<and>
     (path \<noteq> [] \<longrightarrow> map_of m (hd path) = Some cur)"

lemma linked_Cons: "linked m (x # xs) \<longleftrightarrow> linked m xs \<and> (xs \<noteq> [] \<longrightarrow> map_of m (hd xs) = Some x)"
  by (cases xs) auto

definition walk_result :: "string smap \<Rightarrow> string list \<Rightarrow> string option \<times> string list \<Rightarrow> bool" where
  "walk_result m black r \<longleftrightarrow>
     (case r of (dr, path) \<Rightarrow>
        distinct path \<and> set path \<inter> set black = {} \<and> linked m path \<and>
        (case dr of
           Some c \<Rightarrow> c \<in> set path \<and> map_of m (hd path) = Some c
         | None \<Rightarrow> path \<noteq> [] \<longrightarrow>
             (case map_of m (hd path) of None \<Rightarrow> True | Some y \<Rightarrow> y \<in> set black)))"

lemma walk_correct:
  "grey m black path cur \<Longrightarrow>
   walk_result m black (walk_detours m black path cur) \<and>
   set path \<subseteq> set (snd (walk_detours m black path cur)) \<and>
   (cur \<in> set black \<or> cur \<in> set (snd (walk_detours m black path cur)))"
proof (induction m black path cur rule: walk_detours.induct)
  case (1 m black path cur)
  show ?case
  proof (cases "cur \<in> set path \<or> cur \<in> set black")
    case True
    then show ?thesis using 1(2)
      by (subst (1 2 3) walk_detours.simps) (auto simp: grey_def walk_result_def)
  next
    case False
    show ?thesis
    proof (cases "map_of m cur")
      case None
      with False have "walk_detours m black path cur = (None, cur # path)"
        by (subst walk_detours.simps) simp
      with 1(2) False None show ?thesis
        by (auto simp: grey_def walk_result_def linked_Cons)
    next
      case (Some nxt)
      with False have w: "walk_detours m black path cur = walk_detours m black (cur # path) nxt"
        by (subst walk_detours.simps) simp
      have "grey m black (cur # path) nxt"
        using 1(2) False Some by (simp add: grey_def linked_Cons)
      with 1(1) False Some show ?thesis by (simp add: w)
    qed
  qed
qed

section \<open>Black tags form a forest\<close>

text \<open>Some rank falls along every edge that leaves a black tag, and the edge stays in black.\<close>

definition forest :: "string smap \<Rightarrow> string list \<Rightarrow> bool" where
  "forest m black \<longleftrightarrow>
     (\<exists>r :: string \<Rightarrow> nat. \<forall>x \<in> set black. \<forall>y. map_of m x = Some y \<longrightarrow> y \<in> set black \<and> r y < r x)"

definition pos :: "string list \<Rightarrow> string \<Rightarrow> nat" where
  "pos path x = length (takeWhile (\<lambda>y. y \<noteq> x) path)"

lemma linked_next:
  assumes "linked m path" "distinct path" "x \<in> set path" "map_of m x = Some y"
  shows "x = hd path \<or> y \<in> set path \<and> pos path y < pos path x"
  using assms
proof (induction path)
  case (Cons a path)
  show ?case
  proof (cases "x = a")
    case False
    with Cons have x: "x \<in> set path" by simp
    with Cons have IH: "x = hd path \<or> y \<in> set path \<and> pos path y < pos path x"
      by (simp add: linked_Cons)
    show ?thesis
    proof (cases "x = hd path")
      case True
      with Cons.prems x have "y = a" by (cases path) (auto simp: linked_Cons)
      with False show ?thesis by (simp add: pos_def)
    next
      case False
      with IH Cons.prems(2) have "y \<in> set path" "pos path y < pos path x" "y \<noteq> a" by auto
      with \<open>x \<noteq> a\<close> show ?thesis by (simp add: pos_def)
    qed
  qed simp
qed simp

lemma forest_extend:
  assumes f: "forest m black" and w: "walk_result m black (None, path)"
  shows "forest m (path @ black)"
proof -
  obtain r :: "string \<Rightarrow> nat" where r: "\<And>x y. x \<in> set black \<Longrightarrow> map_of m x = Some y \<Longrightarrow> y \<in> set black \<and> r y < r x"
    using f unfolding forest_def by blast
  define M where "M = (case map_of m (hd path) of None \<Rightarrow> 0 | Some y \<Rightarrow> r y)"
  define r' where "r' x = (if x \<in> set path then Suc (M + pos path x) else r x)" for x
  have d: "distinct path" "set path \<inter> set black = {}" "linked m path"
    and e: "\<And>y. path \<noteq> [] \<Longrightarrow> map_of m (hd path) = Some y \<Longrightarrow> y \<in> set black"
    using w by (auto simp: walk_result_def)
  have "y \<in> set (path @ black) \<and> r' y < r' x" if x: "x \<in> set (path @ black)" and y: "map_of m x = Some y" for x y
  proof (cases "x \<in> set path")
    case True
    from linked_next[OF d(3,1) this y] show ?thesis
    proof
      assume h: "x = hd path"
      have "path \<noteq> []" using True by auto
      from e[OF this] y h have yb: "y \<in> set black" by simp
      have "M = r y" using h y by (simp add: M_def)
      then show ?thesis using True yb d(2) by (auto simp: r'_def)
    next
      assume "y \<in> set path \<and> pos path y < pos path x"
      then show ?thesis using True by (simp add: r'_def)
    qed
  next
    case False
    with x have "x \<in> set black" by simp
    from r[OF this y] d(2) False show ?thesis by (auto simp: r'_def)
  qed
  then show ?thesis unfolding forest_def by blast
qed

lemma forest_break:
  assumes f: "forest m black" and w: "walk_result m black (Some c, path)"
  shows "forest (sdel c m) (path @ black)"
proof -
  obtain r :: "string \<Rightarrow> nat" where r: "\<And>x y. x \<in> set black \<Longrightarrow> map_of m x = Some y \<Longrightarrow> y \<in> set black \<and> r y < r x"
    using f unfolding forest_def by blast
  define r' where "r' x = (if x \<in> set path then (if x = c then 0 else Suc (pos path x)) else r x)" for x
  have d: "distinct path" "set path \<inter> set black = {}" "linked m path"
    and c: "c \<in> set path" "map_of m (hd path) = Some c"
    using w by (auto simp: walk_result_def)
  have "y \<in> set (path @ black) \<and> r' y < r' x"
    if x: "x \<in> set (path @ black)" and y0: "map_of (sdel c m) x = Some y" for x y
  proof (cases "x \<in> set path")
    case True
    from y0 have y: "map_of m x = Some y" and xc: "x \<noteq> c" by (auto split: if_splits)
    from linked_next[OF d(3,1) True y] show ?thesis
    proof
      assume "x = hd path"
      with y c(2) have "y = c" by simp
      then show ?thesis using True c(1) xc by (simp add: r'_def)
    next
      assume "y \<in> set path \<and> pos path y < pos path x"
      then show ?thesis using True xc by (simp add: r'_def)
    qed
  next
    case False
    from y0 have y: "map_of m x = Some y" by (auto split: if_splits)
    from False x have "x \<in> set black" by simp
    from r[OF this y] d(2) False show ?thesis by (auto simp: r'_def)
  qed
  then show ?thesis unfolding forest_def by blast
qed

section \<open>The whole search\<close>

lemma grey_start: "grey m black [] start"
  by (simp add: grey_def)

definition cut :: "string smap \<Rightarrow> parsed_node list \<Rightarrow> string smap \<Rightarrow> parsed_node list \<Rightarrow> bool" where
  "cut m nodes m' nodes' \<longleftrightarrow> (m', nodes') = (m, nodes) \<or>
     (\<exists>c d. map_of m c = Some d \<and> (c, c) \<in> {(x, y). map_of m x = Some y}\<^sup>+ \<and>
        m' = sdel c m \<and> nodes' = drop_by_tag c nodes)"

lemma linked_reaches:
  assumes "linked m path" "x \<in> set path"
  shows "(x, hd path) \<in> {(x, y). map_of m x = Some y}\<^sup>*"
  using assms
proof (induction path)
  case (Cons a path)
  show ?case
  proof (cases "x = a")
    case False
    with Cons have "(x, hd path) \<in> {(x, y). map_of m x = Some y}\<^sup>*" "path \<noteq> []"
      by (auto simp: linked_Cons)
    moreover have "(hd path, a) \<in> {(x, y). map_of m x = Some y}"
      using Cons.prems \<open>path \<noteq> []\<close> by (simp add: linked_Cons)
    ultimately show ?thesis by (auto intro: rtrancl_into_rtrancl)
  qed simp
qed simp

lemma broken_edge_on_cycle:
  assumes "walk_result m black (Some c, path)"
  shows "(c, c) \<in> {(x, y). map_of m x = Some y}\<^sup>+" "map_of m c \<noteq> None"
proof -
  let ?E = "{(x, y). map_of m x = Some y}"
  have "(c, hd path) \<in> ?E\<^sup>*" "(hd path, c) \<in> ?E"
    using assms linked_reaches by (auto simp: walk_result_def)
  then show "(c, c) \<in> ?E\<^sup>+" by (rule rtrancl_into_trancl1)
  then show "map_of m c \<noteq> None" by (auto dest!: tranclD)
qed

lemma sanitize_step_correct:
  assumes f: "forest m black" and s: "sanitize_step start (m, black, nodes) = (m', black', nodes')"
  shows "forest m' black'" "start \<in> set black'" "set black \<subseteq> set black'" "cut m nodes m' nodes'"
proof -
  have *: "forest m' black' \<and> start \<in> set black' \<and> set black \<subseteq> set black' \<and> cut m nodes m' nodes'"
  proof (cases "start \<in> set black")
    case True
    with f s show ?thesis by (auto simp: sanitize_step_def cut_def)
  next
    case False
    obtain dr path where w: "walk_detours m black [] start = (dr, path)" by (cases "walk_detours m black [] start")
    from walk_correct[OF grey_start, of m black start] False
    have r: "walk_result m black (dr, path)" and st: "start \<in> set path" by (auto simp: w)
    show ?thesis
    proof (cases dr)
      case None
      with s False w st forest_extend[OF f] r show ?thesis
        by (auto simp: sanitize_step_def cut_def)
    next
      case (Some c)
      have "cut m nodes (sdel c m) (drop_by_tag c nodes)"
        using broken_edge_on_cycle[of m black c path] r Some unfolding cut_def by blast
      with s False w st Some forest_break[OF f] r show ?thesis
        by (auto simp: sanitize_step_def)
    qed
  qed
  then show "forest m' black'" "start \<in> set black'" "set black \<subseteq> set black'" "cut m nodes m' nodes'"
    by blast+
qed

lemma sanitize_fold_forest:
  assumes "forest m black" and "fold sanitize_step order (m, black, nodes) = (m', black', nodes')"
  shows "forest m' black' \<and> set order \<subseteq> set black' \<and> set black \<subseteq> set black'"
  using assms
proof (induction order arbitrary: m black nodes)
  case (Cons start order)
  obtain m1 b1 n1 where s: "sanitize_step start (m, black, nodes) = (m1, b1, n1)"
    by (metis prod_cases3)
  note c = sanitize_step_correct[OF Cons.prems(1) s]
  from Cons.IH[OF c(1)] Cons.prems(2) s c show ?case by auto
qed simp

text \<open>Every step keeps a relation that holds initially and that a cut keeps.\<close>

lemma sanitize_fold_cut:
  assumes "forest m black" and "fold sanitize_step order (m, black, nodes) = (m', black', nodes')"
    and "P m nodes" and "\<And>m nodes m' nodes'. P m nodes \<Longrightarrow> cut m nodes m' nodes' \<Longrightarrow> P m' nodes'"
  shows "P m' nodes'"
  using assms(1-3)
proof (induction order arbitrary: m black nodes)
  case (Cons start order)
  obtain m1 b1 n1 where s: "sanitize_step start (m, black, nodes) = (m1, b1, n1)"
    by (metis prod_cases3)
  note c = sanitize_step_correct[OF Cons.prems(1) s]
  from Cons.IH[OF c(1)] Cons.prems(2) s assms(4)[OF Cons.prems(3) c(4)] show ?case by simp
qed simp

section \<open>What the edges say about the nodes\<close>

definition detour_rel :: "parsed_node list \<Rightarrow> (string \<times> string) set" where
  "detour_rel nodes = {(nd_tag n, node_detour n) | n. n \<in> set nodes \<and> is_node_tag nodes (node_detour n)}"

lemma drop_detour_simps [simp]:
  "nd_tag (drop_detour n) = nd_tag n" "node_detour (drop_detour n) = []"
  by (cases "nd_outbound n"; simp add: drop_detour_def node_detour_def ob_def get_str_def)+

lemma tags_drop_first: "map nd_tag (drop_first_tagged t ns) = map nd_tag ns"
  by (induction ns) auto

lemma list_all2_drop_first:
  "list_all2 (\<lambda>n n'. n' = n \<or> n' = drop_detour n \<and> nd_tag n = t) ns (drop_first_tagged t ns)"
  by (induction ns) (auto simp: list_all2_same)

lemma list_all2_drop_by_tag:
  "list_all2 (\<lambda>n n'. n' = n \<or> n' = drop_detour n \<and> nd_tag n = t) ns (drop_by_tag t ns)"
  using list_all2_drop_first[of t "rev ns"] by (simp add: drop_by_tag_def list_all2_rev1 list_all2_same)

lemma drop_first_dials:
  "count_list (map nd_tag ns) t = 1 \<Longrightarrow> n \<in> set (drop_first_tagged t ns) \<Longrightarrow> nd_tag n = t \<Longrightarrow> node_detour n = []"
  by (induction ns) (auto simp: count_list_0_iff split: if_splits)

lemma drop_by_tag_dials:
  "count_list (map nd_tag ns) t = 1 \<Longrightarrow> t \<noteq> [] \<Longrightarrow> n \<in> set (drop_by_tag t ns) \<Longrightarrow> nd_tag n = t \<Longrightarrow> node_detour n = []"
  using drop_first_dials[of "rev ns" t n] by (simp add: drop_by_tag_def rev_map[symmetric])

text \<open>The edges that leave a tag of one node only.\<close>

definition dialled_once :: "parsed_node list \<Rightarrow> (string \<times> string) set" where
  "dialled_once nodes = {e \<in> detour_rel nodes. count_list (map nd_tag nodes) (fst e) = 1}"

text \<open>The map of edges and the nodes agree: this is what a cut keeps.\<close>

definition edges_agree :: "parsed_node list \<Rightarrow> string smap \<Rightarrow> parsed_node list \<Rightarrow> bool" where
  "edges_agree orig m nodes \<longleftrightarrow>
     list_all2 (\<lambda>n n'. n' = n \<or> n' = drop_detour n \<and> (nd_tag n, nd_tag n) \<in> (detour_rel orig)\<^sup>+) orig nodes \<and>
     {(x, y). map_of m x = Some y} \<subseteq> detour_rel orig \<and>
     dialled_once nodes \<subseteq> {(x, y). map_of m x = Some y}"

lemma drop_detour_idem [simp]: "drop_detour (drop_detour n) = drop_detour n"
  by (cases "nd_outbound n") (simp_all add: drop_detour_def sdel_def)

lemma is_node_tag_cong:
  assumes "map nd_tag ns = map nd_tag ns'"
  shows "is_node_tag ns = is_node_tag ns'"
proof -
  have "nd_tag ` set ns = nd_tag ` set ns'" using assms by (metis list.set_map)
  then show ?thesis by (intro ext) (simp add: is_node_tag_def)
qed

lemma dropped_tags:
  "list_all2 (\<lambda>n n'. n' = n \<or> n' = drop_detour n \<and> Q n) xs ys \<Longrightarrow> map nd_tag ys = map nd_tag xs"
  by (induction rule: list_all2_induct) auto

lemma dialled_once_drop:
  assumes "e \<in> dialled_once (drop_by_tag t nodes)" "t \<noteq> []"
  shows "e \<in> dialled_once nodes \<and> fst e \<noteq> t"
proof -
  let ?ns = "drop_by_tag t nodes"
  have tags: "map nd_tag ?ns = map nd_tag nodes" by (rule dropped_tags[OF list_all2_drop_by_tag])
  from assms(1) obtain n where n: "n \<in> set ?ns" "e = (nd_tag n, node_detour n)" "is_node_tag ?ns (node_detour n)"
    and c: "count_list (map nd_tag nodes) (nd_tag n) = 1" unfolding dialled_once_def tags detour_rel_def by auto
  then have ne: "node_detour n \<noteq> []" by (simp add: is_node_tag_def)
  from n(1) obtain i where i: "i < length nodes" "?ns ! i = n"
    using list_all2_lengthD[OF list_all2_drop_by_tag, of nodes t] by (auto simp: in_set_conv_nth)
  with list_all2_nthD[OF list_all2_drop_by_tag i(1), of t] ne have "n \<in> set nodes" by auto
  with n c show ?thesis
    using drop_by_tag_dials[OF _ assms(2) n(1)] ne is_node_tag_cong[OF tags]
    by (auto simp: dialled_once_def detour_rel_def)
qed

lemma edges_agree_cut:
  assumes e: "edges_agree orig m nodes" and c: "cut m nodes m' nodes'"
  shows "edges_agree orig m' nodes'"
proof (cases "(m', nodes') = (m, nodes)")
  case False
  with c obtain t where cyc: "(t, t) \<in> {(x, y). map_of m x = Some y}\<^sup>+"
    and m': "m' = sdel t m" and n': "nodes' = drop_by_tag t nodes"
    unfolding cut_def by blast
  have tt: "(t, t) \<in> (detour_rel orig)\<^sup>+"
    using cyc e trancl_mono unfolding edges_agree_def by blast
  then have "\<exists>z. (z, t) \<in> detour_rel orig" by (meson tranclE)
  then have t: "t \<noteq> []" by (auto simp: detour_rel_def is_node_tag_def)
  have "list_all2 (\<lambda>n n'. n' = n \<or> n' = drop_detour n \<and> (nd_tag n, nd_tag n) \<in> (detour_rel orig)\<^sup>+) orig nodes'"
    unfolding n'
    by (rule list_all2_trans[OF _ conjunct1[OF e[unfolded edges_agree_def]] list_all2_drop_by_tag]) (use tt in auto)
  moreover have "{(x, y). map_of m' x = Some y} \<subseteq> detour_rel orig"
    using e unfolding edges_agree_def m' by (auto split: if_splits)
  moreover have "dialled_once nodes' \<subseteq> {(x, y). map_of m' x = Some y}"
    using e dialled_once_drop[OF _ t, of _ nodes] unfolding edges_agree_def m' n' by fastforce
  ultimately show ?thesis by (simp add: edges_agree_def)
qed (use e in simp)

text \<open>The last node of a tag decides its edge; a tag of one node has no other.\<close>

lemma detour_edges_lookup:
  fixes T ns
  defines "m \<equiv> fold (\<lambda>n m.
         if node_detour n = [] then m
         else if node_detour n = nd_tag n then m
         else if T (node_detour n) then sput (nd_tag n) (node_detour n) m
         else m) ns []"
  shows "map_of m x = Some y \<Longrightarrow> \<exists>n \<in> set ns. nd_tag n = x \<and> node_detour n = y \<and> y \<noteq> [] \<and> y \<noteq> x \<and> T y"
    and "count_list (map nd_tag ns) x = 1 \<Longrightarrow> n \<in> set ns \<Longrightarrow> nd_tag n = x \<Longrightarrow> node_detour n \<noteq> [] \<Longrightarrow>
      node_detour n \<noteq> x \<Longrightarrow> T (node_detour n) \<Longrightarrow> map_of m x = Some (node_detour n)"
  unfolding m_def
  by (induction ns rule: rev_induct)
    (auto simp: count_list_0_iff split: if_splits)

lemma edges_agree_initial: "edges_agree orig (detour_edges orig) (drop_self_detours orig)"
proof -
  let ?f = "\<lambda>n. if node_detour n \<noteq> [] \<and> node_detour n = nd_tag n then drop_detour n else n"
  have tags: "map nd_tag (map ?f orig) = map nd_tag orig" by simp
  note it = is_node_tag_cong[OF tags]
  have "(nd_tag n, nd_tag n) \<in> (detour_rel orig)\<^sup>+" if "n \<in> set orig" "node_detour n \<noteq> []" "node_detour n = nd_tag n" for n
    using that by (intro r_into_trancl) (force simp: detour_rel_def is_node_tag_def)
  then have "list_all2 (\<lambda>n n'. n' = n \<or> n' = drop_detour n \<and> (nd_tag n, nd_tag n) \<in> (detour_rel orig)\<^sup>+)
      orig (drop_self_detours orig)"
    by (auto simp: drop_self_detours_def list_all2_map2 list_all2_same)
  moreover have "{(x, y). map_of (detour_edges orig) x = Some y} \<subseteq> detour_rel orig"
    using detour_edges_lookup(1)[of "is_node_tag orig" orig]
    by (fastforce simp: detour_edges_def detour_rel_def)
  moreover have "dialled_once (drop_self_detours orig) \<subseteq> {(x, y). map_of (detour_edges orig) x = Some y}"
  proof
    fix e assume "e \<in> dialled_once (drop_self_detours orig)"
    then obtain n where n: "n \<in> set orig" "e = (nd_tag n, node_detour (?f n))" "is_node_tag orig (node_detour (?f n))"
      and c: "count_list (map nd_tag orig) (nd_tag n) = 1"
      unfolding dialled_once_def drop_self_detours_def tags detour_rel_def it by auto
    then have "node_detour n \<noteq> []" "node_detour n \<noteq> nd_tag n" "?f n = n"
      by (auto simp: is_node_tag_def split: if_splits)
    with n c detour_edges_lookup(2)[OF c n(1), of "is_node_tag orig"] show "e \<in> {(x, y). map_of (detour_edges orig) x = Some y}"
      by (simp add: detour_edges_def)
  qed
  ultimately show ?thesis by (simp add: edges_agree_def)
qed

lemma forest_acyclic:
  assumes "forest m black" "fst ` set m \<subseteq> set black"
  shows "acyclic {(x, y). map_of m x = Some y}"
proof -
  obtain r :: "string \<Rightarrow> nat" where r: "\<forall>x \<in> set black. \<forall>y. map_of m x = Some y \<longrightarrow> y \<in> set black \<and> r y < r x"
    using assms(1) unfolding forest_def by blast
  have "map_of m x = Some y \<Longrightarrow> x \<in> set black" for x y
    using assms(2) by (metis domI dom_map_of_conv_image_fst subsetD)
  with r have "{(x, y). map_of m x = Some y} \<subseteq> (measure r)\<inverse>" by auto
  moreover have "acyclic ((measure r)\<inverse>)" by (simp add: wf_acyclic)
  ultimately show ?thesis by (rule acyclic_subset[rotated])
qed

lemma cut_keys: "cut m k m' k' \<Longrightarrow> fst ` set m' \<subseteq> fst ` set m"
  by (auto simp: cut_def set_sdel)

text \<open>
  C3. Whatever the order in which the map of detours is searched, afterwards no detours between
  nodes whose tags no other node has lead back to where they started, so among them the core meets
  no dependency cycle; and a node loses its detour only if its tag lay on a cycle before: every
  other node is left as it is. (A tag that several nodes carry can hide a ring: see
  \<open>repeated_tag_keeps_detour_ring\<close>.)
\<close>

theorem sanitized_detours_acyclic:
  assumes "fst ` set (detour_edges nodes) \<subseteq> set order"
  shows "acyclic (dialled_once (sanitize_node_detours order nodes)) \<and>
    list_all2 (\<lambda>n n'. n' = n \<or> n' = drop_detour n \<and> (nd_tag n, nd_tag n) \<in> (detour_rel nodes)\<^sup>+)
      nodes (sanitize_node_detours order nodes)"
proof -
  obtain m b ns where fin: "fold sanitize_step order (detour_edges nodes, [], drop_self_detours nodes) = (m, b, ns)"
    by (metis prod_cases3)
  have f0: "forest (detour_edges nodes) []" by (simp add: forest_def)
  have "edges_agree nodes m ns \<and> fst ` set m \<subseteq> set order"
  proof (rule sanitize_fold_cut[OF f0 fin, where P = "\<lambda>m ns. edges_agree nodes m ns \<and> fst ` set m \<subseteq> set order"])
    show "edges_agree nodes (detour_edges nodes) (drop_self_detours nodes) \<and> fst ` set (detour_edges nodes) \<subseteq> set order"
      using edges_agree_initial assms by blast
  next
    fix m k m' k' assume p: "edges_agree nodes m k \<and> fst ` set m \<subseteq> set order" and c: "cut m k m' k'"
    show "edges_agree nodes m' k' \<and> fst ` set m' \<subseteq> set order"
      using edges_agree_cut[OF conjunct1[OF p] c] order_trans[OF cut_keys[OF c] conjunct2[OF p]]
      by (rule conjI)
  qed
  moreover have "forest m b" "set order \<subseteq> set b" using sanitize_fold_forest[OF f0 fin] by auto
  moreover have "sanitize_node_detours order nodes = ns" by (simp add: sanitize_node_detours_def fin)
  ultimately show ?thesis
    using forest_acyclic[of m b] acyclic_subset[of "{(x, y). map_of m x = Some y}" "dialled_once ns"]
    by (auto simp: edges_agree_def)
qed

definition plain_node :: "string \<Rightarrow> int \<Rightarrow> string \<Rightarrow> parsed_node" where
  "plain_node t i d =
     \<lparr>nd_tag = t, nd_scheme = ''trojan'', nd_server = ''h'', nd_port = 443, nd_uuid = t, nd_flow = [],
      nd_outbound = (if d = [] then None else Some [(''detour'', GStr d)]), nd_label = t,
      nd_comment = [], nd_jump = None, nd_source_tag = [], nd_chain = [], nd_source_index = i,
      nd_emit_raw = False\<rparr>"

theorem sanitized_detours_acyclic_witness:
  "acyclic (dialled_once (sanitize_node_detours [''b'', ''a'', ''c'']
     [plain_node ''a'' 0 ''b'', plain_node ''b'' 0 ''a'', plain_node ''c'' 0 ''a''])) \<and>
   map node_detour (sanitize_node_detours [''b'', ''a'', ''c'']
     [plain_node ''a'' 0 ''b'', plain_node ''b'' 0 ''a'', plain_node ''c'' 0 ''a'']) = [''b'', [], ''a'']"
proof -
  let ?ns = "[plain_node ''a'' 0 ''b'', plain_node ''b'' 0 ''a'', plain_node ''c'' 0 ''a'']"
  have o': "fst ` set (detour_edges ?ns) \<subseteq> set [''b'', ''a'', ''c'']" by code_simp
  have v: "map node_detour (sanitize_node_detours [''b'', ''a'', ''c''] ?ns) = [''b'', [], ''a'']" by code_simp
  from sanitized_detours_acyclic[OF o'] v show ?thesis by blast
qed

text \<open>
  The edge of a tag is the one of the last node that has one, while the detour is dropped from the
  last node of the tag: where a later node of the tag has no detour the ring is not broken.
\<close>

theorem repeated_tag_keeps_detour_ring:
  "map (\<lambda>n. (nd_tag n, node_detour n)) (sanitize_node_detours [''a'', ''b'']
     [plain_node ''a'' 0 ''b'', plain_node ''a'' 0 [], plain_node ''b'' 0 ''a'']) =
   [(''a'', ''b''), (''a'', []), (''b'', ''a'')]"
  by code_simp

section \<open>Sources chained through a node\<close>

lemma find_by_hash_Some:
  "find_by_hash ident h k ns = Some j \<Longrightarrow> k \<le> j \<and> j < k + length ns \<and> ident (ns ! (j - k)) = h \<and> h \<noteq> []"
proof (induction ns arbitrary: k)
  case (Cons n ns)
  show ?case
  proof (cases "j = k")
    case True
    with Cons.prems Cons.IH[of "Suc k"] show ?thesis by (auto split: if_splits)
  next
    case False
    with Cons.prems have "find_by_hash ident h (Suc k) ns = Some j" by (simp split: if_splits)
    from Cons.IH[OF this] show ?thesis by (auto simp: nth_Cons')
  qed
qed simp

lemma of_source_unique: "of_source i n \<Longrightarrow> of_source j n \<Longrightarrow> i = j"
  by (simp add: of_source_def)

lemma of_source_stamp [simp]: "of_source i (stamp_detour t n) = of_source i n"
  by (simp add: of_source_def stamp_detour_def)

text \<open>What the loop over the chained sources makes of the node at one position.\<close>

definition stamped_node ::
    "(nat \<Rightarrow> nat option) \<Rightarrow> parsed_node list \<Rightarrow> nat list \<Rightarrow> nat \<Rightarrow> parsed_node" where
  "stamped_node target nodes srcs k =
     (case List.find (\<lambda>i. of_source i (nodes ! k)) srcs of
        None \<Rightarrow> nodes ! k
      | Some i \<Rightarrow>
          (case target i of
             None \<Rightarrow> nodes ! k
           | Some j \<Rightarrow> if k = j then nodes ! k else stamp_detour (nd_tag (nodes ! j)) (nodes ! k)))"

lemma find_snoc:
  "List.find P (xs @ [x]) = (case List.find P xs of Some y \<Rightarrow> Some y | None \<Rightarrow> if P x then Some x else None)"
  by (induction xs) auto

lemma stamp_source_nth:
  "k < length ns \<Longrightarrow>
   stamp_source i j t ns ! k = (if of_source i (ns ! k) \<and> k \<noteq> j then stamp_detour t (ns ! k) else ns ! k)"
  by (simp add: stamp_source_def nth_enumerate_eq)

lemma stamp_source_length [simp]: "length (stamp_source i j t ns) = length ns"
  by (simp add: stamp_source_def)

lemma hash_step_simps:
  "target i = None \<Longrightarrow> hash_step target nodes i s = (fst s, i # snd s)"
  "target i = Some j \<Longrightarrow>
   hash_step target nodes i s = (stamp_source i j (nd_tag (nodes ! j)) (fst s), snd s)"
  by (simp_all add: hash_step_def)

lemma stamp_loop:
  assumes "distinct srcs"
    and "fold (hash_step target nodes) srcs (nodes, []) = (ns, dr)"
  shows "length ns = length nodes \<and> (\<forall>k < length nodes. ns ! k = stamped_node target nodes srcs k) \<and>
    set dr = {i \<in> set srcs. target i = None}"
  using assms
proof (induction srcs arbitrary: ns dr rule: rev_induct)
  case Nil
  then show ?case by (simp add: stamped_node_def)
next
  case (snoc i srcs)
  obtain ns0 dr0 where f: "fold (hash_step target nodes) srcs (nodes, []) = (ns0, dr0)"
    by (metis surj_pair)
  from snoc.prems(1) have di: "distinct srcs" "i \<notin> set srcs" by auto
  note IH = snoc.IH[OF di(1) f]
  have fresh: "List.find (\<lambda>i. of_source i (nodes ! k)) srcs = None" if "of_source i (nodes ! k)" for k
    using di(2) of_source_unique[OF that] by (auto simp: find_None_iff)
  show ?case
  proof (cases "target i")
    case None
    with snoc.prems(2) f have "ns = ns0" "dr = i # dr0" by (auto simp: hash_step_simps)
    moreover have "stamped_node target nodes (srcs @ [i]) k = stamped_node target nodes srcs k" for k
      using None by (auto simp: stamped_node_def find_snoc split: option.splits)
    ultimately show ?thesis using IH None by auto
  next
    case (Some j)
    with snoc.prems(2) f have ns: "ns = stamp_source i j (nd_tag (nodes ! j)) ns0" "dr = dr0" by (auto simp: hash_step_simps)
    have "ns ! k = stamped_node target nodes (srcs @ [i]) k" if k: "k < length nodes" for k
    proof (cases "of_source i (nodes ! k)")
      case True
      from IH k have l: "k < length ns0" by simp
      from IH k fresh[OF True] have n0: "ns0 ! k = nodes ! k" by (simp add: stamped_node_def)
      have st: "stamped_node target nodes (srcs @ [i]) k =
          (if k = j then nodes ! k else stamp_detour (nd_tag (nodes ! j)) (nodes ! k))"
        using fresh[OF True] True Some by (simp only: stamped_node_def find_snoc option.case if_True)
      show ?thesis unfolding ns(1) stamp_source_nth[OF l] n0 st using True by simp
    next
      case False
      have "of_source i (ns0 ! k) = of_source i (nodes ! k)"
        using IH k by (simp add: stamped_node_def split: option.split)
      with False k IH show ?thesis
        by (simp add: ns stamp_source_nth stamped_node_def find_snoc split: option.split)
    qed
    with ns IH Some show ?thesis by auto
  qed
qed

text \<open>The result: the stamped nodes, but for those of the sources without a hop.\<close>

lemma resolved_set:
  fixes ident proxies nodes
  defines "target \<equiv> \<lambda>i. find_by_hash ident (source_hash proxies i) 0 nodes"
  shows "set (resolve_node_hash_detours ident proxies nodes) =
    {stamped_node target nodes (hash_sources proxies nodes) k | k. k < length nodes \<and>
       (\<forall>i \<in> set (hash_sources proxies nodes). of_source i (nodes ! k) \<longrightarrow> target i \<noteq> None)}"
proof -
  let ?srcs = "hash_sources proxies nodes"
  obtain ns dr where f: "fold (hash_step target nodes) ?srcs (nodes, []) = (ns, dr)"
    by (metis surj_pair)
  have "distinct ?srcs" by (simp add: hash_sources_def)
  note L = stamp_loop[OF this f]
  have src: "of_source i (stamped_node target nodes ?srcs k) = of_source i (nodes ! k)" for i k
    by (simp add: stamped_node_def split: option.split)
  have res: "resolve_node_hash_detours ident proxies nodes = filter (\<lambda>n. \<not> (\<exists>i \<in> set dr. of_source i n)) ns"
    using f by (simp add: resolve_node_hash_detours_def target_def)
  have "ns = map (stamped_node target nodes ?srcs) [0..<length nodes]"
    using L by (intro nth_equalityI) simp_all
  moreover have "set dr = {i \<in> set ?srcs. target i = None}" using L by simp
  ultimately show ?thesis unfolding res by (force simp: src)
qed

text \<open>
  C26. A source chained through a node fails closed at this stage: a node of it is kept only when
  the chosen hop is among the loaded nodes, and then its detour is the hop's tag, unless it is the
  hop itself, has an Xray jump of its own, or is a WireGuard node with a listen port, which the
  core refuses to combine with a detour. The hop is still there afterwards, unless its own source
  is chained through a node that is missing (see \<open>dropped_hop_leaves_dangling_detour\<close>).
\<close>

theorem hash_chained_source_fails_closed:
  assumes "n \<in> set (resolve_node_hash_detours ident proxies nodes)"
    and "of_source i n" "i < length proxies" "source_hash proxies i \<noteq> []"
  shows "\<exists>hop \<in> set nodes. ident hop = source_hash proxies i \<and>
    (n = hop \<or> get_str (ob n) ''detour'' = Some (nd_tag hop) \<or> nd_jump n \<noteq> None \<or>
     (nd_scheme n = ''wireguard'' \<and> map_of (ob n) ''listen_port'' \<noteq> None)) \<and>
    (nd_tag hop \<in> nd_tag ` set (resolve_node_hash_detours ident proxies nodes) \<or>
     (\<exists>i' < length proxies. of_source i' hop \<and> source_hash proxies i' \<noteq> [] \<and>
        find_by_hash ident (source_hash proxies i') 0 nodes = None))"
proof -
  let ?target = "\<lambda>i. find_by_hash ident (source_hash proxies i) 0 nodes"
  let ?srcs = "hash_sources proxies nodes"
  obtain k where k: "k < length nodes" "n = stamped_node ?target nodes ?srcs k"
    and t: "\<And>i. i \<in> set ?srcs \<Longrightarrow> of_source i (nodes ! k) \<Longrightarrow> ?target i \<noteq> None"
    using assms(1) unfolding resolved_set by blast
  have src: "of_source i (nodes ! k)"
    using assms(2) unfolding k(2) by (simp add: stamped_node_def split: option.splits if_splits)
  then have "filter (of_source i) nodes \<noteq> []"
    using k(1) by (metis filter_empty_conv nth_mem)
  then have hs: "i \<in> set ?srcs" using assms(3,4) by (simp add: hash_sources_def)
  from t[OF hs src] obtain j where j: "?target i = Some j" by blast
  from find_by_hash_Some[OF j] have jn: "j < length nodes" "ident (nodes ! j) = source_hash proxies i" by auto
  have "List.find (\<lambda>i. of_source i (nodes ! k)) ?srcs = Some i"
    using hs src of_source_unique by (cases "List.find (\<lambda>i. of_source i (nodes ! k)) ?srcs")
      (auto simp: find_None_iff find_Some_iff)
  then have "n = nodes ! j \<or> n = stamp_detour (nd_tag (nodes ! j)) (nodes ! k)"
    using k j by (auto simp: stamped_node_def)
  then have stamped: "n = nodes ! j \<or> get_str (ob n) ''detour'' = Some (nd_tag (nodes ! j)) \<or> nd_jump n \<noteq> None \<or>
     (nd_scheme n = ''wireguard'' \<and> map_of (ob n) ''listen_port'' \<noteq> None)"
    by (auto simp: stamp_detour_def ob_def get_str_def split: if_splits)
  have there: "nd_tag (nodes ! j) \<in> nd_tag ` set (resolve_node_hash_detours ident proxies nodes) \<or>
     (\<exists>i' < length proxies. of_source i' (nodes ! j) \<and> source_hash proxies i' \<noteq> [] \<and> ?target i' = None)"
  proof (cases "\<forall>i \<in> set ?srcs. of_source i (nodes ! j) \<longrightarrow> ?target i \<noteq> None")
    case True
    then have "stamped_node ?target nodes ?srcs j \<in> set (resolve_node_hash_detours ident proxies nodes)"
      using jn(1) unfolding resolved_set by blast
    moreover have "nd_tag (stamped_node ?target nodes ?srcs j) = nd_tag (nodes ! j)"
      by (simp add: stamped_node_def stamp_detour_def split: option.split)
    ultimately show ?thesis by (metis image_eqI)
  next
    case False
    then show ?thesis by (auto simp: hash_sources_def)
  qed
  from jn stamped there show ?thesis by (intro bexI[of _ "nodes ! j"]) auto
qed

definition chained_source :: "string \<Rightarrow> proxy_source" where
  "chained_source h =
     \<lparr>ps_source = ''u'', ps_connections = [], ps_skip = [], ps_outbounds = [], ps_tag_prefix = [],
      ps_tag_postfix = [], ps_tag_mask = [], ps_exclude_from_global = False,
      ps_expose_group_tags = False, ps_disabled = False, ps_detour_tag = [],
      ps_detour_node_hash = h, ps_detour_node_label = [], ps_disabled_nodes = [],
      ps_config_json = None\<rparr>"

theorem hash_chained_source_fails_closed_witness:
  "resolve_node_hash_detours nd_uuid [chained_source ''b'', chained_source [], chained_source ''gone'']
     [plain_node ''a'' 0 [], plain_node ''b'' 1 [], plain_node ''c'' 2 []] =
     [plain_node ''a'' 0 ''b'', plain_node ''b'' 1 []] \<and>
   (\<exists>hop \<in> set [plain_node ''a'' 0 [], plain_node ''b'' 1 [], plain_node ''c'' 2 []]. nd_uuid hop = ''b'')"
proof -
  let ?ps = "[chained_source ''b'', chained_source [], chained_source ''gone'']"
  let ?ns = "[plain_node ''a'' 0 [], plain_node ''b'' 1 [], plain_node ''c'' 2 []]"
  have r: "resolve_node_hash_detours nd_uuid ?ps ?ns = [plain_node ''a'' 0 ''b'', plain_node ''b'' 1 []]"
    by code_simp
  have m: "plain_node ''a'' 0 ''b'' \<in> set (resolve_node_hash_detours nd_uuid ?ps ?ns)" by (simp add: r)
  have s: "of_source 0 (plain_node ''a'' 0 ''b'')" "0 < length ?ps" by (simp_all add: of_source_def plain_node_def)
  have h: "source_hash ?ps 0 = ''b''" by code_simp
  then have "source_hash ?ps 0 \<noteq> []" by simp
  from hash_chained_source_fails_closed[OF m s this] r show ?thesis unfolding h by blast
qed

text \<open>
  The hop itself may be dropped: when its own source is chained through a node that is gone,
  the source chained through it keeps its nodes, and their detour names an outbound that is not
  in the configuration.
\<close>

theorem dropped_hop_leaves_dangling_detour:
  "map (\<lambda>n. (nd_tag n, node_detour n))
     (resolve_node_hash_detours nd_uuid [chained_source ''b'', chained_source ''gone'']
       [plain_node ''a'' 0 [], plain_node ''b'' 1 []]) = [(''a'', ''b'')]"
  by code_simp

text \<open>
  Two sources chained through one node of each other both pass, but the cycle search then
  removes one of the two detours, whichever its map order meets first: that node dials directly,
  which chaining through a node is there to rule out.
\<close>

theorem mutual_chain_dials_directly:
  "map (\<lambda>order. map node_detour (sanitize_node_detours order
      (resolve_node_hash_detours nd_uuid [chained_source ''b'', chained_source ''a'']
        [plain_node ''a'' 0 [], plain_node ''b'' 1 []])))
     [[''a'', ''b''], [''b'', ''a'']] = [[[], ''a''], [''b'', []]]"
  by code_simp

end
