(* ===== verification/Selectors.thy ===== *)
theory Selectors
  imports Detours
begin

text \<open>
  Selectors over the nodes, \<open>core/config/outbound_validity.go\<close> (the three passes),
  \<open>outbound_filter.go\<close> and \<open>configtypes/matcher.go\<close> (filters), and the selector emitter of
  \<open>outbound_generator.go\<close>. The regular-expression engine is the parameter \<open>compile\<close>, \<open>None\<close> for
  an expression it rejects. The two maps of the second pass, dependents and in-degrees, are built
  from one list of edges in the order the code appends them; the orders in which Go ranges over
  \<open>outboundsInfo\<close> are parameters.
\<close>

section \<open>Patterns, \<open>matcher.go\<close>\<close>

definition trim_regex_pattern :: "string \<Rightarrow> (string \<times> bool) option" where
  "trim_regex_pattern p =
     (if \<not> prefix ''/'' p then None
      else if suffix ''/i'' p \<and> 3 < length p then Some (take (length p - 3) (drop 1 p), True)
      else if suffix ''/'' p \<and> 2 < length p then Some (take (length p - 2) (drop 1 p), False)
      else None)"

type_synonym regex_engine = "string \<Rightarrow> (string \<Rightarrow> bool) option"

definition compile_filter_regex :: "regex_engine \<Rightarrow> string \<Rightarrow> bool \<Rightarrow> (string \<Rightarrow> bool) option" where
  "compile_filter_regex compile r ci = (if ci then compile (''(?i)'' @ r) else compile r)"

definition matches_pattern :: "regex_engine \<Rightarrow> string \<Rightarrow> string \<Rightarrow> bool" where
  "matches_pattern compile value pattern =
     (if prefix ''!'' pattern \<and> \<not> prefix ''!/'' pattern then value \<noteq> drop 1 pattern
      else
        (case (if prefix ''!/'' pattern then trim_regex_pattern (drop 1 pattern) else None) of
           Some (r, ci) \<Rightarrow>
             (case compile_filter_regex compile r ci of None \<Rightarrow> False | Some f \<Rightarrow> \<not> f value)
         | None \<Rightarrow>
             (case (if prefix ''/'' pattern then trim_regex_pattern pattern else None) of
                Some (r, ci) \<Rightarrow>
                  (case compile_filter_regex compile r ci of None \<Rightarrow> False | Some f \<Rightarrow> f value)
              | None \<Rightarrow> value = pattern)))"

section \<open>Filters, \<open>outbound_filter.go\<close>\<close>

definition get_node_value :: "parsed_node \<Rightarrow> string \<Rightarrow> string" where
  "get_node_value n key =
     (if key = ''tag'' then nd_tag n
      else if key = ''host'' then nd_server n
      else if key = ''label'' then nd_label n
      else if key = ''scheme'' then nd_scheme n
      else if key = ''fragment'' then nd_label n
      else if key = ''comment'' then nd_comment n
      else if key = ''flow'' then nd_flow n
      else [])"

definition convert_filter_to_string_map :: "obj \<Rightarrow> string smap" where
  "convert_filter_to_string_map m =
     List.map_filter (\<lambda>(k, v). case v of JStr s \<Rightarrow> Some (k, s) | _ \<Rightarrow> None) m"

definition matches_filter :: "regex_engine \<Rightarrow> parsed_node \<Rightarrow> string smap \<Rightarrow> bool" where
  "matches_filter compile n flt =
     list_all (\<lambda>(key, pattern). matches_pattern compile (get_node_value n key) pattern) flt"

definition filter_nodes_for_selector ::
    "regex_engine \<Rightarrow> parsed_node list \<Rightarrow> json \<Rightarrow> parsed_node list" where
  "filter_nodes_for_selector compile nodes flt =
     (case flt of
        JNull \<Rightarrow> nodes
      | JObj m \<Rightarrow>
          if m = [] then nodes
          else filter (\<lambda>n. matches_filter compile n (convert_filter_to_string_map m)) nodes
      | JArr fs \<Rightarrow>
          filter (\<lambda>n. list_ex (\<lambda>f. case f of
              JObj m \<Rightarrow> matches_filter compile n (convert_filter_to_string_map m) | _ \<Rightarrow> False) fs) nodes
      | _ \<Rightarrow> [])"

definition filters_of :: "outbound_config \<Rightarrow> json" where
  "filters_of oc = JObj (obj_of (oc_filters oc))"

definition filter_nodes_exclude_from_global :: "parsed_node list \<Rightarrow> proxy_source list \<Rightarrow> parsed_node list" where
  "filter_nodes_exclude_from_global nodes proxies =
     filter (\<lambda>n. let idx = nd_source_index n in
       idx < 0 \<or> int (length proxies) \<le> idx \<or> \<not> ps_exclude_from_global (proxies ! nat idx)) nodes"

definition preferred_default_tag :: "regex_engine \<Rightarrow> outbound_config \<Rightarrow> parsed_node list \<Rightarrow> string" where
  "preferred_default_tag compile oc filtered =
     (if obj_of (oc_preferred oc) = [] then []
      else (case List.find (\<lambda>n. matches_filter compile n
                 (convert_filter_to_string_map (obj_of (oc_preferred oc)))) filtered of
              None \<Rightarrow> [] | Some n \<Rightarrow> nd_tag n))"

definition preview_selector_nodes ::
    "regex_engine \<Rightarrow> parsed_node list \<Rightarrow> outbound_config \<Rightarrow> parsed_node list \<times> string" where
  "preview_selector_nodes compile nodes oc =
     (let filtered = filter_nodes_for_selector compile nodes (filters_of oc)
      in (filtered, preferred_default_tag compile oc filtered))"

definition preview_global_selector_nodes ::
    "regex_engine \<Rightarrow> parsed_node list \<Rightarrow> proxy_source list \<Rightarrow> outbound_config \<Rightarrow> parsed_node list \<times> string" where
  "preview_global_selector_nodes compile nodes proxies oc =
     preview_selector_nodes compile (filter_nodes_exclude_from_global nodes proxies) oc"

definition expose_tag_synthetic_node :: "string \<Rightarrow> string \<Rightarrow> parsed_node" where
  "expose_tag_synthetic_node t c =
     \<lparr>nd_tag = t, nd_scheme = [], nd_server = [], nd_port = 0, nd_uuid = [], nd_flow = [],
      nd_outbound = None, nd_label = [], nd_comment = c, nd_jump = None, nd_source_tag = [],
      nd_chain = [], nd_source_index = unset_source_index, nd_emit_raw = False\<rparr>"

definition selector_filters_accept_node :: "regex_engine \<Rightarrow> json \<Rightarrow> parsed_node \<Rightarrow> bool" where
  "selector_filters_accept_node compile flt n \<longleftrightarrow> filter_nodes_for_selector compile [n] flt \<noteq> []"

section \<open>Tags exposed to the global selectors\<close>

record expose_candidate =
  xc_tag :: string
  xc_comment :: string

definition comment_has_wizard_local_outbound_marker :: "string \<Rightarrow> bool" where
  "comment_has_wizard_local_outbound_marker c \<longleftrightarrow>
     sublist ''WIZARD:auto'' c \<or> sublist ''WIZARD:select'' c \<or> sublist ''WIZARD:selector'' c"

definition collect_expose_tag_candidates :: "parser_config \<Rightarrow> expose_candidate list" where
  "collect_expose_tag_candidates pc =
     concat (map (\<lambda>ps. if \<not> ps_expose_group_tags ps then []
         else map (\<lambda>oc. \<lparr>xc_tag = oc_tag oc, xc_comment = oc_comment oc\<rparr>)
                (filter (\<lambda>oc. oc_tag oc \<noteq> [] \<and> comment_has_wizard_local_outbound_marker (oc_comment oc))
                  (ps_outbounds ps)))
       (pc_proxies pc))"

definition accepts_candidate :: "regex_engine \<Rightarrow> outbound_config \<Rightarrow> expose_candidate \<Rightarrow> bool" where
  "accepts_candidate compile oc c \<longleftrightarrow>
     selector_filters_accept_node compile (filters_of oc)
       (expose_tag_synthetic_node (xc_tag c) (xc_comment c))"

section \<open>Pass 1\<close>

record outbound_info =
  oi_config :: outbound_config
  oi_nodes :: "parsed_node list"
  oi_count :: nat
  oi_valid :: bool
  oi_local :: bool

type_synonym infos = "outbound_info smap"

definition info_for :: "regex_engine \<Rightarrow> bool \<Rightarrow> parsed_node list \<Rightarrow> outbound_config \<Rightarrow> outbound_info" where
  "info_for compile loc nodes oc =
     (let flt = filter_nodes_for_selector compile nodes (filters_of oc)
      in \<lparr>oi_config = oc, oi_nodes = flt, oi_count = length flt, oi_valid = False, oi_local = loc\<rparr>)"

text \<open>The configurations of both levels with the nodes they choose from, in the order of the passes.\<close>

definition local_selectors :: "parser_config \<Rightarrow> parsed_node list \<Rightarrow> (parsed_node list \<times> outbound_config) list" where
  "local_selectors pc nodes =
     concat (map (\<lambda>(i, ps). map (Pair (filter (of_source i) nodes)) (ps_outbounds ps))
       (enumerate 0 (pc_proxies pc)))"

definition global_selectors :: "parser_config \<Rightarrow> parsed_node list \<Rightarrow> (parsed_node list \<times> outbound_config) list" where
  "global_selectors pc pool = map (Pair pool) (pc_outbounds pc)"

definition build_outbounds_info ::
    "regex_engine \<Rightarrow> parser_config \<Rightarrow> parsed_node list \<Rightarrow> parsed_node list \<Rightarrow> infos" where
  "build_outbounds_info compile pc nodes pool =
     fold (\<lambda>(ns, oc). sput (oc_tag oc) (info_for compile False ns oc)) (global_selectors pc pool)
       (fold (\<lambda>(ns, oc). sput (oc_tag oc) (info_for compile True ns oc)) (local_selectors pc nodes) [])"

section \<open>Pass 2\<close>

text \<open>Edges \<open>(dependency, dependent)\<close> from added tags, in the order of a range over the infos.\<close>

definition add_edges :: "infos \<Rightarrow> string list \<Rightarrow> (string \<times> string) list" where
  "add_edges infos order =
     concat (map (\<lambda>t. case map_of infos t of
         None \<Rightarrow> []
       | Some info \<Rightarrow>
           map (\<lambda>a. (a, t)) (filter (\<lambda>a. map_of infos a \<noteq> None) (oc_add (oi_config info)))) order)"

definition augment_for_expose ::
    "regex_engine \<Rightarrow> infos \<Rightarrow> outbound_config list \<Rightarrow> expose_candidate list \<Rightarrow> (string \<times> string) list" where
  "augment_for_expose compile infos globals cands =
     dedup_from [] (concat (map (\<lambda>g. case map_of infos (oc_tag g) of
         None \<Rightarrow> []
       | Some info \<Rightarrow>
           if oi_local info then []
           else map (\<lambda>c. (xc_tag c, oc_tag g))
                  (filter (\<lambda>c. accepts_candidate compile g c \<and> map_of infos (xc_tag c) \<noteq> None) cands))
       globals))"

definition dependency_edges ::
    "regex_engine \<Rightarrow> infos \<Rightarrow> outbound_config list \<Rightarrow> expose_candidate list \<Rightarrow> string list \<Rightarrow>
     (string \<times> string) list" where
  "dependency_edges compile infos globals cands order =
     add_edges infos order @ augment_for_expose compile infos globals cands"

definition dependents_of :: "(string \<times> string) list \<Rightarrow> string \<Rightarrow> string list" where
  "dependents_of edges t = map snd (filter (\<lambda>e. fst e = t) edges)"

definition in_degree :: "(string \<times> string) list \<Rightarrow> string \<Rightarrow> int" where
  "in_degree edges t = int (length (filter (\<lambda>e. snd e = t) edges))"

fun credit_from ::
    "regex_engine \<Rightarrow> outbound_info \<Rightarrow> infos \<Rightarrow> string list \<Rightarrow> expose_candidate list \<Rightarrow> nat" where
  "credit_from compile info infos seen [] = 0"
| "credit_from compile info infos seen (c # cs) =
     (if xc_tag c \<in> set seen then credit_from compile info infos seen cs
      else if \<not> accepts_candidate compile (oi_config info) c then credit_from compile info infos seen cs
      else (case map_of infos (xc_tag c) of
              Some ref \<Rightarrow> (if oi_valid ref then 1 else 0)
            | None \<Rightarrow> 1) + credit_from compile info infos (xc_tag c # seen) cs)"

definition global_outbound_expose_credit ::
    "regex_engine \<Rightarrow> outbound_info \<Rightarrow> infos \<Rightarrow> expose_candidate list \<Rightarrow> nat" where
  "global_outbound_expose_credit compile info infos cands =
     (if oi_local info then 0 else credit_from compile info infos [] cands)"

definition add_counts :: "infos \<Rightarrow> string \<Rightarrow> bool" where
  "add_counts infos a = (case map_of infos a of Some i \<Rightarrow> 0 < oi_count i | None \<Rightarrow> True)"

text \<open>What the loop does with the selector it takes from the queue.\<close>

definition settle :: "regex_engine \<Rightarrow> expose_candidate list \<Rightarrow> string \<Rightarrow> infos \<Rightarrow> infos" where
  "settle compile cands current infos =
     (case map_of infos current of
        None \<Rightarrow> infos
      | Some info \<Rightarrow>
          (let total = length (oi_nodes info) + global_outbound_expose_credit compile info infos cands +
                 length (filter (add_counts infos) (oc_add (oi_config info)))
           in sput current (info\<lparr>oi_count := total, oi_valid := 0 < total\<rparr>) infos))"

fun decr :: "string \<Rightarrow> (string \<times> int) list \<Rightarrow> (string \<times> int) list" where
  "decr t [] = []"
| "decr t ((k, d) # m) = (if k = t then (k, d - 1) # m else (k, d) # decr t m)"

fun release :: "string list \<Rightarrow> (string \<times> int) list \<times> string list \<Rightarrow> (string \<times> int) list \<times> string list" where
  "release [] s = s"
| "release (t # ts) (deg, queue) =
     (let deg' = decr t deg in
      release ts (deg', if map_of deg' t = Some 0 then queue @ [t] else queue))"

text \<open>Degrees above zero pay for the tags they may still put into the queue.\<close>

definition pending :: "(string \<times> int) list \<Rightarrow> nat" where
  "pending deg = sum_list (map (\<lambda>p. nat (snd p)) deg)"

lemma decr_pending:
  "map_of (decr t deg) t = Some 0 \<Longrightarrow> Suc (pending (decr t deg)) = pending deg"
  "pending (decr t deg) \<le> pending deg"
  by (induction deg) (auto simp: pending_def split: if_splits)

lemma release_pending:
  "2 * pending (fst (release ts (deg, queue))) + length (snd (release ts (deg, queue))) \<le>
   2 * pending deg + length queue"
proof (induction ts arbitrary: deg queue)
  case (Cons t ts)
  let ?q = "if map_of (decr t deg) t = Some 0 then queue @ [t] else queue"
  have "2 * pending (decr t deg) + length ?q \<le> 2 * pending deg + length queue"
    using decr_pending[of t deg] by auto
  with Cons[of "decr t deg" ?q] show ?case by (simp add: Let_def)
qed simp

function kahn ::
    "(string \<Rightarrow> 's \<Rightarrow> 's) \<Rightarrow> (string \<times> string) list \<Rightarrow> (string \<times> int) list \<Rightarrow> string list \<Rightarrow> 's \<Rightarrow> 's" where
  "kahn visit edges deg [] s = s"
| "kahn visit edges deg (current # queue) s =
     (let (deg', queue') = release (dependents_of edges current) (deg, queue)
      in kahn visit edges deg' queue' (visit current s))"
  by pat_completeness auto

termination
proof (relation "measure (\<lambda>(_, _, deg, queue, _). 2 * pending deg + length queue)", goal_cases)
  case (2 visit edges deg current queue s x deg' queue')
  then show ?case
    using release_pending[of "dependents_of edges current" deg queue] by (metis (no_types, lifting) case_prod_conv
        fst_conv in_measure le_imp_less_Suc length_Cons add_Suc_right snd_conv)
qed simp

definition compute_outbound_validity ::
    "regex_engine \<Rightarrow> outbound_config list \<Rightarrow> expose_candidate list \<Rightarrow> string list \<Rightarrow> string list \<Rightarrow> infos \<Rightarrow> infos" where
  "compute_outbound_validity compile globals cands order order' infos =
     (let edges = dependency_edges compile infos globals cands order;
          deg = map (\<lambda>p. (fst p, in_degree edges (fst p))) infos
      in kahn (settle compile cands) edges deg (filter (\<lambda>t. map_of deg t = Some 0) order') infos)"

section \<open>Pass 3\<close>

definition referable :: "infos \<Rightarrow> string \<Rightarrow> bool" where
  "referable infos t = (case map_of infos t of Some i \<Rightarrow> oi_valid i | None \<Rightarrow> True)"

definition selector_members ::
    "regex_engine \<Rightarrow> parsed_node list \<Rightarrow> outbound_config \<Rightarrow> infos \<Rightarrow> bool \<Rightarrow> expose_candidate list \<Rightarrow> string list" where
  "selector_members compile nodes oc infos glob cands =
     (let ms = dedup_from [] (filter (referable infos) (oc_add oc));
          ms = ms @ dedup_from ms (map nd_tag (filter_nodes_for_selector compile nodes (filters_of oc)))
      in if glob then
           ms @ dedup_from ms (map xc_tag (filter (\<lambda>c. accepts_candidate compile oc c \<and>
                  referable infos (xc_tag c)) cands))
         else ms)"

text \<open>\<open>sanitizeBalancerOptions\<close>: an empty \<open>sticky_hash\<close> is removed.\<close>

definition sanitize_balancer_options :: "obj \<Rightarrow> obj" where
  "sanitize_balancer_options opts =
     (case map_of opts ''balancer'' of
        Some (JObj b) \<Rightarrow>
          if map_of b ''sticky_hash'' \<in> {Some (JArr []), Some JNull}
          then sput ''balancer'' (JObj (sdel ''sticky_hash'' b)) opts else opts
      | _ \<Rightarrow> opts)"

definition generate_selector ::
    "regex_engine \<Rightarrow> parsed_node list \<Rightarrow> outbound_config \<Rightarrow> infos \<Rightarrow> bool \<Rightarrow> expose_candidate list \<Rightarrow>
     emitted option" where
  "generate_selector compile nodes oc infos glob cands =
     (let members = selector_members compile nodes oc infos glob cands;
          filtered = filter_nodes_for_selector compile nodes (filters_of oc);
          dflt = preferred_default_tag compile oc filtered;
          opts = obj_of (oc_options oc)
      in if members = [] then None
         else Some
           \<lparr>em_comment = (if oc_comment oc \<noteq> [] then Some (sanitize_outbound_line_comment (oc_comment oc)) else None),
            em_fields =
              [(''tag'', JStr (oc_tag oc)), (''type'', JStr (oc_type oc))] @
              (if dflt \<noteq> [] then [(''default'', JStr dflt)] else []) @
              [(''outbounds'', JArr (map JStr members))] @
              (case map_of opts ''interrupt_exist_connections'' of
                 None \<Rightarrow> [] | Some v \<Rightarrow> [(''interrupt_exist_connections'', v)]) @
              filter (\<lambda>p. fst p \<noteq> ''interrupt_exist_connections'') (sanitize_balancer_options opts)\<rparr>)"

definition generate_level ::
    "regex_engine \<Rightarrow> infos \<Rightarrow> bool \<Rightarrow> expose_candidate list \<Rightarrow> (parsed_node list \<times> outbound_config) list \<Rightarrow>
     (outbound_config \<times> emitted) list" where
  "generate_level compile infos glob cands sels =
     List.map_filter (\<lambda>(ns, oc). case map_of infos (oc_tag oc) of
         None \<Rightarrow> None
       | Some info \<Rightarrow>
           if \<not> oi_valid info then None
           else map_option (Pair oc) (generate_selector compile ns oc infos glob cands)) sels"

definition generate_selector_jsons ::
    "regex_engine \<Rightarrow> parser_config \<Rightarrow> parsed_node list \<Rightarrow> parsed_node list \<Rightarrow> infos \<Rightarrow> expose_candidate list \<Rightarrow>
     (outbound_config \<times> emitted) list \<times> nat \<times> nat" where
  "generate_selector_jsons compile pc nodes pool infos cands =
     (let locals = generate_level compile infos False [] (local_selectors pc nodes);
          globals = generate_level compile infos True cands (global_selectors pc pool)
      in (locals @ globals, length locals, length globals))"

section \<open>The queue visits a dependency order\<close>

lemma map_of_decr:
  "map_of (decr t deg) = (map_of deg)(t := map_option (\<lambda>d. d - 1) (map_of deg t))"
  by (induction deg) (auto simp: fun_eq_iff)

lemma release_correct:
  assumes "\<And>t. t \<in> set ts \<Longrightarrow> \<exists>d. map_of deg t = Some d \<and> int (count_list ts t) \<le> d"
  shows "\<exists>new. release ts (deg, queue) = (fst (release ts (deg, queue)), queue @ new) \<and> distinct new \<and>
    set new = {t \<in> set ts. map_of deg t = Some (int (count_list ts t))} \<and>
    (\<forall>t. map_of (fst (release ts (deg, queue))) t = map_option (\<lambda>d. d - int (count_list ts t)) (map_of deg t))"
  using assms
proof (induction ts arbitrary: deg queue)
  case Nil
  show ?case by (auto simp: option.map_ident)
next
  case (Cons t ts)
  let ?deg = "decr t deg"
  let ?q = "if map_of ?deg t = Some 0 then queue @ [t] else queue"
  obtain d where d: "map_of deg t = Some d" "int (count_list ts t) + 1 \<le> d"
    using Cons.prems[of t] by auto
  have pre: "\<exists>d. map_of ?deg u = Some d \<and> int (count_list ts u) \<le> d" if "u \<in> set ts" for u
    using Cons.prems[of u] that d by (auto simp: map_of_decr split: if_splits)
  from Cons.IH[OF pre, of ?q] obtain new where new:
    "release ts (?deg, ?q) = (fst (release ts (?deg, ?q)), ?q @ new)" "distinct new"
    "set new = {u \<in> set ts. map_of ?deg u = Some (int (count_list ts u))}"
    "\<And>u. map_of (fst (release ts (?deg, ?q))) u = map_option (\<lambda>d. d - int (count_list ts u)) (map_of ?deg u)"
    by blast
  have r: "release (t # ts) (deg, queue) = release ts (?deg, ?q)" by (simp add: Let_def)
  define new' where "new' = (if map_of ?deg t = Some 0 then t # new else new)"
  have t0: "map_of ?deg t = Some 0 \<longleftrightarrow> d = 1" using d by (auto simp: map_of_decr)
  have tn: "d = 1 \<Longrightarrow> t \<notin> set ts"
    using d(2) by (metis add_le_same_cancel2 count_list_0_iff int_ops(1) of_nat_le_0_iff)
  have "?q @ new = queue @ new'" by (simp add: new'_def)
  moreover have "distinct new'"
    using new(2,3) t0 tn by (auto simp: new'_def)
  moreover have "set new' = {u \<in> set (t # ts). map_of deg u = Some (int (count_list (t # ts) u))}"
  proof (cases "d = 1")
    case True
    with t0 tn have "t \<notin> set ts" "new' = t # new" by (auto simp: new'_def)
    have "u \<in> set new' \<longleftrightarrow> u \<in> set (t # ts) \<and> map_of deg u = Some (int (count_list (t # ts) u))" for u
    proof (cases "u = t")
      case u: True
      then show ?thesis using \<open>new' = t # new\<close> \<open>t \<notin> set ts\<close> d(1) True by (simp add: count_notin)
    next
      case False
      then show ?thesis using \<open>new' = t # new\<close> by (simp add: new(3) map_of_decr)
    qed
    then show ?thesis by blast
  next
    case False
    with t0 have n: "new' = new" by (auto simp: new'_def)
    have "u \<in> set new' \<longleftrightarrow> u \<in> set (t # ts) \<and> map_of deg u = Some (int (count_list (t # ts) u))" for u
    proof (cases "u = t")
      case u: True
      have "t \<notin> set ts \<Longrightarrow> d \<noteq> int (count_list (t # ts) t)" using False by (simp add: count_notin)
      moreover have "d - 1 = int (count_list ts t) \<longleftrightarrow> d = int (count_list (t # ts) t)" by auto
      ultimately show ?thesis unfolding n new(3) u map_of_decr using d(1) by (cases "t \<in> set ts") auto
    next
      case u: False
      then show ?thesis by (simp add: n new(3) map_of_decr)
    qed
    then show ?thesis by blast
  qed
  moreover have "map_of (fst (release ts (?deg, ?q))) u = map_option (\<lambda>d. d - int (count_list (t # ts) u)) (map_of deg u)" for u
    using new(4)[of u] d by (auto simp: map_of_decr)
  moreover have "release ts (?deg, ?q) = (fst (release ts (?deg, ?q)), queue @ new')"
    using new(1) calculation(1) by (simp only:)
  ultimately have "release (t # ts) (deg, queue) = (fst (release (t # ts) (deg, queue)), queue @ new') \<and>
      distinct new' \<and> set new' = {u \<in> set (t # ts). map_of deg u = Some (int (count_list (t # ts) u))} \<and>
      (\<forall>u. map_of (fst (release (t # ts) (deg, queue))) u =
        map_option (\<lambda>d. d - int (count_list (t # ts) u)) (map_of deg u))"
    unfolding r by blast
  then show ?case by (rule exI)
qed

definition topo :: "(string \<times> string) list \<Rightarrow> string list \<Rightarrow> bool" where
  "topo edges done \<longleftrightarrow> (\<forall>i < length done. \<forall>a. (a, done ! i) \<in> set edges \<longrightarrow> a \<in> set (take i done))"

lemma topo_snoc:
  "topo edges (done @ [t]) \<longleftrightarrow> topo edges done \<and> (\<forall>a. (a, t) \<in> set edges \<longrightarrow> a \<in> set done)"
  by (auto simp: topo_def nth_append less_Suc_eq split: if_splits)

definition kahn_inv ::
    "string set \<Rightarrow> (string \<times> string) list \<Rightarrow> string list \<Rightarrow> (string \<times> int) list \<Rightarrow> string list \<Rightarrow> bool" where
  "kahn_inv K edges done deg queue \<longleftrightarrow>
     distinct (done @ queue) \<and> set (done @ queue) \<subseteq> K \<and> topo edges done \<and>
     (\<forall>t. map_of deg t =
        (if t \<in> K then Some (int (length (filter (\<lambda>e. snd e = t \<and> fst e \<notin> set done) edges))) else None)) \<and>
     (\<forall>t \<in> K. t \<in> set (done @ queue) \<longleftrightarrow> map_of deg t = Some 0)"

lemma count_dependents:
  "count_list (dependents_of edges c) t = length (filter (\<lambda>e. snd e = t \<and> fst e = c) edges)"
  by (induction edges) (auto simp: dependents_of_def)

lemma filter_split_dependents:
  assumes "c \<notin> set done"
  shows "length (filter (\<lambda>e. snd e = t \<and> fst e \<notin> set done) edges) =
    length (filter (\<lambda>e. snd e = t \<and> fst e \<notin> set (done @ [c])) edges) +
    count_list (dependents_of edges c) t"
  using assms by (induction edges) (auto simp: dependents_of_def)

lemma kahn_step:
  assumes inv: "kahn_inv K edges done deg (c # queue)" and E: "snd ` set edges \<subseteq> K"
    and r: "release (dependents_of edges c) (deg, queue) = (deg', queue')"
  shows "kahn_inv K edges (done @ [c]) deg' queue'"
proof -
  let ?n = "\<lambda>D t. length (filter (\<lambda>e. snd e = t \<and> fst e \<notin> set D) edges)"
  have cD: "c \<notin> set done" and cK: "c \<in> K" using inv by (auto simp: kahn_inv_def)
  note split = filter_split_dependents[OF cD]
  have deg: "map_of deg t = (if t \<in> K then Some (int (?n done t)) else None)" for t
    using inv by (simp add: kahn_inv_def)
  have dK: "t \<in> K" if "t \<in> set (dependents_of edges c)" for t
    using that E by (auto simp: dependents_of_def)
  have "\<exists>d. map_of deg t = Some d \<and> int (count_list (dependents_of edges c) t) \<le> d"
    if "t \<in> set (dependents_of edges c)" for t
    using dK[OF that] split[of t edges] by (simp add: deg)
  from release_correct[OF this, of queue] r obtain new where
    new: "queue' = queue @ new" "distinct new"
      "set new = {t \<in> set (dependents_of edges c). map_of deg t = Some (int (count_list (dependents_of edges c) t))}"
    and deg': "\<And>t. map_of deg' t = map_option (\<lambda>d. d - int (count_list (dependents_of edges c) t)) (map_of deg t)"
    by auto
  have deg'2: "map_of deg' t = (if t \<in> K then Some (int (?n (done @ [c]) t)) else None)" for t
    unfolding deg' deg using split[of t edges] by simp
  have zero: "t \<in> set (done @ c # queue) \<longleftrightarrow> map_of deg t = Some 0" if "t \<in> K" for t
    using inv that by (simp add: kahn_inv_def)
  have pos: "0 < count_list (dependents_of edges c) t \<longleftrightarrow> t \<in> set (dependents_of edges c)" for t
    by (metis count_list_0_iff gr0I less_numeral_extra(3))
  have new2: "set new = {t \<in> K. ?n (done @ [c]) t = 0 \<and> ?n done t \<noteq> 0}"
  proof -
    have "t \<in> set new \<longleftrightarrow> t \<in> K \<and> ?n (done @ [c]) t = 0 \<and> ?n done t \<noteq> 0" for t
      using split[of t edges] pos[of t] dK[of t] unfolding new(3) deg by auto
    then show ?thesis by blast
  qed
  have nz: "t \<in> set (done @ c # queue) \<longleftrightarrow> ?n done t = 0" if "t \<in> K" for t
    using zero[OF that] that unfolding deg by simp
  have "distinct (done @ [c] @ queue')"
    using inv new(1,2) new2 nz by (auto simp: kahn_inv_def)
  moreover have "set (done @ [c] @ queue') \<subseteq> K"
    using inv new(1) new2 by (auto simp: kahn_inv_def)
  moreover have "topo edges (done @ [c])"
  proof -
    have "?n done c = 0" using nz[OF cK] by simp
    then have "\<forall>a. (a, c) \<in> set edges \<longrightarrow> a \<in> set done"
      by (auto simp: filter_empty_conv)
    with inv show ?thesis by (simp add: topo_snoc kahn_inv_def)
  qed
  moreover have "t \<in> set (done @ [c] @ queue') \<longleftrightarrow> map_of deg' t = Some 0" if t: "t \<in> K" for t
  proof -
    have "t \<in> set (done @ [c] @ queue') \<longleftrightarrow> t \<in> set (done @ c # queue) \<or> t \<in> set new"
      by (auto simp: new(1))
    also have "\<dots> \<longleftrightarrow> ?n done t = 0 \<or> ?n (done @ [c]) t = 0"
      using nz[OF t] t by (auto simp: new2)
    also have "\<dots> \<longleftrightarrow> ?n (done @ [c]) t = 0" using split[of t edges] by auto
    also have "\<dots> \<longleftrightarrow> map_of deg' t = Some 0" using t by (simp add: deg'2)
    finally show ?thesis .
  qed
  ultimately show ?thesis using deg'2 by (simp add: kahn_inv_def)
qed

lemma kahn_correct:
  assumes "kahn_inv K edges done deg queue" and "snd ` set edges \<subseteq> K"
  shows "\<exists>rest. kahn visit edges deg queue s = fold visit rest s \<and>
    distinct (done @ rest) \<and> set (done @ rest) \<subseteq> K \<and> topo edges (done @ rest) \<and>
    (\<forall>t \<in> K. (\<forall>a. (a, t) \<in> set edges \<longrightarrow> a \<in> set (done @ rest)) \<longrightarrow> t \<in> set (done @ rest))"
  using assms
proof (induction visit edges deg queue s arbitrary: "done" rule: kahn.induct)
  case (1 visit edges deg s)
  have "t \<in> set done" if "t \<in> K" "\<forall>a. (a, t) \<in> set edges \<longrightarrow> a \<in> set done" for t
  proof -
    have "filter (\<lambda>e. snd e = t \<and> fst e \<notin> set done) edges = []"
      using that(2) by (auto simp: filter_empty_conv)
    with 1(1) that(1) show ?thesis by (simp add: kahn_inv_def)
  qed
  with 1(1) show ?case by (intro exI[of _ "[]"]) (auto simp: kahn_inv_def)
next
  case (2 visit edges deg c queue s)
  obtain deg' queue' where r: "release (dependents_of edges c) (deg, queue) = (deg', queue')"
    by (metis surj_pair)
  from 2(1)[OF r[symmetric] refl kahn_step[OF 2(2,3) r] 2(3)] obtain rest where
    "kahn visit edges deg' queue' (visit c s) = fold visit rest (visit c s)"
    "distinct (done @ c # rest)" "set (done @ c # rest) \<subseteq> K" "topo edges (done @ c # rest)"
    "\<forall>t \<in> K. (\<forall>a. (a, t) \<in> set edges \<longrightarrow> a \<in> set (done @ c # rest)) \<longrightarrow> t \<in> set (done @ c # rest)"
    by auto
  then show ?case by (intro exI[of _ "c # rest"]) (simp add: r)
qed

section \<open>What the passes compute\<close>

text \<open>The three passes as \<open>GenerateOutboundsFromParserConfig\<close> runs them on the loaded nodes.\<close>

definition run_validity ::
    "regex_engine \<Rightarrow> parser_config \<Rightarrow> parsed_node list \<Rightarrow> string list \<Rightarrow> string list \<Rightarrow> infos" where
  "run_validity compile pc nodes order order' =
     compute_outbound_validity compile (pc_outbounds pc) (collect_expose_tag_candidates pc) order order'
       (build_outbounds_info compile pc nodes (filter_nodes_exclude_from_global nodes (pc_proxies pc)))"

definition run_passes ::
    "regex_engine \<Rightarrow> parser_config \<Rightarrow> parsed_node list \<Rightarrow> string list \<Rightarrow> string list \<Rightarrow>
     (outbound_config \<times> emitted) list \<times> nat \<times> nat" where
  "run_passes compile pc nodes order order' =
     generate_selector_jsons compile pc nodes (filter_nodes_exclude_from_global nodes (pc_proxies pc))
       (run_validity compile pc nodes order order') (collect_expose_tag_candidates pc)"

text \<open>
  The contract of the second pass, without queue, counters or order. A selector is settled when
  everything it depends on is; it is live when it is settled and has a node, a constant or a live
  selector to offer.
\<close>

definition depends ::
    "regex_engine \<Rightarrow> infos \<Rightarrow> outbound_config list \<Rightarrow> expose_candidate list \<Rightarrow> string \<Rightarrow> string \<Rightarrow> bool" where
  "depends compile infos globals cands a t \<longleftrightarrow>
     map_of infos a \<noteq> None \<and>
     (\<exists>info. map_of infos t = Some info \<and>
        (a \<in> set (oc_add (oi_config info)) \<or>
         \<not> oi_local info \<and>
           (\<exists>g \<in> set globals. oc_tag g = t \<and> (\<exists>c \<in> set cands. accepts_candidate compile g c \<and> xc_tag c = a))))"

inductive settled ::
    "regex_engine \<Rightarrow> infos \<Rightarrow> outbound_config list \<Rightarrow> expose_candidate list \<Rightarrow> string \<Rightarrow> bool"
  for compile infos globals cands where
  settledI: "map_of infos t \<noteq> None \<Longrightarrow>
     (\<And>a. depends compile infos globals cands a t \<Longrightarrow> settled compile infos globals cands a) \<Longrightarrow>
     settled compile infos globals cands t"

inductive live ::
    "regex_engine \<Rightarrow> infos \<Rightarrow> outbound_config list \<Rightarrow> expose_candidate list \<Rightarrow> string \<Rightarrow> bool"
  for compile infos globals cands where
  liveI: "map_of infos t = Some info \<Longrightarrow> settled compile infos globals cands t \<Longrightarrow>
     oi_nodes info \<noteq> [] \<or>
     (\<exists>a \<in> set (oc_add (oi_config info)). map_of infos a = None \<or> live compile infos globals cands a) \<or>
     \<not> oi_local info \<and>
       (\<exists>c \<in> set cands. accepts_candidate compile (oi_config info) c \<and>
          (map_of infos (xc_tag c) = None \<or> live compile infos globals cands (xc_tag c))) \<Longrightarrow>
     live compile infos globals cands t"

inductive_cases liveE: "live compile infos globals cands t"

text \<open>Infos as pass 1 leaves them.\<close>

definition fresh_infos :: "infos \<Rightarrow> outbound_config list \<Rightarrow> bool" where
  "fresh_infos infos globals \<longleftrightarrow>
     (\<forall>t info. map_of infos t = Some info \<longrightarrow>
        \<not> oi_valid info \<and> (\<not> oi_local info \<longrightarrow> oi_config info \<in> set globals \<and> oc_tag (oi_config info) = t))"

lemma add_edges_mem:
  "(a, t) \<in> set (add_edges infos order) \<longleftrightarrow>
     t \<in> set order \<and> map_of infos a \<noteq> None \<and>
     (\<exists>info. map_of infos t = Some info \<and> a \<in> set (oc_add (oi_config info)))"
proof (induction order)
  case (Cons x order)
  then show ?case by (cases "map_of infos x") (auto simp: add_edges_def)
qed (simp add: add_edges_def)

lemma augment_mem:
  "(a, t) \<in> set (augment_for_expose compile infos globals cands) \<longleftrightarrow>
     map_of infos a \<noteq> None \<and> (\<exists>info. map_of infos t = Some info \<and> \<not> oi_local info \<and>
       (\<exists>g \<in> set globals. oc_tag g = t \<and> (\<exists>c \<in> set cands. accepts_candidate compile g c \<and> xc_tag c = a)))"
  unfolding augment_for_expose_def set_dedup_from
proof (induction globals)
  case (Cons g globals)
  then show ?case by (cases "map_of infos (oc_tag g)") auto
qed simp

lemma set_edges:
  assumes "fst ` set infos = set order"
  shows "(a, t) \<in> set (dependency_edges compile infos globals cands order) \<longleftrightarrow>
    depends compile infos globals cands a t"
proof -
  have k: "map_of infos t = Some i \<Longrightarrow> t \<in> set order" for i
    using assms by (metis domI dom_map_of_conv_image_fst)
  have "(a, t) \<in> set (add_edges infos order) \<longleftrightarrow>
      map_of infos a \<noteq> None \<and> (\<exists>info. map_of infos t = Some info \<and> a \<in> set (oc_add (oi_config info)))"
    using k unfolding add_edges_mem by blast
  moreover have "(a, t) \<in> set (augment_for_expose compile infos globals cands) \<longleftrightarrow>
      map_of infos a \<noteq> None \<and> (\<exists>info. map_of infos t = Some info \<and> \<not> oi_local info \<and>
        (\<exists>g \<in> set globals. oc_tag g = t \<and> (\<exists>c \<in> set cands. accepts_candidate compile g c \<and> xc_tag c = a)))"
    unfolding augment_mem by blast
  ultimately show ?thesis unfolding dependency_edges_def depends_def set_append Un_iff by blast
qed

lemma topo_settled:
  assumes "topo edges D" "set D \<subseteq> fst ` set infos"
    and "\<And>a t. (a, t) \<in> set edges \<longleftrightarrow> depends compile infos globals cands a t"
    and "i < length D"
  shows "settled compile infos globals cands (D ! i)"
  using assms(4)
proof (induction i rule: less_induct)
  case (less i)
  have "map_of infos (D ! i) \<noteq> None"
    using assms(2) less.prems by (metis map_of_eq_None_iff nth_mem subsetD)
  moreover have "settled compile infos globals cands a" if d: "depends compile infos globals cands a (D ! i)" for a
  proof -
    from d assms(1,3) less.prems have "a \<in> set (take i D)" by (simp add: topo_def)
    then obtain j where "j < i" "D ! j = a" by (auto simp: in_set_conv_nth)
    with less show ?thesis by auto
  qed
  ultimately show ?case by (rule settledI)
qed

lemma closed_settled:
  assumes "settled compile infos globals cands t"
    and "\<And>a t. (a, t) \<in> set edges \<longleftrightarrow> depends compile infos globals cands a t"
    and "\<forall>t \<in> fst ` set infos. (\<forall>a. (a, t) \<in> set edges \<longrightarrow> a \<in> set D) \<longrightarrow> t \<in> set D"
  shows "t \<in> set D"
  using assms(1)
proof induction
  case (settledI t)
  then have "t \<in> fst ` set infos" by (metis map_of_eq_None_iff)
  with settledI assms(2,3) show ?case by blast
qed

lemma credit_from_pos:
  "0 < credit_from compile info infos seen cs \<longleftrightarrow>
   (\<exists>c \<in> set cs. xc_tag c \<notin> set seen \<and> accepts_candidate compile (oi_config info) c \<and> referable infos (xc_tag c))"
proof (induction cs arbitrary: seen)
  case (Cons c cs)
  show ?case
  proof (cases "xc_tag c \<in> set seen \<or> \<not> accepts_candidate compile (oi_config info) c")
    case True
    then show ?thesis using Cons by auto
  next
    case False
    have h: "0 < (case map_of infos (xc_tag c) of Some ref \<Rightarrow> (if oi_valid ref then 1 else 0) | None \<Rightarrow> (1::nat))
        \<longleftrightarrow> referable infos (xc_tag c)"
      by (simp add: referable_def split: option.split)
    from False have "0 < credit_from compile info infos seen (c # cs) \<longleftrightarrow>
        referable infos (xc_tag c) \<or> 0 < credit_from compile info infos (xc_tag c # seen) cs"
      using h by simp
    also have "\<dots> \<longleftrightarrow> (\<exists>d \<in> set (c # cs). xc_tag d \<notin> set seen \<and>
        accepts_candidate compile (oi_config info) d \<and> referable infos (xc_tag d))"
      unfolding Cons using False by auto metis
    finally show ?thesis .
  qed
qed simp

text \<open>The state of the infos after some selectors have been settled.\<close>

definition settled_so_far ::
    "infos \<Rightarrow> (string \<Rightarrow> bool) \<Rightarrow> string set \<Rightarrow> infos \<Rightarrow> bool" where
  "settled_so_far infos lv D infos' \<longleftrightarrow>
     (\<forall>t. if t \<in> D
        then (\<exists>info n. map_of infos t = Some info \<and>
                map_of infos' t = Some (info\<lparr>oi_count := n, oi_valid := 0 < n\<rparr>) \<and> (0 < n \<longleftrightarrow> lv t))
        else map_of infos' t = map_of infos t)"

lemma live_iff:
  assumes "map_of infos t = Some info" "settled compile infos globals cands t"
  shows "live compile infos globals cands t \<longleftrightarrow>
     oi_nodes info \<noteq> [] \<or>
     (\<exists>a \<in> set (oc_add (oi_config info)). map_of infos a = None \<or> live compile infos globals cands a) \<or>
     \<not> oi_local info \<and>
       (\<exists>c \<in> set cands. accepts_candidate compile (oi_config info) c \<and>
          (map_of infos (xc_tag c) = None \<or> live compile infos globals cands (xc_tag c)))"
  (is "_ = ?offer")
proof
  assume "live compile infos globals cands t"
  then show ?offer by (rule liveE) (use assms(1) in simp)
next
  assume ?offer
  with assms show "live compile infos globals cands t" by (rule liveI)
qed

lemma settle_live:
  assumes f: "fresh_infos infos globals"
    and st: "settled compile infos globals cands t" and t: "map_of infos t = Some info" "t \<notin> D"
    and pred: "\<And>a. depends compile infos globals cands a t \<Longrightarrow> a \<in> D"
    and inv: "settled_so_far infos (live compile infos globals cands) D infos'"
  shows "settled_so_far infos (live compile infos globals cands) (insert t D) (settle compile cands t infos')"
proof -
  let ?lv = "live compile infos globals cands"
  have cur: "map_of infos' t = Some info"
    using inv t by (auto simp: settled_so_far_def dest: spec[of _ t])
  have known: "map_of infos' a = None \<longleftrightarrow> map_of infos a = None" for a
    using inv by (auto simp: settled_so_far_def split: if_splits dest!: spec[of _ a])
  have dn: "(case map_of infos' a of Some i \<Rightarrow> 0 < oi_count i | None \<Rightarrow> True) \<longleftrightarrow> map_of infos a = None \<or> ?lv a"
    "referable infos' a \<longleftrightarrow> map_of infos a = None \<or> ?lv a"
    if "map_of infos a \<noteq> None \<Longrightarrow> a \<in> D" for a
    using that known[of a] inv
    by (cases "map_of infos a"; auto simp: settled_so_far_def referable_def dest!: spec[of _ a])+
  have add: "add_counts infos' a \<longleftrightarrow> map_of infos a = None \<or> ?lv a" if "a \<in> set (oc_add (oi_config info))" for a
    unfolding add_counts_def using that t(1) by (intro dn(1) pred) (auto simp: depends_def)
  have expose: "referable infos' (xc_tag c) \<longleftrightarrow> map_of infos (xc_tag c) = None \<or> ?lv (xc_tag c)"
    if "c \<in> set cands" "accepts_candidate compile (oi_config info) c" "\<not> oi_local info" for c
  proof (intro dn(2) pred)
    assume "map_of infos (xc_tag c) \<noteq> None"
    moreover have "oi_config info \<in> set globals" "oc_tag (oi_config info) = t"
      using f t(1) that(3) by (auto simp: fresh_infos_def)
    ultimately show "depends compile infos globals cands (xc_tag c) t"
      using that t(1) by (auto simp: depends_def)
  qed
  define total where "total = length (oi_nodes info) + global_outbound_expose_credit compile info infos' cands +
    length (filter (add_counts infos') (oc_add (oi_config info)))"
  have credit: "0 < global_outbound_expose_credit compile info infos' cands \<longleftrightarrow>
      \<not> oi_local info \<and> (\<exists>c \<in> set cands. accepts_candidate compile (oi_config info) c \<and> referable infos' (xc_tag c))"
    by (simp add: global_outbound_expose_credit_def credit_from_pos)
  have "0 < total \<longleftrightarrow> oi_nodes info \<noteq> [] \<or> 0 < global_outbound_expose_credit compile info infos' cands \<or>
      (\<exists>a \<in> set (oc_add (oi_config info)). add_counts infos' a)"
    by (auto simp: total_def filter_empty_conv)
  also have "\<dots> \<longleftrightarrow> oi_nodes info \<noteq> [] \<or>
      (\<exists>a \<in> set (oc_add (oi_config info)). map_of infos a = None \<or> ?lv a) \<or>
      \<not> oi_local info \<and> (\<exists>c \<in> set cands. accepts_candidate compile (oi_config info) c \<and>
          (map_of infos (xc_tag c) = None \<or> ?lv (xc_tag c)))"
    unfolding credit using add expose by blast
  also have "\<dots> \<longleftrightarrow> ?lv t"
    by (rule live_iff[OF t(1) st, symmetric])
  finally have lv: "0 < total \<longleftrightarrow> ?lv t" .
  have "settle compile cands t infos' = sput t (info\<lparr>oi_count := total, oi_valid := 0 < total\<rparr>) infos'"
    by (simp add: settle_def cur total_def)
  then have upd: "map_of (settle compile cands t infos') =
      (map_of infos')(t \<mapsto> info\<lparr>oi_count := total, oi_valid := 0 < total\<rparr>)"
    by simp
  show ?thesis
    unfolding settled_so_far_def
  proof
    fix u
    show "if u \<in> insert t D
        then (\<exists>info n. map_of infos u = Some info \<and>
                map_of (settle compile cands t infos') u = Some (info\<lparr>oi_count := n, oi_valid := 0 < n\<rparr>) \<and>
                (0 < n \<longleftrightarrow> ?lv u))
        else map_of (settle compile cands t infos') u = map_of infos u"
    proof (cases "u = t")
      case True
      have "\<exists>info n. map_of infos t = Some info \<and>
          Some (info'\<lparr>oi_count := total, oi_valid := 0 < total\<rparr>) = Some (info\<lparr>oi_count := n, oi_valid := 0 < n\<rparr>) \<and>
          (0 < n \<longleftrightarrow> ?lv t)" if "info' = info" for info'
        using t(1) lv that by (intro exI[of _ info] exI[of _ total]) simp
      with True show ?thesis unfolding upd by simp
    next
      case False
      then have "map_of (settle compile cands t infos') u = map_of infos' u" "u \<in> insert t D \<longleftrightarrow> u \<in> D"
        unfolding upd by simp_all
      then show ?thesis using spec[OF inv[unfolded settled_so_far_def], of u] by (simp only:)
    qed
  qed
qed

lemma settle_all_live:
  assumes f: "fresh_infos infos globals"
    and E: "\<And>a t. (a, t) \<in> set edges \<longleftrightarrow> depends compile infos globals cands a t"
    and D: "distinct D" "set D \<subseteq> fst ` set infos" "topo edges D"
  shows "settled_so_far infos (live compile infos globals cands) (set D) (fold (settle compile cands) D infos)"
  using D
proof (induction D rule: rev_induct)
  case Nil
  show ?case by (simp add: settled_so_far_def)
next
  case (snoc t D)
  then have IH: "settled_so_far infos (live compile infos globals cands) (set D) (fold (settle compile cands) D infos)"
    by (simp add: topo_snoc)
  have st: "settled compile infos globals cands t"
    using topo_settled[OF snoc.prems(3,2) E, of "length D"] by simp
  obtain info where i: "map_of infos t = Some info"
    using snoc.prems(2) by (auto simp: image_iff) (metis map_of_eq_None_iff not_Some_eq image_eqI fst_conv)
  have pred: "a \<in> set D" if "depends compile infos globals cands a t" for a
    using snoc.prems(3) that E by (simp add: topo_snoc)
  show ?case
    using settle_live[OF f st i _ pred IH] snoc.prems(1) by simp
qed

lemma compute_settles:
  assumes f: "fresh_infos infos globals" and d: "distinct (map fst infos)"
    and o1: "set order = fst ` set infos" and o2: "distinct order'" "set order' = fst ` set infos"
  shows "\<exists>D. distinct D \<and> (\<forall>t. t \<in> set D \<longleftrightarrow> settled compile infos globals cands t) \<and>
    settled_so_far infos (live compile infos globals cands) (set D)
      (compute_outbound_validity compile globals cands order order' infos)"
proof -
  define edges where "edges = dependency_edges compile infos globals cands order"
  define deg where "deg = map (\<lambda>p. (fst p, in_degree edges (fst p))) infos"
  let ?K = "fst ` set infos"
  have E: "(a, t) \<in> set edges \<longleftrightarrow> depends compile infos globals cands a t" for a t
    unfolding edges_def by (rule set_edges) (simp add: o1)
  have K: "snd ` set edges \<subseteq> ?K"
  proof
    fix t assume "t \<in> snd ` set edges"
    then obtain a where "depends compile infos globals cands a t" using E by force
    then have "map_of infos t \<noteq> None" by (auto simp: depends_def)
    then show "t \<in> ?K" by (metis map_of_eq_None_iff)
  qed
  have deg: "map_of deg t = (if t \<in> ?K then Some (in_degree edges t) else None)" for t
    unfolding deg_def by (induction infos) auto
  have "kahn_inv ?K edges [] deg (filter (\<lambda>t. map_of deg t = Some 0) order')"
    using o2 by (auto simp: kahn_inv_def topo_def deg in_degree_def)
  from kahn_correct[OF this K, of "settle compile cands" infos] obtain D where
    D: "compute_outbound_validity compile globals cands order order' infos = fold (settle compile cands) D infos"
      "distinct D" "set D \<subseteq> ?K" "topo edges D"
      "\<forall>t \<in> ?K. (\<forall>a. (a, t) \<in> set edges \<longrightarrow> a \<in> set D) \<longrightarrow> t \<in> set D"
    by (auto simp: compute_outbound_validity_def edges_def[symmetric] deg_def[symmetric] Let_def)
  have "t \<in> set D \<longleftrightarrow> settled compile infos globals cands t" for t
    using closed_settled[OF _ E D(5)] topo_settled[OF D(4,3) E] by (auto simp: in_set_conv_nth)
  with D(1,2) settle_all_live[OF f E D(2,3,4)] show ?thesis by auto
qed

subsection \<open>The infos of pass 1\<close>

abbreviation pool_of :: "parser_config \<Rightarrow> parsed_node list \<Rightarrow> parsed_node list" where
  "pool_of pc nodes \<equiv> filter_nodes_exclude_from_global nodes (pc_proxies pc)"

abbreviation infos_of :: "regex_engine \<Rightarrow> parser_config \<Rightarrow> parsed_node list \<Rightarrow> infos" where
  "infos_of compile pc nodes \<equiv> build_outbounds_info compile pc nodes (pool_of pc nodes)"

definition chooses_from :: "parser_config \<Rightarrow> parsed_node list \<Rightarrow> bool \<Rightarrow> (parsed_node list \<times> outbound_config) list" where
  "chooses_from pc nodes loc =
     (if loc then local_selectors pc nodes else global_selectors pc (pool_of pc nodes))"

lemma fold_sput_lookup:
  "map_of (fold (\<lambda>(ns, oc). sput (oc_tag oc) (g ns oc)) sels m) t = Some info \<Longrightarrow>
   map_of m t = Some info \<or> (\<exists>ns oc. (ns, oc) \<in> set sels \<and> oc_tag oc = t \<and> info = g ns oc)"
proof (induction sels arbitrary: m)
  case (Cons p sels)
  obtain ns oc where p: "p = (ns, oc)" by (cases p)
  from Cons.IH[of "sput (oc_tag oc) (g ns oc) m"] Cons.prems
  have "map_of (sput (oc_tag oc) (g ns oc) m) t = Some info \<or>
      (\<exists>ns oc. (ns, oc) \<in> set sels \<and> oc_tag oc = t \<and> info = g ns oc)" by (simp add: p)
  then show ?case by (auto simp: p split: if_splits)
qed simp

lemma fold_sput_keys:
  "fst ` set (fold (\<lambda>(ns, oc). sput (oc_tag oc) (g ns oc)) sels m) =
   (oc_tag \<circ> snd) ` set sels \<union> fst ` set m"
proof (induction sels arbitrary: m)
  case (Cons p sels)
  show ?case by (cases p) (simp add: Cons fst_set_sput del: set_map)
qed simp

lemma fold_sput_scanon:
  "scanon m \<Longrightarrow> scanon (fold (\<lambda>(ns, oc). sput (oc_tag oc) (g ns oc)) sels m)"
  by (induction sels arbitrary: m) auto

lemma infos_of_lookup:
  assumes "map_of (infos_of compile pc nodes) t = Some info"
  shows "\<exists>ns oc. (ns, oc) \<in> set (chooses_from pc nodes (oi_local info)) \<and> oc_tag oc = t \<and>
    info = info_for compile (oi_local info) ns oc"
proof -
  have l: "oi_local (info_for compile b ns oc) = b" for b ns oc by (simp add: info_for_def Let_def)
  from assms show ?thesis
    unfolding build_outbounds_info_def
    by (auto dest!: fold_sput_lookup simp: l chooses_from_def)
qed

lemma infos_of_keys:
  "fst ` set (infos_of compile pc nodes) =
   (oc_tag \<circ> snd) ` (set (local_selectors pc nodes) \<union> set (global_selectors pc (pool_of pc nodes)))"
  unfolding build_outbounds_info_def fold_sput_keys by auto

lemma infos_of_fresh: "fresh_infos (infos_of compile pc nodes) (pc_outbounds pc)"
proof -
  have "\<not> oi_valid info \<and> (\<not> oi_local info \<longrightarrow> oi_config info \<in> set (pc_outbounds pc) \<and> oc_tag (oi_config info) = t)"
    if i: "map_of (infos_of compile pc nodes) t = Some info" for t info
  proof -
    from infos_of_lookup[OF i] obtain ns oc where
      m: "(ns, oc) \<in> set (chooses_from pc nodes (oi_local info))" "oc_tag oc = t"
      and f: "info = info_for compile (oi_local info) ns oc" by blast
    have "oi_config info = oc" "\<not> oi_valid info" by (subst f, simp add: info_for_def Let_def)+
    with m show ?thesis by (auto simp: chooses_from_def global_selectors_def)
  qed
  then show ?thesis by (simp add: fresh_infos_def)
qed

lemma infos_of_distinct: "distinct (map fst (infos_of compile pc nodes))"
  by (rule scanon_distinct) (simp add: build_outbounds_info_def fold_sput_scanon)

definition map_order :: "infos \<Rightarrow> string list \<Rightarrow> bool" where
  "map_order infos order \<longleftrightarrow> distinct order \<and> set order = fst ` set infos"

lemma run_validity_settles:
  assumes "map_order (infos_of compile pc nodes) order" "map_order (infos_of compile pc nodes) order'"
  shows "\<exists>D. (\<forall>t. t \<in> set D \<longleftrightarrow>
       settled compile (infos_of compile pc nodes) (pc_outbounds pc) (collect_expose_tag_candidates pc) t) \<and>
    settled_so_far (infos_of compile pc nodes)
      (live compile (infos_of compile pc nodes) (pc_outbounds pc) (collect_expose_tag_candidates pc)) (set D)
      (run_validity compile pc nodes order order')"
proof -
  have "set order = fst ` set (infos_of compile pc nodes)" "distinct order'"
    "set order' = fst ` set (infos_of compile pc nodes)" using assms by (auto simp: map_order_def)
  from compute_settles[OF infos_of_fresh infos_of_distinct this] show ?thesis
    unfolding run_validity_def by blast
qed

lemma run_validity_live:
  assumes "map_order (infos_of compile pc nodes) order" "map_order (infos_of compile pc nodes) order'"
  shows "(\<exists>i. map_of (run_validity compile pc nodes order order') t = Some i \<and> oi_valid i) \<longleftrightarrow>
    live compile (infos_of compile pc nodes) (pc_outbounds pc) (collect_expose_tag_candidates pc) t"
    (is "?v \<longleftrightarrow> ?l t")
proof -
  let ?I = "infos_of compile pc nodes"
  from run_validity_settles[OF assms] obtain D where
    D: "\<And>t. t \<in> set D \<longleftrightarrow> settled compile ?I (pc_outbounds pc) (collect_expose_tag_candidates pc) t"
    and s: "settled_so_far ?I ?l (set D) (run_validity compile pc nodes order order')" by blast
  note at = spec[OF s[unfolded settled_so_far_def], of t]
  show ?thesis
  proof (cases "t \<in> set D")
    case True
    obtain info n where
      "map_of (run_validity compile pc nodes order order') t = Some (info\<lparr>oi_count := n, oi_valid := 0 < n\<rparr>)"
      "0 < n \<longleftrightarrow> ?l t" using at unfolding if_P[OF True] by (elim exE conjE)
    then show ?thesis by simp
  next
    case False
    with at have "map_of (run_validity compile pc nodes order order') t = map_of ?I t" by simp
    moreover have "\<not> ?l t" using False D by (auto elim: liveE)
    ultimately show ?thesis using infos_of_fresh[of compile pc nodes] by (auto simp: fresh_infos_def)
  qed
qed

text \<open>
  C2. The second pass computes the least fixed point: a selector ends up valid exactly when all
  its dependencies can be ordered before it and it has a node, a constant or a valid selector to
  offer. The queue, the counters and the order in which Go walks its maps leave no trace in the
  result. A selector that depends on itself, directly or through others, and everything that
  depends on it, is never valid, however many nodes it has.
\<close>

theorem validity_is_least_fixpoint:
  assumes "map_order (infos_of compile pc nodes) order" "map_order (infos_of compile pc nodes) order'"
  shows "(\<exists>i. map_of (run_validity compile pc nodes order order') t = Some i \<and> oi_valid i) =
    live compile (infos_of compile pc nodes) (pc_outbounds pc) (collect_expose_tag_candidates pc) t"
  by (rule run_validity_live[OF assms])

section \<open>What pass 3 emits\<close>

definition members_of :: "emitted \<Rightarrow> string list" where
  "members_of e = (case map_of (em_fields e) ''outbounds'' of Some (JArr xs) \<Rightarrow> str_elems xs | _ \<Rightarrow> [])"

lemma generated_members:
  "generate_selector compile ns oc infos glob cands = Some e \<Longrightarrow>
   members_of e = selector_members compile ns oc infos glob cands \<and> members_of e \<noteq> []"
  by (auto simp: generate_selector_def Let_def members_of_def split: if_splits)

lemma generated_iff:
  "(\<exists>e. generate_selector compile ns oc infos glob cands = Some e) \<longleftrightarrow>
   selector_members compile ns oc infos glob cands \<noteq> []"
  by (auto simp: generate_selector_def Let_def)

lemma distinct_append_dedup: "distinct xs \<Longrightarrow> distinct (xs @ dedup_from xs ys)"
  by (auto simp: distinct_dedup_from set_dedup_from)

lemma selector_members_distinct: "distinct (selector_members compile ns oc infos glob cands)"
  unfolding selector_members_def Let_def
  by (simp only: distinct_append_dedup distinct_dedup_from split: if_split) simp

lemma set_selector_members:
  "set (selector_members compile ns oc infos glob cands) =
     {a \<in> set (oc_add oc). referable infos a} \<union>
     nd_tag ` set (filter_nodes_for_selector compile ns (filters_of oc)) \<union>
     (if glob then {xc_tag c | c. c \<in> set cands \<and> accepts_candidate compile oc c \<and> referable infos (xc_tag c)}
      else {})"
  unfolding selector_members_def Let_def
  by (auto simp: set_dedup_from)

definition cands_for :: "parser_config \<Rightarrow> bool \<Rightarrow> expose_candidate list" where
  "cands_for pc loc = (if loc then [] else collect_expose_tag_candidates pc)"

lemma emitted_mem:
  "(oc, e) \<in> set (fst (run_passes compile pc nodes order order')) \<longleftrightarrow>
   (\<exists>loc ns i. (ns, oc) \<in> set (chooses_from pc nodes loc) \<and>
      map_of (run_validity compile pc nodes order order') (oc_tag oc) = Some i \<and> oi_valid i \<and>
      generate_selector compile ns oc (run_validity compile pc nodes order order') (\<not> loc) (cands_for pc loc) = Some e)"
proof -
  let ?V = "run_validity compile pc nodes order order'"
  have level: "(oc, e) \<in> set (generate_level compile ?V glob cs sels) \<longleftrightarrow>
      (\<exists>ns i. (ns, oc) \<in> set sels \<and> map_of ?V (oc_tag oc) = Some i \<and> oi_valid i \<and>
        generate_selector compile ns oc ?V glob cs = Some e)" for glob cs sels
  proof (induction sels)
    case (Cons p sels)
    obtain ns' oc' where p: "p = (ns', oc')" by (cases p)
    show ?case
    proof (cases "map_of ?V (oc_tag oc')")
      case None
      then show ?thesis using Cons by (auto simp: generate_level_def List.map_filter_simps p)
    next
      case (Some i)
      then show ?thesis using Cons
        by (cases "generate_selector compile ns' oc' ?V glob cs")
          (auto simp: generate_level_def List.map_filter_simps p)
    qed
  qed (simp add: generate_level_def List.map_filter_simps)
  show ?thesis
    unfolding run_passes_def generate_selector_jsons_def Let_def fst_conv set_append Un_iff level
    by (auto simp: chooses_from_def cands_for_def ex_bool_eq)
qed

lemma candidates_known:
  "c \<in> set (collect_expose_tag_candidates pc) \<Longrightarrow> map_of (infos_of compile pc nodes) (xc_tag c) \<noteq> None"
proof -
  assume "c \<in> set (collect_expose_tag_candidates pc)"
  then obtain ps oc where ps: "ps \<in> set (pc_proxies pc)" "oc \<in> set (ps_outbounds ps)" "xc_tag c = oc_tag oc"
    by (auto simp: collect_expose_tag_candidates_def split: if_splits)
  from ps(1) obtain i where "i < length (pc_proxies pc)" "pc_proxies pc ! i = ps"
    by (auto simp: in_set_conv_nth)
  then have "(i, ps) \<in> set (enumerate 0 (pc_proxies pc))" by (simp add: in_set_enumerate_eq)
  with ps have "(filter (of_source i) nodes, oc) \<in> set (local_selectors pc nodes)"
    by (force simp: local_selectors_def)
  then have "xc_tag c \<in> fst ` set (infos_of compile pc nodes)"
    unfolding infos_of_keys using ps(3) by force
  then show ?thesis by (metis map_of_eq_None_iff)
qed

lemma chooses_from_nodes: "(ns, oc) \<in> set (chooses_from pc nodes loc) \<Longrightarrow> set ns \<subseteq> set nodes"
  by (auto simp: chooses_from_def local_selectors_def global_selectors_def
      filter_nodes_exclude_from_global_def split: if_splits)

lemma filter_nodes_subset: "set (filter_nodes_for_selector compile ns f) \<subseteq> set ns"
  by (auto simp: filter_nodes_for_selector_def split: json.splits)

lemma referable_iff: "referable V a \<longleftrightarrow> map_of V a = None \<or> (\<exists>i. map_of V a = Some i \<and> oi_valid i)"
  by (cases "map_of V a") (simp_all add: referable_def)

lemma referable_final:
  assumes "map_order (infos_of compile pc nodes) order" "map_order (infos_of compile pc nodes) order'"
  shows "referable (run_validity compile pc nodes order order') a \<longleftrightarrow>
    map_of (infos_of compile pc nodes) a = None \<or>
    live compile (infos_of compile pc nodes) (pc_outbounds pc) (collect_expose_tag_candidates pc) a"
proof -
  let ?V = "run_validity compile pc nodes order order'"
  from run_validity_settles[OF assms] obtain D where
    s: "settled_so_far (infos_of compile pc nodes)
      (live compile (infos_of compile pc nodes) (pc_outbounds pc) (collect_expose_tag_candidates pc)) (set D) ?V"
    by blast
  have "map_of ?V a = None \<longleftrightarrow> map_of (infos_of compile pc nodes) a = None"
  proof (cases "a \<in> set D")
    case True
    show ?thesis
      using spec[OF s[unfolded settled_so_far_def], of a] unfolding if_P[OF True]
      by (elim exE conjE) (simp only: option.distinct)
  next
    case False
    show ?thesis
      using spec[OF s[unfolded settled_so_far_def], of a] unfolding if_not_P[OF False] by (simp only:)
  qed
  then show ?thesis unfolding referable_iff run_validity_live[OF assms, of a] by (simp only:)
qed

text \<open>Every live selector is emitted, from the configuration its info was made of.\<close>

lemma live_emitted:
  assumes o': "map_order (infos_of compile pc nodes) order" "map_order (infos_of compile pc nodes) order'"
    and lv: "live compile (infos_of compile pc nodes) (pc_outbounds pc) (collect_expose_tag_candidates pc) t"
  shows "\<exists>oc e. (oc, e) \<in> set (fst (run_passes compile pc nodes order order')) \<and> oc_tag oc = t"
proof -
  let ?V = "run_validity compile pc nodes order order'"
  note ref = referable_final[OF o']
  from lv obtain info where i: "map_of (infos_of compile pc nodes) t = Some info"
    and st: "settled compile (infos_of compile pc nodes) (pc_outbounds pc) (collect_expose_tag_candidates pc) t"
    by (auto elim: liveE)
  from infos_of_lookup[OF i] obtain ns oc where
    m: "(ns, oc) \<in> set (chooses_from pc nodes (oi_local info))" "oc_tag oc = t"
    and f: "info = info_for compile (oi_local info) ns oc" by blast
  have cfg: "oi_config info = oc" "oi_nodes info = filter_nodes_for_selector compile ns (filters_of oc)"
    by (subst f, simp add: info_for_def Let_def)+
  have "set (selector_members compile ns oc ?V (\<not> oi_local info) (cands_for pc (oi_local info))) \<noteq> {}"
    using lv unfolding live_iff[OF i st] cfg set_selector_members ref cands_for_def
    by (cases "oi_local info") auto
  then obtain e where e: "generate_selector compile ns oc ?V (\<not> oi_local info) (cands_for pc (oi_local info)) = Some e"
    using generated_iff by (metis set_empty)
  from run_validity_live[OF o', of t] lv obtain i' where "map_of ?V t = Some i'" "oi_valid i'" by blast
  with m e show ?thesis unfolding emitted_mem by blast
qed

text \<open>
  The emitted selectors are closed: none is empty, none lists a member twice, and every member
  is the tag of a loaded node, the tag of another emitted selector, or a tag the configuration
  itself adds and no selector defines (a constant of the template, such as \<open>direct-out\<close>). A
  selector that ended up empty is never referred to.
\<close>

lemma members_closed:
  assumes "map_order (infos_of compile pc nodes) order" "map_order (infos_of compile pc nodes) order'"
    and "(oc, e) \<in> set (fst (run_passes compile pc nodes order order'))"
  shows "members_of e \<noteq> [] \<and> distinct (members_of e) \<and>
    set (members_of e) \<subseteq> nd_tag ` set nodes \<union>
      (oc_tag \<circ> fst) ` set (fst (run_passes compile pc nodes order order')) \<union>
      {a \<in> set (oc_add oc). map_of (infos_of compile pc nodes) a = None}"
proof -
  let ?V = "run_validity compile pc nodes order order'"
  from assms(3) obtain loc ns where m: "(ns, oc) \<in> set (chooses_from pc nodes loc)"
    and g: "generate_selector compile ns oc ?V (\<not> loc) (cands_for pc loc) = Some e"
    unfolding emitted_mem by blast
  note mem = generated_members[OF g]
  have emitted: "t \<in> (oc_tag \<circ> fst) ` set (fst (run_passes compile pc nodes order order'))"
    if "live compile (infos_of compile pc nodes) (pc_outbounds pc) (collect_expose_tag_candidates pc) t" for t
    using live_emitted[OF assms(1,2) that] by force
  have "x \<in> nd_tag ` set nodes \<union> (oc_tag \<circ> fst) ` set (fst (run_passes compile pc nodes order order')) \<union>
      {a \<in> set (oc_add oc). map_of (infos_of compile pc nodes) a = None}"
    if x: "x \<in> set (members_of e)" for x
  proof -
    from x consider "x \<in> set (oc_add oc)" "referable ?V x"
      | "x \<in> nd_tag ` set (filter_nodes_for_selector compile ns (filters_of oc))"
      | c where "c \<in> set (collect_expose_tag_candidates pc)" "xc_tag c = x" "referable ?V x"
      unfolding conjunct1[OF mem] set_selector_members cands_for_def by (auto split: if_splits)
    then show ?thesis
    proof cases
      case 1
      then show ?thesis using emitted[of x] unfolding referable_final[OF assms(1,2)] by blast
    next
      case 2
      then show ?thesis using filter_nodes_subset[of compile ns "filters_of oc"] chooses_from_nodes[OF m] by blast
    next
      case 3
      then show ?thesis using emitted[of x] candidates_known unfolding referable_final[OF assms(1,2)] by blast
    qed
  qed
  then show ?thesis using mem selector_members_distinct by auto
qed

lemma wf_references:
  assumes R: "\<And>m t. (m, t) \<in> R \<Longrightarrow> settled compile infos globals cands t \<and>
    (depends compile infos globals cands m t \<or> map_of infos m = None)"
  shows "wf R"
proof (rule wfUNIVI)
  fix P x
  assume step: "\<forall>x. (\<forall>y. (y, x) \<in> R \<longrightarrow> P y) \<longrightarrow> P x"
  have unknown: "P m" if "map_of infos m = None" for m
  proof -
    have "(y, m) \<notin> R" for y using R[of y m] that by (auto elim: settled.cases)
    with step show ?thesis by blast
  qed
  have st: "P t" if "settled compile infos globals cands t" for t
    using that
  proof induction
    case (settledI t)
    then have "P y" if "(y, t) \<in> R" for y using R[OF that] unknown by blast
    with step show ?case by blast
  qed
  have "P y" if "(y, x) \<in> R" for y using R[OF that] unknown st step
    by (metis R)
  then show "P x" using step by blast
qed

lemma emitted_info:
  assumes d: "distinct (map (oc_tag \<circ> snd) (local_selectors pc nodes @ global_selectors pc (pool_of pc nodes)))"
    and m: "(ns, oc) \<in> set (chooses_from pc nodes loc)"
    and i: "map_of (infos_of compile pc nodes) (oc_tag oc) = Some info"
  shows "oi_config info = oc \<and> oi_local info = loc"
proof -
  from infos_of_lookup[OF i] obtain ns' oc' where
    m': "(ns', oc') \<in> set (chooses_from pc nodes (oi_local info))" "oc_tag oc' = oc_tag oc"
    and f: "info = info_for compile (oi_local info) ns' oc'" by blast
  have inj: "inj_on (oc_tag \<circ> snd) (set (local_selectors pc nodes))"
    "inj_on (oc_tag \<circ> snd) (set (global_selectors pc (pool_of pc nodes)))"
    and disj: "(oc_tag \<circ> snd) ` set (local_selectors pc nodes) \<inter>
      (oc_tag \<circ> snd) ` set (global_selectors pc (pool_of pc nodes)) = {}"
    using d by (auto simp: distinct_map)
  have "oc_tag oc \<in> (oc_tag \<circ> snd) ` set (chooses_from pc nodes loc)" using m by force
  moreover have "oc_tag oc \<in> (oc_tag \<circ> snd) ` set (chooses_from pc nodes (oi_local info))"
    using m' by (metis comp_apply image_eqI snd_conv)
  ultimately have loc: "oi_local info = loc"
    using disj unfolding chooses_from_def by (cases loc; cases "oi_local info"; simp only: if_True if_False) blast+
  have "inj_on (oc_tag \<circ> snd) (set (chooses_from pc nodes loc))" using inj by (simp add: chooses_from_def)
  from inj_onD[OF this _ m'(1)[unfolded loc] m] m'(2) have "oc' = oc" by simp
  moreover have "oi_config info = oc'" by (subst f) (simp add: info_for_def Let_def)
  ultimately show ?thesis using loc by simp
qed

text \<open>
  C24. When no two selectors share a tag and no node has the tag of a selector, the references
  between what is emitted are well founded: following members from any selector ends, after
  finitely many steps, at nodes and constants, so the core's check for circular groups cannot fail
  on them. Nothing in the code enforces the two conditions (see \<open>node_named_as_selector_collides\<close>).
\<close>

theorem emitted_references_well_founded:
  assumes "map_order (infos_of compile pc nodes) order" "map_order (infos_of compile pc nodes) order'"
    and "distinct (map (oc_tag \<circ> snd) (local_selectors pc nodes @ global_selectors pc (pool_of pc nodes)))"
    and "nd_tag ` set nodes \<inter> fst ` set (infos_of compile pc nodes) = {}"
  shows "wf {(m, oc_tag oc) | m oc e. (oc, e) \<in> set (fst (run_passes compile pc nodes order order')) \<and>
    m \<in> set (members_of e)}"
proof (rule wf_references[where compile = compile and infos = "infos_of compile pc nodes"
      and globals = "pc_outbounds pc" and cands = "collect_expose_tag_candidates pc"])
  let ?V = "run_validity compile pc nodes order order'"
  let ?st = "settled compile (infos_of compile pc nodes) (pc_outbounds pc) (collect_expose_tag_candidates pc)"
  let ?dep = "depends compile (infos_of compile pc nodes) (pc_outbounds pc) (collect_expose_tag_candidates pc)"
  fix x t
  assume "(x, t) \<in> {(m, oc_tag oc) | m oc e. (oc, e) \<in> set (fst (run_passes compile pc nodes order order')) \<and>
    m \<in> set (members_of e)}"
  then obtain oc e where em: "(oc, e) \<in> set (fst (run_passes compile pc nodes order order'))"
    and x: "x \<in> set (members_of e)" and t: "t = oc_tag oc" by blast
  from em obtain loc ns i where m: "(ns, oc) \<in> set (chooses_from pc nodes loc)"
    and v: "map_of ?V (oc_tag oc) = Some i" "oi_valid i"
    and g: "generate_selector compile ns oc ?V (\<not> loc) (cands_for pc loc) = Some e"
    unfolding emitted_mem by blast
  have lv: "live compile (infos_of compile pc nodes) (pc_outbounds pc) (collect_expose_tag_candidates pc) t"
    using run_validity_live[OF assms(1,2), of t] v t by blast
  then have st: "?st t" by (auto elim: liveE)
  from lv obtain info where info: "map_of (infos_of compile pc nodes) (oc_tag oc) = Some info"
    unfolding t by (auto elim: liveE)
  have cfg: "oi_config info = oc" "oi_local info = loc" using emitted_info[OF assms(3) m info] by auto
  from x consider "x \<in> set (oc_add oc)"
    | "x \<in> nd_tag ` set (filter_nodes_for_selector compile ns (filters_of oc))"
    | c where "\<not> loc" "c \<in> set (collect_expose_tag_candidates pc)" "xc_tag c = x" "accepts_candidate compile oc c"
    unfolding conjunct1[OF generated_members[OF g]] set_selector_members cands_for_def
    by (auto split: if_splits)
  then have "?dep x t \<or> map_of (infos_of compile pc nodes) x = None"
  proof cases
    case 1
    then show ?thesis using info cfg t by (auto simp: depends_def)
  next
    case 2
    then have "x \<in> nd_tag ` set nodes"
      using filter_nodes_subset[of compile ns "filters_of oc"] chooses_from_nodes[OF m] by blast
    with assms(4) show ?thesis by (metis disjoint_iff map_of_eq_None_iff)
  next
    case 3
    have "oc \<in> set (pc_outbounds pc)" using m 3(1) by (auto simp: chooses_from_def global_selectors_def)
    with 3 info cfg t show ?thesis by (auto simp: depends_def)
  qed
  with st show "?st t \<and> (?dep x t \<or> map_of (infos_of compile pc nodes) x = None)" by blast
qed

subsection \<open>A configuration for the witnesses\<close>

definition group_config :: "string \<Rightarrow> string \<Rightarrow> string list \<Rightarrow> string \<Rightarrow> outbound_config" where
  "group_config t c add flt =
     \<lparr>oc_tag = t, oc_type = ''selector'', oc_options = None,
      oc_filters = (if flt = [] then None else Some [(''tag'', JStr flt)]), oc_add = add,
      oc_preferred = None, oc_comment = c, oc_required = False, oc_ref = [], oc_updates = []\<rparr>"

definition sample_config :: parser_config where
  "sample_config =
     \<lparr>pc_version = 4,
      pc_proxies =
        [(chained_source [])\<lparr>ps_outbounds := [group_config ''auto'' ''WIZARD:auto'' [] []],
           ps_expose_group_tags := True\<rparr>],
      pc_outbounds =
        [group_config ''proxy'' [] [''empty'', ''direct''] [],
         group_config ''empty'' [] [] ''none'',
         group_config ''loop'' [] [''loop''] [],
         group_config ''after'' [] [''loop''] ''none''],
      pc_reload = [], pc_last_updated = []\<rparr>"

definition sample_nodes :: "parsed_node list" where
  "sample_nodes = [plain_node ''n1'' 0 [], plain_node ''n2'' 0 []]"

abbreviation no_regex :: regex_engine where
  "no_regex \<equiv> \<lambda>_. None"

definition sample_order :: "string list" where
  "sample_order = [''loop'', ''proxy'', ''after'', ''auto'', ''empty'']"

lemma sample_map_order:
  "map_order (infos_of no_regex sample_config sample_nodes) sample_order"
  "map_order (infos_of no_regex sample_config sample_nodes) (rev sample_order)"
  by code_simp+

theorem validity_is_least_fixpoint_witness:
  "live no_regex (infos_of no_regex sample_config sample_nodes) (pc_outbounds sample_config)
     (collect_expose_tag_candidates sample_config) ''proxy'' \<and>
   \<not> live no_regex (infos_of no_regex sample_config sample_nodes) (pc_outbounds sample_config)
     (collect_expose_tag_candidates sample_config) ''loop''"
proof -
  let ?v = "\<lambda>t. case map_of (run_validity no_regex sample_config sample_nodes sample_order (rev sample_order)) t of
      Some i \<Rightarrow> oi_valid i | None \<Rightarrow> False"
  have "?v ''proxy'' \<and> \<not> ?v ''loop''" by code_simp
  then have "\<exists>i. map_of (run_validity no_regex sample_config sample_nodes sample_order (rev sample_order)) ''proxy'' = Some i \<and> oi_valid i"
    "\<not> (\<exists>i. map_of (run_validity no_regex sample_config sample_nodes sample_order (rev sample_order)) ''loop'' = Some i \<and> oi_valid i)"
    by (auto split: option.splits)
  then show ?thesis unfolding validity_is_least_fixpoint[OF sample_map_order] by blast
qed

definition sample_emitted :: "(outbound_config \<times> emitted) list" where
  "sample_emitted = fst (run_passes no_regex sample_config sample_nodes sample_order (rev sample_order))"

theorem emitted_references_well_founded_witness:
  "wf {(m, oc_tag oc) | m oc e. (oc, e) \<in> set sample_emitted \<and> m \<in> set (members_of e)} \<and>
   (\<exists>oc e. (oc, e) \<in> set sample_emitted \<and> ''auto'' \<in> set (members_of e) \<and> oc_tag oc = ''proxy'')"
proof -
  have d: "distinct (map (oc_tag \<circ> snd) (local_selectors sample_config sample_nodes @
      global_selectors sample_config (pool_of sample_config sample_nodes)))" by code_simp
  have n: "nd_tag ` set sample_nodes \<inter> fst ` set (infos_of no_regex sample_config sample_nodes) = {}"
    by code_simp
  have v: "list_ex (\<lambda>(oc, e). ''auto'' \<in> set (members_of e) \<and> oc_tag oc = ''proxy'') sample_emitted" by code_simp
  from emitted_references_well_founded[OF sample_map_order d n] v show ?thesis
    unfolding sample_emitted_def[symmetric] by (auto simp: list_ex_iff)
qed

text \<open>
  Nothing keeps node tags and selector tags apart: a node that carries the tag of a selector
  makes the selector a member of itself, with two outbounds of one tag in the configuration.
\<close>

theorem node_named_as_selector_collides:
  "map (\<lambda>(oc, e). (oc_tag oc, members_of e))
     (fst (run_passes no_regex (sample_config\<lparr>pc_outbounds := [group_config ''n1'' [] [] []], pc_proxies := []\<rparr>)
        sample_nodes [''n1''] [''n1''])) = [(''n1'', [''n1'', ''n2''])]"
  by code_simp

end
