(* ===== verification/Generate.thy ===== *)
theory Generate
  imports Selectors
begin

text \<open>
  Generation of the outbounds, \<open>GenerateOutboundsFromParserConfig\<close> of
  \<open>core/config/outbound_generator.go\<close>, and the placeholder substitution in selector options it
  starts with, \<open>core/config/varsubst.go\<close>. Loading a source is the parameter \<open>load\<close>, as it is an
  argument of the code; the naive-support probe is a value; the identity hash, the regular
  expressions and the orders in which Go ranges over its maps are parameters, an order being a
  function that permutes the keys. Files are read by the caller: their decoded contents are
  arguments.
\<close>

section \<open>Placeholders in selector options\<close>

definition known_placeholder_fallback :: "string \<Rightarrow> json option" where
  "known_placeholder_fallback name =
     (if name = ''urltest_url'' then Some (JStr ''https://cp.cloudflare.com/generate_204'')
      else if name = ''urltest_interval'' then Some (JStr ''5m'')
      else if name = ''urltest_tolerance'' then Some (JNum 100)
      else None)"

definition substitute_option :: "(string \<Rightarrow> json option) option \<Rightarrow> json \<Rightarrow> json" where
  "substitute_option subst v =
     (case v of
        JStr s \<Rightarrow>
          if \<not> prefix ''@'' s then v
          else (let name = trim_prefix s ''@'' in
            if name = [] \<or> CHR ''@'' \<in> set name then v
            else (case (case subst of None \<Rightarrow> None | Some f \<Rightarrow> f name) of
                    Some x \<Rightarrow> x
                  | None \<Rightarrow>
                      (case known_placeholder_fallback name of Some x \<Rightarrow> x | None \<Rightarrow> v)))
      | _ \<Rightarrow> v)"

definition substitute_options_map :: "(string \<Rightarrow> json option) option \<Rightarrow> outbound_config \<Rightarrow> outbound_config" where
  "substitute_options_map subst oc =
     oc\<lparr>oc_options := map_option (map (\<lambda>p. (fst p, substitute_option subst (snd p)))) (oc_options oc)\<rparr>"

definition substitute_parser_config_placeholders ::
    "(string \<Rightarrow> json option) option \<Rightarrow> parser_config \<Rightarrow> parser_config" where
  "substitute_parser_config_placeholders subst pc =
     pc\<lparr>pc_outbounds := map (substitute_options_map subst) (pc_outbounds pc),
        pc_proxies := map (\<lambda>ps. ps\<lparr>ps_outbounds := map (substitute_options_map subst) (ps_outbounds ps)\<rparr>)
          (pc_proxies pc)\<rparr>"

text \<open>The substituter built from the template and the state; \<open>pick\<close> is the entry a range over a map meets first.\<close>

function read_var_default_value :: "((string \<times> json) list \<Rightarrow> nat) \<Rightarrow> json \<Rightarrow> string option" where
  "read_var_default_value pick v =
     (case v of
        JStr s \<Rightarrow> Some s
      | JNum i \<Rightarrow> Some (itoa i)
      | JBool b \<Rightarrow> Some (if b then ''true'' else ''false'')
      | JObj m \<Rightarrow>
          (case map_of m ''default'' of
             Some d \<Rightarrow> read_var_default_value pick d
           | None \<Rightarrow> if pick m < length m then read_var_default_value pick (snd (m ! pick m)) else None)
      | _ \<Rightarrow> None)"
  by pat_completeness auto

termination
  by (relation "measure (\<lambda>(_, v). size v)")
    (auto simp del: json.size dest: size_obj_lookup intro: size_obj_mem[OF nth_mem])

declare read_var_default_value.simps [simp del]

definition int_cast_var_names :: "string list" where
  "int_cast_var_names = [''tun_mtu'', ''mixed_listen_port'', ''proxy_in_listen_port'', ''urltest_tolerance'']"

record var_defaults =
  vd_values :: "string smap"
  vd_bools :: "string list"

definition load_template_var_defaults ::
    "((string \<times> json) list \<Rightarrow> nat) \<Rightarrow> json list \<Rightarrow> var_defaults" where
  "load_template_var_defaults pick vars =
     fold (\<lambda>v out.
         (case v of
            JObj m \<Rightarrow>
              (case (dec_str m ''name'', dec_str m ''type'', dec_bool m ''separator'') of
                 (Some name, Some ty, Some sep) \<Rightarrow>
                   if sep \<or> name = [] then out
                   else (let out = (if ty = ''bool'' then out\<lparr>vd_bools := name # vd_bools out\<rparr> else out)
                         in case (case map_of m ''default_value'' of
                                    None \<Rightarrow> None | Some d \<Rightarrow> read_var_default_value pick d) of
                              None \<Rightarrow> out
                            | Some s \<Rightarrow> out\<lparr>vd_values := sput name s (vd_values out)\<rparr>)
               | _ \<Rightarrow> out)
          | _ \<Rightarrow> out)) vars \<lparr>vd_values = [], vd_bools = []\<rparr>"

definition load_state_settings_vars :: "(string \<times> string) list \<Rightarrow> string smap" where
  "load_state_settings_vars entries =
     fold (\<lambda>(name, value) out. if name = [] \<or> value = [] then out else sput name value out) entries []"

definition coerce_var_value :: "string \<Rightarrow> string \<Rightarrow> string list \<Rightarrow> string list \<Rightarrow> json" where
  "coerce_var_value name value ints bools =
     (if name \<in> set bools then JBool (equal_fold (trim_space value) ''true'')
      else if name \<in> set ints then
        (case atoi (trim_space value) of Some n \<Rightarrow> JNum n | None \<Rightarrow> JStr value)
      else JStr value)"

definition build_var_substituter :: "var_defaults \<Rightarrow> string smap \<Rightarrow> string \<Rightarrow> json option" where
  "build_var_substituter defaults overrides name =
     (case map_of overrides name of
        Some v \<Rightarrow> Some (coerce_var_value name v int_cast_var_names (vd_bools defaults))
      | None \<Rightarrow>
          (case map_of (vd_values defaults) name of
             Some v \<Rightarrow> Some (coerce_var_value name v int_cast_var_names (vd_bools defaults))
           | None \<Rightarrow> None))"

section \<open>Loading the sources\<close>

type_synonym tag_counts = "int smap"

datatype gen_error =
    NoEnabledSources
  | OnlyNaiveNodes nat string
  | NoNodesParsed
  | EverySourceDropped

record load_state =
  ls_nodes :: "parsed_node list"
  ls_counts :: tag_counts
  ls_succeeded :: nat
  ls_failed :: nat
  ls_skipped_naive :: nat

type_synonym loader = "proxy_source \<Rightarrow> nat \<Rightarrow> tag_counts \<Rightarrow> parsed_node list option \<times> tag_counts"

definition load_source :: "loader \<Rightarrow> bool \<Rightarrow> nat \<times> proxy_source \<Rightarrow> load_state \<Rightarrow> load_state" where
  "load_source load naive_supported p s =
     (case p of (i, ps) \<Rightarrow>
        if ps_disabled ps then s
        else (let (res, counts) = load ps i (ls_counts s); s = s\<lparr>ls_counts := counts\<rparr> in
          case res of
            None \<Rightarrow> s\<lparr>ls_failed := Suc (ls_failed s)\<rparr>
          | Some nodes \<Rightarrow>
              (let kept = (if naive_supported then nodes else filter (\<lambda>n. nd_scheme n \<noteq> ''naive'') nodes);
                   skipped = length nodes - length kept;
                   s = s\<lparr>ls_skipped_naive := ls_skipped_naive s + skipped\<rparr>
               in if kept = [] \<and> 0 < skipped then s\<lparr>ls_succeeded := Suc (ls_succeeded s)\<rparr>
                  else if kept \<noteq> [] then
                    s\<lparr>ls_nodes := ls_nodes s @ map (\<lambda>n. n\<lparr>nd_source_index := int i\<rparr>) kept,
                      ls_succeeded := Suc (ls_succeeded s)\<rparr>
                  else s\<lparr>ls_failed := Suc (ls_failed s)\<rparr>)))"

definition load_sources :: "loader \<Rightarrow> bool \<Rightarrow> tag_counts \<Rightarrow> proxy_source list \<Rightarrow> load_state" where
  "load_sources load naive_supported counts proxies =
     fold (load_source load naive_supported) (enumerate 0 proxies)
       \<lparr>ls_nodes = [], ls_counts = counts, ls_succeeded = 0, ls_failed = 0, ls_skipped_naive = 0\<rparr>"

section \<open>The whole generation\<close>

record generation_result =
  gr_outbounds :: "emitted list"
  gr_endpoints :: "emitted list"
  gr_nodes_count :: nat
  gr_endpoints_count :: nat
  gr_local_selectors :: nat
  gr_global_selectors :: nat
  gr_total_sources :: nat
  gr_succeeded :: nat
  gr_failed :: nat
  gr_skipped_naive :: nat
  gr_skipped_reason :: string

record gen_env =
  ge_ident :: "parsed_node \<Rightarrow> string"
  ge_compile :: regex_engine
  ge_load :: loader
  ge_naive_supported :: bool
  ge_naive_reason :: string
  ge_detour_order :: "string list \<Rightarrow> string list"
  ge_infos_order :: "string list \<Rightarrow> string list"
  ge_queue_order :: "string list \<Rightarrow> string list"

text \<open>Nodes whose emission fails are left out with a warning.\<close>

fun emit_all :: "parsed_node list \<Rightarrow> emitted list \<times> emitted list \<times> nat \<times> nat" where
  "emit_all [] = ([], [], 0, 0)"
| "emit_all (n # ns) =
     (case emit_all ns of (outs, eps, nc, ec) \<Rightarrow>
        (case emit_node_jsons n of
           Inl _ \<Rightarrow> (outs, eps, nc, ec)
         | Inr (xs, Some ep) \<Rightarrow> (outs, ep # eps, nc, Suc ec)
         | Inr (xs, None) \<Rightarrow> (xs @ outs, eps, Suc nc, ec)))"

text \<open>The nodes that reach the emission, their detours resolved and free of cycles.\<close>

definition prepared_nodes :: "gen_env \<Rightarrow> parser_config \<Rightarrow> parsed_node list \<Rightarrow> parsed_node list" where
  "prepared_nodes env pc loaded =
     (let nodes = resolve_node_hash_detours (ge_ident env) (pc_proxies pc) loaded
      in sanitize_node_detours (ge_detour_order env (map fst (detour_edges nodes))) nodes)"

definition selector_run :: "gen_env \<Rightarrow> parser_config \<Rightarrow> parsed_node list \<Rightarrow> (outbound_config \<times> emitted) list \<times> nat \<times> nat" where
  "selector_run env pc nodes =
     (let keys = map fst (infos_of (ge_compile env) pc nodes)
      in run_passes (ge_compile env) pc nodes (ge_infos_order env keys) (ge_queue_order env keys))"

definition generate_outbounds_from_parser_config ::
    "gen_env \<Rightarrow> parser_config \<Rightarrow> tag_counts \<Rightarrow> gen_error + generation_result" where
  "generate_outbounds_from_parser_config env pc0 counts =
     (let pc = substitute_parser_config_placeholders None pc0;
          total = length (filter (\<lambda>p. \<not> ps_disabled p) (pc_proxies pc));
          s = load_sources (ge_load env) (ge_naive_supported env) counts (pc_proxies pc)
      in if ls_nodes s = [] then
           Inl (if total = 0 then NoEnabledSources
                else if 0 < ls_skipped_naive s then OnlyNaiveNodes (ls_skipped_naive s) (ge_naive_reason env)
                else NoNodesParsed)
         else if resolve_node_hash_detours (ge_ident env) (pc_proxies pc) (ls_nodes s) = [] then
           Inl EverySourceDropped
         else (let nodes = prepared_nodes env pc (ls_nodes s);
                   (outs, eps, nc, ec) = emit_all nodes;
                   (sels, nl, ng) = selector_run env pc nodes
               in Inr \<lparr>gr_outbounds = outs @ map snd sels, gr_endpoints = eps, gr_nodes_count = nc,
                     gr_endpoints_count = ec, gr_local_selectors = nl, gr_global_selectors = ng,
                     gr_total_sources = total, gr_succeeded = ls_succeeded s, gr_failed = ls_failed s,
                     gr_skipped_naive = ls_skipped_naive s, gr_skipped_reason = ge_naive_reason env\<rparr>))"

section \<open>Accounting of the sources\<close>

lemma load_source_account:
  "ls_succeeded (load_source load nv (i, ps) s) + ls_failed (load_source load nv (i, ps) s) =
   ls_succeeded s + ls_failed s + (if ps_disabled ps then 0 else 1)"
  by (auto simp: load_source_def Let_def split: prod.split option.split)

lemma load_fold_account:
  "ls_succeeded (fold (load_source load nv) ps s) + ls_failed (fold (load_source load nv) ps s) =
   ls_succeeded s + ls_failed s + length (filter (\<lambda>p. \<not> ps_disabled (snd p)) ps)"
proof (induction ps arbitrary: s)
  case (Cons p ps)
  show ?case using load_source_account[of load nv "fst p" "snd p" s]
    by (simp add: Cons)
qed simp

lemma filter_enumerate:
  "length (filter (\<lambda>p. P (snd p)) (enumerate k xs)) = length (filter P xs)"
  by (induction xs arbitrary: k) auto

section \<open>Emission of the nodes\<close>

definition tags_of :: "emitted list \<Rightarrow> string set" where
  "tags_of es = {t. \<exists>e \<in> set es. map_of (em_fields e) ''tag'' = Some (JStr t)}"

lemma endpoint_tag:
  "generate_endpoint_json n = Inr e \<Longrightarrow> nd_tag n \<noteq> [] \<Longrightarrow> map_of (em_fields e) ''tag'' = Some (JStr (nd_tag n))"
  by (auto simp: generate_endpoint_json_def map_of_extra_fields split: option.splits if_splits)

lemma emitted_node_tag:
  assumes "emit_node_jsons n = Inr (xs, ep)" "nd_tag n \<noteq> []"
  shows "(\<exists>e. ep = Some e \<and> map_of (em_fields e) ''tag'' = Some (JStr (nd_tag n))) \<or>
    (ep = None \<and> nd_tag n \<in> tags_of xs)"
proof (cases "nd_scheme n = ''wireguard''")
  case True
  with assms endpoint_tag[of n] show ?thesis by (auto simp: emit_node_jsons_def split: sum.splits)
next
  case False
  define main where "main = (case chain_of_node n of [] \<Rightarrow> n
    | h # _ \<Rightarrow> n\<lparr>nd_outbound := Some (sput ''detour'' (GStr (nd_tag h)) (ob n))\<rparr>)"
  have tag: "nd_tag main = nd_tag n" by (simp add: main_def split: list.split)
  from False assms(1) obtain hops x where "generate_node_json main = Inr x" "xs = hops @ [x]" "ep = None"
    by (auto simp: emit_node_jsons_def Let_def main_def split: sum.splits)
  with generated_tag[of main x] tag show ?thesis by (auto simp: tags_of_def)
qed

lemma emit_all_tags:
  assumes "emit_all ns = (outs, eps, nc, ec)" "n \<in> set ns" "emit_node_jsons n = Inr y" "nd_tag n \<noteq> []"
  shows "nd_tag n \<in> tags_of outs \<union> tags_of eps"
  using assms(1,2)
proof (induction ns arbitrary: outs eps nc ec)
  case (Cons k ns)
  obtain o1 e1 n1 c1 where r: "emit_all ns = (o1, e1, n1, c1)" by (metis prod_cases4)
  have sub: "set o1 \<subseteq> set outs" "set e1 \<subseteq> set eps"
    using Cons.prems(1) r by (auto split: sum.splits prod.splits option.splits)
  show ?case
  proof (cases "n \<in> set ns")
    case True
    with Cons.IH[OF r] sub show ?thesis by (auto simp: tags_of_def)
  next
    case False
    with Cons.prems have k: "n = k" by simp
    obtain xs ep where y: "y = (xs, ep)" by (cases y)
    show ?thesis
      using emitted_node_tag[OF assms(3)[unfolded y] assms(4)] Cons.prems(1) r assms(3) y k
      by (auto simp: tags_of_def split: option.splits)
  qed
qed simp

section \<open>The result\<close>

definition generation_config :: "parser_config \<Rightarrow> parser_config" where
  "generation_config pc0 = substitute_parser_config_placeholders None pc0"

definition loaded :: "gen_env \<Rightarrow> parser_config \<Rightarrow> tag_counts \<Rightarrow> load_state" where
  "loaded env pc counts = load_sources (ge_load env) (ge_naive_supported env) counts (pc_proxies pc)"

definition final_nodes :: "gen_env \<Rightarrow> parser_config \<Rightarrow> tag_counts \<Rightarrow> parsed_node list" where
  "final_nodes env pc0 counts =
     prepared_nodes env (generation_config pc0) (ls_nodes (loaded env (generation_config pc0) counts))"

lemma generate_Inr:
  assumes "generate_outbounds_from_parser_config env pc0 counts = Inr r"
  obtains outs eps nc ec sels nl ng where
    "emit_all (final_nodes env pc0 counts) = (outs, eps, nc, ec)"
    "selector_run env (generation_config pc0) (final_nodes env pc0 counts) = (sels, nl, ng)"
    "gr_outbounds r = outs @ map snd sels" "gr_endpoints r = eps"
    "gr_nodes_count r = nc" "gr_endpoints_count r = ec"
    "gr_local_selectors r = nl" "gr_global_selectors r = ng"
    "gr_succeeded r = ls_succeeded (loaded env (generation_config pc0) counts)"
    "gr_failed r = ls_failed (loaded env (generation_config pc0) counts)"
    "gr_total_sources r = length (filter (\<lambda>p. \<not> ps_disabled p) (pc_proxies (generation_config pc0)))"
proof -
  obtain outs eps nc ec where e: "emit_all (final_nodes env pc0 counts) = (outs, eps, nc, ec)"
    by (metis prod_cases4)
  obtain sels nl ng where s: "selector_run env (generation_config pc0) (final_nodes env pc0 counts) = (sels, nl, ng)"
    by (metis prod_cases3)
  show thesis
    using assms e s
    by (intro that[OF e s])
      (auto simp: generate_outbounds_from_parser_config_def Let_def final_nodes_def loaded_def
        generation_config_def split: if_splits)
qed

lemma substituted_disabled:
  "map ps_disabled (pc_proxies (generation_config pc)) = map ps_disabled (pc_proxies pc)"
  by (simp add: generation_config_def substitute_parser_config_placeholders_def comp_def)

text \<open>What each node contributes to the outbounds: its hops and itself, or nothing.\<close>

definition node_outbounds :: "parsed_node \<Rightarrow> emitted list" where
  "node_outbounds n = (case emit_node_jsons n of Inr (xs, None) \<Rightarrow> xs | _ \<Rightarrow> [])"

definition emitted_outbound :: "parsed_node \<Rightarrow> bool" where
  "emitted_outbound n \<longleftrightarrow> (\<exists>xs. emit_node_jsons n = Inr (xs, None))"

definition emitted_endpoint :: "parsed_node \<Rightarrow> bool" where
  "emitted_endpoint n \<longleftrightarrow> (\<exists>xs ep. emit_node_jsons n = Inr (xs, Some ep))"

lemma emit_all_lists:
  "emit_all ns = (outs, eps, nc, ec) \<Longrightarrow>
   outs = concat (map node_outbounds ns) \<and> nc = length (filter emitted_outbound ns) \<and>
   ec = length (filter emitted_endpoint ns) \<and> ec = length eps"
proof (induction ns arbitrary: outs eps nc ec)
  case (Cons k ns)
  obtain o1 e1 n1 c1 where r: "emit_all ns = (o1, e1, n1, c1)" by (metis prod_cases4)
  from Cons.IH[OF r] Cons.prems r show ?case
    by (cases "emit_node_jsons k")
      (auto simp: node_outbounds_def emitted_outbound_def emitted_endpoint_def split: option.splits prod.splits)
qed simp

text \<open>A level emits the selectors it is given at most once each, in their order.\<close>

lemma level_subseq: "subseq (map fst (generate_level compile infos glob cands sels)) (map snd sels)"
proof (induction sels)
  case (Cons p sels)
  obtain ns oc where p: "p = (ns, oc)" by (cases p)
  show ?case using Cons
    by (auto simp: p generate_level_def List.map_filter_simps split: option.split intro: subseq_Cons')
qed (simp add: generate_level_def List.map_filter_simps)

lemma selector_levels:
  assumes "selector_run env pc nodes = (sels, nl, ng)"
  shows "\<exists>ls gs. sels = ls @ gs \<and> nl = length ls \<and> ng = length gs \<and>
    subseq (map fst ls) (map snd (local_selectors pc nodes)) \<and>
    subseq (map fst gs) (map snd (global_selectors pc (pool_of pc nodes)))"
  using assms level_subseq
  unfolding selector_run_def run_passes_def generate_selector_jsons_def Let_def
  by (intro exI conjI) auto

text \<open>
  C29. A successful generation accounts for every enabled source exactly once, as succeeded or as
  failed, and its counts are those of its lists. The outbounds are what the nodes contribute, in
  order, then the local selectors, then the global ones, each selector of the configuration at most
  once and in order; the counts of the two kinds of selectors are the lengths of their parts, the
  count of nodes is the number of nodes emitted as outbounds (their hops are not counted), and the
  count of endpoints is the length of the list of endpoints, one for each node emitted as endpoint.
\<close>

theorem generation_accounts_for_sources:
  assumes "generate_outbounds_from_parser_config env pc counts = Inr r"
  shows "gr_succeeded r + gr_failed r = length (filter (\<lambda>p. \<not> ps_disabled p) (pc_proxies pc)) \<and>
    gr_total_sources r = gr_succeeded r + gr_failed r \<and>
    (\<exists>ls gs. gr_outbounds r = concat (map node_outbounds (final_nodes env pc counts)) @ map snd ls @ map snd gs \<and>
       gr_local_selectors r = length ls \<and> gr_global_selectors r = length gs \<and>
       subseq (map fst ls) (map snd (local_selectors (generation_config pc) (final_nodes env pc counts))) \<and>
       subseq (map fst gs) (map snd (global_selectors (generation_config pc)
         (pool_of (generation_config pc) (final_nodes env pc counts))))) \<and>
    gr_nodes_count r = length (filter emitted_outbound (final_nodes env pc counts)) \<and>
    gr_endpoints_count r = length (filter emitted_endpoint (final_nodes env pc counts)) \<and>
    gr_endpoints_count r = length (gr_endpoints r)"
proof -
  let ?pc = "generation_config pc"
  have len: "length (filter (\<lambda>p. \<not> ps_disabled p) ps) = length (filter Not (map ps_disabled ps))" for ps
    by (simp add: filter_map comp_def)
  have acc: "ls_succeeded (loaded env ?pc counts) + ls_failed (loaded env ?pc counts) =
      length (filter (\<lambda>p. \<not> ps_disabled p) (pc_proxies ?pc))"
    unfolding loaded_def load_sources_def load_fold_account
    by (simp add: filter_enumerate[of "\<lambda>p. \<not> ps_disabled p"])
  have same: "length (filter (\<lambda>p. \<not> ps_disabled p) (pc_proxies ?pc)) = length (filter (\<lambda>p. \<not> ps_disabled p) (pc_proxies pc))"
    unfolding len substituted_disabled ..
  from assms show ?thesis
  proof (rule generate_Inr)
    fix outs eps nc ec sels nl ng
    assume em: "emit_all (final_nodes env pc counts) = (outs, eps, nc, ec)"
      and sel: "selector_run env ?pc (final_nodes env pc counts) = (sels, nl, ng)"
      and r: "gr_outbounds r = outs @ map snd sels" "gr_endpoints r = eps" "gr_nodes_count r = nc"
        "gr_endpoints_count r = ec" "gr_local_selectors r = nl" "gr_global_selectors r = ng"
        "gr_succeeded r = ls_succeeded (loaded env ?pc counts)" "gr_failed r = ls_failed (loaded env ?pc counts)"
        "gr_total_sources r = length (filter (\<lambda>p. \<not> ps_disabled p) (pc_proxies ?pc))"
    obtain ls gs where lg: "sels = ls @ gs" "nl = length ls" "ng = length gs"
      "subseq (map fst ls) (map snd (local_selectors ?pc (final_nodes env pc counts)))"
      "subseq (map fst gs) (map snd (global_selectors ?pc (pool_of ?pc (final_nodes env pc counts))))"
      using selector_levels[OF sel] by blast
    show ?thesis
      using emit_all_lists[OF em] acc same r lg by (intro conjI exI[of _ ls] exI[of _ gs]) simp_all
  qed
qed

definition permutes_keys :: "(string list \<Rightarrow> string list) \<Rightarrow> bool" where
  "permutes_keys f \<longleftrightarrow> (\<forall>ks. mset (f ks) = mset ks)"

lemma permuted_order:
  "permutes_keys f \<Longrightarrow> map_order (infos_of compile pc nodes) (f (map fst (infos_of compile pc nodes)))"
  unfolding map_order_def permutes_keys_def
  by (metis infos_of_distinct list.set_map mset_eq_imp_distinct_iff mset_eq_setD)

lemma emitted_selector_tag:
  "(oc, e) \<in> set (fst (run_passes compile pc nodes order order')) \<Longrightarrow>
   map_of (em_fields e) ''tag'' = Some (JStr (oc_tag oc))"
  unfolding emitted_mem by (auto simp: generate_selector_def Let_def split: if_splits)

text \<open>
  A node that is left out of the configuration: its emission fails (with a warning), or it has no
  tag to refer to. Only groups, raw nodes, WireGuard nodes without data and nodes behind a hop that
  fails itself can fail.
\<close>

definition left_out :: "parsed_node \<Rightarrow> bool" where
  "left_out n \<longleftrightarrow> nd_tag n = [] \<or> (\<exists>err. emit_node_jsons n = Inl err)"

lemma plain_nodes_emitted:
  assumes "nd_tag n \<noteq> []" "nd_scheme n \<noteq> scheme_group" "\<not> nd_emit_raw n" "nd_scheme n \<noteq> ''wireguard''"
    and "chain_of_node n = []"
  shows "\<not> left_out n"
  using assms by (simp add: left_out_def emit_node_jsons_def generate_node_json_def)

text \<open>
  C1. In the generated configuration no group built from a selector of the configuration is empty,
  and none names an outbound that is not there: every member is the tag of an emitted outbound or
  endpoint, or a constant that the configuration adds and no selector defines, or the tag of one of
  the final nodes that is left out because its own emission fails (\<open>left_out\<close>; a node
  with a tag and without hops that is no group, not raw and no WireGuard node is never left out, see
  \<open>plain_nodes_emitted\<close>). This holds for any loader and any order
  of Go's maps. Groups that come with a subscription are nodes and not spoken of here (see
  \<open>skipped_naive_node_stays_group_member\<close>).
\<close>

theorem generated_groups_closed:
  assumes "generate_outbounds_from_parser_config env pc counts = Inr r"
    and "permutes_keys (ge_infos_order env)" "permutes_keys (ge_queue_order env)"
    and "(oc, e) \<in> set (fst (selector_run env (generation_config pc) (final_nodes env pc counts)))"
  shows "e \<in> set (gr_outbounds r) \<and> members_of e \<noteq> [] \<and>
    set (members_of e) \<subseteq> tags_of (gr_outbounds r) \<union> tags_of (gr_endpoints r) \<union>
      {a \<in> set (oc_add oc). map_of (infos_of (ge_compile env) (generation_config pc) (final_nodes env pc counts)) a = None} \<union>
      nd_tag ` {n \<in> set (final_nodes env pc counts). left_out n}"
  using assms(1)
proof (rule generate_Inr)
  fix outs eps nc ec sels nl ng
  let ?pc = "generation_config pc"
  let ?ns = "final_nodes env pc counts"
  let ?ks = "map fst (infos_of (ge_compile env) ?pc ?ns)"
  assume em: "emit_all ?ns = (outs, eps, nc, ec)" and sr: "selector_run env ?pc ?ns = (sels, nl, ng)"
    and res: "gr_outbounds r = outs @ map snd sels" "gr_endpoints r = eps"
  note orders = permuted_order[OF assms(2)] permuted_order[OF assms(3)]
  have run: "fst (run_passes (ge_compile env) ?pc ?ns (ge_infos_order env ?ks) (ge_queue_order env ?ks)) = sels"
    using sr by (simp add: selector_run_def Let_def)
  have mem: "(oc, e) \<in> set (fst (run_passes (ge_compile env) ?pc ?ns (ge_infos_order env ?ks) (ge_queue_order env ?ks)))"
    using assms(4) sr run by simp
  note closed = members_closed[OF orders mem, unfolded run]
  have emitted: "nd_tag n \<in> tags_of outs \<union> tags_of eps" if n: "n \<in> set ?ns" "\<not> left_out n" for n
  proof -
    obtain y where "emit_node_jsons n = Inr y" "nd_tag n \<noteq> []"
      using n(2) by (cases "emit_node_jsons n") (auto simp: left_out_def)
    from emit_all_tags[OF em n(1) this] show ?thesis .
  qed
  have "tags_of outs \<subseteq> tags_of (gr_outbounds r)" by (auto simp: res tags_of_def)
  with emitted have nodes: "nd_tag ` set ?ns \<subseteq> tags_of (gr_outbounds r) \<union> tags_of (gr_endpoints r) \<union>
      nd_tag ` {n \<in> set ?ns. left_out n}" unfolding res(2) by blast
  have sels: "(oc_tag \<circ> fst) ` set sels \<subseteq> tags_of (gr_outbounds r)"
    using run emitted_selector_tag by (force simp: res tags_of_def)
  have "(oc, e) \<in> set sels" using mem run by simp
  then have "e \<in> set (gr_outbounds r)" unfolding res by force
  moreover have "set (members_of e) \<subseteq> tags_of (gr_outbounds r) \<union> tags_of (gr_endpoints r) \<union>
      {a \<in> set (oc_add oc). map_of (infos_of (ge_compile env) ?pc ?ns) a = None} \<union>
      nd_tag ` {n \<in> set ?ns. left_out n}"
    using closed nodes sels by blast
  ultimately show ?thesis using closed by blast
qed

definition sample_env :: "parsed_node list \<Rightarrow> bool \<Rightarrow> gen_env" where
  "sample_env nodes naive =
     \<lparr>ge_ident = nd_uuid, ge_compile = no_regex, ge_load = (\<lambda>ps i counts. (Some nodes, counts)),
      ge_naive_supported = naive, ge_naive_reason = ''no libcronet'', ge_detour_order = rev,
      ge_infos_order = rev, ge_queue_order = rev\<rparr>"

lemma permutes_keys_rev: "permutes_keys rev"
  by (simp add: permutes_keys_def)

definition sample_result :: generation_result where
  "sample_result =
     (case generate_outbounds_from_parser_config (sample_env sample_nodes True) sample_config [] of
        Inr r \<Rightarrow> r | Inl _ \<Rightarrow> undefined)"

lemma sample_generated:
  "generate_outbounds_from_parser_config (sample_env sample_nodes True) sample_config [] = Inr sample_result"
proof -
  have "(case generate_outbounds_from_parser_config (sample_env sample_nodes True) sample_config [] of
      Inr _ \<Rightarrow> True | Inl _ \<Rightarrow> False)" by code_simp
  then show ?thesis by (auto simp: sample_result_def split: sum.splits)
qed

theorem generation_accounts_for_sources_witness:
  "gr_succeeded sample_result + gr_failed sample_result = 1 \<and> gr_total_sources sample_result = 1 \<and>
   gr_nodes_count sample_result = 2 \<and> gr_endpoints_count sample_result = 0 \<and>
   length (gr_outbounds sample_result) = 2 + gr_local_selectors sample_result + gr_global_selectors sample_result"
proof -
  let ?ns = "final_nodes (sample_env sample_nodes True) sample_config []"
  have len: "length (filter (\<lambda>p. \<not> ps_disabled p) (pc_proxies sample_config)) = 1" by code_simp
  have b: "emitted_outbound n \<longleftrightarrow> (case emit_node_jsons n of Inr (xs, None) \<Rightarrow> True | _ \<Rightarrow> False)"
    "emitted_endpoint n \<longleftrightarrow> (case emit_node_jsons n of Inr (xs, Some ep) \<Rightarrow> True | _ \<Rightarrow> False)" for n
    by (auto simp: emitted_outbound_def emitted_endpoint_def split: sum.splits option.splits)
  have o': "length (filter emitted_outbound ?ns) = 2" "length (concat (map node_outbounds ?ns)) = 2" unfolding b by code_simp+
  have e: "length (filter emitted_endpoint ?ns) = 0" unfolding b by code_simp
  from generation_accounts_for_sources[OF sample_generated] len o' e show ?thesis by auto
qed

theorem generated_groups_closed_witness:
  "\<exists>oc e. (oc, e) \<in> set (fst (selector_run (sample_env sample_nodes True) (generation_config sample_config)
        (final_nodes (sample_env sample_nodes True) sample_config []))) \<and>
     oc_tag oc = ''proxy'' \<and> e \<in> set (gr_outbounds sample_result) \<and>
     set (members_of e) \<subseteq> tags_of (gr_outbounds sample_result) \<union> tags_of (gr_endpoints sample_result) \<union>
       {a \<in> set (oc_add oc). map_of (infos_of no_regex (generation_config sample_config)
          (final_nodes (sample_env sample_nodes True) sample_config [])) a = None}"
proof -
  let ?env = "sample_env sample_nodes True"
  let ?sels = "fst (selector_run ?env (generation_config sample_config) (final_nodes ?env sample_config []))"
  have ords: "permutes_keys (ge_infos_order ?env)" "permutes_keys (ge_queue_order ?env)"
    by (simp_all add: sample_env_def permutes_keys_rev)
  have c: "ge_compile ?env = no_regex" by (simp add: sample_env_def)
  have ok: "list_all (\<lambda>n. nd_tag n \<noteq> [] \<and> nd_scheme n \<noteq> scheme_group \<and> \<not> nd_emit_raw n \<and>
      nd_scheme n \<noteq> ''wireguard'' \<and> chain_of_node n = []) (final_nodes ?env sample_config [])"
    by code_simp
  then have none: "{n \<in> set (final_nodes ?env sample_config []). left_out n} = {}"
    using plain_nodes_emitted by (fastforce simp: list_all_iff)
  have ex: "list_ex (\<lambda>(oc, e). oc_tag oc = ''proxy'') ?sels" by code_simp
  then obtain oc e where m: "(oc, e) \<in> set ?sels" and t: "oc_tag oc = ''proxy''"
    by (auto simp: list_ex_iff)
  from generated_groups_closed[OF sample_generated ords m] m t show ?thesis unfolding c none by auto
qed

definition naive_group_nodes :: "parsed_node list" where
  "naive_group_nodes =
     [(plain_node ''n'' 0 [])\<lparr>nd_scheme := ''naive''\<rparr>,
      (plain_node ''g'' 0 [])\<lparr>nd_scheme := scheme_group,
        nd_outbound := Some [(''outbounds'', GList [GStr ''n'']), (''type'', GStr ''urltest'')]\<rparr>]"

text \<open>
  Nodes are dropped after the groups of an imported configuration were bound to their members:
  when the core has no naive support, a group keeps the tag of a naive node that is not emitted.
\<close>

theorem skipped_naive_node_stays_group_member:
  "(case generate_outbounds_from_parser_config (sample_env naive_group_nodes False)
      (sample_config\<lparr>pc_outbounds := []\<rparr>) [] of
      Inl _ \<Rightarrow> None
    | Inr r \<Rightarrow> Some (map (\<lambda>e. (map_of (em_fields e) ''tag'', members_of e)) (gr_outbounds r), gr_skipped_naive r)) =
   Some ([(Some (JStr ''g''), [''n'']), (Some (JStr ''auto''), [''g''])], 1)"
  by code_simp

end
