(* ===== verification/Singbox.thy ===== *)
theory Singbox
  imports Selectors
begin

text \<open>
  Import of sing-box JSON: \<open>core/config/subscription/body_classify.go\<close>, \<open>singbox_sanitize.go\<close>,
  \<open>singbox_import.go\<close>, \<open>detour_chain.go\<close>, \<open>singbox_groups.go\<close> and \<open>manual_config.go\<close>. The JSON text
  decoder is the parameter \<open>decode\<close>; a decoded number is a \<open>float64\<close>, whose integers alone are
  modelled. The copies the code makes before it edits a map in place are the values themselves.
\<close>

section \<open>Decoded JSON and field access\<close>

fun of_json :: "json \<Rightarrow> gval" where
  "of_json JNull = GNull"
| "of_json (JBool b) = GBool b"
| "of_json (JNum i) = GFloat i"
| "of_json (JStr s) = GStr s"
| "of_json (JArr xs) = GList (map of_json xs)"
| "of_json (JObj m) = GMap (map (\<lambda>p. (fst p, of_json (snd p))) m)"

definition map_string :: "gobj \<Rightarrow> string \<Rightarrow> string" where
  "map_string m k = (case get_str m k of Some s \<Rightarrow> s | None \<Rightarrow> [])"

definition get_list :: "gobj \<Rightarrow> string \<Rightarrow> gval list option" where
  "get_list m k = (case map_of m k of Some (GList xs) \<Rightarrow> Some xs | _ \<Rightarrow> None)"

definition as_gmap :: "gval \<Rightarrow> gobj option" where
  "as_gmap v = (case v of GMap m \<Rightarrow> Some m | _ \<Rightarrow> None)"

text \<open>\<open>json.Unmarshal\<close> into a map: \<open>null\<close> leaves the map nil, which reads as empty.\<close>

definition into_map :: "gval \<Rightarrow> gobj option" where
  "into_map v = (case v of GMap m \<Rightarrow> Some m | GNull \<Rightarrow> Some [] | _ \<Rightarrow> None)"

definition into_list :: "gval \<Rightarrow> gval list option" where
  "into_list v = (case v of GList xs \<Rightarrow> Some xs | GNull \<Rightarrow> Some [] | _ \<Rightarrow> None)"

section \<open>Classification of a body, \<open>body_classify.go\<close>\<close>

datatype body_kind =
    URIList
  | XrayArray
  | SingboxOutbound
  | SingboxOutboundArray
  | SingboxConfig
  | SingboxConfigArray

definition is_singbox :: "body_kind \<Rightarrow> bool" where
  "is_singbox k \<longleftrightarrow> k \<in> {SingboxOutbound, SingboxOutboundArray, SingboxConfig, SingboxConfigArray}"

definition has_json_array_field :: "gobj \<Rightarrow> string \<Rightarrow> bool" where
  "has_json_array_field m k \<longleftrightarrow> get_list m k \<noteq> None"

definition xray_element_has_protocol_outbounds :: "gobj \<Rightarrow> bool" where
  "xray_element_has_protocol_outbounds m =
     (case get_list m ''outbounds'' of
        None \<Rightarrow> False
      | Some xs \<Rightarrow> list_ex (\<lambda>x. case as_gmap x of None \<Rightarrow> False | Some e \<Rightarrow> get_str e ''protocol'' \<noteq> None) xs)"

fun classify_elements :: "gval list \<Rightarrow> body_kind" where
  "classify_elements [] = URIList"
| "classify_elements (x # xs) =
     (case into_map x of
        None \<Rightarrow> classify_elements xs
      | Some m \<Rightarrow>
          if get_str m ''type'' \<noteq> None then SingboxOutboundArray
          else if xray_element_has_protocol_outbounds m then XrayArray
          else if has_json_array_field m ''outbounds'' \<or> has_json_array_field m ''endpoints'' then SingboxConfigArray
          else classify_elements xs)"

definition classify_json_array_body :: "(string \<Rightarrow> gval option) \<Rightarrow> string \<Rightarrow> body_kind" where
  "classify_json_array_body decode trimmed =
     (case Option.bind (decode trimmed) into_list of None \<Rightarrow> URIList | Some xs \<Rightarrow> classify_elements xs)"

definition classify_json_object_body :: "(string \<Rightarrow> gval option) \<Rightarrow> string \<Rightarrow> body_kind" where
  "classify_json_object_body decode trimmed =
     (case Option.bind (decode trimmed) into_map of
        None \<Rightarrow> URIList
      | Some m \<Rightarrow>
          if get_str m ''type'' \<noteq> None then SingboxOutbound
          else if has_json_array_field m ''outbounds'' \<or> has_json_array_field m ''endpoints'' then SingboxConfig
          else URIList)"

definition classify_subscription_body :: "(string \<Rightarrow> gval option) \<Rightarrow> string \<Rightarrow> body_kind" where
  "classify_subscription_body decode body =
     (let trimmed = trim_space body in
      case trimmed of
        [] \<Rightarrow> URIList
      | c # _ \<Rightarrow>
          if c = CHR ''['' then classify_json_array_body decode trimmed
          else if c = CHR 0x7B then classify_json_object_body decode trimmed
          else URIList)"

section \<open>Sanitising an outbound, \<open>singbox_sanitize.go\<close>\<close>

definition norm_type :: "string \<Rightarrow> string" where
  "norm_type t = to_lower (trim_space t)"

definition singbox_service_types :: "string list" where
  "singbox_service_types = [''direct'', ''block'', ''dns'']"

definition singbox_group_types :: "string list" where
  "singbox_group_types = [''selector'', ''urltest'']"

definition is_singbox_service_type :: "string \<Rightarrow> bool" where
  "is_singbox_service_type t \<longleftrightarrow> norm_type t \<in> set singbox_service_types"

definition is_singbox_group_type :: "string \<Rightarrow> bool" where
  "is_singbox_group_type t \<longleftrightarrow> norm_type t \<in> set singbox_group_types"

definition quic_outbound_types :: "string list" where
  "quic_outbound_types = [''hysteria2'', ''tuic'', ''masque'']"

definition masque_network :: "gobj \<Rightarrow> gobj" where
  "masque_network m =
     (let legacy = trim_space (map_string m ''network'') in
      if legacy = [] then m
      else sdel ''network''
             (if trim_space (map_string m ''vhttp'') = [] then sput ''vhttp'' (GStr legacy) m else m))"

definition masque_tls_block :: "string \<Rightarrow> bool \<Rightarrow> gobj \<Rightarrow> gobj" where
  "masque_tls_block sni ins t =
     (let t = (if sni \<noteq> [] \<and> map_of t ''server_name'' = None then sput ''server_name'' (GStr sni) t else t)
      in if ins \<and> map_of t ''insecure'' = None then sput ''insecure'' (GBool True) t else t)"

definition masque_tls :: "gobj \<Rightarrow> gobj" where
  "masque_tls m =
     (let sni = trim_space (map_string m ''sni''); ins = get_bool m ''skip_cert_verify'' in
      if sni = [] \<and> ins = None then m
      else
        (let rest = sdel ''skip_cert_verify'' (sdel ''sni'' m);
             t = masque_tls_block sni (ins = Some True) (case get_map m ''tls'' of Some t \<Rightarrow> t | None \<Rightarrow> [])
         in if t \<noteq> [] then sput ''tls'' (GMap t) rest else rest))"

definition sanitize_singbox_masque_legacy :: "string \<Rightarrow> gobj \<Rightarrow> gobj" where
  "sanitize_singbox_masque_legacy ob_type m =
     (if ob_type \<noteq> ''masque'' then m else masque_tls (masque_network m))"

definition sanitize_singbox_utls :: "gobj \<Rightarrow> gobj" where
  "sanitize_singbox_utls t =
     (case map_of t ''utls'' of
        None \<Rightarrow> t
      | Some (GMap u) \<Rightarrow>
          (let fp = normalize_utls_fingerprint (map_string u ''fingerprint'')
           in if fp = [] then sdel ''utls'' t
              else sput ''utls'' (GMap (sput ''fingerprint'' (GStr fp) u)) t)
      | Some _ \<Rightarrow> sdel ''utls'' t)"

text \<open>
  The two helpers on REALITY keys are those of \<open>node_parser_transport.go\<close>. Raw base64 decoding
  skips line breaks and accepts every length but one more than a multiple of four.
\<close>

definition trim_right_char :: "char \<Rightarrow> string \<Rightarrow> string" where
  "trim_right_char c s = rev (dropWhile (\<lambda>x. x = c) (rev s))"

definition is_alnum :: "char \<Rightarrow> bool" where
  "is_alnum c \<longleftrightarrow> (let n = (of_char c :: nat) in
     48 \<le> n \<and> n \<le> 57 \<or> 65 \<le> n \<and> n \<le> 90 \<or> 97 \<le> n \<and> n \<le> 122)"

definition raw_base64_ok :: "char list \<Rightarrow> string \<Rightarrow> bool" where
  "raw_base64_ok extra s =
     (let body = filter (\<lambda>c. c \<noteq> CHR 0x0A \<and> c \<noteq> CHR 0x0D) s
      in list_all (\<lambda>c. is_alnum c \<or> c \<in> set extra) body \<and> length body mod 4 \<noteq> 1)"

definition is_valid_reality_public_key :: "string \<Rightarrow> bool" where
  "is_valid_reality_public_key pbk =
     (let k = trim_right_char (CHR ''='') (trim_space pbk)
      in length k = 43 \<and> (raw_base64_ok ''-_'' k \<or> raw_base64_ok ''+/'' k))"

definition is_hex_lower :: "char \<Rightarrow> bool" where
  "is_hex_lower c \<longleftrightarrow> (let n = (of_char c :: nat) in 48 \<le> n \<and> n \<le> 57 \<or> 97 \<le> n \<and> n \<le> 102)"

definition hex_digit_of :: "char \<Rightarrow> char option" where
  "hex_digit_of c =
     (if is_hex_lower c then Some c
      else if is_hex_lower (lower_char c) then Some (lower_char c) else None)"

definition normalize_reality_short_id :: "string \<Rightarrow> string" where
  "normalize_reality_short_id s = take 16 (List.map_filter hex_digit_of (trim_space s))"

definition sanitize_singbox_reality :: "gobj \<Rightarrow> gobj" where
  "sanitize_singbox_reality t =
     (case map_of t ''reality'' of
        None \<Rightarrow> t
      | Some (GMap r) \<Rightarrow>
          if get_bool r ''enabled'' = Some False then sdel ''reality'' t
          else if \<not> is_valid_reality_public_key (map_string r ''public_key'') then sdel ''reality'' t
          else (case map_of r ''short_id'' of
                  None \<Rightarrow> t
                | Some _ \<Rightarrow>
                    (let sid = normalize_reality_short_id (map_string r ''short_id'')
                     in sput ''reality''
                          (GMap (if sid = [] then sdel ''short_id'' r else sput ''short_id'' (GStr sid) r)) t))
      | Some _ \<Rightarrow> sdel ''reality'' t)"

definition sanitize_singbox_tls :: "string \<Rightarrow> gobj \<Rightarrow> gobj" where
  "sanitize_singbox_tls ob_type m =
     (case map_of m ''tls'' of
        None \<Rightarrow> m
      | Some (GMap t) \<Rightarrow>
          if get_bool t ''enabled'' = Some False then sdel ''tls'' m
          else
            (let t = (if ob_type \<in> set quic_outbound_types then sdel ''reality'' (sdel ''utls'' t)
                      else sanitize_singbox_reality (sanitize_singbox_utls t))
             in if t = [] then sdel ''tls'' m else sput ''tls'' (GMap t) m)
      | Some _ \<Rightarrow> sdel ''tls'' m)"

definition sanitize_singbox_flow :: "gobj \<Rightarrow> gobj" where
  "sanitize_singbox_flow m =
     (case map_of m ''flow'' of
        None \<Rightarrow> m
      | Some _ \<Rightarrow>
          if trim_space (map_string m ''flow'') \<noteq> ''xtls-rprx-vision'' then sdel ''flow'' m
          else if map_of m ''transport'' \<noteq> None then sdel ''flow'' m
          else m)"

definition sanitize_singbox_packet_encoding :: "gobj \<Rightarrow> gobj" where
  "sanitize_singbox_packet_encoding m =
     (case map_of m ''packet_encoding'' of
        None \<Rightarrow> m
      | Some _ \<Rightarrow>
          (let pe = norm_type (map_string m ''packet_encoding'')
           in if pe \<in> {''xudp'', ''packetaddr''} then sput ''packet_encoding'' (GStr pe) m
              else sdel ''packet_encoding'' m))"

definition is_valid_hysteria2_obfs_type :: "string \<Rightarrow> bool" where
  "is_valid_hysteria2_obfs_type t \<longleftrightarrow> t = ''salamander''"

definition sanitize_singbox_hysteria2_obfs :: "string \<Rightarrow> gobj \<Rightarrow> gobj" where
  "sanitize_singbox_hysteria2_obfs ob_type m =
     (if ob_type \<noteq> ''hysteria2'' then m
      else
        (case map_of m ''obfs'' of
           None \<Rightarrow> m
         | Some (GMap obfs) \<Rightarrow>
             (let ty = norm_type (map_string obfs ''type'') in
              if ty = [] then sdel ''obfs'' m
              else if \<not> is_valid_hysteria2_obfs_type ty then sdel ''obfs'' m
              else if trim_space (map_string obfs ''password'') = [] then sdel ''obfs'' m
              else sput ''obfs'' (GMap (sput ''type'' (GStr ty) obfs)) m)
         | Some _ \<Rightarrow> sdel ''obfs'' m))"

definition sanitize_singbox_outbound_map :: "gobj \<Rightarrow> gobj" where
  "sanitize_singbox_outbound_map m =
     (let ob_type = norm_type (map_string m ''type'')
      in sanitize_singbox_hysteria2_obfs ob_type
           (sanitize_singbox_packet_encoding
             (sanitize_singbox_flow
               (sanitize_singbox_tls ob_type
                 (sanitize_singbox_masque_legacy ob_type m)))))"

section \<open>One entry, \<open>singbox_import.go\<close>\<close>

datatype import_error =
    MissingType
  | UnsupportedType string
  | MissingServer
  | InvalidPort int

definition singbox_scheme_by_type :: "(string \<times> string) list" where
  "singbox_scheme_by_type =
     [(''vless'', ''vless''), (''vmess'', ''vmess''), (''trojan'', ''trojan''), (''shadowsocks'', ''ss''),
      (''hysteria2'', ''hysteria2''), (''tuic'', ''tuic''), (''anytls'', ''anytls''), (''ssh'', ''ssh''),
      (''socks'', ''socks''), (''http'', ''http''), (''naive'', ''naive''), (''wireguard'', ''wireguard''),
      (''masque'', ''masque'')]"

definition singbox_type_to_scheme :: "string \<Rightarrow> string option" where
  "singbox_type_to_scheme t = map_of singbox_scheme_by_type t"

definition singbox_type_is_addressless :: "string \<Rightarrow> bool" where
  "singbox_type_is_addressless t \<longleftrightarrow> t = ''wireguard''"

definition singbox_credential_from_map :: "gobj \<Rightarrow> string \<Rightarrow> string" where
  "singbox_credential_from_map m scheme =
     (if scheme \<in> {''vless'', ''vmess'', ''tuic''} then map_string m ''uuid''
      else if scheme \<in> {''trojan'', ''hysteria2'', ''anytls'', ''ss''} then map_string m ''password''
      else [])"

text \<open>\<open>xrayJSONInt\<close> on the value of a field that may be absent.\<close>

definition json_int :: "gval option \<Rightarrow> int" where
  "json_int v = (case v of Some (GInt i) \<Rightarrow> i | Some (GFloat i) \<Rightarrow> i | _ \<Rightarrow> 0)"

definition fresh_node :: "string \<Rightarrow> string \<Rightarrow> gobj \<Rightarrow> parsed_node" where
  "fresh_node tag scheme m =
     \<lparr>nd_tag = tag, nd_scheme = scheme, nd_server = map_string m ''server'',
      nd_port = json_int (map_of m ''server_port''), nd_uuid = [], nd_flow = [],
      nd_outbound = Some m, nd_label = tag, nd_comment = [], nd_jump = None, nd_source_tag = [],
      nd_chain = [], nd_source_index = unset_source_index, nd_emit_raw = False\<rparr>"

definition parse_singbox_entry :: "gobj \<Rightarrow> nat \<Rightarrow> nat \<Rightarrow> import_error + parsed_node" where
  "parse_singbox_entry entry cfg_idx entry_idx =
     (let ty = norm_type (map_string entry ''type'') in
      if ty = [] then Inl MissingType
      else (case singbox_type_to_scheme ty of
              None \<Rightarrow> Inl (UnsupportedType ty)
            | Some scheme \<Rightarrow>
                (let server = map_string entry ''server''; port = json_int (map_of entry ''server_port'') in
                 if \<not> singbox_type_is_addressless ty \<and> server = [] then Inl MissingServer
                 else if \<not> singbox_type_is_addressless ty \<and> (port \<le> 0 \<or> 65535 < port) then Inl (InvalidPort port)
                 else
                   (let raw = map_string entry ''tag'';
                        tag = (if raw = [] then scheme @ ''-'' @ itoa (int cfg_idx + 1) @ ''-'' @ itoa (int entry_idx + 1)
                               else raw);
                        m = sanitize_singbox_outbound_map
                              (if raw = [] then sput ''tag'' (GStr tag) entry else entry)
                    in Inr ((fresh_node tag scheme m)
                         \<lparr>nd_server := server, nd_port := port,
                          nd_uuid := singbox_credential_from_map m scheme,
                          nd_flow := map_string m ''flow''\<rparr>)))))"

text \<open>\<open>manual_config.go\<close>: an object typed by the user, not sanitised, of any type.\<close>

datatype manual_error = NotAnObject | ManualMissingType

definition node_from_manual_config_json :: "gval \<Rightarrow> manual_error + parsed_node" where
  "node_from_manual_config_json v =
     (case into_map v of
        None \<Rightarrow> Inl NotAnObject
      | Some m \<Rightarrow>
          (let ty = norm_type (map_string m ''type'') in
           if ty = [] then Inl ManualMissingType
           else
             (let scheme = (case singbox_type_to_scheme ty of Some s \<Rightarrow> s | None \<Rightarrow> ty);
                  tag = (if map_string m ''tag'' = [] then scheme else map_string m ''tag'')
              in Inr ((fresh_node tag scheme m)
                   \<lparr>nd_emit_raw := True, nd_uuid := singbox_credential_from_map m scheme,
                    nd_flow := map_string m ''flow''\<rparr>))))"

section \<open>The detour graph of a configuration, \<open>detour_chain.go\<close>\<close>

definition max_detour_chain_depth :: nat where "max_detour_chain_depth = 8"

definition tag_of :: "gobj \<Rightarrow> string" where "tag_of e = map_string e ''tag''"

definition detour_of :: "gobj \<Rightarrow> string" where "detour_of e = trim_space (map_string e ''detour'')"

definition type_of :: "gobj \<Rightarrow> string" where "type_of e = norm_type (map_string e ''type'')"

text \<open>The index by tag keeps the first entry of a tag.\<close>

definition entries_by_tag :: "gobj list \<Rightarrow> (string \<times> gobj) list" where
  "entries_by_tag entries = map (\<lambda>e. (tag_of e, e)) (filter (\<lambda>e. tag_of e \<noteq> []) entries)"

text \<open>
  A walk along the detours: \<open>path\<close> holds the tags it has passed; the second component is the tag
  whose detour closes a ring, if the walk meets one.
\<close>

function cycle_walk :: "(string \<times> gobj) list \<Rightarrow> string list \<Rightarrow> string \<Rightarrow> string list \<times> string option" where
  "cycle_walk by_tag path current =
     (if current \<in> set path then (path, None)
      else (case map_of by_tag current of
              None \<Rightarrow> (current # path, None)
            | Some e \<Rightarrow>
                if detour_of e = [] then (current # path, None)
                else if detour_of e \<in> set (current # path) then (current # path, Some current)
                else cycle_walk by_tag (current # path) (detour_of e)))"
  by pat_completeness auto

termination
proof (relation "measure (\<lambda>(m, path, cur). card (fst ` set m - set path))", goal_cases)
  case (2 m path cur e)
  have "cur \<in> fst ` set m" using 2(2) by (metis domI dom_map_of_conv_image_fst)
  with 2(1) have "fst ` set m - set (cur # path) \<subset> fst ` set m - set path" by auto
  then show ?case by (simp add: psubset_card_mono)
qed simp

declare cycle_walk.simps [simp del]

definition cycle_step ::
    "(string \<times> gobj) list \<Rightarrow> gobj \<Rightarrow> string list \<times> string list \<Rightarrow> string list \<times> string list" where
  "cycle_step by_tag entry s =
     (case s of (walked, broken) \<Rightarrow>
        if tag_of entry = [] \<or> tag_of entry \<in> set walked then s
        else (case cycle_walk by_tag [] (tag_of entry) of
                (path, None) \<Rightarrow> (path @ walked, broken)
              | (path, Some t) \<Rightarrow> (path @ walked, t # broken)))"

definition find_detour_cycle_edges :: "gobj list \<Rightarrow> (string \<times> gobj) list \<Rightarrow> string list" where
  "find_detour_cycle_edges entries by_tag = snd (fold (cycle_step by_tag) entries ([], []))"

record chain_info =
  ci_targets :: "string list"
  ci_broken :: "string list"

definition is_detour_target :: "chain_info \<Rightarrow> string \<Rightarrow> bool" where
  "is_detour_target c t \<longleftrightarrow> t \<noteq> [] \<and> t \<in> set (ci_targets c)"

definition is_broken_edge :: "chain_info \<Rightarrow> string \<Rightarrow> bool" where
  "is_broken_edge c t \<longleftrightarrow> t \<noteq> [] \<and> t \<in> set (ci_broken c)"

definition chainable :: "gobj \<Rightarrow> bool" where
  "chainable e \<longleftrightarrow> \<not> is_singbox_service_type (type_of e) \<and> \<not> is_singbox_group_type (type_of e)"

definition detour_targets :: "string list \<Rightarrow> gobj list \<Rightarrow> (string \<times> gobj) list \<Rightarrow> string list" where
  "detour_targets broken entries by_tag =
     List.map_filter (\<lambda>e.
         if tag_of e \<noteq> [] \<and> tag_of e \<in> set broken then None
         else if detour_of e = [] then None
         else if detour_of e \<in> set broken then None
         else (case map_of by_tag (detour_of e) of
                 None \<Rightarrow> None
               | Some t \<Rightarrow> if chainable t then Some (detour_of e) else None)) entries"

definition analyze_singbox_detour :: "gobj list \<Rightarrow> (string \<times> gobj) list \<Rightarrow> chain_info" where
  "analyze_singbox_detour entries by_tag =
     (let broken = find_detour_cycle_edges entries by_tag
      in \<lparr>ci_targets = detour_targets broken entries by_tag, ci_broken = broken\<rparr>)"

text \<open>The loop of \<open>attachChain\<close>, with the number of rounds it has left.\<close>

fun chain_hops ::
    "chain_info \<Rightarrow> (string \<times> gobj) list \<Rightarrow> nat \<Rightarrow> string list \<Rightarrow> gobj \<Rightarrow> string \<Rightarrow> nat \<Rightarrow> parsed_jump list" where
  "chain_hops c by_tag cfg_idx visited current current_tag 0 = []"
| "chain_hops c by_tag cfg_idx visited current current_tag (Suc left) =
     (if is_broken_edge c current_tag then []
      else if detour_of current = [] then []
      else if detour_of current \<in> set visited then []
      else (case map_of by_tag (detour_of current) of
              None \<Rightarrow> []
            | Some e \<Rightarrow>
                if \<not> chainable e then []
                else (case parse_singbox_entry e cfg_idx (max_detour_chain_depth - Suc left) of
                        Inl _ \<Rightarrow> []
                      | Inr hop \<Rightarrow>
                          parsed_jump.truncate hop #
                          chain_hops c by_tag cfg_idx (detour_of current # visited) e (detour_of current) left)))"

definition attach_chain ::
    "chain_info \<Rightarrow> gobj \<Rightarrow> (string \<times> gobj) list \<Rightarrow> nat \<Rightarrow> parsed_node \<Rightarrow> parsed_node" where
  "attach_chain c entry by_tag cfg_idx n =
     sync_jump_from_chain
       (n\<lparr>nd_chain := nd_chain n @
            chain_hops c by_tag cfg_idx (if tag_of entry \<noteq> [] then [tag_of entry] else []) entry
              (tag_of entry) max_detour_chain_depth\<rparr>)"

section \<open>Groups, \<open>singbox_groups.go\<close>\<close>

definition singbox_group_option_keys :: "string list" where
  "singbox_group_option_keys = [''url'', ''interval'', ''tolerance'', ''idle_timeout'', ''interrupt_exist_connections'']"

text \<open>The index of the imported nodes by raw tag; only their tags are read.\<close>

definition group_members :: "(string \<times> string) list \<Rightarrow> gobj \<Rightarrow> string list" where
  "group_members node_by_tag entry =
     dedup_from [] (List.map_filter (\<lambda>raw. case raw of
           GStr s \<Rightarrow> if trim_space s = [] then None else map_of node_by_tag (trim_space s)
         | _ \<Rightarrow> None) (case get_list entry ''outbounds'' of Some xs \<Rightarrow> xs | None \<Rightarrow> []))"

definition singbox_group_to_node :: "gobj \<Rightarrow> (string \<times> string) list \<Rightarrow> parsed_node option" where
  "singbox_group_to_node entry node_by_tag =
     (let tag = trim_space (tag_of entry); members = group_members node_by_tag entry in
      if tag = [] \<or> members = [] then None
      else
        (let m = sput group_members_key (GList (map GStr members))
                   (sput ''type'' (GStr (type_of entry)) (sput ''tag'' (GStr tag) []));
             m = fold (\<lambda>k m. case map_of entry k of
                                None \<Rightarrow> m | Some v \<Rightarrow> if v = GNull then m else sput k v m)
                   singbox_group_option_keys m;
             def = trim_space (map_string entry ''default'');
             m = (if def = [] then m
                  else (case map_of node_by_tag def of
                          None \<Rightarrow> m
                        | Some t \<Rightarrow> if t \<in> set members then sput ''default'' (GStr t) m else m))
         in Some ((fresh_node tag scheme_group m)\<lparr>nd_server := [], nd_port := 0\<rparr>)))"

section \<open>A whole body\<close>

record import_result =
  ir_nodes :: "parsed_node list"
  ir_ignored_sections :: "string list"
  ir_unsupported_types :: "string list"

definition singbox_ignored_sections :: "string list" where
  "singbox_ignored_sections = [''route'', ''dns'', ''inbounds'', ''experimental'']"

definition singbox_all_entries :: "gobj \<Rightarrow> gobj list" where
  "singbox_all_entries cfg =
     concat (map (\<lambda>section. List.map_filter as_gmap (case get_list cfg section of Some xs \<Rightarrow> xs | None \<Rightarrow> []))
       [''outbounds'', ''endpoints''])"

definition should_skip_node :: "regex_engine \<Rightarrow> parsed_node \<Rightarrow> string smap list \<Rightarrow> bool" where
  "should_skip_node compile n skip \<longleftrightarrow> list_ex (matches_filter compile n) skip"

text \<open>Service types, groups and the targets of detours are no nodes of their own.\<close>

definition own_node :: "chain_info \<Rightarrow> gobj \<Rightarrow> bool" where
  "own_node c e \<longleftrightarrow> type_of e \<noteq> [] \<and> chainable e \<and> \<not> is_detour_target c (tag_of e)"

definition import_entry ::
    "regex_engine \<Rightarrow> string smap list \<Rightarrow> chain_info \<Rightarrow> (string \<times> gobj) list \<Rightarrow> nat \<Rightarrow> nat \<times> gobj \<Rightarrow>
     (string + string \<times> parsed_node) option" where
  "import_entry compile skip c by_tag cfg_idx p =
     (case p of (i, e) \<Rightarrow>
        if \<not> own_node c e then None
        else (case parse_singbox_entry e cfg_idx i of
                Inl _ \<Rightarrow> Some (Inl (type_of e))
              | Inr n \<Rightarrow>
                  if should_skip_node compile n skip then None
                  else Some (Inr (tag_of e, attach_chain c e by_tag cfg_idx n))))"

definition parse_singbox_config ::
    "regex_engine \<Rightarrow> string smap list \<Rightarrow> nat \<Rightarrow> gobj \<Rightarrow> parsed_node list \<times> string list" where
  "parse_singbox_config compile skip cfg_idx cfg =
     (let entries = singbox_all_entries cfg;
          by_tag = entries_by_tag entries;
          c = analyze_singbox_detour entries by_tag;
          rs = List.map_filter (import_entry compile skip c by_tag cfg_idx) (enumerate 0 entries);
          nodes = List.map_filter (\<lambda>r. case r of Inr p \<Rightarrow> Some p | Inl _ \<Rightarrow> None) rs;
          node_by_tag = rev (map (\<lambda>p. (fst p, nd_tag (snd p))) (filter (\<lambda>p. fst p \<noteq> []) nodes));
          groups = List.map_filter (\<lambda>e. singbox_group_to_node e node_by_tag)
            (filter (\<lambda>e. type_of e \<noteq> [] \<and> \<not> is_singbox_service_type (type_of e) \<and>
                         is_singbox_group_type (type_of e)) entries)
      in (map snd nodes @ groups, List.map_filter (\<lambda>r. case r of Inl t \<Rightarrow> Some t | Inr _ \<Rightarrow> None) rs))"

definition parse_nodes_from_singbox_configs ::
    "regex_engine \<Rightarrow> string smap list \<Rightarrow> gobj list \<Rightarrow> import_result" where
  "parse_nodes_from_singbox_configs compile skip configs =
     (let rs = map (\<lambda>(i, cfg). parse_singbox_config compile skip i cfg) (enumerate 0 configs)
      in \<lparr>ir_nodes = concat (map fst rs),
          ir_ignored_sections =
            filter (\<lambda>s. list_ex (\<lambda>cfg. map_of cfg s \<noteq> None) configs) singbox_ignored_sections,
          ir_unsupported_types = sort (remdups (concat (map snd rs)))\<rparr>)"

definition normalize_singbox_body_to_configs ::
    "(string \<Rightarrow> gval option) \<Rightarrow> string \<Rightarrow> body_kind \<Rightarrow> gobj list option" where
  "normalize_singbox_body_to_configs decode body kind =
     (let v = decode (trim_space body) in
      case kind of
        SingboxOutbound \<Rightarrow>
          map_option (\<lambda>m. [[(''outbounds'', GList [GMap m])]]) (Option.bind v into_map)
      | SingboxOutboundArray \<Rightarrow>
          map_option (\<lambda>xs. [[(''outbounds'', GList xs)]]) (Option.bind v into_list)
      | SingboxConfig \<Rightarrow> map_option (\<lambda>m. [m]) (Option.bind v into_map)
      | SingboxConfigArray \<Rightarrow> map_option (List.map_filter into_map) (Option.bind v into_list)
      | _ \<Rightarrow> None)"

definition parse_singbox_body ::
    "regex_engine \<Rightarrow> (string \<Rightarrow> gval option) \<Rightarrow> string \<Rightarrow> body_kind \<Rightarrow> string smap list \<Rightarrow> import_result option" where
  "parse_singbox_body compile decode body kind skip =
     map_option (parse_nodes_from_singbox_configs compile skip)
       (normalize_singbox_body_to_configs decode body kind)"

end
