(* ===== verification/SingboxSanitize.thy ===== *)
theory SingboxSanitize
  imports Singbox
begin

text \<open>
  The sanitisers of imported outbounds: what they accept, and that they are a projection onto the
  outbounds the core accepts.
\<close>

section \<open>What the core accepts\<close>

text \<open>
  The values the core would reject the whole configuration for, field by field: a sanitised
  outbound has none of them, whatever the imported file held.
\<close>

definition flow_accepted :: "gobj \<Rightarrow> bool" where
  "flow_accepted m \<longleftrightarrow>
     (map_of m ''flow'' \<noteq> None \<longrightarrow>
        trim_space (map_string m ''flow'') = ''xtls-rprx-vision'' \<and> map_of m ''transport'' = None)"

definition packet_encoding_accepted :: "gobj \<Rightarrow> bool" where
  "packet_encoding_accepted m \<longleftrightarrow>
     map_of m ''packet_encoding'' \<in> {None, Some (GStr ''xudp''), Some (GStr ''packetaddr'')}"

definition utls_accepted :: "gobj \<Rightarrow> bool" where
  "utls_accepted t \<longleftrightarrow>
     (case map_of t ''utls'' of
        None \<Rightarrow> True
      | Some (GMap u) \<Rightarrow> map_of u ''fingerprint'' \<in> (Some \<circ> GStr) ` set singbox_utls_fingerprints
      | Some _ \<Rightarrow> False)"

definition short_id_accepted :: "string \<Rightarrow> bool" where
  "short_id_accepted s \<longleftrightarrow> s \<noteq> [] \<and> length s \<le> 16 \<and> list_all is_hex_lower s"

definition reality_accepted :: "gobj \<Rightarrow> bool" where
  "reality_accepted t \<longleftrightarrow>
     (case map_of t ''reality'' of
        None \<Rightarrow> True
      | Some (GMap r) \<Rightarrow>
          get_bool r ''enabled'' \<noteq> Some False \<and> is_valid_reality_public_key (map_string r ''public_key'') \<and>
          (case map_of r ''short_id'' of
             None \<Rightarrow> True | Some (GStr s) \<Rightarrow> short_id_accepted s | Some _ \<Rightarrow> False)
      | Some _ \<Rightarrow> False)"

definition tls_accepted :: "string \<Rightarrow> gobj \<Rightarrow> bool" where
  "tls_accepted ob_type m \<longleftrightarrow>
     (case map_of m ''tls'' of
        None \<Rightarrow> True
      | Some (GMap t) \<Rightarrow>
          t \<noteq> [] \<and> get_bool t ''enabled'' \<noteq> Some False \<and>
          (if ob_type \<in> set quic_outbound_types then map_of t ''utls'' = None \<and> map_of t ''reality'' = None
           else utls_accepted t \<and> reality_accepted t)
      | Some _ \<Rightarrow> False)"

definition obfs_accepted :: "string \<Rightarrow> gobj \<Rightarrow> bool" where
  "obfs_accepted ob_type m \<longleftrightarrow>
     (ob_type = ''hysteria2'' \<longrightarrow>
        (case map_of m ''obfs'' of
           None \<Rightarrow> True
         | Some (GMap obfs) \<Rightarrow>
             map_of obfs ''type'' = Some (GStr ''salamander'') \<and> trim_space (map_string obfs ''password'') \<noteq> []
         | Some _ \<Rightarrow> False))"

definition masque_accepted :: "string \<Rightarrow> gobj \<Rightarrow> bool" where
  "masque_accepted ob_type m \<longleftrightarrow>
     (ob_type = ''masque'' \<longrightarrow>
        trim_space (map_string m ''network'') = [] \<and> trim_space (map_string m ''sni'') = [] \<and>
        get_bool m ''skip_cert_verify'' = None)"

definition outbound_accepted :: "string \<Rightarrow> gobj \<Rightarrow> bool" where
  "outbound_accepted ob_type m \<longleftrightarrow>
     flow_accepted m \<and> packet_encoding_accepted m \<and> tls_accepted ob_type m \<and> obfs_accepted ob_type m \<and>
     masque_accepted ob_type m"

lemmas accepted_defs = flow_accepted_def packet_encoding_accepted_def tls_accepted_def
  obfs_accepted_def masque_accepted_def

lemmas field_defs = map_string_def get_str_def get_bool_def get_map_def

text \<open>Each sanitiser writes its own fields only.\<close>

lemma masque_frame:
  "k \<notin> {''network'', ''vhttp''} \<Longrightarrow> map_of (masque_network m) k = map_of m k"
  "k \<notin> {''sni'', ''skip_cert_verify'', ''tls''} \<Longrightarrow> map_of (masque_tls m) k = map_of m k"
  by (simp_all add: masque_network_def masque_tls_def Let_def store_simps)

lemma sanitize_frame:
  "k \<notin> {''network'', ''vhttp'', ''sni'', ''skip_cert_verify'', ''tls''} \<Longrightarrow>
     map_of (sanitize_singbox_masque_legacy ty m) k = map_of m k"
  "k \<noteq> ''tls'' \<Longrightarrow> map_of (sanitize_singbox_tls ty m) k = map_of m k"
  "k \<noteq> ''flow'' \<Longrightarrow> map_of (sanitize_singbox_flow m) k = map_of m k"
  "k \<noteq> ''packet_encoding'' \<Longrightarrow> map_of (sanitize_singbox_packet_encoding m) k = map_of m k"
  "k \<noteq> ''obfs'' \<Longrightarrow> map_of (sanitize_singbox_hysteria2_obfs ty m) k = map_of m k"
proof -
  show "map_of (sanitize_singbox_masque_legacy ty m) k = map_of m k"
    if "k \<notin> {''network'', ''vhttp'', ''sni'', ''skip_cert_verify'', ''tls''}"
    using that by (simp add: sanitize_singbox_masque_legacy_def masque_frame)
qed (auto simp: sanitize_singbox_tls_def sanitize_singbox_flow_def
      sanitize_singbox_packet_encoding_def sanitize_singbox_hysteria2_obfs_def Let_def store_simps
      split: option.splits gval.splits)

lemma sanitize_flow_accepts: "flow_accepted (sanitize_singbox_flow m)"
  by (auto simp: flow_accepted_def sanitize_singbox_flow_def store_simps split: option.splits)

lemma sanitize_packet_encoding_accepts: "packet_encoding_accepted (sanitize_singbox_packet_encoding m)"
  by (auto simp: packet_encoding_accepted_def sanitize_singbox_packet_encoding_def Let_def store_simps
      split: option.splits)

lemma sanitize_utls_accepts: "utls_accepted (sanitize_singbox_utls t)"
  using normalized_fingerprint_known
  by (auto simp: utls_accepted_def sanitize_singbox_utls_def Let_def store_simps
      split: option.splits gval.splits)

lemma set_map_filter_some: "y \<in> set (List.map_filter f xs) \<longleftrightarrow> (\<exists>x\<in>set xs. f x = Some y)"
  by (induction xs) (auto simp: List.map_filter_simps split: option.splits)

lemma short_id_normalized:
  "normalize_reality_short_id s \<noteq> [] \<Longrightarrow> short_id_accepted (normalize_reality_short_id s)"
  by (auto simp: short_id_accepted_def normalize_reality_short_id_def list_all_iff
      set_map_filter_some hex_digit_of_def split: if_splits dest!: in_set_takeD)

lemma sanitize_reality_accepts: "reality_accepted (sanitize_singbox_reality t)"
proof (cases "map_of t ''reality''")
  case (Some v)
  show ?thesis
  proof (cases v)
    case (GMap r)
    then show ?thesis using Some short_id_normalized[of "map_string r ''short_id''"]
      by (auto simp: reality_accepted_def sanitize_singbox_reality_def Let_def store_simps field_defs
          split: option.splits)
  qed (simp_all add: Some reality_accepted_def sanitize_singbox_reality_def store_simps)
qed (simp add: reality_accepted_def sanitize_singbox_reality_def)

lemma tls_block_frame:
  "k \<noteq> ''utls'' \<Longrightarrow> map_of (sanitize_singbox_utls t) k = map_of t k"
  "k \<noteq> ''reality'' \<Longrightarrow> map_of (sanitize_singbox_reality t) k = map_of t k"
  by (auto simp: sanitize_singbox_utls_def sanitize_singbox_reality_def Let_def store_simps
      split: option.splits gval.splits)

lemma utls_reality_accepts:
  "utls_accepted (sanitize_singbox_reality (sanitize_singbox_utls t))"
  using sanitize_utls_accepts[of t] by (simp add: utls_accepted_def tls_block_frame)

lemma sanitize_tls_accepts: "tls_accepted ty (sanitize_singbox_tls ty m)"
proof (cases "map_of m ''tls''")
  case (Some v)
  show ?thesis
  proof (cases v)
    case (GMap t)
    then show ?thesis using Some
      by (simp add: tls_accepted_def sanitize_singbox_tls_def Let_def store_simps get_bool_def
          tls_block_frame utls_reality_accepts sanitize_reality_accepts)
  qed (simp_all add: Some tls_accepted_def sanitize_singbox_tls_def store_simps)
qed (simp add: tls_accepted_def sanitize_singbox_tls_def)

lemma sanitize_obfs_accepts: "obfs_accepted ty (sanitize_singbox_hysteria2_obfs ty m)"
proof (cases "map_of m ''obfs''")
  case (Some v)
  show ?thesis
  proof (cases v)
    case (GMap t)
    then show ?thesis using Some
      by (simp add: obfs_accepted_def sanitize_singbox_hysteria2_obfs_def Let_def store_simps
          field_defs is_valid_hysteria2_obfs_type_def)
  qed (simp_all add: Some obfs_accepted_def sanitize_singbox_hysteria2_obfs_def store_simps)
qed (simp add: obfs_accepted_def sanitize_singbox_hysteria2_obfs_def)

lemma sanitize_masque_accepts: "masque_accepted ty (sanitize_singbox_masque_legacy ty m)"
proof (cases "ty = ''masque''")
  case True
  let ?m = "masque_network m"
  have n: "trim_space (map_string ?m ''network'') = []"
    by (simp add: masque_network_def Let_def store_simps map_string_def get_str_def)
  have "trim_space (map_string (masque_tls ?m) ''sni'') = [] \<and> get_bool (masque_tls ?m) ''skip_cert_verify'' = None"
    by (simp add: masque_tls_def Let_def store_simps map_string_def get_str_def get_bool_def)
  moreover have "map_string (masque_tls ?m) ''network'' = map_string ?m ''network''"
    by (simp add: map_string_def get_str_def masque_frame)
  ultimately show ?thesis using n True by (simp add: masque_accepted_def sanitize_singbox_masque_legacy_def)
qed (simp add: masque_accepted_def)

lemma sanitized_outbound_accepted:
  "outbound_accepted (norm_type (map_string m ''type'')) (sanitize_singbox_outbound_map m)"
proof -
  define ty where "ty = norm_type (map_string m ''type'')"
  define a where "a = sanitize_singbox_masque_legacy ty m"
  define b where "b = sanitize_singbox_tls ty a"
  define c where "c = sanitize_singbox_flow b"
  define d where "d = sanitize_singbox_packet_encoding c"
  define e where "e = sanitize_singbox_hysteria2_obfs ty d"
  have e: "sanitize_singbox_outbound_map m = e"
    by (simp add: sanitize_singbox_outbound_map_def a_def b_def c_def d_def e_def ty_def Let_def)
  have fl: "flow_accepted c" and pe: "packet_encoding_accepted d" and tl: "tls_accepted ty b"
    and ob: "obfs_accepted ty e" and mq: "masque_accepted ty a"
    by (simp_all add: a_def b_def c_def d_def e_def sanitize_flow_accepts sanitize_packet_encoding_accepts
        sanitize_tls_accepts sanitize_obfs_accepts sanitize_masque_accepts)
  have ed: "map_of e k = map_of d k" if "k \<noteq> ''obfs''" for k using that by (simp add: e_def sanitize_frame)
  have dc: "map_of d k = map_of c k" if "k \<noteq> ''packet_encoding''" for k using that by (simp add: d_def sanitize_frame)
  have cb: "map_of c k = map_of b k" if "k \<noteq> ''flow''" for k using that by (simp add: c_def sanitize_frame)
  have ba: "map_of b k = map_of a k" if "k \<noteq> ''tls''" for k using that by (simp add: b_def sanitize_frame)
  have "flow_accepted e" using fl by (simp add: flow_accepted_def map_string_def get_str_def ed dc)
  moreover have "packet_encoding_accepted e" using pe by (simp add: packet_encoding_accepted_def ed)
  moreover have "tls_accepted ty e" using tl by (simp add: tls_accepted_def ed dc cb)
  moreover have "masque_accepted ty e" using mq
    by (simp add: masque_accepted_def map_string_def get_str_def get_bool_def ed dc cb ba)
  ultimately show ?thesis using ob by (simp add: e outbound_accepted_def ty_def)
qed

text \<open>An accepted outbound is left as it is, so that sanitising twice is sanitising once.\<close>

lemma sput_same: "scanon m \<Longrightarrow> map_of m k = Some v \<Longrightarrow> sput k v m = m"
  by (rule scanon_ext) (auto simp: store_simps)

lemma sdel_absent: "map_of m k = None \<Longrightarrow> sdel k m = m"
  by (auto simp: sdel_def map_of_eq_None_iff intro!: filter_True)

lemma trim_space_clean: "\<forall>c \<in> set s. \<not> is_space c \<Longrightarrow> trim_space s = s"
proof -
  have dw: "dropWhile is_space s = s" if "\<forall>c \<in> set s. \<not> is_space c" for s
    using that by (cases s) auto
  assume "\<forall>c \<in> set s. \<not> is_space c"
  then show ?thesis using dw[of s] dw[of "rev s"] by (simp add: trim_space_def)
qed

lemma fingerprint_fixed: "f \<in> set singbox_utls_fingerprints \<Longrightarrow> f \<noteq> [] \<and> normalize_utls_fingerprint f = f"
proof -
  have "list_all (\<lambda>f. f \<noteq> [] \<and> normalize_utls_fingerprint f = f) singbox_utls_fingerprints" by code_simp
  then show "f \<in> set singbox_utls_fingerprints \<Longrightarrow> f \<noteq> [] \<and> normalize_utls_fingerprint f = f"
    by (simp add: list_all_iff)
qed

lemma hex_not_space: "is_hex_lower c \<Longrightarrow> \<not> is_space c"
  by (auto simp: is_hex_lower_def is_space_def Let_def)

lemma short_id_fixed: "short_id_accepted s \<Longrightarrow> normalize_reality_short_id s = s"
proof -
  assume s: "short_id_accepted s"
  have "List.map_filter hex_digit_of s = s" if "list_all is_hex_lower s" for s
    using that by (induction s) (auto simp: List.map_filter_simps hex_digit_of_def)
  moreover have "trim_space s = s"
    using s by (intro trim_space_clean) (auto simp: short_id_accepted_def list_all_iff hex_not_space)
  ultimately show ?thesis using s by (simp add: normalize_reality_short_id_def short_id_accepted_def)
qed

lemma wf_gmap_field: "wf_gval (GMap m) \<Longrightarrow> map_of m k = Some v \<Longrightarrow> wf_gval v"
  using map_of_SomeD[of m k v] by (fastforce simp: list_all_iff)

lemma utls_fixed:
  assumes "wf_gval (GMap t)" "utls_accepted t"
  shows "sanitize_singbox_utls t = t"
proof (cases "map_of t ''utls''")
  case (Some v)
  then obtain u fp where u: "v = GMap u" "map_of u ''fingerprint'' = Some (GStr fp)"
    and fp: "fp \<in> set singbox_utls_fingerprints"
    using assms(2) by (cases v) (auto simp: utls_accepted_def)
  have "scanon u" using wf_gmap_field[OF assms(1) Some] u(1) by simp
  then have "sput ''fingerprint'' (GStr fp) u = u" using u(2) by (rule sput_same)
  moreover have "sput ''utls'' (GMap u) t = t" using assms(1) Some u(1) by (simp add: sput_same)
  ultimately show ?thesis using Some u fingerprint_fixed[OF fp]
    by (simp add: sanitize_singbox_utls_def field_defs)
qed (simp add: sanitize_singbox_utls_def)

lemma reality_fixed:
  assumes "wf_gval (GMap t)" "reality_accepted t"
  shows "sanitize_singbox_reality t = t"
proof (cases "map_of t ''reality''")
  case (Some v)
  then obtain r where r: "v = GMap r" using assms(2) by (cases v) (auto simp: reality_accepted_def)
  have s: "scanon r" using wf_gmap_field[OF assms(1) Some] r by simp
  have p: "sput ''reality'' (GMap r) t = t" using assms(1) Some r by (simp add: sput_same)
  show ?thesis
  proof (cases "map_of r ''short_id''")
    case (Some w)
    then obtain sid where w: "w = GStr sid" and sid: "short_id_accepted sid"
      using assms(2) \<open>map_of t _ = _\<close> r by (cases w) (auto simp: reality_accepted_def)
    then have "sput ''short_id'' (GStr sid) r = r" using s Some by (simp add: sput_same)
    then show ?thesis using assms(2) \<open>map_of t _ = _\<close> r Some w p short_id_fixed[OF sid] sid
      by (simp add: sanitize_singbox_reality_def reality_accepted_def field_defs short_id_accepted_def)
  qed (use assms(2) Some r in \<open>simp add: sanitize_singbox_reality_def reality_accepted_def\<close>)
qed (simp add: sanitize_singbox_reality_def)

lemma tls_fixed:
  assumes "wf_gval (GMap m)" "tls_accepted ty m"
  shows "sanitize_singbox_tls ty m = m"
proof (cases "map_of m ''tls''")
  case (Some v)
  then obtain t where t: "v = GMap t" using assms(2) by (cases v) (auto simp: tls_accepted_def)
  have w: "wf_gval (GMap t)" using wf_gmap_field[OF assms(1) Some] t by simp
  have "sput ''tls'' (GMap t) m = m" using assms(1) Some t by (simp add: sput_same)
  then show ?thesis using assms(2) Some t utls_fixed[OF w] reality_fixed[OF w]
    by (auto simp: sanitize_singbox_tls_def tls_accepted_def sdel_absent)
qed (simp add: sanitize_singbox_tls_def)

lemma flow_fixed: "flow_accepted m \<Longrightarrow> sanitize_singbox_flow m = m"
  by (auto simp: flow_accepted_def sanitize_singbox_flow_def split: option.split)

lemma packet_encoding_fixed:
  assumes "scanon m" "packet_encoding_accepted m"
  shows "sanitize_singbox_packet_encoding m = m"
proof -
  have n: "norm_type ''xudp'' = ''xudp''" "norm_type ''packetaddr'' = ''packetaddr''" by code_simp+
  show ?thesis using assms
    by (auto simp: packet_encoding_accepted_def sanitize_singbox_packet_encoding_def field_defs n sput_same)
qed

lemma obfs_fixed:
  assumes "wf_gval (GMap m)" "obfs_accepted ty m"
  shows "sanitize_singbox_hysteria2_obfs ty m = m"
proof (cases "ty = ''hysteria2'' \<and> map_of m ''obfs'' \<noteq> None")
  case True
  then obtain v where v: "map_of m ''obfs'' = Some v" by auto
  then obtain x where x: "v = GMap x" using assms(2) True by (cases v) (auto simp: obfs_accepted_def)
  have n: "norm_type ''salamander'' = ''salamander''" by code_simp
  have "scanon x" using wf_gmap_field[OF assms(1) v] x by simp
  then have "sput ''type'' (GStr ''salamander'') x = x"
    using assms(2) True v x by (intro sput_same) (auto simp: obfs_accepted_def)
  moreover have "sput ''obfs'' (GMap x) m = m" using assms(1) v x by (simp add: sput_same)
  ultimately show ?thesis using assms(2) True v x n
    by (simp add: sanitize_singbox_hysteria2_obfs_def obfs_accepted_def field_defs is_valid_hysteria2_obfs_type_def)
qed (auto simp: sanitize_singbox_hysteria2_obfs_def)

lemma masque_fixed: "masque_accepted ty m \<Longrightarrow> sanitize_singbox_masque_legacy ty m = m"
  by (simp add: masque_accepted_def sanitize_singbox_masque_legacy_def masque_network_def masque_tls_def)

lemma accepted_fixed:
  assumes "wf_gval (GMap m)" "outbound_accepted (norm_type (map_string m ''type'')) m"
  shows "sanitize_singbox_outbound_map m = m"
  using assms
  by (simp add: sanitize_singbox_outbound_map_def outbound_accepted_def masque_fixed tls_fixed flow_fixed
      packet_encoding_fixed obfs_fixed)

lemma wf_gmap_put: "wf_gval (GMap m) \<Longrightarrow> wf_gval v \<Longrightarrow> wf_gval (GMap (sput k v m))"
  using set_sput_subset[of k v m] by (auto simp: list_all_iff)

lemma wf_gmap_del: "wf_gval (GMap m) \<Longrightarrow> wf_gval (GMap (sdel k m))"
  by (auto simp: list_all_iff set_sdel)

text \<open>
  A property of values that strings and booleans have and that setting, deleting and reading a
  field keep is kept by the sanitisers: they edit an outbound in no other way.
\<close>

locale kept_by_edits =
  fixes P :: "gval \<Rightarrow> bool"
  assumes P_scalar: "P (GStr s)" "P (GBool b)" "P (GMap [])"
    and P_field: "P (GMap m) \<Longrightarrow> map_of m k = Some v \<Longrightarrow> P v"
    and P_put: "P (GMap m) \<Longrightarrow> P v \<Longrightarrow> P (GMap (sput k v m))"
    and P_del: "P (GMap m) \<Longrightarrow> P (GMap (sdel k m))"
begin

lemma P_masque: "P (GMap m) \<Longrightarrow> P (GMap (sanitize_singbox_masque_legacy ty m))"
proof -
  have n: "P (GMap (masque_network m))" if "P (GMap m)" for m
    using that by (simp add: masque_network_def Let_def P_put P_del P_scalar)
  have t: "P (GMap (masque_tls m))" if w: "P (GMap m)" for m
  proof -
    have "P (GMap (case get_map m ''tls'' of Some t \<Rightarrow> t | None \<Rightarrow> []))"
      using P_field[OF w, of "''tls''"] by (auto simp: get_map_def P_scalar split: option.splits gval.splits)
    then show ?thesis using w unfolding masque_tls_def masque_tls_block_def Let_def
      by (simp add: P_put P_del P_scalar)
  qed
  show "P (GMap m) \<Longrightarrow> P (GMap (sanitize_singbox_masque_legacy ty m))"
    by (simp add: sanitize_singbox_masque_legacy_def n t)
qed

lemma P_utls: "P (GMap t) \<Longrightarrow> P (GMap (sanitize_singbox_utls t))"
  using P_field[of t "''utls''"]
  by (auto simp: sanitize_singbox_utls_def Let_def P_put P_del P_scalar split: option.splits gval.splits)

lemma P_reality: "P (GMap t) \<Longrightarrow> P (GMap (sanitize_singbox_reality t))"
  using P_field[of t "''reality''"]
  by (auto simp: sanitize_singbox_reality_def Let_def P_put P_del P_scalar split: option.splits gval.splits)

lemma P_tls: "P (GMap m) \<Longrightarrow> P (GMap (sanitize_singbox_tls ty m))"
  using P_field[of m "''tls''"]
  by (auto simp: sanitize_singbox_tls_def Let_def P_put P_del P_utls P_reality
      split: option.splits gval.splits)

lemma P_others:
  "P (GMap m) \<Longrightarrow> P (GMap (sanitize_singbox_flow m))"
  "P (GMap m) \<Longrightarrow> P (GMap (sanitize_singbox_packet_encoding m))"
  "P (GMap m) \<Longrightarrow> P (GMap (sanitize_singbox_hysteria2_obfs ty m))"
  using P_field[of m "''obfs''"]
  by (auto simp: sanitize_singbox_flow_def sanitize_singbox_packet_encoding_def
      sanitize_singbox_hysteria2_obfs_def Let_def P_put P_del P_scalar
      split: option.splits gval.splits)

lemma P_sanitized: "P (GMap m) \<Longrightarrow> P (GMap (sanitize_singbox_outbound_map m))"
  by (simp add: sanitize_singbox_outbound_map_def Let_def P_masque P_tls P_others)

end

interpretation wf_kept: kept_by_edits wf_gval
  by unfold_locales (simp_all add: wf_gmap_field wf_gmap_put wf_gmap_del del: wf_gval.simps(3), simp)

lemmas wf_sanitized = wf_kept.P_sanitized

text \<open>Values as a JSON file has them: no \<open>int\<close>, \<open>[]string\<close> or \<open>map[string]string\<close>.\<close>

fun json_value :: "gval \<Rightarrow> bool" where
  "json_value (GInt i) = False"
| "json_value (GStrs ss) = False"
| "json_value (GStrMap m) = False"
| "json_value (GList xs) = list_all json_value xs"
| "json_value (GMap m) = list_all (\<lambda>p. json_value (snd p)) m"
| "json_value v = True"

lemma json_value_of_json: "json_value (of_json j)"
  by (induction j rule: of_json.induct) (auto simp: list_all_iff)

interpretation json_kept: kept_by_edits json_value
proof unfold_locales
  fix m k v
  show "json_value (GMap m) \<Longrightarrow> map_of m k = Some v \<Longrightarrow> json_value v"
    using map_of_SomeD[of m k v] by (fastforce simp: list_all_iff)
  show "json_value (GMap m) \<Longrightarrow> json_value v \<Longrightarrow> json_value (GMap (sput k v m))"
    using set_sput_subset[of k v m] by (auto simp: list_all_iff)
qed (auto simp: list_all_iff set_sdel)

lemma sanitized_field:
  "k \<notin> {''network'', ''vhttp'', ''sni'', ''skip_cert_verify'', ''tls'', ''flow'', ''packet_encoding'', ''obfs''} \<Longrightarrow>
   map_of (sanitize_singbox_outbound_map m) k = map_of m k"
  by (simp add: sanitize_singbox_outbound_map_def Let_def sanitize_frame)

lemma sanitized_type: "map_string (sanitize_singbox_outbound_map m) ''type'' = map_string m ''type''"
  by (simp add: map_string_def get_str_def sanitized_field)

text \<open>
  C14. Sanitising an imported outbound removes every value the core would refuse the whole
  configuration for (flow, packet encoding, fingerprint, REALITY key and short id, disabled TLS,
  obfuscation, the flat fields of a foreign masque dialect), and it is a projection: an outbound
  that has none of them is left exactly as it is, so importing an exported outbound again changes
  nothing.
\<close>

theorem sanitising_is_a_projection:
  assumes "wf_gval (GMap m)"
  shows "outbound_accepted (norm_type (map_string m ''type'')) (sanitize_singbox_outbound_map m) \<and>
    (outbound_accepted (norm_type (map_string m ''type'')) m = (sanitize_singbox_outbound_map m = m)) \<and>
    sanitize_singbox_outbound_map (sanitize_singbox_outbound_map m) = sanitize_singbox_outbound_map m"
proof -
  have "sanitize_singbox_outbound_map (sanitize_singbox_outbound_map m) = sanitize_singbox_outbound_map m"
    using sanitized_outbound_accepted[of m]
    by (intro accepted_fixed wf_sanitized assms) (simp add: sanitized_type)
  then show ?thesis using sanitized_outbound_accepted[of m] accepted_fixed[OF assms] by metis
qed

text \<open>A VLESS outbound as public lists carry them, with every field the sanitisers look at.\<close>

definition messy_vless :: gobj where
  "messy_vless = (case of_json (JObj
     [(''flow'', JStr ''xtls-rprx-direct''), (''packet_encoding'', JStr ''None''),
      (''server'', JStr ''h''), (''server_port'', JNum 443), (''tag'', JStr ''de''),
      (''tls'', JObj [(''enabled'', JBool True),
         (''reality'', JObj [(''enabled'', JBool True), (''public_key'', JStr ''enabled''), (''short_id'', JStr ''zz'')]),
         (''utls'', JObj [(''enabled'', JBool True), (''fingerprint'', JStr ''HelloChrome_120'')])]),
      (''type'', JStr ''VLESS''), (''uuid'', JStr ''u'')]) of GMap m \<Rightarrow> m | _ \<Rightarrow> [])"

theorem sanitising_is_a_projection_witness:
  "outbound_accepted ''vless'' (sanitize_singbox_outbound_map messy_vless) \<and>
   sanitize_singbox_outbound_map messy_vless \<noteq> messy_vless \<and>
   map_of (sanitize_singbox_outbound_map messy_vless) ''tls'' =
     Some (GMap [(''enabled'', GBool True), (''utls'', GMap [(''enabled'', GBool True), (''fingerprint'', GStr ''chrome'')])])"
proof -
  have w: "wf_gval (GMap messy_vless)" and t: "norm_type (map_string messy_vless ''type'') = ''vless''"
    by code_simp+
  have "sanitize_singbox_outbound_map messy_vless \<noteq> messy_vless" by code_simp
  moreover have "map_of (sanitize_singbox_outbound_map messy_vless) ''tls'' =
     Some (GMap [(''enabled'', GBool True), (''utls'', GMap [(''enabled'', GBool True), (''fingerprint'', GStr ''chrome'')])])"
    by code_simp
  ultimately show ?thesis using sanitising_is_a_projection[OF w] unfolding t by blast
qed

end
