(* ===== verification/SingboxImport.thy ===== *)
theory SingboxImport
  imports SingboxSanitize
begin

text \<open>
  The import of sing-box files: the rings of detours it cuts, the nodes, chains and groups it
  yields, and what is lost between a file and the emission of the nodes imported from it.
\<close>

section \<open>Rings of detours\<close>

definition next_tag :: "(string \<times> gobj) list \<Rightarrow> string \<Rightarrow> string option" where
  "next_tag by_tag t =
     (case map_of by_tag t of
        None \<Rightarrow> None
      | Some e \<Rightarrow> if detour_of e = [] then None else Some (detour_of e))"

definition detour_edge :: "(string \<times> gobj) list \<Rightarrow> (string \<times> string) set" where
  "detour_edge by_tag = {(t, u). next_tag by_tag t = Some u}"

text \<open>A tag from which the detours that are not cut come to an end.\<close>

inductive grounded :: "(string \<times> gobj) list \<Rightarrow> string set \<Rightarrow> string \<Rightarrow> bool"
  for by_tag :: "(string \<times> gobj) list" and B :: "string set" where
  leaf: "next_tag by_tag t = None \<Longrightarrow> grounded by_tag B t"
| severed: "t \<in> B \<Longrightarrow> grounded by_tag B t"
| step: "next_tag by_tag t = Some u \<Longrightarrow> grounded by_tag B u \<Longrightarrow> grounded by_tag B t"

inductive_cases groundedE: "grounded by_tag B t"

lemma grounded_mono: "grounded m A t \<Longrightarrow> A \<subseteq> B \<Longrightarrow> grounded m B t"
  by (induction rule: grounded.induct) (auto intro: grounded.intros)

lemma cycle_walk_extends: "cycle_walk m path cur = (path', r) \<Longrightarrow> set path \<subseteq> set path'"
proof (induction m path cur rule: cycle_walk.induct)
  case (1 m path cur)
  then show ?case
    by (subst (asm) cycle_walk.simps) (auto split: if_splits option.splits)
qed

lemma cycle_walk_grounds:
  assumes "cycle_walk m path cur = (path', r)" "cur \<notin> set path" "set_option r \<subseteq> B"
  shows "cur \<in> set path' \<and> (\<forall>x \<in> set path' - set path. grounded m B x)"
  using assms
proof (induction m path cur rule: cycle_walk.induct)
  case (1 m path cur)
  show ?case
  proof (cases "map_of m cur")
    case None
    then have "path' = cur # path" using 1(2,3) by (simp add: cycle_walk.simps[of m path cur])
    then show ?thesis using None by (auto intro: leaf simp: next_tag_def)
  next
    case (Some e)
    consider (stop) "detour_of e = []" | (ring) "detour_of e \<noteq> []" "detour_of e \<in> set (cur # path)"
      | (go) "detour_of e \<noteq> []" "detour_of e \<notin> set (cur # path)" by blast
    then show ?thesis
    proof cases
      case stop
      then have "path' = cur # path" using 1(2,3) Some by (simp add: cycle_walk.simps[of m path cur])
      then show ?thesis using Some stop by (auto intro: leaf simp: next_tag_def)
    next
      case ring
      then have "path' = cur # path" "r = Some cur" using 1(2,3) Some
        by (simp_all add: cycle_walk.simps[of m path cur])
      then show ?thesis using 1(4) by (auto intro: severed)
    next
      case go
      have w: "cycle_walk m (cur # path) (detour_of e) = (path', r)"
        using 1(2,3) Some go by (simp add: cycle_walk.simps[of m path cur])
      have IH: "detour_of e \<in> set path' \<and> (\<forall>x \<in> set path' - set (cur # path). grounded m B x)"
        using 1(1)[OF 1(3) Some go w go(2) 1(4)] .
      have "grounded m B cur" by (rule step[of _ _ "detour_of e"]) (use Some go IH in \<open>auto simp: next_tag_def\<close>)
      moreover have "set (cur # path) \<subseteq> set path'" using w
        by (metis cycle_walk_extends)
      ultimately show ?thesis using IH by auto
    qed
  qed
qed

lemma cycle_walk_on_ring:
  assumes "cycle_walk m path cur = (path', Some t)" "\<forall>x \<in> set path. (x, cur) \<in> (detour_edge m)\<^sup>+"
    "cur \<notin> set path"
  shows "(t, t) \<in> (detour_edge m)\<^sup>+"
  using assms
proof (induction m path cur rule: cycle_walk.induct)
  case (1 m path cur)
  obtain e where e: "map_of m cur = Some e" "detour_of e \<noteq> []"
    using 1(2,4) by (subst (asm) cycle_walk.simps) (auto split: option.splits if_splits)
  have edge: "(cur, detour_of e) \<in> detour_edge m" using e by (simp add: detour_edge_def next_tag_def)
  have reach: "(x, detour_of e) \<in> (detour_edge m)\<^sup>+" if "x \<in> set (cur # path)" for x
    using that 1(3) edge by (auto intro: trancl_into_trancl)
  show ?case
  proof (cases "detour_of e \<in> set (cur # path)")
    case True
    then have "t = cur" using 1(2,4) e by (simp add: cycle_walk.simps[of m path cur])
    moreover have "(detour_of e, cur) \<in> (detour_edge m)\<^sup>*"
      using True 1(3) by auto
    ultimately show ?thesis using edge by (metis rtrancl_into_trancl2)
  next
    case False
    then have "cycle_walk m (cur # path) (detour_of e) = (path', Some t)"
      using 1(2,4) e by (simp add: cycle_walk.simps[of m path cur])
    with 1(1)[OF 1(4) e(1) e(2) False] reach False show ?thesis by blast
  qed
qed

definition walked_ok :: "(string \<times> gobj) list \<Rightarrow> string list \<times> string list \<Rightarrow> bool" where
  "walked_ok m s \<longleftrightarrow>
     (\<forall>x \<in> set (fst s). grounded m (set (snd s)) x) \<and>
     (\<forall>t \<in> set (snd s). (t, t) \<in> (detour_edge m)\<^sup>+)"

lemma cycle_step_ok:
  assumes "walked_ok m s"
  shows "walked_ok m (cycle_step m e s) \<and> set (fst s) \<subseteq> set (fst (cycle_step m e s)) \<and>
    (tag_of e \<noteq> [] \<longrightarrow> tag_of e \<in> set (fst (cycle_step m e s)))"
proof (cases "tag_of e = [] \<or> tag_of e \<in> set (fst s)")
  case True
  then show ?thesis using assms by (auto simp: cycle_step_def split: prod.split)
next
  case False
  obtain w b where s: "s = (w, b)" by (cases s)
  obtain path r where wk: "cycle_walk m [] (tag_of e) = (path, r)" by (cases "cycle_walk m [] (tag_of e)")
  define b' where "b' = (case r of None \<Rightarrow> b | Some t \<Rightarrow> t # b)"
  have st: "cycle_step m e s = (path @ w, b')"
    using False s wk by (simp add: cycle_step_def b'_def split: option.split)
  have "set_option r \<subseteq> set b'" "set b \<subseteq> set b'" by (auto simp: b'_def split: option.split)
  then have g: "tag_of e \<in> set path \<and> (\<forall>x \<in> set path. grounded m (set b') x)"
    using cycle_walk_grounds[OF wk, of "set b'"] by simp
  have "(t, t) \<in> (detour_edge m)\<^sup>+" if "t \<in> set b'" for t
    using that assms s cycle_walk_on_ring[of m "[]" "tag_of e" path] wk
    by (auto simp: b'_def walked_ok_def split: option.splits)
  moreover have "\<forall>x \<in> set (path @ w). grounded m (set b') x"
    using g assms s grounded_mono[OF _ \<open>set b \<subseteq> set b'\<close>] by (auto simp: walked_ok_def)
  ultimately show ?thesis using g unfolding st walked_ok_def by (simp add: s)
qed

lemma cycle_fold_ok:
  "walked_ok m s \<Longrightarrow> walked_ok m (fold (cycle_step m) es s) \<and>
     set (fst s) \<subseteq> set (fst (fold (cycle_step m) es s)) \<and>
     (\<forall>e \<in> set es. tag_of e \<noteq> [] \<longrightarrow> tag_of e \<in> set (fst (fold (cycle_step m) es s)))"
proof (induction es arbitrary: s)
  case (Cons e es)
  from cycle_step_ok[OF Cons.prems, of e] Cons.IH[of "cycle_step m e s"] show ?case by auto
qed simp

lemma grounded_not_on_ring:
  assumes "grounded m B t"
  shows "(t, t) \<notin> {(t, u) \<in> detour_edge m. t \<notin> B}\<^sup>+"
  using assms
proof (induction rule: grounded.induct)
  case (step t u)
  show ?case
  proof
    let ?R = "{(t, u) \<in> detour_edge m. t \<notin> B}"
    assume "(t, t) \<in> ?R\<^sup>+"
    then obtain v where v: "(t, v) \<in> ?R" "(v, t) \<in> ?R\<^sup>*" by (meson tranclD)
    then have "v = u" using step by (simp add: detour_edge_def)
    with v have "(u, u) \<in> ?R\<^sup>+" by (meson rtrancl_into_trancl1)
    with step show False by simp
  qed
qed (auto dest!: tranclD simp: detour_edge_def)

text \<open>
  C19. The detours the import cuts break all rings and nothing else: without them the detours
  between the entries of a configuration form no cycle, and every one that is cut lies on a ring.
\<close>

theorem detour_rings_are_cut:
  "acyclic {(t, u) \<in> detour_edge (entries_by_tag entries).
      t \<notin> set (find_detour_cycle_edges entries (entries_by_tag entries))} \<and>
   set (find_detour_cycle_edges entries (entries_by_tag entries)) \<subseteq>
     {t. (t, t) \<in> (detour_edge (entries_by_tag entries))\<^sup>+}"
proof -
  let ?m = "entries_by_tag entries"
  let ?s = "fold (cycle_step ?m) entries ([], [])"
  have ok: "walked_ok ?m ?s \<and> (\<forall>e \<in> set entries. tag_of e \<noteq> [] \<longrightarrow> tag_of e \<in> set (fst ?s))"
    using cycle_fold_ok[of ?m "([], [])" entries] by (simp add: walked_ok_def)
  have "(t, t) \<notin> {(t, u) \<in> detour_edge ?m. t \<notin> set (snd ?s)}\<^sup>+" for t
  proof (cases "map_of ?m t")
    case None
    then show ?thesis by (auto dest!: tranclD simp: detour_edge_def next_tag_def)
  next
    case (Some e)
    then have "e \<in> set entries \<and> tag_of e = t \<and> t \<noteq> []"
      by (auto simp: entries_by_tag_def dest!: map_of_SomeD)
    then have "grounded ?m (set (snd ?s)) t" using ok by (auto simp: walked_ok_def)
    then show ?thesis by (rule grounded_not_on_ring)
  qed
  then show ?thesis using ok
    by (auto simp: acyclic_def find_detour_cycle_edges_def walked_ok_def)
qed

section \<open>Imported nodes\<close>

definition usable_jump :: "'a parsed_jump_scheme \<Rightarrow> bool" where
  "usable_jump n \<longleftrightarrow>
     nd_tag n \<noteq> [] \<and> nd_outbound n \<noteq> None \<and>
     (let ty = norm_type (map_string (ob n) ''type'') in
        singbox_type_to_scheme ty = Some (nd_scheme n) \<and> outbound_accepted ty (ob n) \<and>
        (ty = ''wireguard'' \<or> nd_server n \<noteq> [] \<and> 0 < nd_port n \<and> nd_port n \<le> 65535))"

lemma sanitized_outbound_accepted_as:
  "ty = norm_type (map_string m ''type'') \<Longrightarrow> outbound_accepted ty (sanitize_singbox_outbound_map m)"
  by (simp add: sanitized_outbound_accepted)

lemma parsed_entry_usable:
  assumes "parse_singbox_entry e c i = Inr n"
  shows "usable_jump n \<and> (tag_of e \<noteq> [] \<longrightarrow> nd_tag n = tag_of e) \<and> nd_scheme n \<noteq> scheme_group \<and>
    nd_chain n = [] \<and> nd_jump n = None"
proof -
  define raw where "raw = map_string e ''tag''"
  define ty where "ty = norm_type (map_string e ''type'')"
  obtain scheme where sc: "singbox_type_to_scheme ty = Some scheme" and ne: "ty \<noteq> []"
    using assms by (auto simp: parse_singbox_entry_def Let_def ty_def split: if_splits option.splits)
  define tag where "tag = (if raw = [] then scheme @ ''-'' @ itoa (int c + 1) @ ''-'' @ itoa (int i + 1) else raw)"
  define src where "src = (if raw = [] then sput ''tag'' (GStr tag) e else e)"
  have src: "map_string src ''type'' = map_string e ''type''"
    by (simp add: src_def map_string_def get_str_def store_simps)
  have n: "nd_tag n = tag" "nd_scheme n = scheme" "nd_outbound n = Some (sanitize_singbox_outbound_map src)"
    "nd_server n = map_string e ''server''" "nd_port n = json_int (map_of e ''server_port'')"
    "nd_chain n = []" "nd_jump n = None"
    and ok: "ty = ''wireguard'' \<or> map_string e ''server'' \<noteq> [] \<and> 0 < json_int (map_of e ''server_port'') \<and>
      json_int (map_of e ''server_port'') \<le> 65535"
    using assms sc ne
    by (auto simp: parse_singbox_entry_def Let_def ty_def[symmetric] raw_def[symmetric] tag_def src_def
        fresh_node_def singbox_type_is_addressless_def split: if_splits)
  have "tag \<noteq> []" by (simp add: tag_def)
  moreover have "norm_type (map_string (sanitize_singbox_outbound_map src) ''type'') = ty"
    by (simp add: sanitized_type src ty_def)
  moreover have "outbound_accepted ty (sanitize_singbox_outbound_map src)"
    by (rule sanitized_outbound_accepted_as) (simp add: src ty_def)
  moreover have "scheme \<noteq> scheme_group"
  proof -
    have "list_all (\<lambda>p. snd p \<noteq> scheme_group) singbox_scheme_by_type" by code_simp
    then show ?thesis using sc
      by (auto simp: singbox_type_to_scheme_def list_all_iff dest!: map_of_SomeD)
  qed
  ultimately show ?thesis using n ok sc
    by (simp add: usable_jump_def ob_def Let_def tag_def tag_of_def raw_def)
qed

lemma usable_truncate: "usable_jump n \<Longrightarrow> usable_jump (parsed_jump.truncate (n :: parsed_node))"
  by (simp add: usable_jump_def ob_def parsed_jump.defs)

lemma nd_tag_truncate [simp]: "nd_tag (parsed_jump.truncate (n :: parsed_node)) = nd_tag n"
  by (simp add: parsed_jump.defs)

fun follows_detours :: "(string \<times> gobj) list \<Rightarrow> gobj \<Rightarrow> string list \<Rightarrow> bool" where
  "follows_detours m e [] = True"
| "follows_detours m e (t # ts) =
     (t \<noteq> [] \<and> detour_of e = t \<and> (\<exists>e'. map_of m t = Some e' \<and> chainable e' \<and> follows_detours m e' ts))"

definition chain_ok :: "(string \<times> gobj) list \<Rightarrow> gobj \<Rightarrow> string list \<Rightarrow> nat \<Rightarrow> parsed_jump list \<Rightarrow> bool" where
  "chain_ok m e visited n hops \<longleftrightarrow>
     (let ts = map nd_tag hops in
      follows_detours m e ts \<and> distinct ts \<and> set ts \<inter> set visited = {} \<and> length ts \<le> n \<and>
      list_all usable_jump hops)"

lemma chain_hops_ok:
  assumes "\<And>t e. map_of m t = Some e \<Longrightarrow> tag_of e = t"
  shows "chain_ok m e visited left (chain_hops c m k visited e t left)"
proof (induction left arbitrary: visited e t)
  case 0
  then show ?case by (simp add: chain_ok_def)
next
  case (Suc left)
  show ?case
  proof (cases "chain_hops c m k visited e t (Suc left)")
    case (Cons h hs)
    then obtain e' hop where e': "map_of m (detour_of e) = Some e'" "chainable e'"
      and p: "parse_singbox_entry e' k (max_detour_chain_depth - Suc left) = Inr hop"
      and nz: "detour_of e \<noteq> []" "detour_of e \<notin> set visited" and h: "h = parsed_jump.truncate hop"
      and hs: "hs = chain_hops c m k (detour_of e # visited) e' (detour_of e) left"
      by (auto split: if_splits option.splits sum.splits)
    have u: "usable_jump hop" "nd_tag hop = detour_of e"
      using parsed_entry_usable[OF p] assms[OF e'(1)] nz(1) by auto
    show ?thesis using Suc[of e' "detour_of e # visited" "detour_of e"] u nz e' unfolding Cons h hs
      by (auto simp: chain_ok_def Let_def usable_truncate simp del: chain_hops.simps)
  qed (simp add: chain_ok_def)
qed

lemma entries_by_tag_tag: "map_of (entries_by_tag es) t = Some e \<Longrightarrow> tag_of e = t \<and> e \<in> set es \<and> t \<noteq> []"
  by (auto simp: entries_by_tag_def dest!: map_of_SomeD)

lemma attached_fields:
  "nd_tag (attach_chain c e m k n) = nd_tag n" "nd_scheme (attach_chain c e m k n) = nd_scheme n"
  "nd_outbound (attach_chain c e m k n) = nd_outbound n" "nd_server (attach_chain c e m k n) = nd_server n"
  "nd_port (attach_chain c e m k n) = nd_port n"
  "nd_chain n = [] \<Longrightarrow> nd_chain (attach_chain c e m k n) =
     chain_hops c m k (if tag_of e \<noteq> [] then [tag_of e] else []) e (tag_of e) max_detour_chain_depth"
  by (simp_all add: attach_chain_def sync_jump_from_chain_def split: list.split)

lemma group_options_frame:
  "k \<notin> set ks \<Longrightarrow>
   map_of (fold (\<lambda>k m. case map_of entry k of None \<Rightarrow> m | Some v \<Rightarrow> if v = GNull then m else sput k v m) ks m) k =
   map_of m k"
  by (induction ks arbitrary: m) (auto simp: store_simps split: option.splits)

lemma map_filter_GStr: "List.map_filter (\<lambda>v. case v of GStr s \<Rightarrow> if P s then Some s else None | _ \<Rightarrow> None)
    (map GStr xs) = filter P xs"
  by (induction xs) (auto simp: List.map_filter_simps)

lemma group_members_known: "set (group_members nbt e) \<subseteq> snd ` set nbt"
proof
  fix t
  assume "t \<in> set (group_members nbt e)"
  then obtain v where v: "(case v of GStr s \<Rightarrow> if trim_space s = [] then None else map_of nbt (trim_space s)
      | _ \<Rightarrow> None) = Some t"
    unfolding group_members_def set_dedup_from by (simp add: set_map_filter_some) blast
  show "t \<in> snd ` set nbt"
    using v by (cases v) (auto split: if_splits dest!: map_of_SomeD intro: image_eqI[where x = "(_, t)"])
qed

lemma imported_group:
  assumes "singbox_group_to_node e nbt = Some n"
  shows "nd_scheme n = scheme_group \<and> group_members nbt e \<noteq> [] \<and> nd_chain n = [] \<and>
    get_list (ob n) group_members_key = Some (map GStr (group_members nbt e)) \<and>
    set (group_member_tags n) \<subseteq> set (group_members nbt e)"
proof -
  have "map_of (ob n) group_members_key = Some (GList (map GStr (group_members nbt e)))"
    using assms
    by (auto simp: singbox_group_to_node_def Let_def ob_def fresh_node_def group_options_frame
        singbox_group_option_keys_def[THEN arg_cong[where f = set]] group_members_key_def store_simps
        split: if_splits option.splits)
  then show ?thesis using assms
    by (auto simp: singbox_group_to_node_def Let_def fresh_node_def group_member_tags_def get_list_def
        set_map_filter_some split: if_splits gval.splits)
qed

text \<open>The nodes of one configuration: entries of their own, then the groups over them.\<close>

definition own_nodes ::
    "regex_engine \<Rightarrow> string smap list \<Rightarrow> nat \<Rightarrow> gobj \<Rightarrow> (string \<times> parsed_node) list" where
  "own_nodes compile skip k cfg =
     (let entries = singbox_all_entries cfg; m = entries_by_tag entries
      in List.map_filter (\<lambda>r. case r of Inr p \<Rightarrow> Some p | Inl _ \<Rightarrow> None)
           (List.map_filter (import_entry compile skip (analyze_singbox_detour entries m) m k)
             (enumerate 0 entries)))"

definition group_entries :: "gobj \<Rightarrow> gobj list" where
  "group_entries cfg =
     filter (\<lambda>e. type_of e \<noteq> [] \<and> \<not> is_singbox_service_type (type_of e) \<and> is_singbox_group_type (type_of e))
       (singbox_all_entries cfg)"

definition tag_index :: "(string \<times> parsed_node) list \<Rightarrow> (string \<times> string) list" where
  "tag_index nodes = rev (map (\<lambda>p. (fst p, nd_tag (snd p))) (filter (\<lambda>p. fst p \<noteq> []) nodes))"

lemma config_nodes:
  "fst (parse_singbox_config compile skip k cfg) =
     map snd (own_nodes compile skip k cfg) @
     List.map_filter (\<lambda>e. singbox_group_to_node e (tag_index (own_nodes compile skip k cfg))) (group_entries cfg)"
  by (simp add: parse_singbox_config_def own_nodes_def group_entries_def tag_index_def Let_def)

lemma snd_tag_index: "t \<in> snd ` set (tag_index nodes) \<Longrightarrow> \<exists>u x. (u, x) \<in> set nodes \<and> t = nd_tag x"
  unfolding tag_index_def by (fastforce simp: image_iff)

lemma import_entry_node:
  "import_entry compile skip c m k (i, e) = Some (Inr (t, n)) \<longleftrightarrow>
     t = tag_of e \<and> own_node c e \<and> (\<exists>n0. parse_singbox_entry e k i = Inr n0 \<and>
        \<not> should_skip_node compile n0 skip \<and> n = attach_chain c e m k n0)"
  by (cases "parse_singbox_entry e k i") (auto simp: import_entry_def)

lemma own_node_iff:
  "(t, n) \<in> set (own_nodes compile skip k cfg) \<longleftrightarrow>
     (\<exists>i e. (i, e) \<in> set (enumerate 0 (singbox_all_entries cfg)) \<and>
        import_entry compile skip
          (analyze_singbox_detour (singbox_all_entries cfg) (entries_by_tag (singbox_all_entries cfg)))
          (entries_by_tag (singbox_all_entries cfg)) k (i, e) = Some (Inr (t, n)))"
proof -
  have a: "(case r of Inr p \<Rightarrow> Some p | Inl _ \<Rightarrow> None) = Some p \<longleftrightarrow> r = Inr p" for r :: "string + string \<times> parsed_node" and p
    by (cases r) auto
  show ?thesis by (auto simp: own_nodes_def Let_def set_map_filter_some a)
qed

lemma own_node_usable:
  assumes "(t, n) \<in> set (own_nodes compile skip k cfg)"
  shows "usable_jump n \<and> nd_scheme n \<noteq> scheme_group \<and> list_all usable_jump (nd_chain n) \<and>
    distinct (map nd_tag (nd_chain n)) \<and> length (nd_chain n) \<le> max_detour_chain_depth"
proof -
  define m where "m = entries_by_tag (singbox_all_entries cfg)"
  obtain c e i n0 where p: "parse_singbox_entry e k i = Inr n0" and n: "n = attach_chain c e m k n0"
    using assms by (auto simp: own_node_iff import_entry_node m_def)
  have u: "usable_jump n0" "nd_chain n0 = []" "nd_scheme n0 \<noteq> scheme_group"
    using parsed_entry_usable[OF p] by auto
  have ch: "nd_chain n = chain_hops c m k (if tag_of e \<noteq> [] then [tag_of e] else []) e (tag_of e) max_detour_chain_depth"
    unfolding n by (rule attached_fields(6)[OF u(2)])
  have "map_of m t = Some e \<Longrightarrow> tag_of e = t" for t e using entries_by_tag_tag by (auto simp: m_def)
  then have "chain_ok m e (if tag_of e \<noteq> [] then [tag_of e] else []) max_detour_chain_depth (nd_chain n)"
    unfolding ch by (rule chain_hops_ok)
  moreover have "usable_jump n" using u(1)
    by (simp add: n usable_jump_def attached_fields ob_def)
  ultimately show ?thesis using u(3) by (simp add: chain_ok_def Let_def n attached_fields)
qed

text \<open>
  C10. Whatever a sing-box file holds, what is imported from it is usable: every node and every hop
  of its chain has a tag, a known type, an address and an outbound the core accepts, chains have
  at most eight hops and never pass a tag twice, and a group lists only nodes imported with it,
  never a group.
\<close>

theorem imported_nodes_usable:
  assumes "n \<in> set (ir_nodes (parse_nodes_from_singbox_configs compile skip configs))"
  shows "if nd_scheme n = scheme_group
    then set (group_member_tags n) \<subseteq>
      {nd_tag x | x. x \<in> set (ir_nodes (parse_nodes_from_singbox_configs compile skip configs)) \<and>
         nd_scheme x \<noteq> scheme_group}
    else usable_jump n \<and> list_all usable_jump (nd_chain n) \<and> distinct (map nd_tag (nd_chain n)) \<and>
      length (nd_chain n) \<le> 8"
proof -
  let ?all = "set (ir_nodes (parse_nodes_from_singbox_configs compile skip configs))"
  obtain k cfg where sub: "set (fst (parse_singbox_config compile skip k cfg)) \<subseteq> ?all"
    and n: "n \<in> set (fst (parse_singbox_config compile skip k cfg))"
    using assms by (fastforce simp: parse_nodes_from_singbox_configs_def Let_def)
  note c = config_nodes[of compile skip k cfg]
  let ?nbt = "tag_index (own_nodes compile skip k cfg)"
  from n consider (own) t where "(t, n) \<in> set (own_nodes compile skip k cfg)"
    | (grp) e where "singbox_group_to_node e ?nbt = Some n"
    unfolding c by (auto simp: set_map_filter_some)
  then show ?thesis
  proof cases
    case own
    then show ?thesis using own_node_usable[OF own] by (simp add: max_detour_chain_depth_def)
  next
    case grp
    have "t \<in> {nd_tag x | x. x \<in> ?all \<and> nd_scheme x \<noteq> scheme_group}" if t: "t \<in> snd ` set ?nbt" for t
    proof -
      obtain u x where x: "(u, x) \<in> set (own_nodes compile skip k cfg)" "t = nd_tag x"
        using snd_tag_index[OF t] by blast
      then have "x \<in> set (fst (parse_singbox_config compile skip k cfg))"
        unfolding c by (metis UnCI imageI set_append set_map snd_conv)
      then show ?thesis using x sub own_node_usable[OF x(1)] by blast
    qed
    then show ?thesis using imported_group[OF grp] group_members_known[of ?nbt e]
      by (simp only: simp_thms if_True) blast
  qed
qed

text \<open>A file with a chain of two hops, a ring, a dangling detour and a group over the nodes.\<close>

definition vless_entry :: "string \<Rightarrow> string \<Rightarrow> (string \<times> json) list" where
  "vless_entry tag detour =
     (if detour = [] then [] else [(''detour'', JStr detour)]) @
     [(''server'', JStr ''h''), (''server_port'', JNum 443), (''tag'', JStr tag), (''type'', JStr ''vless''),
      (''uuid'', JStr tag)]"

definition sample_file :: gobj where
  "sample_file = (case of_json (JObj [(''outbounds'', JArr
     [JObj (vless_entry ''main'' ''hop1''), JObj (vless_entry ''hop1'' ''hop2''), JObj (vless_entry ''hop2'' []),
      JObj (vless_entry ''r1'' ''r2''), JObj (vless_entry ''r2'' ''r1''), JObj (vless_entry ''lost'' ''nowhere''),
      JObj [(''outbounds'', JArr [JStr ''main'', JStr ''r1'', JStr ''hop1'', JStr ''auto'']),
            (''tag'', JStr ''auto''), (''type'', JStr ''urltest'')]]),
     (''route'', JObj [])]) of GMap m \<Rightarrow> m | _ \<Rightarrow> [])"

definition sample_import :: import_result where
  "sample_import = parse_nodes_from_singbox_configs no_regex [] [sample_file]"

lemma sample_import_shape:
  "map (\<lambda>n. (nd_tag n, map nd_tag (nd_chain n))) (ir_nodes sample_import) =
     [(''main'', [''hop1'', ''hop2'']), (''r1'', [''r2'']), (''r2'', []), (''lost'', []), (''auto'', [])] \<and>
   map group_member_tags (filter (\<lambda>n. nd_scheme n = scheme_group) (ir_nodes sample_import)) = [[''main'', ''r1'']] \<and>
   ir_ignored_sections sample_import = [''route'']"
  by code_simp

theorem imported_nodes_usable_witness:
  "list_all (\<lambda>n. nd_scheme n = scheme_group \<or> usable_jump n \<and> list_all usable_jump (nd_chain n)) (ir_nodes sample_import) \<and>
   map nd_tag (ir_nodes sample_import) = [''main'', ''r1'', ''r2'', ''lost'', ''auto'']"
proof -
  have "nd_scheme n = scheme_group \<or> usable_jump n \<and> list_all usable_jump (nd_chain n)"
    if "n \<in> set (ir_nodes sample_import)" for n
    using imported_nodes_usable[OF that[unfolded sample_import_def]] by (auto split: if_splits)
  moreover have "map nd_tag (ir_nodes sample_import) = map fst (map (\<lambda>n. (nd_tag n, map nd_tag (nd_chain n))) (ir_nodes sample_import))"
    by simp
  ultimately show ?thesis using sample_import_shape by (simp add: list_all_iff)
qed

section \<open>A ring keeps a node\<close>

definition usable_entry :: "regex_engine \<Rightarrow> string smap list \<Rightarrow> nat \<Rightarrow> gobj \<Rightarrow> bool" where
  "usable_entry compile skip k e \<longleftrightarrow>
     type_of e \<noteq> [] \<and> chainable e \<and>
     (\<forall>i. case parse_singbox_entry e k i of Inl _ \<Rightarrow> False | Inr n \<Rightarrow> \<not> should_skip_node compile n skip)"

lemma broken_not_target:
  "t \<in> set (find_detour_cycle_edges es m) \<Longrightarrow> \<not> is_detour_target (analyze_singbox_detour es m) t"
  by (auto simp: is_detour_target_def analyze_singbox_detour_def Let_def detour_targets_def
      set_map_filter_some split: if_splits option.splits)

lemma ring_has_broken:
  assumes "acyclic {(t, u) \<in> R. t \<notin> B}" "(t, t) \<in> R\<^sup>+"
  shows "\<exists>u. (t, u) \<in> R\<^sup>* \<and> u \<in> B"
proof (rule ccontr)
  assume no: "\<not> ?thesis"
  have "(t, u) \<in> {(t, u) \<in> R. t \<notin> B}\<^sup>+" if "(t, u) \<in> R\<^sup>+" for u
    using that
  proof (induction rule: trancl_induct)
    case (step y z)
    then have "y \<notin> B" using no by (meson trancl_into_rtrancl)
    then show ?case using step by (auto intro: trancl_into_trancl)
  qed (use no in auto)
  then show False using assms by (auto simp: acyclic_def)
qed

text \<open>
  C22. A ring of detours never erases its nodes: if every member of a ring is an entry that can be
  imported, at least one of them is imported as a node of its own.
\<close>

theorem ring_keeps_a_node:
  assumes "(t, t) \<in> (detour_edge (entries_by_tag (singbox_all_entries cfg)))\<^sup>+"
    and "\<And>u e. (t, u) \<in> (detour_edge (entries_by_tag (singbox_all_entries cfg)))\<^sup>* \<Longrightarrow>
           map_of (entries_by_tag (singbox_all_entries cfg)) u = Some e \<Longrightarrow> usable_entry compile skip k e"
  shows "\<exists>u n. (t, u) \<in> (detour_edge (entries_by_tag (singbox_all_entries cfg)))\<^sup>* \<and>
    n \<in> set (fst (parse_singbox_config compile skip k cfg)) \<and> nd_tag n = u \<and> nd_scheme n \<noteq> scheme_group"
proof -
  define es where "es = singbox_all_entries cfg"
  define m where "m = entries_by_tag es"
  have ac: "acyclic {(t, u) \<in> detour_edge m. t \<notin> set (find_detour_cycle_edges es m)}"
    and sub: "set (find_detour_cycle_edges es m) \<subseteq> {t. (t, t) \<in> (detour_edge m)\<^sup>+}"
    using detour_rings_are_cut[of es] by (simp_all add: m_def)
  have "(t, t) \<in> (detour_edge m)\<^sup>+" using assms(1) by (simp add: m_def es_def)
  then obtain u where u: "(t, u) \<in> (detour_edge m)\<^sup>*" "u \<in> set (find_detour_cycle_edges es m)"
    using ring_has_broken[OF ac] by blast
  then obtain v where "next_tag m u = Some v" using sub by (auto dest!: tranclD simp: detour_edge_def)
  then obtain e where e: "map_of m u = Some e" by (auto simp: next_tag_def split: option.splits)
  then have t: "tag_of e = u" "e \<in> set es" "u \<noteq> []" using entries_by_tag_tag[of es] by (auto simp: m_def)
  then have "e \<in> snd ` set (enumerate 0 es)" by (metis list.set_map map_snd_enumerate)
  then obtain i where i: "(i, e) \<in> set (enumerate 0 es)" by auto
  have us: "usable_entry compile skip k e" using assms(2) u(1) e by (simp add: m_def es_def)
  then obtain n0 where n0: "parse_singbox_entry e k i = Inr n0" "\<not> should_skip_node compile n0 skip"
    by (cases "parse_singbox_entry e k i") (auto simp: usable_entry_def dest!: spec[of _ i])
  define n where "n = attach_chain (analyze_singbox_detour es m) e m k n0"
  have "(u, n) \<in> set (own_nodes compile skip k cfg)"
    unfolding own_node_iff import_entry_node
    using i n0 us t broken_not_target[OF u(2)]
    by (auto simp: n_def es_def m_def own_node_def usable_entry_def)
  then have "n \<in> set (fst (parse_singbox_config compile skip k cfg))"
    unfolding config_nodes by (metis UnCI imageI set_append set_map snd_conv)
  moreover have "nd_tag n = u" "nd_scheme n \<noteq> scheme_group"
    using parsed_entry_usable[OF n0(1)] t by (simp_all add: n_def attached_fields)
  ultimately show ?thesis using u(1) unfolding m_def es_def by blast
qed

lemma parse_tagged: "tag_of e \<noteq> [] \<Longrightarrow> parse_singbox_entry e k i = parse_singbox_entry e k 0"
  by (simp add: parse_singbox_entry_def tag_of_def Let_def split: option.split)

lemma usable_tagged:
  "tag_of e \<noteq> [] \<Longrightarrow> usable_entry compile skip k e \<longleftrightarrow>
     type_of e \<noteq> [] \<and> chainable e \<and>
     (case parse_singbox_entry e k 0 of Inl _ \<Rightarrow> False | Inr n \<Rightarrow> \<not> should_skip_node compile n skip)"
  unfolding usable_entry_def by (metis parse_tagged)

theorem ring_keeps_a_node_witness:
  "\<exists>u n. u \<in> {''r1'', ''r2''} \<and> n \<in> set (fst (parse_singbox_config no_regex [] 0 sample_file)) \<and>
     nd_tag n = u \<and> nd_scheme n \<noteq> scheme_group"
proof -
  let ?m = "entries_by_tag (singbox_all_entries sample_file)"
  have e: "next_tag ?m ''r1'' = Some ''r2''" "next_tag ?m ''r2'' = Some ''r1''" by code_simp+
  have ring: "(''r1'', ''r1'') \<in> (detour_edge ?m)\<^sup>+"
    using e by (auto simp: detour_edge_def intro: trancl_into_trancl[of _ "''r2''"])
  have two: "u \<in> {''r1'', ''r2''}" if "(''r1'', u) \<in> (detour_edge ?m)\<^sup>*" for u
    using that by (induction rule: rtrancl_induct) (use e in \<open>auto simp: detour_edge_def\<close>)
  define good where "good e \<longleftrightarrow> tag_of e \<noteq> [] \<and> type_of e \<noteq> [] \<and> chainable e \<and>
      (case parse_singbox_entry e 0 0 of Inl _ \<Rightarrow> False | Inr n \<Rightarrow> \<not> should_skip_node no_regex n [])" for e
  have "list_all (\<lambda>t. case map_of ?m t of None \<Rightarrow> True | Some e \<Rightarrow> good e) [''r1'', ''r2'']"
    unfolding good_def by code_simp
  then have g: "case map_of ?m u of None \<Rightarrow> True | Some e \<Rightarrow> good e" if "u \<in> {''r1'', ''r2''}" for u
    using that by (elim insertE emptyE) simp_all
  have us: "usable_entry no_regex [] 0 e" if "(''r1'', u) \<in> (detour_edge ?m)\<^sup>*" "map_of ?m u = Some e" for u e
  proof -
    have "good e" using g[OF two[OF that(1)]] by (simp only: that(2) option.case)
    then show ?thesis unfolding good_def using usable_tagged[of e no_regex "[]" 0] by (metis (no_types))
  qed
  have "\<exists>u n. (''r1'', u) \<in> (detour_edge ?m)\<^sup>* \<and>
      n \<in> set (fst (parse_singbox_config no_regex [] 0 sample_file)) \<and> nd_tag n = u \<and> nd_scheme n \<noteq> scheme_group"
    by (rule ring_keeps_a_node[OF ring]) (rule us)
  then obtain u n where un: "(''r1'', u) \<in> (detour_edge ?m)\<^sup>*"
      "n \<in> set (fst (parse_singbox_config no_regex [] 0 sample_file))" "nd_tag n = u" "nd_scheme n \<noteq> scheme_group"
    by (elim exE conjE)
  show ?thesis by (intro exI[of _ u] exI[of _ n] conjI two[OF un(1)] un(2-4))
qed

section \<open>What gets lost between the file and the emission\<close>

lemma sanitized_tagged:
  assumes "parse_singbox_entry e k i = Inr n" "tag_of e \<noteq> []"
  shows "nd_outbound n = Some (sanitize_singbox_outbound_map e) \<and> \<not> nd_emit_raw n \<and>
    nd_label n = nd_tag n"
  using assms
  by (auto simp: parse_singbox_entry_def Let_def tag_of_def fresh_node_def split: if_splits option.splits)

lemma parsed_detour:
  assumes "parse_singbox_entry e k i = Inr n"
  shows "map_of (ob n) ''detour'' = map_of e ''detour'' \<and> \<not> nd_emit_raw n"
  using assms
  by (auto simp: parse_singbox_entry_def Let_def fresh_node_def ob_def sanitized_field store_simps
      split: if_splits option.splits)

lemma attach_raw [simp]: "nd_emit_raw (attach_chain c e m k n) = nd_emit_raw n"
  by (simp add: attach_chain_def sync_jump_from_chain_def split: list.split)

lemma sync_no_hops: "nd_chain (sync_jump_from_chain n) = [] \<Longrightarrow> chain_of_node (sync_jump_from_chain n) = []"
  by (cases "nd_chain n") (simp_all add: sync_jump_from_chain_def chain_of_node_def)

lemma attach_no_hops:
  "nd_chain (attach_chain c e m k n) = [] \<Longrightarrow> chain_of_node (attach_chain c e m k n) = []"
  unfolding attach_chain_def by (rule sync_no_hops)

text \<open>
  An entry whose detour cannot be followed (no such tag, a group, a service type) is imported
  without a chain, but its outbound keeps the detour: it is emitted dialling through a tag of the
  provider's file that the generated configuration does not have.
\<close>

theorem unresolved_detour_is_emitted:
  assumes "import_entry compile skip c m k (i, e) = Some (Inr (t, n))" "nd_scheme n \<noteq> ''wireguard''"
    and "detour_of e \<noteq> []" "\<forall>e'. map_of m (detour_of e) = Some e' \<longrightarrow> \<not> chainable e'"
  shows "\<exists>x. emit_node_jsons n = Inr ([x], None) \<and> map_of (em_fields x) ''detour'' = Some (JStr (detour_of e))"
proof -
  obtain n0 where p: "parse_singbox_entry e k i = Inr n0" and n: "n = attach_chain c e m k n0"
    using assms(1) by (auto simp: import_entry_node)
  have u: "nd_scheme n0 \<noteq> scheme_group" "nd_chain n0 = []" using parsed_entry_usable[OF p] by auto
  have "nd_chain n = []" unfolding n attached_fields(6)[OF u(2)]
    using assms(4) by (auto simp: max_detour_chain_depth_def eval_nat_numeral split: option.split)
  then have ch: "chain_of_node n = []" unfolding n by (rule attach_no_hops)
  define x where "x = \<lparr>em_comment = Some (sanitize_outbound_line_comment (nd_label n)), em_fields = plain_fields n\<rparr>"
  have g: "generate_node_json n = Inr x"
    using u(1) parsed_detour[OF p] by (simp add: generate_node_json_def x_def n attached_fields)
  have "map_of (ob n) ''detour'' = map_of e ''detour''"
    using parsed_detour[OF p] by (simp add: n ob_def attached_fields)
  then have "map_of (plain_fields n) ''detour'' = Some (JStr (detour_of e))"
    using assms(3) by (auto simp: plain_detour detour_part_def get_str_def detour_of_def map_string_def
        split: option.splits gval.splits)
  then show ?thesis using g ch assms(2) by (simp add: emit_node_jsons_def x_def)
qed

definition lost_entry :: gobj where
  "lost_entry = (case of_json (JObj (vless_entry ''lost'' ''nowhere'')) of GMap m \<Rightarrow> m | _ \<Rightarrow> [])"

theorem unresolved_detour_is_emitted_witness:
  "\<exists>n x. fst (parse_singbox_config no_regex [] 0 [(''outbounds'', GList [GMap lost_entry])]) = [n] \<and>
     emit_node_jsons n = Inr ([x], None) \<and> map_of (em_fields x) ''detour'' = Some (JStr ''nowhere'')"
proof -
  let ?c = "\<lparr>ci_targets = [], ci_broken = []\<rparr>"
  let ?m = "[(''lost'', lost_entry)]"
  define n where "n = (case import_entry no_regex [] ?c ?m 0 (0, lost_entry) of
      Some (Inr (t, n)) \<Rightarrow> n | _ \<Rightarrow> plain_node [] 0 [])"
  have "(case import_entry no_regex [] ?c ?m 0 (0, lost_entry) of Some (Inr (t, n)) \<Rightarrow> True | _ \<Rightarrow> False)"
    and s: "nd_scheme n \<noteq> ''wireguard''" and d: "detour_of lost_entry = ''nowhere''"
    and f: "fst (parse_singbox_config no_regex [] 0 [(''outbounds'', GList [GMap lost_entry])]) = [n]"
    unfolding n_def by code_simp+
  then obtain t where "import_entry no_regex [] ?c ?m 0 (0, lost_entry) = Some (Inr (t, n))"
    by (auto simp: n_def split: option.splits sum.splits)
  from unresolved_detour_is_emitted[OF this s] d
  obtain x where "emit_node_jsons n = Inr ([x], None)" "map_of (em_fields x) ''detour'' = Some (JStr ''nowhere'')"
    by auto
  then show ?thesis using f by blast
qed

definition typed_fields :: "string list" where
  "typed_fields = [''server_ports'', ''up_mbps'', ''down_mbps'', ''alter_id'', ''min_idle_session'', ''mtu'',
     ''host_key'', ''host_key_algorithms'']"

lemma json_no_typed:
  assumes "json_value (GMap m)"
  shows "get_int m k = None" "get_strs m k = None"
  using json_kept.P_field[OF assms, of k]
  by (auto simp: get_int_def get_strs_def split: option.splits gval.splits)

lemma json_parts:
  assumes "json_value (GMap m)"
  shows "pos_part m k = []" "int_part m k = []" "strs_part m k = []" "server_ports_part m = []"
  by (simp_all add: pos_part_def int_part_def strs_part_def server_ports_part_def json_no_typed[OF assms])

definition avoids :: "string list \<Rightarrow> fields \<Rightarrow> bool" where
  "avoids K xs \<longleftrightarrow> fst ` set xs \<inter> set K = {}"

lemma avoids_subseq: "subseq (map fst xs) ks \<Longrightarrow> list_all (\<lambda>k. k \<notin> set K) ks \<Longrightarrow> avoids K xs"
  by (auto simp: avoids_def list_all_iff dest: key_in)

lemma avoids_simps:
  "avoids K []" "avoids K ((k, v) # xs) \<longleftrightarrow> k \<notin> set K \<and> avoids K xs"
  "avoids K (xs @ ys) \<longleftrightarrow> avoids K xs \<and> avoids K ys"
  by (auto simp: avoids_def)

lemma avoids_if: "avoids K xs \<Longrightarrow> avoids K ys \<Longrightarrow> avoids K (if b then xs else ys)"
  by simp

lemmas avoids_parts = part_keys[THEN avoids_subseq]

lemma json_credentials:
  assumes "json_value (GMap (ob n))"
  shows "avoids typed_fields (credential_fields n)"
  unfolding credential_fields_def Let_def
  by (intro avoids_if) (simp_all add: json_parts[OF assms] avoids_simps avoids_parts typed_fields_def)

lemma json_plain:
  assumes "json_value (GMap (ob n))"
  shows "avoids typed_fields (plain_fields n)"
  unfolding plain_fields_def
  by (simp add: avoids_simps avoids_parts json_credentials[OF assms])
   (simp add: typed_fields_def avoids_parts)

lemma json_tls:
  assumes "json_value (GMap (ob n))" "map_of (plain_fields n) ''tls'' = Some v"
  shows "\<exists>t. v = JObj t \<and> avoids [''alpn''] t"
proof -
  have "(''tls'', v) \<in> set (tls_part (ob n))"
    using map_of_SomeD[OF assms(2)] by (simp add: plain_fields_mem)
  then obtain t where t: "get_map (ob n) ''tls'' = Some t" and v: "v = JObj (tls_fields t)"
    by (cases "get_map (ob n) ''tls''") (auto simp: tls_part_def split: if_splits)
  have "json_value (GMap t)"
    using json_kept.P_field[OF assms(1), of "''tls''"] t
    by (auto simp: get_map_def simp del: json_value.simps split: option.splits gval.splits)
  then have "avoids [''alpn''] (tls_fields t)"
    by (simp add: tls_fields_def avoids_simps avoids_parts json_parts)
  with v show ?thesis by blast
qed

lemma parsed_json_value:
  assumes "parse_singbox_entry e k i = Inr n" "json_value (GMap e)"
  shows "json_value (GMap (ob n))"
proof -
  have "json_value (GMap (sput ''tag'' (GStr s) e))" for s
    using assms(2) by (intro json_kept.P_put) simp_all
  then have "json_value (GMap (sanitize_singbox_outbound_map (sput ''tag'' (GStr s) e)))" for s
    by (rule json_kept.P_sanitized)
  moreover have "json_value (GMap (sanitize_singbox_outbound_map e))" by (rule json_kept.P_sanitized[OF assms(2)])
  ultimately show ?thesis using assms(1)
    by (auto simp: parse_singbox_entry_def Let_def fresh_node_def ob_def
        simp del: json_value.simps split: if_splits option.splits)
qed

text \<open>
  The emitter reads numbers and lists only in the types the link parsers store, and a decoded
  file has others: of an imported node, the ALPN list, the port ranges and bandwidths, the alter
  id, the host keys and the MTU are never emitted, nor any credential of an HTTP proxy.
\<close>

theorem imported_fields_are_dropped:
  assumes "parse_singbox_entry e k i = Inr n" "json_value (GMap e)" "generate_node_json n = Inr x"
  shows "fst ` set (em_fields x) \<inter> set typed_fields = {} \<and>
    (\<forall>t. map_of (em_fields x) ''tls'' = Some (JObj t) \<longrightarrow> ''alpn'' \<notin> fst ` set t) \<and>
    (nd_scheme n = ''http'' \<longrightarrow> credential_fields n = [])"
proof -
  have j: "json_value (GMap (ob n))" by (rule parsed_json_value[OF assms(1,2)])
  have x: "em_fields x = plain_fields n"
    using parsed_entry_usable[OF assms(1)] parsed_detour[OF assms(1)] assms(3)
    by (auto simp: generate_node_json_def)
  have "''alpn'' \<notin> fst ` set t" if "map_of (plain_fields n) ''tls'' = Some (JObj t)" for t
    using json_tls[OF j that] by (auto simp: avoids_def)
  then show ?thesis using json_plain[OF j] unfolding x avoids_def
    by (auto simp: credential_fields_def Let_def)
qed

definition hysteria_entry :: gobj where
  "hysteria_entry = (case of_json (JObj
     [(''password'', JStr ''p''), (''server'', JStr ''h''), (''server_port'', JNum 443), (''tag'', JStr ''hy''),
      (''tls'', JObj [(''alpn'', JArr [JStr ''h3'']), (''enabled'', JBool True)]),
      (''type'', JStr ''hysteria2''), (''up_mbps'', JNum 100)]) of GMap m \<Rightarrow> m | _ \<Rightarrow> [])"

theorem imported_fields_are_dropped_witness:
  "\<exists>n x. parse_singbox_entry hysteria_entry 0 0 = Inr n \<and> generate_node_json n = Inr x \<and>
     map_of (ob n) ''up_mbps'' = Some (GFloat 100) \<and> ''up_mbps'' \<notin> fst ` set (em_fields x)"
proof -
  have ok: "(case parse_singbox_entry hysteria_entry 0 0 of Inl _ \<Rightarrow> False | Inr n \<Rightarrow>
      map_of (ob n) ''up_mbps'' = Some (GFloat 100) \<and> (case generate_node_json n of Inl _ \<Rightarrow> False | Inr _ \<Rightarrow> True))"
    and j: "json_value (GMap hysteria_entry)" by code_simp+
  from ok obtain n where n: "parse_singbox_entry hysteria_entry 0 0 = Inr n"
    "map_of (ob n) ''up_mbps'' = Some (GFloat 100)" "(case generate_node_json n of Inl _ \<Rightarrow> False | Inr _ \<Rightarrow> True)"
    by (cases "parse_singbox_entry hysteria_entry 0 0") auto
  then obtain x where x: "generate_node_json n = Inr x" by (cases "generate_node_json n") auto
  have "''up_mbps'' \<notin> fst ` set (em_fields x)"
    using imported_fields_are_dropped[OF n(1) j x] by (auto simp: typed_fields_def)
  then show ?thesis using n x by blast
qed

end
