(* ===== verification/Sources.thy ===== *)
theory Sources
  imports Generate SingboxImport "HOL-Library.Word"
begin

text \<open>
  Loading the nodes of a source, \<open>core/config/subscription/source_loader.go\<close>, the display
  normalisation of tags, \<open>internal/textnorm/proxy_display.go\<close>, and the collection of the marks of
  disabled nodes in \<open>core/config_service_subscriptions.go\<close>. The cache, the network, the clock, the
  link parser and the Xray parser are parameters (\<open>load_env\<close>); the sing-box import is the model's.
  Times are Unix seconds.
\<close>

section \<open>Text\<close>

text \<open>\<open>strings.ReplaceAll\<close> for a text to replace that is not empty.\<close>

function replace_all :: "string \<Rightarrow> string \<Rightarrow> string \<Rightarrow> string" where
  "replace_all old new s =
     (if s = [] then []
      else if old \<noteq> [] \<and> prefix old s then new @ replace_all old new (drop (length old) s)
      else hd s # replace_all old new (tl s))"
  by pat_completeness auto

termination
  by (relation "measure (\<lambda>(_, _, s). length s)") auto

declare replace_all.simps [simp del]

text \<open>
  \<open>NormalizeProxyDisplay\<close>: three angle quotation marks and the coloured shapes U+1F7E0 to
  U+1F7EB, in UTF-8.
\<close>

fun shapes_to_stars :: "string \<Rightarrow> string" where
  "shapes_to_stars (a # b # c # d # s) =
     (if a = CHR 0xF0 \<and> b = CHR 0x9F \<and> c = CHR 0x9F \<and>
          0xA0 \<le> (of_char d :: nat) \<and> (of_char d :: nat) \<le> 0xAB
      then CHR ''*'' # shapes_to_stars s else a # shapes_to_stars (b # c # d # s))"
| "shapes_to_stars s = s"

lemma replace_all_le:
  "length new \<le> length old \<Longrightarrow> length (replace_all old new s) \<le> length s"
proof (induction old new s rule: replace_all.induct)
  case (1 old new s)
  show ?case
  proof (cases "s \<noteq> [] \<and> old \<noteq> [] \<and> prefix old s")
    case True
    then have "length (replace_all old new (drop (length old) s)) \<le> length s - length old"
      using 1 by simp
    then show ?thesis using True 1(3) prefix_length_le[of old s]
      by (subst replace_all.simps) simp
  next
    case False
    then show ?thesis using 1 by (subst replace_all.simps) (cases s; auto)
  qed
qed

lemma replace_all_shorter:
  "length new < length old \<Longrightarrow> sublist old s \<Longrightarrow> length (replace_all old new s) < length s"
proof (induction old new s rule: replace_all.induct)
  case (1 old new s)
  have ne: "s \<noteq> []" "old \<noteq> []" using 1(3,4) by auto
  show ?case
  proof (cases "prefix old s")
    case True
    have "length (replace_all old new (drop (length old) s)) \<le> length s - length old"
      using replace_all_le[of new old "drop (length old) s"] 1(3) by simp
    then show ?thesis using ne True 1(3) prefix_length_le[OF True]
      by (subst replace_all.simps) simp
  next
    case False
    then have "sublist old (tl s)" using 1(4) ne by (cases s) (auto simp: sublist_Cons_right)
    then show ?thesis using 1(2)[OF ne(1)] False ne 1(3)
      by (subst replace_all.simps) (cases s; simp)
  qed
qed

text \<open>The loop that collapses runs of spaces ends because every round shortens the text.\<close>

function collapse_spaces :: "string \<Rightarrow> string" where
  "collapse_spaces s =
     (if sublist ''  '' s then collapse_spaces (replace_all ''  '' '' '' s) else s)"
  by pat_completeness auto

termination
  by (relation "measure length") (auto intro!: replace_all_shorter)

declare collapse_spaces.simps [simp del]

definition normalize_proxy_display :: "string \<Rightarrow> string" where
  "normalize_proxy_display s =
     (if s = [] then []
      else trim_space (collapse_spaces (shapes_to_stars
             (replace_all [CHR 0xE2, CHR 0x80, CHR 0xBA] '' > ''
               (replace_all [CHR 0xC2, CHR 0xBB] '' > ''
                 (replace_all [CHR 0xE2, CHR 0x9D, CHR 0xAF] '' > '' s))))))"

text \<open>\<open>NormalizeSubscriptionTextLine\<close>; lines are valid UTF-8.\<close>

definition normalize_subscription_text_line :: "string \<Rightarrow> string" where
  "normalize_subscription_text_line s = replace_all ''&amp;'' ''&'' (trim_space s)"

definition is_subscription_url :: "string \<Rightarrow> bool" where
  "is_subscription_url s \<longleftrightarrow>
     prefix ''http://'' (trim_space s) \<or> prefix ''https://'' (trim_space s)"

definition is_direct_link :: "string \<Rightarrow> bool" where
  "is_direct_link s \<longleftrightarrow> list_ex (\<lambda>p. prefix p (trim_space s))
     [''vless://'', ''vmess://'', ''trojan://'', ''ss://'', ''hysteria2://'', ''hy2://'', ''tuic://'',
      ''anytls://'', ''ssh://'', ''wireguard://'', ''awg://'', ''masque://'', ''vpn://'', ''socks5://'',
      ''socks://'', ''naive+https://'', ''naive+quic://'']"

section \<open>Marks of disabled nodes\<close>

text \<open>\<open>time.Duration\<close> is a signed 64-bit number of nanoseconds; the product wraps around.\<close>

definition hour_ns :: int where "hour_ns = 3600 * 10 ^ 9"

definition disabled_node_ttl :: "int \<Rightarrow> int" where
  "disabled_node_ttl interval_hours =
     (let min_ttl = 24 * hour_ns; max_ttl = 30 * 24 * hour_ns in
      if interval_hours \<le> 0 then min_ttl
      else
        (let ttl = sint (word_of_int interval_hours * 3 * word_of_int hour_ns :: 64 word) in
         if ttl < min_ttl then min_ttl else if max_ttl < ttl then max_ttl else ttl))"

type_synonym marks = "int smap"

definition gc_disabled_nodes :: "marks \<Rightarrow> int \<Rightarrow> int \<Rightarrow> marks" where
  "gc_disabled_nodes marks ttl now =
     (let cutoff = now - ttl div 10 ^ 9 in filter (\<lambda>p. \<not> snd p < cutoff) marks)"

definition gc_disabled :: "marks \<Rightarrow> int \<Rightarrow> int \<Rightarrow> marks" where
  "gc_disabled marks interval_hours now = gc_disabled_nodes marks (disabled_node_ttl interval_hours) now"

text \<open>\<open>ident\<close> is the hook \<open>NodeIdentityHashFunc\<close>, \<open>None\<close> when it is not set.\<close>

definition filter_disabled_nodes ::
    "(parsed_node \<Rightarrow> string) option \<Rightarrow> parsed_node list \<Rightarrow> marks \<Rightarrow> int \<Rightarrow> parsed_node list \<times> marks" where
  "filter_disabled_nodes ident nodes disabled now =
     (case ident of
        None \<Rightarrow> (nodes, disabled)
      | Some h \<Rightarrow>
          if disabled = [] then (nodes, disabled)
          else
            (filter (\<lambda>n. h n = [] \<or> map_of disabled (h n) = None) nodes,
             fold (\<lambda>n. sput (h n) now)
               (filter (\<lambda>n. h n \<noteq> [] \<and> map_of disabled (h n) \<noteq> None) nodes) disabled))"

definition dedup_nodes_by_identity ::
    "(parsed_node \<Rightarrow> string) option \<Rightarrow> parsed_node list \<Rightarrow> parsed_node list" where
  "dedup_nodes_by_identity ident nodes =
     (case ident of
        None \<Rightarrow> nodes
      | Some h \<Rightarrow>
          if length nodes < 2 then nodes
          else rev (snd (fold (\<lambda>n (seen, kept).
                 if h n = [] then (seen, n # kept)
                 else if h n \<in> set seen then (seen, kept)
                 else (h n # seen, n # kept)) nodes ([], []))))"

text \<open>
  After every update of the subscriptions the marks of a source are collected
  (\<open>config_service_subscriptions.go\<close>); a declared interval of zero means none was declared.
\<close>

definition update_marks :: "int option \<Rightarrow> int option \<Rightarrow> int \<Rightarrow> marks \<Rightarrow> marks" where
  "update_marks user provider now marks =
     (if marks = [] then []
      else
        (let i = (case user of Some i \<Rightarrow> i | None \<Rightarrow> 0);
             i = (if i \<le> 0 then (case provider of Some p \<Rightarrow> p | None \<Rightarrow> i) else i)
         in gc_disabled marks i now))"

section \<open>Tags\<close>

definition make_tag_unique :: "string \<Rightarrow> tag_counts \<Rightarrow> string \<times> tag_counts" where
  "make_tag_unique tag counts =
     (let c = (case map_of counts tag of Some c \<Rightarrow> c | None \<Rightarrow> 0) in
      if 0 < c then (tag @ ''-'' @ itoa (c + 1), sput tag (c + 1) counts)
      else (tag, sput tag 1 counts))"

definition replace_tag_variables :: "string \<Rightarrow> 'a parsed_node_scheme \<Rightarrow> nat \<Rightarrow> string" where
  "replace_tag_variables template n num =
     fold (\<lambda>(var, val). replace_all var val)
       [(''{$tag}'', nd_tag n), (''{$scheme}'', nd_scheme n), (''{$protocol}'', nd_scheme n),
        (''{$server}'', nd_server n), (''{$port}'', itoa (nd_port n)), (''{$label}'', nd_label n),
        (''{$comment}'', nd_comment n), (''{$num}'', itoa (int num))] template"

definition apply_tag_prefix_postfix :: "parsed_node \<Rightarrow> proxy_source \<Rightarrow> nat \<Rightarrow> string" where
  "apply_tag_prefix_postfix n ps num =
     (if ps_tag_mask ps \<noteq> [] then replace_tag_variables (ps_tag_mask ps) n num
      else
        (let tag = (if ps_tag_prefix ps \<noteq> [] then replace_tag_variables (ps_tag_prefix ps) n num @ nd_tag n
                    else nd_tag n)
         in if ps_tag_postfix ps \<noteq> [] then tag @ replace_tag_variables (ps_tag_postfix ps) n num else tag))"

definition final_tag :: "parsed_node \<Rightarrow> proxy_source \<Rightarrow> nat \<Rightarrow> tag_counts \<Rightarrow> string \<times> tag_counts" where
  "final_tag n ps num counts =
     make_tag_unique (normalize_proxy_display (apply_tag_prefix_postfix n ps num)) counts"

definition stamp_tag :: "string \<Rightarrow> ('a parsed_jump_scheme) \<Rightarrow> 'a parsed_jump_scheme" where
  "stamp_tag t n = n\<lparr>nd_tag := t, nd_outbound := map_option (sput ''tag'' (GStr t)) (nd_outbound n)\<rparr>"

fun tag_hops :: "string \<Rightarrow> nat \<Rightarrow> parsed_jump list \<Rightarrow> tag_counts \<Rightarrow> parsed_jump list \<times> tag_counts" where
  "tag_hops owner idx [] counts = ([], counts)"
| "tag_hops owner idx (h # hs) counts =
     (let (t, counts) = make_tag_unique (owner @ ''_hop'' @ itoa (int idx + 1)) counts;
          (hs', counts) = tag_hops owner (Suc idx) hs counts
      in (stamp_tag t h # hs', counts))"

text \<open>Every hop dials through the next one, the last one directly.\<close>

fun link_hops :: "parsed_jump list \<Rightarrow> parsed_jump list" where
  "link_hops [] = []"
| "link_hops [h] = [h\<lparr>nd_outbound := map_option (sdel ''detour'') (nd_outbound h)\<rparr>]"
| "link_hops (h # h' # hs) =
     h\<lparr>nd_outbound := map_option (sput ''detour'' (GStr (nd_tag h'))) (nd_outbound h)\<rparr> # link_hops (h' # hs)"

definition apply_tags_to_singbox_node ::
    "parsed_node \<Rightarrow> proxy_source \<Rightarrow> nat \<Rightarrow> tag_counts \<Rightarrow> parsed_node \<times> tag_counts" where
  "apply_tags_to_singbox_node n ps num counts =
     (let (t, counts) = final_tag n ps num counts;
          (hops, counts) = tag_hops t 0 (nd_chain n) counts;
          hops = link_hops hops;
          n = stamp_tag t (n\<lparr>nd_source_tag := nd_tag n\<rparr>);
          n = (case hops of
                 [] \<Rightarrow> n
               | h # _ \<Rightarrow> n\<lparr>nd_outbound := map_option (sput ''detour'' (GStr (nd_tag h))) (nd_outbound n)\<rparr>)
      in (sync_jump_from_chain (n\<lparr>nd_chain := hops\<rparr>), counts))"

text \<open>
  The Xray path renames the legacy first hop only. Its \<open>Outbound\<close> map is the one of the first hop of
  the chain when the two are in step, so the tag written into it is seen there as well.
\<close>

definition apply_tags_to_xray_node ::
    "parsed_node \<Rightarrow> proxy_source \<Rightarrow> nat \<Rightarrow> tag_counts \<Rightarrow> parsed_node \<times> tag_counts" where
  "apply_tags_to_xray_node n ps num counts =
     (let n = n\<lparr>nd_source_tag := nd_tag n\<rparr>;
          (t, counts) = final_tag n ps num counts
      in case nd_jump n of
           None \<Rightarrow> (stamp_tag t n, counts)
         | Some j \<Rightarrow>
             (let (jt, counts) = final_tag (n\<lparr>nd_tag := nd_tag j\<rparr>) ps num counts;
                  chain = (case nd_chain n of
                             [] \<Rightarrow> []
                           | h # hs \<Rightarrow> h\<lparr>nd_outbound := map_option (sput ''tag'' (GStr jt)) (nd_outbound h)\<rparr> # hs)
              in (stamp_tag t (n\<lparr>nd_jump := Some (stamp_tag jt j), nd_chain := chain\<rparr>), counts)))"

section \<open>Groups after tagging\<close>

text \<open>The last node of a source tag gives the final tag, as the later write to the map wins.\<close>

definition final_by_original :: "parsed_node list \<Rightarrow> (string \<times> string) list" where
  "final_by_original nodes =
     rev (map (\<lambda>n. (nd_source_tag n, nd_tag n)) (filter (\<lambda>n. nd_source_tag n \<noteq> []) nodes))"

definition rebound_members :: "(string \<times> string) list \<Rightarrow> gobj \<Rightarrow> string list" where
  "rebound_members fbo m =
     (case get_list m group_members_key of
        None \<Rightarrow> []
      | Some xs \<Rightarrow> List.map_filter (\<lambda>v. case v of GStr s \<Rightarrow> map_of fbo s | _ \<Rightarrow> None) xs)"

definition rebind_group :: "(string \<times> string) list \<Rightarrow> parsed_node \<Rightarrow> parsed_node option" where
  "rebind_group fbo n =
     (case nd_outbound n of
        None \<Rightarrow> Some n
      | Some m \<Rightarrow>
          if nd_scheme n \<noteq> scheme_group then Some n
          else
            (let members = rebound_members fbo m;
                 m = sput group_members_key (GList (map GStr members)) m;
                 m = (case get_str m ''default'' of
                        None \<Rightarrow> m
                      | Some d \<Rightarrow>
                          (case map_of fbo d of
                             Some t \<Rightarrow> sput ''default'' (GStr t) m | None \<Rightarrow> sdel ''default'' m))
             in if members = [] then None else Some (n\<lparr>nd_outbound := Some m\<rparr>)))"

definition rebind_imported_group_nodes :: "parsed_node list \<Rightarrow> parsed_node list" where
  "rebind_imported_group_nodes nodes = List.map_filter (rebind_group (final_by_original nodes)) nodes"

section \<open>Loading a source\<close>

definition max_nodes_per_subscription :: nat where "max_nodes_per_subscription = 3000"

text \<open>
  \<open>le_parse_link\<close> is \<open>ParseNode\<close>: \<open>None\<close> an error, \<open>Some None\<close> a node the skip filters drop.
\<close>

record load_env =
  le_cached :: "string \<Rightarrow> string option"
  le_fetch :: "string \<Rightarrow> string option"
  le_decode :: "string \<Rightarrow> gval option"
  le_compile :: regex_engine
  le_parse_link :: "string \<Rightarrow> string smap list \<Rightarrow> parsed_node option option"
  le_parse_xray :: "string \<Rightarrow> string smap list \<Rightarrow> parsed_node list option"
  le_ident :: "(parsed_node \<Rightarrow> string) option"
  le_now :: int

record source_acc =
  sa_nodes :: "parsed_node list"
  sa_taken :: nat
  sa_counts :: tag_counts

fun accept_nodes ::
    "(parsed_node \<Rightarrow> nat \<Rightarrow> tag_counts \<Rightarrow> parsed_node \<times> tag_counts) \<Rightarrow> parsed_node list \<Rightarrow> source_acc \<Rightarrow> source_acc" where
  "accept_nodes tagger [] a = a"
| "accept_nodes tagger (n # ns) a =
     (if max_nodes_per_subscription \<le> sa_taken a then accept_nodes tagger ns a
      else
        (let (n', counts) = tagger n (Suc (sa_taken a)) (sa_counts a)
         in accept_nodes tagger ns
              (a\<lparr>sa_nodes := sa_nodes a @ [n'], sa_taken := Suc (sa_taken a), sa_counts := counts\<rparr>)))"

definition tag_link_node :: "proxy_source \<Rightarrow> parsed_node \<Rightarrow> nat \<Rightarrow> tag_counts \<Rightarrow> parsed_node \<times> tag_counts" where
  "tag_link_node ps n num counts =
     (let (t, counts) = final_tag n ps num counts in (n\<lparr>nd_tag := t\<rparr>, counts))"

definition take_link :: "proxy_source \<Rightarrow> parsed_node \<Rightarrow> source_acc \<Rightarrow> source_acc" where
  "take_link ps n a =
     (let (n', counts) = tag_link_node ps n (Suc (sa_taken a)) (sa_counts a)
      in a\<lparr>sa_nodes := sa_nodes a @ [n'], sa_taken := Suc (sa_taken a), sa_counts := counts\<rparr>)"

text \<open>The lines of a list of links; \<open>seen\<close> holds the identities met so far.\<close>

fun accept_lines ::
    "load_env \<Rightarrow> proxy_source \<Rightarrow> string list \<Rightarrow> string list \<Rightarrow> source_acc \<Rightarrow> source_acc" where
  "accept_lines env ps seen [] a = a"
| "accept_lines env ps seen (l # ls) a =
     (let line = normalize_subscription_text_line l in
      if line = [] then accept_lines env ps seen ls a
      else if max_nodes_per_subscription \<le> sa_taken a then accept_lines env ps seen ls a
      else (case le_parse_link env line (ps_skip ps) of
              Some (Some n) \<Rightarrow>
                (let h = (case le_ident env of Some f \<Rightarrow> f n | None \<Rightarrow> []) in
                 if h \<noteq> [] \<and> h \<in> set seen then accept_lines env ps seen ls a
                 else accept_lines env ps (if h \<noteq> [] then h # seen else seen) ls (take_link ps n a))
            | _ \<Rightarrow> accept_lines env ps seen ls a))"

definition normalize_newlines :: "string \<Rightarrow> string" where
  "normalize_newlines s =
     trim_space (replace_all [CHR 0x0D] [CHR 0x0A] (replace_all [CHR 0x0D, CHR 0x0A] [CHR 0x0A] s))"

definition load_body :: "load_env \<Rightarrow> proxy_source \<Rightarrow> string \<Rightarrow> source_acc \<Rightarrow> source_acc \<times> string list" where
  "load_body env ps body a =
     (let content = normalize_newlines body; kind = classify_subscription_body (le_decode env) content in
      if is_singbox kind then
        (case parse_singbox_body (le_compile env) (le_decode env) content kind (ps_skip ps) of
           None \<Rightarrow> (a, [])
         | Some r \<Rightarrow>
             (let a' = accept_nodes (\<lambda>n. apply_tags_to_singbox_node n ps)
                         (dedup_nodes_by_identity (le_ident env) (ir_nodes r)) (a\<lparr>sa_nodes := []\<rparr>)
              in (a'\<lparr>sa_nodes := sa_nodes a @ rebind_imported_group_nodes (sa_nodes a')\<rparr>, ir_ignored_sections r)))
      else if kind = XrayArray then
        (case le_parse_xray env content (ps_skip ps) of
           None \<Rightarrow> (a, [])
         | Some ns \<Rightarrow>
             (let a' = accept_nodes (\<lambda>n. apply_tags_to_xray_node n ps) ns (a\<lparr>sa_nodes := []\<rparr>)
              in (a'\<lparr>sa_nodes := sa_nodes a @ rebind_imported_group_nodes (sa_nodes a')\<rparr>, [])))
      else (accept_lines env ps [] (split_char (CHR 0x0A) content) a, []))"

definition load_source_field :: "load_env \<Rightarrow> proxy_source \<Rightarrow> source_acc \<Rightarrow> source_acc \<times> string list" where
  "load_source_field env ps a =
     (if ps_source ps = [] then (a, [])
      else if is_subscription_url (ps_source ps) then
        (let cached = (case le_cached env (ps_source ps) of Some b \<Rightarrow> b | None \<Rightarrow> []);
             content = (if cached \<noteq> [] then Some cached else le_fetch env (ps_source ps))
         in case content of
              None \<Rightarrow> (a, [])
            | Some body \<Rightarrow> if body = [] then (a, []) else load_body env ps body a)
      else if is_direct_link (ps_source ps) then
        (case le_parse_link env (normalize_subscription_text_line (ps_source ps)) (ps_skip ps) of
           Some (Some n) \<Rightarrow> (take_link ps n a, [])
         | _ \<Rightarrow> (a, []))
      else (a, []))"

definition load_manual :: "proxy_source \<Rightarrow> source_acc \<Rightarrow> source_acc" where
  "load_manual ps a =
     (case ps_config_json ps of
        None \<Rightarrow> a
      | Some v \<Rightarrow>
          (case node_from_manual_config_json (of_json v) of
             Inl _ \<Rightarrow> a
           | Inr n \<Rightarrow> if sa_taken a < max_nodes_per_subscription then take_link ps n a else a))"

definition load_connection :: "load_env \<Rightarrow> proxy_source \<Rightarrow> string \<Rightarrow> source_acc \<Rightarrow> source_acc" where
  "load_connection env ps conn a =
     (let c = normalize_subscription_text_line conn in
      if c = [] \<or> \<not> is_direct_link c then a
      else if max_nodes_per_subscription \<le> sa_taken a then a
      else (case le_parse_link env c (ps_skip ps) of Some (Some n) \<Rightarrow> take_link ps n a | _ \<Rightarrow> a))"

record source_load_result =
  sr_nodes :: "parsed_node list"
  sr_ignored_sections :: "string list"
  sr_disabled :: marks

text \<open>All stages before the detour of the source and its marks.\<close>

definition collect_source :: "load_env \<Rightarrow> proxy_source \<Rightarrow> tag_counts \<Rightarrow> source_acc \<times> string list" where
  "collect_source env ps counts =
     (let (a, ignored) = load_source_field env ps \<lparr>sa_nodes = [], sa_taken = 0, sa_counts = counts\<rparr>;
          a = load_manual ps a;
          connections = (if ps_config_json ps \<noteq> None then [] else ps_connections ps)
      in (fold (load_connection env ps) connections a, ignored))"

definition load_nodes_from_source_ex ::
    "load_env \<Rightarrow> proxy_source \<Rightarrow> tag_counts \<Rightarrow> source_load_result \<times> tag_counts" where
  "load_nodes_from_source_ex env ps counts =
     (let (a, ignored) = collect_source env ps counts;
          nodes = (if trim_space (ps_detour_node_hash ps) = []
                   then apply_source_detour (sa_nodes a) (ps_detour_tag ps) else sa_nodes a);
          (nodes, marks) = filter_disabled_nodes (le_ident env) nodes (ps_disabled_nodes ps) (le_now env)
      in (\<lparr>sr_nodes = nodes, sr_ignored_sections = ignored, sr_disabled = marks\<rparr>, sa_counts a))"

text \<open>The wrapper the generation uses keeps the nodes only; no error is ever returned.\<close>

definition load_nodes_from_source :: "load_env \<Rightarrow> loader" where
  "load_nodes_from_source env ps i counts =
     (let (r, counts) = load_nodes_from_source_ex env ps counts in (Some (sr_nodes r), counts))"

end
