(* ===== verification/SourceLoading.thy ===== *)
theory SourceLoading
  imports Sources
begin

text \<open>
  What loading a source guarantees: chains and groups survive tagging, limits, the marks of
  disabled nodes; and where it does not.
\<close>

section \<open>Chains after tagging\<close>

definition solid :: "string \<Rightarrow> bool" where
  "solid s \<longleftrightarrow> s \<noteq> [] \<and> \<not> is_space (hd s) \<and> \<not> is_space (last s)"

lemma solid_trim: "solid s \<Longrightarrow> trim_space s = s \<and> s \<noteq> []"
  by (simp add: solid_def trim_space_solid)

lemma dropWhile_fixed: "dropWhile P xs = xs \<Longrightarrow> xs \<noteq> [] \<Longrightarrow> \<not> P (hd xs)"
  by (metis hd_dropWhile)

lemma trimmed_ends:
  assumes "trim_space s \<noteq> []"
  shows "solid (trim_space s)"
proof -
  define t where "t = trim_space s"
  have tt: "rev (dropWhile is_space (rev (dropWhile is_space t))) = t"
    using trim_space_idem[of s] by (simp add: t_def trim_space_def)
  have "length t \<le> length (dropWhile is_space t)"
    by (metis tt length_dropWhile_le length_rev)
  then have d: "dropWhile is_space t = t"
    by (metis le_antisym length_dropWhile_le suffix_dropWhile suffix_length_le suffix_order.antisym_conv2 suffix_def append_eq_append_conv append_Nil)
  then have r: "dropWhile is_space (rev t) = rev t" by (metis tt rev_rev_ident)
  have "t \<noteq> []" using assms by (simp add: t_def)
  then show ?thesis using dropWhile_fixed[OF d] dropWhile_fixed[OF r]
    by (simp add: solid_def t_def[symmetric] hd_rev)
qed

lemma nat_digits_solid: "c \<in> set (nat_digits n) \<Longrightarrow> \<not> is_space c \<and> c \<noteq> CHR ''-''"
proof (induction n rule: nat_digits.induct)
  case (1 n)
  have d: "\<not> is_space (char_of (48 + k :: nat)) \<and> (char_of (48 + k) :: char) \<noteq> CHR ''-''" if "k < 10" for k
  proof -
    from that have "k \<in> {0,1,2,3,4,5,6,7,8,9}" by auto
    then show ?thesis by (elim insertE emptyE) (simp_all add: is_space_def char_of_def)
  qed
  show ?case using 1 d[of n] d[of "n mod 10"]
    by (subst (asm) (2) nat_digits.simps) (auto split: if_splits)
qed

lemma itoa_nat_solid: "c \<in> set (itoa (int n)) \<Longrightarrow> \<not> is_space c \<and> c \<noteq> CHR ''-''"
  by (simp add: itoa_def nat_digits_solid)

lemma itoa_ne [simp]: "itoa i \<noteq> []"
  by (simp add: itoa_def)

lemma unique_tag_shape:
  "\<exists>sfx. fst (make_tag_unique t c) = t @ sfx \<and> (sfx = [] \<or> \<not> is_space (last sfx) \<and> hd sfx = CHR ''-'')"
proof (cases "0 < (case map_of c t of Some k \<Rightarrow> k | None \<Rightarrow> 0)")
  case True
  define k where "k = (case map_of c t of Some k \<Rightarrow> k | None \<Rightarrow> 0)"
  have "itoa (k + 1) = itoa (int (nat (k + 1)))" using True by (simp add: k_def)
  then have "\<not> is_space (last (itoa (k + 1)))"
    using itoa_nat_solid[of "last (itoa (k + 1))" "nat (k + 1)"] last_in_set[OF itoa_ne] by metis
  then show ?thesis using True
    by (intro exI[of _ "''-'' @ itoa (k + 1)"]) (simp add: make_tag_unique_def k_def Let_def)
qed (simp add: make_tag_unique_def)

lemma unique_solid: "solid t \<Longrightarrow> solid (fst (make_tag_unique t c))"
  using unique_tag_shape[of t c] by (auto simp: solid_def last_append split: if_splits)

lemma final_tag_solid:
  "fst (final_tag n ps num c) = [] \<or> \<not> is_space (hd (fst (final_tag n ps num c)))"
proof -
  define t where "t = normalize_proxy_display (apply_tag_prefix_postfix n ps num)"
  have t: "t = [] \<or> solid t" using trimmed_ends by (auto simp: t_def normalize_proxy_display_def)
  obtain sfx where f: "fst (final_tag n ps num c) = t @ sfx" "sfx = [] \<or> hd sfx = CHR ''-''"
    using unique_tag_shape[of t c] by (auto simp: final_tag_def t_def)
  have "\<not> is_space (CHR ''-'')" by (simp add: is_space_def)
  then show ?thesis using t f by (cases t) (auto simp: solid_def)
qed

lemma hop_tag_solid:
  assumes "owner = [] \<or> \<not> is_space (hd owner)"
  shows "solid (fst (make_tag_unique (owner @ ''_hop'' @ itoa (int k)) c))"
proof (rule unique_solid)
  have "\<not> is_space (last (itoa (int k)))"
    using itoa_nat_solid[of "last (itoa (int k))" k] last_in_set[OF itoa_ne] by metis
  moreover have "\<not> is_space (CHR ''_'')" by (simp add: is_space_def)
  ultimately show "solid (owner @ ''_hop'' @ itoa (int k))"
    using assms by (cases owner) (auto simp: solid_def)
qed

lemma tag_hops_solid:
  assumes "owner = [] \<or> \<not> is_space (hd owner)"
  shows "list_all (\<lambda>h. solid (nd_tag h)) (fst (tag_hops owner idx hs c)) \<and>
    length (fst (tag_hops owner idx hs c)) = length hs \<and>
    (list_all (\<lambda>h. nd_outbound h \<noteq> None) hs \<longrightarrow> list_all (\<lambda>h. nd_outbound h \<noteq> None) (fst (tag_hops owner idx hs c)))"
proof (induction hs arbitrary: idx c)
  case (Cons h hs)
  obtain t c' where u: "make_tag_unique (owner @ ''_hop'' @ itoa (int idx + 1)) c = (t, c')" by force
  have "solid t" using hop_tag_solid[OF assms, of "Suc idx" c] u by (simp add: add.commute)
  moreover have "tag_hops owner idx (h # hs) c =
      (stamp_tag t h # fst (tag_hops owner (Suc idx) hs c'), snd (tag_hops owner (Suc idx) hs c'))"
    using u by (simp add: split_beta)
  ultimately show ?case using Cons[of "Suc idx" c'] by (simp add: stamp_tag_def)
qed simp

lemma link_hops_detours:
  "list_all (\<lambda>h. nd_outbound h \<noteq> None) hs \<Longrightarrow> hs \<noteq> [] \<Longrightarrow>
   map nd_tag (link_hops hs) = map nd_tag hs \<and>
   map (\<lambda>h. map_of (ob h) ''detour'') (link_hops hs) = map (\<lambda>h. Some (GStr (nd_tag h))) (tl hs) @ [None]"
  by (induction hs rule: link_hops.induct) (auto simp: ob_def store_simps)

lemma normalized_hop:
  "map_of (ob (normalize_chain_hop h n)) ''detour'' = map_of (ob h) ''detour''"
  "nd_tag (normalize_chain_hop h n) = nd_tag h"
  by (simp_all add: normalize_chain_hop_def Let_def ob_def store_simps)

lemma generated_no_detour:
  assumes "generate_node_json n = Inr e" "map_of (ob n) ''detour'' = None"
  shows "map_of (em_fields e) ''detour'' = None"
proof -
  have p: "map_of (plain_fields n) ''detour'' = None"
    using assms(2) by (simp add: plain_detour detour_part_def get_str_def)
  have x: "map_of (extra_fields (ob n) skip) ''detour'' = None" for skip
    using assms(2) extra_fields_skip map_of_extra_fields by (metis option.map_disc_iff)
  show ?thesis using assms(1) p x
    by (auto simp: generate_node_json_def generate_group_node_json_def generate_raw_node_json_def
        ob_def group_members_key_def split: option.splits if_splits)
qed

lemma emitted_chain:
  assumes "nd_scheme n \<noteq> ''wireguard''" "chain_of_node n = h # hs" "emit_node_jsons n = Inr (outs, ep)"
  shows "\<exists>xs x. outs = xs @ [x] \<and> ep = None \<and> list_all2 (\<lambda>h x. generate_node_json h = Inr x) (h # hs) xs \<and>
    generate_node_json (n\<lparr>nd_outbound := Some (sput ''detour'' (GStr (nd_tag h)) (ob n))\<rparr>) = Inr x"
  using assms emit_hops_Inr[of "h # hs"]
  by (auto simp: emit_node_jsons_def Let_def simp del: emit_hops.simps split: sum.splits)

definition emitted_field :: "string \<Rightarrow> emitted \<Rightarrow> json option" where
  "emitted_field k e = map_of (em_fields e) k"

lemma emitted_hops_linked:
  assumes "list_all2 (\<lambda>h x. generate_node_json h = Inr x) (map (\<lambda>h. normalize_chain_hop h n) (link_hops hs)) xs"
    and "hs \<noteq> []" "list_all (\<lambda>h. nd_outbound h \<noteq> None) hs" "list_all (\<lambda>h. solid (nd_tag h)) hs"
  shows "map (emitted_field ''tag'') xs = map (\<lambda>h. Some (JStr (nd_tag h))) hs \<and>
    map (emitted_field ''detour'') xs = map (\<lambda>h. Some (JStr (nd_tag h))) (tl hs) @ [None]"
proof -
  let ?L = "link_hops hs"
  have L: "map nd_tag ?L = map nd_tag hs"
    "map (\<lambda>h. map_of (ob h) ''detour'') ?L = map (\<lambda>h. Some (GStr (nd_tag h))) (tl hs) @ [None]"
    using link_hops_detours[OF assms(3,2)] by auto
  have len: "length xs = length ?L" "length ?L = length hs"
    using list_all2_lengthD[OF assms(1)] L(1) by (auto dest: map_eq_imp_length_eq)
  have g: "generate_node_json (normalize_chain_hop (?L ! i) n) = Inr (xs ! i)" if "i < length hs" for i
    using list_all2_nthD[OF assms(1), of i] that len by simp
  have tag: "nd_tag (?L ! i) = nd_tag (hs ! i)" if "i < length hs" for i
    using that L(1) len(2) by (metis nth_map)
  have det: "map_of (ob (?L ! i)) ''detour'' = (if Suc i < length hs then Some (GStr (nd_tag (hs ! Suc i))) else None)"
    if "i < length hs" for i
  proof -
    have "map_of (ob (?L ! i)) ''detour'' = (map (\<lambda>h. map_of (ob h) ''detour'') ?L) ! i"
      using that len(2) by simp
    also have "\<dots> = (map (\<lambda>h. Some (GStr (nd_tag h))) (tl hs) @ [None]) ! i" by (simp only: L(2))
    also have "\<dots> = (if Suc i < length hs then Some (GStr (nd_tag (hs ! Suc i))) else None)"
      using that by (auto simp: nth_append nth_tl less_Suc_eq)
    finally show ?thesis .
  qed
  have t: "emitted_field ''tag'' (xs ! i) = Some (JStr (nd_tag (hs ! i)))" if "i < length hs" for i
    using generated_tag[OF g[OF that]] tag[OF that] by (simp add: emitted_field_def normalized_hop)
  have d: "emitted_field ''detour'' (xs ! i) =
      (if Suc i < length hs then Some (JStr (nd_tag (hs ! Suc i))) else None)" if i: "i < length hs" for i
  proof (cases "Suc i < length hs")
    case True
    then have "solid (nd_tag (hs ! Suc i))" using assms(4) by (simp add: list_all_length)
    then have s: "trim_space (nd_tag (hs ! Suc i)) = nd_tag (hs ! Suc i)" "nd_tag (hs ! Suc i) \<noteq> []"
      using solid_trim by auto
    have "get_str (ob (normalize_chain_hop (?L ! i) n)) ''detour'' = Some (nd_tag (hs ! Suc i))"
      using det[OF i] True by (simp add: get_str_def normalized_hop)
    from generated_detour[OF g[OF i] this s] True show ?thesis by (simp add: emitted_field_def)
  next
    case False
    then show ?thesis using generated_no_detour[OF g[OF i]] det[OF i]
      by (simp add: emitted_field_def normalized_hop)
  qed
  have "map (emitted_field ''tag'') xs = map (\<lambda>h. Some (JStr (nd_tag h))) hs"
    using t len by (intro nth_equalityI) simp_all
  moreover have "map (emitted_field ''detour'') xs = map (\<lambda>h. Some (JStr (nd_tag h))) (tl hs) @ [None]"
    using d len assms(2) by (intro nth_equalityI) (auto simp: nth_append nth_tl less_Suc_eq)
  ultimately show ?thesis by blast
qed

text \<open>
  C9. A chain imported from a sing-box file survives tagging and emission: the node is emitted after
  all its hops; each hop dials through the next one by the tag that one is emitted under, the last
  hop dials directly, and the node itself dials through the first hop, whatever prefix, mask or
  renaming the tags went through. The hops have an outbound each, as all imported hops have. A
  WireGuard node is emitted otherwise: its endpoint dials through the tag of the first hop, but no
  hop is emitted with it (a fault of the code, see \<open>wireguard_chain_hop_is_lost\<close>).
\<close>

theorem tagged_chain_dials_through:
  assumes "nd_chain n \<noteq> []" "list_all (\<lambda>h. nd_outbound h \<noteq> None) (nd_chain n)"
    and "emit_node_jsons (fst (apply_tags_to_singbox_node n ps num counts)) = Inr (outs, ep)"
  shows "if nd_scheme n = ''wireguard''
    then outs = [] \<and> (\<exists>e. ep = Some e \<and> emitted_field ''detour'' e =
      Some (JStr (nd_tag (hd (nd_chain (fst (apply_tags_to_singbox_node n ps num counts)))))))
    else length outs = Suc (length (nd_chain n)) \<and> ep = None \<and>
      map (emitted_field ''detour'') outs =
        tl (map (emitted_field ''tag'') (butlast outs)) @ [None, emitted_field ''tag'' (hd outs)] \<and>
      None \<notin> set (map (emitted_field ''tag'') outs)"
proof -
  obtain t c1 where ft: "final_tag n ps num counts = (t, c1)" by force
  define hs where "hs = fst (tag_hops t 0 (nd_chain n) c1)"
  have "t = [] \<or> \<not> is_space (hd t)" using final_tag_solid[of n ps num counts] ft by simp
  then have hs: "list_all (\<lambda>h. solid (nd_tag h)) hs" "length hs = length (nd_chain n)"
    "list_all (\<lambda>h. nd_outbound h \<noteq> None) hs"
    using tag_hops_solid[of t 0 "nd_chain n" c1] assms(2) by (auto simp: hs_def)
  then have hne: "hs \<noteq> []" using assms(1) by auto
  have Lt: "map nd_tag (link_hops hs) = map nd_tag hs" using link_hops_detours[OF hs(3) hne] by blast
  then obtain l ls where l: "link_hops hs = l # ls" using hne by (cases "link_hops hs") auto
  define n' where "n' = fst (apply_tags_to_singbox_node n ps num counts)"
  have n': "nd_chain n' = link_hops hs" "nd_scheme n' = nd_scheme n" "nd_tag n' = t"
    using l unfolding n'_def apply_tags_to_singbox_node_def hs_def
    by (simp_all add: ft split_beta Let_def sync_jump_from_chain_def stamp_tag_def)
  show ?thesis
  proof (cases "nd_scheme n = ''wireguard''")
    case True
    obtain e where e: "outs = []" "ep = Some e" "generate_endpoint_json n' = Inr e"
      using emit_wireguard[of n' outs ep] assms(3)[folded n'_def] True n'(2) by auto
    have o: "nd_outbound n' = map_option (sput ''detour'' (GStr (nd_tag l)) \<circ> sput ''tag'' (GStr t)) (nd_outbound n)"
      using l unfolding n'_def apply_tags_to_singbox_node_def hs_def
      by (simp add: ft split_beta Let_def sync_jump_from_chain_def stamp_tag_def option.map_comp)
    then obtain m where m: "nd_outbound n' = Some m" "map_of m ''detour'' = Some (GStr (nd_tag l))"
      using e(3) by (cases "nd_outbound n") (simp_all add: generate_endpoint_json_def store_simps)
    have "map_of (em_fields e) ''detour'' = Some (JStr (nd_tag l))"
      using e(3) m True n'(2) by (auto simp: generate_endpoint_json_def map_of_extra_fields store_simps split: if_splits)
    then show ?thesis using e(1,2) True by (simp add: emitted_field_def n'_def[symmetric] n' l)
  next
  case not_wireguard: False
  have ch: "chain_of_node n' = normalize_chain_hop l n' # map (\<lambda>h. normalize_chain_hop h n') ls"
    by (simp add: chain_of_node_def n' l)
  have lt: "nd_tag l = nd_tag (hd hs)" using Lt l hne by (cases hs) auto
  have sl: "trim_space (nd_tag l) = nd_tag l" "nd_tag l \<noteq> []"
    using hs(1) hne solid_trim by (cases hs; simp add: lt)+
  obtain xs x where x: "outs = xs @ [x]" "ep = None"
    "list_all2 (\<lambda>h x. generate_node_json h = Inr x) (map (\<lambda>h. normalize_chain_hop h n') (link_hops hs)) xs"
    "generate_node_json (n'\<lparr>nd_outbound := Some (sput ''detour'' (GStr (nd_tag l)) (ob n'))\<rparr>) = Inr x"
    using emitted_chain[OF _ ch assms(3)[folded n'_def]] not_wireguard n'(2) by (auto simp: l normalized_hop)
  have X: "map (emitted_field ''tag'') xs = map (\<lambda>h. Some (JStr (nd_tag h))) hs"
    "map (emitted_field ''detour'') xs = map (\<lambda>h. Some (JStr (nd_tag h))) (tl hs) @ [None]"
    using emitted_hops_linked[OF x(3) hne hs(3) hs(1)] by auto
  have "emitted_field ''detour'' x = Some (JStr (nd_tag l))"
    unfolding emitted_field_def by (rule generated_detour[OF x(4) _ sl]) (simp add: ob_def get_str_def store_simps)
  moreover have "emitted_field ''tag'' x = Some (JStr t)"
    using generated_tag[OF x(4)] by (simp add: emitted_field_def n')
  moreover have "length xs = length (nd_chain n)" "xs \<noteq> []" using X(1) hs(2) hne
    by (metis length_map, metis Nil_is_map_conv)
  moreover have "emitted_field ''tag'' (hd xs) = Some (JStr (nd_tag (hd hs)))"
    using X(1) \<open>xs \<noteq> []\<close> hne by (metis hd_map)
  ultimately show ?thesis using X lt not_wireguard by (auto simp: x map_tl)
  qed
qed

definition prefixed_source :: proxy_source where
  "prefixed_source = (chained_source [])\<lparr>ps_tag_prefix := ''{$scheme}:''\<rparr>"

definition chained_sample :: parsed_node where
  "chained_sample = hd (ir_nodes (parse_nodes_from_singbox_configs no_regex []
     [case of_json (JObj [(''outbounds'', JArr [JObj (vless_entry ''main'' ''hop1''),
        JObj (vless_entry ''hop1'' ''hop2''), JObj (vless_entry ''hop2'' [])])]) of GMap m \<Rightarrow> m | _ \<Rightarrow> []]))"

theorem tagged_chain_dials_through_witness:
  "\<exists>outs. emit_node_jsons (fst (apply_tags_to_singbox_node chained_sample prefixed_source 1 [])) = Inr (outs, None) \<and>
     length outs = 3 \<and> emitted_field ''detour'' (outs ! 2) = emitted_field ''tag'' (outs ! 0) \<and>
     emitted_field ''tag'' (outs ! 0) = Some (JStr ''vless:main_hop1'')"
proof -
  let ?e = "emit_node_jsons (fst (apply_tags_to_singbox_node chained_sample prefixed_source 1 []))"
  have c: "nd_chain chained_sample \<noteq> []" "list_all (\<lambda>h. nd_outbound h \<noteq> None) (nd_chain chained_sample)"
    "nd_scheme chained_sample \<noteq> ''wireguard''" "length (nd_chain chained_sample) = 2" by code_simp+
  have "(case ?e of Inl _ \<Rightarrow> False | Inr (outs, ep) \<Rightarrow> emitted_field ''tag'' (outs ! 0) = Some (JStr ''vless:main_hop1''))"
    by code_simp
  then obtain outs ep where e: "?e = Inr (outs, ep)" and t: "emitted_field ''tag'' (outs ! 0) = Some (JStr ''vless:main_hop1'')"
    by (cases ?e) auto
  from tagged_chain_dials_through[OF c(1,2) e] c(3,4) have len: "length outs = 3" and ep: "ep = None"
    and d: "map (emitted_field ''detour'') outs = tl (map (emitted_field ''tag'') (butlast outs)) @ [None, emitted_field ''tag'' (hd outs)]"
    by auto
  obtain x y z where "outs = [x, y, z]" using len by (auto simp: numeral_3_eq_3 length_Suc_conv)
  then have "emitted_field ''detour'' (outs ! 2) = emitted_field ''tag'' (outs ! 0)" using d by simp
  then show ?thesis using e ep len t by blast
qed

text \<open>
  A WireGuard endpoint of a file with a detour onto another entry: the entry is imported as the hop
  of its chain (and no node of its own is left for it), the endpoint dials through the hop's new
  tag, and the hop is emitted nowhere.
\<close>

definition wireguard_entry :: obj where
  "wireguard_entry = [(''address'', JArr [JStr ''10.0.0.2/32'']), (''detour'', JStr ''hop''),
     (''peers'', JArr [JObj [(''address'', JStr ''s''), (''allowed_ips'', JArr [JStr ''0.0.0.0/0'']),
        (''port'', JNum 51820), (''public_key'', JStr ''pk'')]]),
     (''private_key'', JStr ''k''), (''tag'', JStr ''wg''), (''type'', JStr ''wireguard'')]"

definition wireguard_nodes :: "parsed_node list" where
  "wireguard_nodes = ir_nodes (parse_nodes_from_singbox_configs no_regex []
     [case of_json (JObj [(''endpoints'', JArr [JObj wireguard_entry]),
        (''outbounds'', JArr [JObj (vless_entry ''hop'' [])])]) of GMap m \<Rightarrow> m | _ \<Rightarrow> []])"

theorem wireguard_chain_hop_is_lost:
  "map (\<lambda>n. (nd_tag n, nd_scheme n, map nd_tag (nd_chain n))) wireguard_nodes = [(''wg'', ''wireguard'', [''hop''])] \<and>
   (case emit_node_jsons (fst (apply_tags_to_singbox_node (hd wireguard_nodes) prefixed_source 1 [])) of
      Inl _ \<Rightarrow> False
    | Inr (outs, ep) \<Rightarrow>
        outs = [] \<and> map_option (emitted_field ''detour'') ep = Some (Some (JStr ''wireguard:wg_hop1'')))"
  by (intro conjI; code_simp)

section \<open>Marks of disabled nodes\<close>

lemma ttl_word: "0 < h \<Longrightarrow> h \<le> 854015 \<Longrightarrow> sint (word_of_int h * 3 * word_of_int hour_ns :: 64 word) = 3 * h * hour_ns"
proof -
  assume h: "0 < h" "h \<le> 854015"
  have "(word_of_int h * 3 * word_of_int hour_ns :: 64 word) = word_of_int (h * 3 * hour_ns)" by simp
  moreover have "sint (word_of_int (h * 3 * hour_ns) :: 64 word) = h * 3 * hour_ns"
    using h unfolding int_word_sint by (simp add: hour_ns_def)
  ultimately show ?thesis by simp
qed

text \<open>
  The life of a mark is between 24 hours and 30 days whatever the interval of the source,
  also where the 64-bit product of nanoseconds overflows, and it is three intervals within these
  bounds for every interval that does not overflow.
\<close>

theorem disabled_ttl_bounds:
  "24 * hour_ns \<le> disabled_node_ttl h \<and> disabled_node_ttl h \<le> 720 * hour_ns \<and>
   (0 < h \<and> h \<le> 854015 \<longrightarrow> disabled_node_ttl h = max (24 * hour_ns) (min (720 * hour_ns) (3 * h * hour_ns)))"
  using ttl_word[of h] by (auto simp: disabled_node_ttl_def Let_def hour_ns_def)

theorem disabled_ttl_bounds_witness:
  "disabled_node_ttl 12 = 36 * hour_ns \<and> disabled_node_ttl 900000 = 24 * hour_ns"
proof -
  have "disabled_node_ttl 12 = max (24 * hour_ns) (min (720 * hour_ns) (3 * 12 * hour_ns))"
    using disabled_ttl_bounds[of 12] by simp
  moreover have "disabled_node_ttl 900000 = 24 * hour_ns" by code_simp
  ultimately show ?thesis by (simp add: hour_ns_def)
qed

text \<open>Dropping and refreshing.\<close>

lemma refreshed_marks:
  "map_of (fold (\<lambda>n. sput (f n) t) ns m) k =
     (if \<exists>n \<in> set ns. f n = k then Some t else map_of m k)"
  by (induction ns arbitrary: m) (auto simp: store_simps)

lemma filter_disabled_marks:
  assumes "disabled \<noteq> []"
  shows "map_of (snd (filter_disabled_nodes (Some h) nodes disabled now)) k =
    (if k \<noteq> [] \<and> map_of disabled k \<noteq> None \<and> (\<exists>n \<in> set nodes. h n = k) then Some now else map_of disabled k)"
  using assms by (auto simp: filter_disabled_nodes_def refreshed_marks)

lemma gc_marks:
  "scanon m \<Longrightarrow> map_of (gc_disabled_nodes m ttl now) k =
     (case map_of m k of None \<Rightarrow> None | Some ts \<Rightarrow> if ts < now - ttl div 10 ^ 9 then None else Some ts)"
proof (induction m)
  case (Cons p m)
  obtain a b where p: "p = (a, b)" by (cases p)
  have m: "scanon m" and nin: "a \<notin> fst ` set m" using Cons(2) by (auto simp: p scanon_Cons)
  then have "map_of (gc_disabled_nodes m ttl now) a = None"
    by (auto simp: map_of_eq_None_iff gc_disabled_nodes_def Let_def)
  then show ?case using Cons(1)[OF m] by (auto simp: p gc_disabled_nodes_def Let_def)
qed (simp add: gc_disabled_nodes_def)

text \<open>
  A node the user has disabled does not reach the configuration, other nodes are untouched, and
  the loader refreshes exactly the marks of the nodes it met: collected with these refreshed marks,
  the mark of a node that is still in the subscription never expires.
\<close>

theorem disabled_nodes_are_dropped:
  assumes "disabled \<noteq> []" "scanon disabled" "filter_disabled_nodes (Some h) nodes disabled now = (kept, marks)"
  shows "kept = filter (\<lambda>n. h n = [] \<or> map_of disabled (h n) = None) nodes \<and>
    (\<forall>k. (map_of marks k = None) = (map_of disabled k = None)) \<and>
    (\<forall>n \<in> set nodes. n \<notin> set kept \<longrightarrow> map_of (gc_disabled marks interval now) (h n) = Some now)"
proof -
  have kept: "kept = filter (\<lambda>n. h n = [] \<or> map_of disabled (h n) = None) nodes"
    and m: "marks = snd (filter_disabled_nodes (Some h) nodes disabled now)"
    using assms by (auto simp: filter_disabled_nodes_def)
  have sc: "scanon marks"
  proof -
    have "scanon (fold (\<lambda>n. sput (h n) now) ns d)" if "scanon d" for ns d
      using that by (induction ns arbitrary: d) auto
    then show ?thesis using assms by (auto simp: filter_disabled_nodes_def split: if_splits)
  qed
  have z: "0 \<le> disabled_node_ttl interval div 10 ^ 9"
    by (simp add: pos_imp_zdiv_nonneg_iff) (auto simp: disabled_node_ttl_def Let_def hour_ns_def)
  have "map_of (gc_disabled marks interval now) (h n) = Some now" if "n \<in> set nodes" "n \<notin> set kept" for n
  proof -
    have "map_of marks (h n) = Some now" using that by (auto simp: m kept filter_disabled_marks[OF assms(1)])
    then show ?thesis unfolding gc_disabled_def gc_marks[OF sc] using z by simp
  qed
  moreover have "(map_of marks k = None) = (map_of disabled k = None)" for k
    by (auto simp: m filter_disabled_marks[OF assms(1)])
  ultimately show ?thesis using kept by blast
qed

theorem disabled_nodes_are_dropped_witness:
  "fst (filter_disabled_nodes (Some nd_uuid) [plain_node ''a'' 0 [], plain_node ''b'' 0 []] [(''a'', 5)] 100) =
     [plain_node ''b'' 0 []] \<and>
   map_of (gc_disabled [(''a'', 100)] 24 100) ''a'' = Some 100"
proof -
  let ?ns = "[plain_node ''a'' 0 [], plain_node ''b'' 0 []]"
  have d: "[(''a'', 5)] \<noteq> ([] :: marks)" "scanon [(''a'', 5 :: int)]" by simp_all
  have f: "filter_disabled_nodes (Some nd_uuid) ?ns [(''a'', 5)] 100 = ([plain_node ''b'' 0 []], [(''a'', 100)])"
    by code_simp
  have u: "nd_uuid (plain_node ''a'' 0 []) = ''a''" "plain_node ''a'' 0 [] \<noteq> plain_node ''b'' 0 []"
    by (simp_all add: plain_node_def)
  have "map_of (gc_disabled [(''a'', 100)] 24 100) (nd_uuid (plain_node ''a'' 0 [])) = Some 100"
    using disabled_nodes_are_dropped[OF d f, of 24] u(2) by auto
  then show ?thesis using f u by simp
qed

text \<open>
  The refreshed marks are not kept by anyone: the generation takes the nodes of the result only,
  and the collection after an update works on the marks as the user set them. Once a mark is older
  than its life the update removes it, although the node is in the subscription, and the node is
  back in the configuration.
\<close>

theorem disabled_node_comes_back:
  assumes "scanon disabled" "map_of disabled k = Some ts" "k \<noteq> []"
    and "ts + 2592000 < now" "n \<in> set nodes" "h n = k"
  shows "map_of (update_marks user provider now disabled) k = None \<and>
    n \<in> set (fst (filter_disabled_nodes (Some h) nodes (update_marks user provider now disabled) now))"
proof -
  have ne: "disabled \<noteq> []" using assms(2) by auto
  have "map_of (gc_disabled disabled i now) k = None" for i
  proof -
    have "disabled_node_ttl i \<le> 2592000 * 10 ^ 9" by (simp add: disabled_node_ttl_def Let_def hour_ns_def)
    then have "disabled_node_ttl i div 10 ^ 9 \<le> 2592000 * 10 ^ 9 div 10 ^ 9" by (rule zdiv_mono1) simp
    then have "disabled_node_ttl i div 10 ^ 9 \<le> 2592000" by simp
    then show ?thesis using assms by (simp add: gc_disabled_def gc_marks)
  qed
  then have g: "map_of (update_marks user provider now disabled) k = None" by (simp add: update_marks_def Let_def)
  then show ?thesis using assms(5,6) by (auto simp: filter_disabled_nodes_def)
qed

theorem disabled_node_comes_back_witness:
  "update_marks (Some 24) None 3000000 [(''a'', 5)] = [] \<and>
   plain_node ''a'' 0 [] \<in> set (fst (filter_disabled_nodes (Some nd_uuid) [plain_node ''a'' 0 []]
     (update_marks (Some 24) None 3000000 [(''a'', 5)]) 3000000))"
proof -
  have "update_marks (Some 24) None 3000000 [(''a'', 5)] = []" by code_simp
  moreover have "plain_node ''a'' 0 [] \<in> set (fst (filter_disabled_nodes (Some nd_uuid) [plain_node ''a'' 0 []]
     (update_marks (Some 24) None 3000000 [(''a'', 5)]) 3000000))"
    using disabled_node_comes_back[of "[(''a'', 5)]" "''a''" 5 3000000 "plain_node ''a'' 0 []"
        "[plain_node ''a'' 0 []]" nd_uuid "Some 24" None]
    by (simp add: plain_node_def)
  ultimately show ?thesis by blast
qed

section \<open>Groups after tagging\<close>

lemma set_dedup_identity: "set (dedup_nodes_by_identity ident nodes) \<subseteq> set nodes"
proof -
  have "set (snd (fold (\<lambda>n (seen, kept). if h n = [] then (seen, n # kept)
       else if h n \<in> set seen then (seen, kept) else (h n # seen, n # kept)) ns (seen, kept))) \<subseteq> set ns \<union> set kept"
    for h :: "parsed_node \<Rightarrow> string" and ns seen kept
  proof (induction ns arbitrary: seen kept)
    case (Cons a ns)
    show ?case using Cons[of seen "a # kept"] Cons[of seen kept] Cons[of "h a # seen" "a # kept"]
      by (auto simp del: Un_iff)
  qed simp
  from this[of _ nodes "[]" "[]"] show ?thesis
    by (auto simp: dedup_nodes_by_identity_def split: option.splits if_splits)
qed

lemma accept_nodes_tagged:
  assumes "y \<in> set (sa_nodes (accept_nodes tagger ns a))"
  shows "y \<in> set (sa_nodes a) \<or> (\<exists>n \<in> set ns. \<exists>num c. y = fst (tagger n num c))"
  using assms
proof (induction ns arbitrary: a)
  case (Cons n ns)
  show ?case
  proof (cases "max_nodes_per_subscription \<le> sa_taken a")
    case True
    then show ?thesis using Cons by auto
  next
    case False
    obtain n' c' where t: "tagger n (Suc (sa_taken a)) (sa_counts a) = (n', c')" by force
    have n': "\<exists>num c. n' = fst (tagger n num c)" by (metis fst_conv t)
    then show ?thesis using Cons(1)[of "a\<lparr>sa_nodes := sa_nodes a @ [n'], sa_taken := Suc (sa_taken a), sa_counts := c'\<rparr>"]
        Cons(2) False t n' by auto
  qed
qed simp

lemma tagged_fields:
  "nd_source_tag (fst (apply_tags_to_singbox_node n ps num c)) = nd_tag n"
  "nd_scheme (fst (apply_tags_to_singbox_node n ps num c)) = nd_scheme n"
  "nd_chain n = [] \<Longrightarrow> nd_outbound n = Some m \<Longrightarrow>
     \<exists>t. nd_outbound (fst (apply_tags_to_singbox_node n ps num c)) = Some (sput ''tag'' (GStr t) m)"
  by (auto simp: apply_tags_to_singbox_node_def split_beta Let_def sync_jump_from_chain_def stamp_tag_def
      split: list.split)

lemma rebound_group:
  assumes "rebind_group fbo y = Some n" "nd_scheme n = scheme_group" "nd_outbound y = Some m"
    "get_list m group_members_key = Some (map GStr ms)"
  shows "set (group_member_tags n) \<subseteq> {t. \<exists>s \<in> set ms. map_of fbo s = Some t} \<and> nd_scheme y = scheme_group"
proof -
  have s: "nd_scheme y = scheme_group" using assms(1-3) by (auto simp: rebind_group_def split: if_splits)
  have mem: "set (rebound_members fbo m) \<subseteq> {t. \<exists>s \<in> set ms. map_of fbo s = Some t}"
    using assms(4) by (auto simp: rebound_members_def set_map_filter_some)
  have "get_list (ob n) group_members_key = Some (map GStr (rebound_members fbo m))"
    using assms(1,3) s
    by (auto simp: rebind_group_def ob_def Let_def get_list_def group_members_key_def store_simps
        split: if_splits option.splits)
  then have "set (group_member_tags n) \<subseteq> set (rebound_members fbo m)"
    by (auto simp: group_member_tags_def set_map_filter_some get_list_def split: option.splits gval.splits if_splits)
  then show ?thesis using mem s by blast
qed

lemma rebind_keeps: "y \<in> set ys \<Longrightarrow> nd_scheme y \<noteq> scheme_group \<Longrightarrow> y \<in> set (rebind_imported_group_nodes ys)"
  unfolding rebind_imported_group_nodes_def set_map_filter_some
  by (rule bexI[of _ y]) (auto simp: rebind_group_def split: option.splits)


text \<open>The nodes of one file: the own ones carry their tag, a group the tags of own nodes.\<close>

lemma imported_kinds:
  assumes "n \<in> set (ir_nodes (parse_nodes_from_singbox_configs compile skip configs))"
  shows "nd_scheme n \<noteq> scheme_group \<or>
    (\<exists>m ms. nd_chain n = [] \<and> nd_outbound n = Some m \<and> get_list m group_members_key = Some (map GStr ms) \<and>
      set ms \<subseteq> {nd_tag x | x. x \<in> set (ir_nodes (parse_nodes_from_singbox_configs compile skip configs)) \<and>
         nd_scheme x \<noteq> scheme_group})"
proof -
  let ?all = "set (ir_nodes (parse_nodes_from_singbox_configs compile skip configs))"
  obtain k cfg where sub: "set (fst (parse_singbox_config compile skip k cfg)) \<subseteq> ?all"
    and n: "n \<in> set (fst (parse_singbox_config compile skip k cfg))"
    using assms by (fastforce simp: parse_nodes_from_singbox_configs_def Let_def)
  note c = config_nodes[of compile skip k cfg]
  let ?nbt = "tag_index (own_nodes compile skip k cfg)"
  from n consider (own) t where "(t, n) \<in> set (own_nodes compile skip k cfg)"
    | (grp) e where "singbox_group_to_node e ?nbt = Some n"
    unfolding c by (auto simp: set_map_filter_some)
  then show ?thesis
  proof cases
    case own
    then show ?thesis using own_node_usable[OF own] by blast
  next
    case grp
    have own: "set (map snd (own_nodes compile skip k cfg)) \<subseteq> ?all" using sub c by auto
    have "t \<in> {nd_tag x | x. x \<in> ?all \<and> nd_scheme x \<noteq> scheme_group}" if t: "t \<in> snd ` set ?nbt" for t
    proof -
      obtain u x where x: "(u, x) \<in> set (own_nodes compile skip k cfg)" "t = nd_tag x"
        using snd_tag_index[OF t] by blast
      have "x \<in> set (map snd (own_nodes compile skip k cfg))" using image_eqI[OF _ x(1), of x snd] by simp
      then have "x \<in> ?all" using own by blast
      moreover have "nd_scheme x \<noteq> scheme_group" using own_node_usable[OF x(1)] by (elim conjE)
      ultimately show ?thesis using x(2) by blast
    qed
    then have "set (group_members ?nbt e) \<subseteq> {nd_tag x | x. x \<in> ?all \<and> nd_scheme x \<noteq> scheme_group}"
      by (intro subsetI) (drule subsetD[OF group_members_known], assumption)
    moreover obtain m where "nd_outbound n = Some m"
      using grp by (auto simp: singbox_group_to_node_def Let_def fresh_node_def split: if_splits)
    ultimately show ?thesis using imported_group[OF grp]
      by (intro disjI2 exI[of _ m] exI[of _ "group_members ?nbt e"]) (simp add: ob_def)
  qed
qed

text \<open>No group of a file has the tag of another entry that is none.\<close>

definition groups_apart :: "parsed_node list \<Rightarrow> bool" where
  "groups_apart ns \<longleftrightarrow> nd_tag ` {n \<in> set ns. nd_scheme n = scheme_group} \<inter> nd_tag ` {n \<in> set ns. nd_scheme n \<noteq> scheme_group} = {}"

lemma file_groups_closed:
  assumes "ir = parse_nodes_from_singbox_configs compile skip configs" "groups_apart (ir_nodes ir)"
    and "kept = rebind_imported_group_nodes (sa_nodes (accept_nodes (\<lambda>n. apply_tags_to_singbox_node n ps)
           (dedup_nodes_by_identity ident (ir_nodes ir)) \<lparr>sa_nodes = [], sa_taken = taken, sa_counts = counts\<rparr>))"
    and "g \<in> set kept" "nd_scheme g = scheme_group" "t \<in> set (group_member_tags g)"
  shows "\<exists>x \<in> set kept. nd_tag x = t \<and> nd_scheme x \<noteq> scheme_group"
proof -
  define ys where "ys = sa_nodes (accept_nodes (\<lambda>n. apply_tags_to_singbox_node n ps)
    (dedup_nodes_by_identity ident (ir_nodes ir)) \<lparr>sa_nodes = [], sa_taken = taken, sa_counts = counts\<rparr>)"
  have kept: "kept = rebind_imported_group_nodes ys" by (simp add: assms(3) ys_def)
  have from_file: "\<exists>n \<in> set (ir_nodes ir). \<exists>num c. y = fst (apply_tags_to_singbox_node n ps num c)"
    if "y \<in> set ys" for y
    using accept_nodes_tagged[OF that[unfolded ys_def]] set_dedup_identity[of ident "ir_nodes ir"] by auto
  obtain y where y: "y \<in> set ys" "rebind_group (final_by_original ys) y = Some g"
    using assms(4) by (auto simp: kept rebind_imported_group_nodes_def set_map_filter_some)
  obtain n num c where n: "n \<in> set (ir_nodes ir)" "y = fst (apply_tags_to_singbox_node n ps num c)"
    using from_file[OF y(1)] by blast
  have sg: "nd_scheme y = scheme_group"
    using y(2) assms(5) by (auto simp: rebind_group_def Let_def split: option.splits if_splits)
  then have ng: "nd_scheme n = scheme_group" by (simp add: n(2) tagged_fields)
  obtain m ms where m: "nd_chain n = []" "nd_outbound n = Some m" "get_list m group_members_key = Some (map GStr ms)"
    "set ms \<subseteq> {nd_tag x | x. x \<in> set (ir_nodes ir) \<and> nd_scheme x \<noteq> scheme_group}"
    using imported_kinds[OF n(1)[unfolded assms(1)]] ng by (auto simp: assms(1))
  obtain t' where o: "nd_outbound y = Some (sput ''tag'' (GStr t') m)"
    using tagged_fields(3)[OF m(1,2)] n(2) by blast
  have "get_list (sput ''tag'' (GStr t') m) group_members_key = Some (map GStr ms)"
    using m(3) by (simp add: get_list_def group_members_key_def store_simps)
  then obtain s where s: "s \<in> set ms" "map_of (final_by_original ys) s = Some t"
    using rebound_group[OF y(2) assms(5) o] assms(6) by auto
  then obtain z where z: "z \<in> set ys" "nd_source_tag z = s" "nd_tag z = t"
    by (auto simp: final_by_original_def dest!: map_of_SomeD)
  obtain w num' c' where w: "w \<in> set (ir_nodes ir)" "z = fst (apply_tags_to_singbox_node w ps num' c')"
    using from_file[OF z(1)] by blast
  obtain x where x: "x \<in> set (ir_nodes ir)" "nd_tag x = s" "nd_scheme x \<noteq> scheme_group" using s(1) m(4) by auto
  have "nd_tag w = s" using w(2) z(2) by (simp add: tagged_fields)
  then have "nd_scheme w \<noteq> scheme_group" using assms(2) w(1) x unfolding groups_apart_def by blast
  then have "nd_scheme z \<noteq> scheme_group" using w(2) by (simp add: tagged_fields)
  then show ?thesis using rebind_keeps[OF z(1)] z(3) kept by blast
qed

text \<open>The sing-box file behind a subscription, from the cache or fetched.\<close>

definition singbox_file :: "load_env \<Rightarrow> proxy_source \<Rightarrow> import_result option" where
  "singbox_file env ps =
     (if \<not> is_subscription_url (ps_source ps) then None
      else
        (let cached = (case le_cached env (ps_source ps) of Some b \<Rightarrow> b | None \<Rightarrow> []);
             content = (if cached \<noteq> [] then Some cached else le_fetch env (ps_source ps))
         in case content of
              None \<Rightarrow> None
            | Some body \<Rightarrow>
                if body = [] then None
                else
                  (let text = normalize_newlines body; kind = classify_subscription_body (le_decode env) text
                   in if is_singbox kind
                      then parse_singbox_body (le_compile env) (le_decode env) text kind (ps_skip ps) else None)))"

lemma load_singbox_file:
  assumes "singbox_file env ps = Some ir" "sa_nodes a = []"
  shows "sa_nodes (fst (load_source_field env ps a)) =
    rebind_imported_group_nodes (sa_nodes (accept_nodes (\<lambda>n. apply_tags_to_singbox_node n ps)
      (dedup_nodes_by_identity (le_ident env) (ir_nodes ir)) a))"
proof -
  have a: "a\<lparr>sa_nodes := []\<rparr> = a" using assms(2) by (cases a) simp
  have url: "is_subscription_url (ps_source ps)" using assms(1) by (simp add: singbox_file_def split: if_splits)
  then have ne: "ps_source ps \<noteq> []" by (auto simp: is_subscription_url_def trim_space_def)
  let ?cached = "case le_cached env (ps_source ps) of Some b \<Rightarrow> b | None \<Rightarrow> []"
  let ?content = "if ?cached \<noteq> [] then Some ?cached else le_fetch env (ps_source ps)"
  obtain body where b: "?content = Some body"
    using assms(1) url by (cases ?content) (simp_all add: singbox_file_def Let_def)
  let ?kind = "classify_subscription_body (le_decode env) (normalize_newlines body)"
  have f: "body \<noteq> []" "is_singbox ?kind"
    "parse_singbox_body (le_compile env) (le_decode env) (normalize_newlines body) ?kind (ps_skip ps) = Some ir"
    using assms(1) url unfolding singbox_file_def Let_def b by (simp_all split: if_splits)
  have "load_source_field env ps a = load_body env ps body a"
    using url ne f(1) unfolding load_source_field_def Let_def b by simp
  then show ?thesis using f(2,3) assms(2) by (simp add: load_body_def Let_def a)
qed

text \<open>The nodes of a source before its marks are looked at, and the nodes a mark is for.\<close>

definition loaded_nodes :: "load_env \<Rightarrow> proxy_source \<Rightarrow> tag_counts \<Rightarrow> parsed_node list" where
  "loaded_nodes env ps counts =
     (let ns = sa_nodes (fst (collect_source env ps counts))
      in if trim_space (ps_detour_node_hash ps) = [] then apply_source_detour ns (ps_detour_tag ps) else ns)"

definition disabled_by_user :: "load_env \<Rightarrow> proxy_source \<Rightarrow> parsed_node \<Rightarrow> bool" where
  "disabled_by_user env ps n =
     (case le_ident env of None \<Rightarrow> False | Some h \<Rightarrow> h n \<noteq> [] \<and> map_of (ps_disabled_nodes ps) (h n) \<noteq> None)"

lemma result_nodes:
  "sr_nodes (fst (load_nodes_from_source_ex env ps counts)) =
    filter (\<lambda>n. \<not> disabled_by_user env ps n) (loaded_nodes env ps counts)"
proof -
  have f: "fst (filter_disabled_nodes (le_ident env) ns (ps_disabled_nodes ps) now) =
      filter (\<lambda>n. \<not> disabled_by_user env ps n) ns" for ns now
    by (cases "le_ident env") (auto simp: filter_disabled_nodes_def disabled_by_user_def intro!: filter_cong)
  show ?thesis by (simp add: load_nodes_from_source_ex_def loaded_nodes_def Let_def split_beta f)
qed

lemma stamp_detour_frame:
  "nd_tag (stamp_detour d n) = nd_tag n" "nd_scheme (stamp_detour d n) = nd_scheme n"
  "group_member_tags (stamp_detour d n) = group_member_tags n"
  by (simp_all add: stamp_detour_def group_member_tags_def ob_def store_simps group_members_key_def
      split: option.split)

lemma loaded_nodes_stamped:
  "\<exists>f. loaded_nodes env ps counts = map f (sa_nodes (fst (collect_source env ps counts))) \<and>
     (\<forall>n. nd_tag (f n) = nd_tag n \<and> nd_scheme (f n) = nd_scheme n \<and> group_member_tags (f n) = group_member_tags n)"
proof (cases "trim_space (ps_detour_node_hash ps) = [] \<and> trim_space (ps_detour_tag ps) \<noteq> []")
  case True
  then show ?thesis
    by (intro exI[of _ "stamp_detour (trim_space (ps_detour_tag ps))"])
      (auto simp: loaded_nodes_def apply_source_detour_def Let_def stamp_detour_frame)
next
  case False
  then show ?thesis
    by (intro exI[of _ "\<lambda>n. n"]) (auto simp: loaded_nodes_def apply_source_detour_def Let_def)
qed

text \<open>
  C13. Groups of a subscription that is a sing-box file stay closed through the whole loading of its
  source: de-duplication, the limit of nodes, prefixes, masks and the numbering of equal names, the
  detour of the source and the marks. Every member of a group in the result is the tag of a loaded
  node that is no group, and this node is in the result unless the user has disabled it (then the
  group keeps a member that is not there, see \<open>disabled_node_stays_member\<close>). In the file no group
  has the tag of another entry that is none, and the source has the subscription only, no
  configuration of its own and no single links.
\<close>

theorem loaded_groups_closed:
  assumes "singbox_file env ps = Some ir" "groups_apart (ir_nodes ir)"
    and "ps_config_json ps = None" "ps_connections ps = []"
    and "g \<in> set (sr_nodes (fst (load_nodes_from_source_ex env ps counts)))" "nd_scheme g = scheme_group"
    and "t \<in> set (group_member_tags g)"
  shows "\<exists>x \<in> set (loaded_nodes env ps counts). nd_tag x = t \<and> nd_scheme x \<noteq> scheme_group \<and>
    (x \<in> set (sr_nodes (fst (load_nodes_from_source_ex env ps counts))) \<or> disabled_by_user env ps x)"
proof -
  let ?kept = "sa_nodes (fst (collect_source env ps counts))"
  obtain configs where ir: "ir = parse_nodes_from_singbox_configs (le_compile env) (ps_skip ps) configs"
    using assms(1) by (auto simp: singbox_file_def parse_singbox_body_def Let_def split: if_splits option.splits)
  have kept: "?kept = rebind_imported_group_nodes (sa_nodes (accept_nodes (\<lambda>n. apply_tags_to_singbox_node n ps)
      (dedup_nodes_by_identity (le_ident env) (ir_nodes ir)) \<lparr>sa_nodes = [], sa_taken = 0, sa_counts = counts\<rparr>))"
    using load_singbox_file[OF assms(1), of "\<lparr>sa_nodes = [], sa_taken = 0, sa_counts = counts\<rparr>"] assms(3,4)
    by (simp add: collect_source_def load_manual_def Let_def split_beta)
  obtain f where f: "loaded_nodes env ps counts = map f ?kept"
    "\<And>n. nd_tag (f n) = nd_tag n \<and> nd_scheme (f n) = nd_scheme n \<and> group_member_tags (f n) = group_member_tags n"
    using loaded_nodes_stamped by blast
  obtain g0 where g0: "g0 \<in> set ?kept" "g = f g0" using assms(5) f(1) by (auto simp: result_nodes)
  obtain x where "x \<in> set ?kept" "nd_tag x = t" "nd_scheme x \<noteq> scheme_group"
    using file_groups_closed[OF ir assms(2) kept g0(1)] assms(6,7) f(2)[of g0] g0(2) by auto
  then show ?thesis using f(2)[of x] by (intro bexI[of _ "f x"]) (auto simp: result_nodes f(1))
qed

section \<open>Numbering of equal tags\<close>

fun unique_tags :: "string list \<Rightarrow> tag_counts \<Rightarrow> string list \<times> tag_counts" where
  "unique_tags [] c = ([], c)"
| "unique_tags (t # ts) c =
     (let (u, c') = make_tag_unique t c; (us, c'') = unique_tags ts c' in (u # us, c''))"

definition numbered :: "string \<Rightarrow> nat \<Rightarrow> string" where
  "numbered t k = (if k = 1 then t else t @ ''-'' @ itoa (int k))"

lemma itoa_nat_inj: "itoa (int m) = itoa (int n) \<Longrightarrow> m = n"
  by (metis digits_val_nat_digits itoa_def nat_int not_less of_nat_0_le_iff option.inject)

lemma split_at_dash:
  assumes "s @ CHR ''-'' # a = t @ CHR ''-'' # b" "CHR ''-'' \<notin> set a" "CHR ''-'' \<notin> set b"
  shows "s = t \<and> a = b"
  using assms by (auto simp: append_eq_append_conv2 append_eq_Cons_conv Cons_eq_append_conv)

lemma numbered_inj: "2 \<le> j \<Longrightarrow> 2 \<le> k \<Longrightarrow> numbered s j = numbered t k \<Longrightarrow> s = t \<and> j = k"
  using split_at_dash[of s "itoa (int j)" t "itoa (int k)"] itoa_nat_solid itoa_nat_inj
  by (auto simp: numbered_def)

lemma unique_tags_snoc:
  "unique_tags (ts @ [t]) c =
     (let (us, c') = unique_tags ts c; (u, c'') = make_tag_unique t c' in (us @ [u], c''))"
  by (induction ts arbitrary: c) (auto simp: split_beta Let_def)

lemma unique_tags_shape:
  "snd (unique_tags ts []) = m \<Longrightarrow>
   (\<forall>t. map_of m t = (if count_list ts t = 0 then None else Some (int (count_list ts t)))) \<and>
   set (fst (unique_tags ts [])) = {numbered t k | t k. 1 \<le> k \<and> k \<le> count_list ts t}"
proof (induction ts arbitrary: m rule: rev_induct)
  case (snoc t ts)
  define m0 where "m0 = snd (unique_tags ts [])"
  define c where "c = count_list ts t"
  have IH: "map_of m0 s = (if count_list ts s = 0 then None else Some (int (count_list ts s)))" for s
    using snoc(1)[OF m0_def[symmetric]] by blast
  have u: "make_tag_unique t m0 = (numbered t (c + 1), sput t (int (c + 1)) m0)"
    using IH[of t] by (simp add: make_tag_unique_def numbered_def c_def Let_def add.commute)
  have m: "m = sput t (int (c + 1)) m0" and s: "fst (unique_tags (ts @ [t]) []) = fst (unique_tags ts []) @ [numbered t (c + 1)]"
    using snoc(2) u by (simp_all add: unique_tags_snoc split_beta Let_def m0_def)
  have "{numbered s k | s k. 1 \<le> k \<and> k \<le> count_list (ts @ [t]) s} =
      insert (numbered t (c + 1)) {numbered s k | s k. 1 \<le> k \<and> k \<le> count_list ts s}"
    by (auto simp: c_def le_Suc_eq)
  then show ?case using snoc(1)[OF m0_def[symmetric]] by (auto simp: m s store_simps c_def)
qed simp

text \<open>
  Numbering equal tags makes all tags differ as long as no tag looks like another one with a
  number of two or more behind a hyphen.
\<close>

theorem unique_tags_distinct:
  assumes "\<And>s t k. s \<in> set ts \<Longrightarrow> t \<in> set ts \<Longrightarrow> 2 \<le> k \<Longrightarrow> s \<noteq> t @ ''-'' @ itoa (int k)"
  shows "distinct (fst (unique_tags ts []))"
  using assms
proof (induction ts rule: rev_induct)
  case (snoc t ts)
  define c where "c = count_list ts t"
  note sh = unique_tags_shape[of ts, OF refl]
  have "fst (unique_tags (ts @ [t]) []) = fst (unique_tags ts []) @ [numbered t (c + 1)]"
    using sh by (auto simp: unique_tags_snoc split_beta Let_def make_tag_unique_def numbered_def c_def add.commute)
  moreover have "numbered t (c + 1) \<noteq> numbered s k" if k: "1 \<le> k" "k \<le> count_list ts s" for s k
  proof
    assume eq: "numbered t (c + 1) = numbered s k"
    have s: "s \<in> set ts" using k by (metis count_list_0_iff le_zero_eq not_one_le_zero)
    consider "c = 0" "k = 1" | "c = 0" "2 \<le> k" | "1 \<le> c" "k = 1" | "1 \<le> c" "2 \<le> k" using k by linarith
    then show False
    proof cases
      case 1
      then show False using eq k by (simp add: numbered_def c_def)
    next
      case 2
      then show False using eq snoc(2)[of t s k] s by (simp add: numbered_def)
    next
      case 3
      then show False using eq snoc(2)[of s t "c + 1"] s by (simp add: numbered_def)
    next
      case 4
      then have "s = t" "k = c + 1" using numbered_inj[OF _ _ eq] by auto
      then show False using k by (simp add: c_def)
    qed
  qed
  moreover have "distinct (fst (unique_tags ts []))" using snoc by simp
  ultimately show ?case using sh by auto
qed simp

theorem unique_tags_distinct_witness:
  "fst (unique_tags [''a'', ''b'', ''a'', ''a''] []) = [''a'', ''b'', ''a-2'', ''a-3''] \<and>
   distinct (fst (unique_tags [''a'', ''b'', ''a'', ''a''] []))"
proof -
  have "fst (unique_tags [''a'', ''b'', ''a'', ''a''] []) = [''a'', ''b'', ''a-2'', ''a-3'']" by code_simp
  moreover have "distinct (fst (unique_tags [''a'', ''b'', ''a'', ''a''] []))"
    by (rule unique_tags_distinct) auto
  ultimately show ?thesis by blast
qed

text \<open>
  Only occurrences of the same name are counted: a name that is given out as a numbered one is
  not recorded, so a later node that carries it by itself gets it a second time, and the
  configuration holds two outbounds with one tag.
\<close>

theorem numbered_tag_given_twice:
  assumes "map_of counts t = Some c" "0 < c" "map_of counts (t @ ''-'' @ itoa (c + 1)) = None"
  shows "(let (u1, counts1) = make_tag_unique t counts;
              (u2, counts2) = make_tag_unique (t @ ''-'' @ itoa (c + 1)) counts1 in
          u1 = u2 \<and> u1 \<noteq> t)"
  using assms by (simp add: make_tag_unique_def Let_def store_simps)

theorem numbered_tag_given_twice_witness:
  "fst (unique_tags [''DE'', ''DE'', ''DE-2''] []) = [''DE'', ''DE-2'', ''DE-2'']"
proof -
  have c: "map_of [(''DE'', 1)] ''DE'' = Some (1 :: int)" "(0 :: int) < 1"
    "map_of [(''DE'', 1 :: int)] (''DE'' @ ''-'' @ itoa (1 + 1)) = None" by simp_all
  have "make_tag_unique ''DE'' [(''DE'', 1)] = (''DE-2'', [(''DE'', 2)])" "itoa 2 = ''2''" by code_simp+
  then have "fst (make_tag_unique ''DE-2'' [(''DE'', 2)]) = ''DE-2''"
    using numbered_tag_given_twice[OF c] by (auto simp: split_beta)
  moreover have "make_tag_unique ''DE'' [] = (''DE'', [(''DE'', 1)])" by code_simp
  ultimately show ?thesis using \<open>make_tag_unique ''DE'' [(''DE'', 1)] = _\<close> by (simp add: split_beta Let_def)
qed

section \<open>Limits and marks against groups\<close>

text \<open>What one stage adds keeps the count of the nodes taken, which the limit bounds.\<close>

definition within_limit :: "source_acc \<Rightarrow> bool" where
  "within_limit a \<longleftrightarrow> length (sa_nodes a) \<le> sa_taken a \<and> sa_taken a \<le> 3000"

lemma accept_nodes_limit: "within_limit a \<Longrightarrow> within_limit (accept_nodes tagger ns a)"
  by (induction ns arbitrary: a) (auto simp: within_limit_def max_nodes_per_subscription_def split_beta Let_def)

lemma take_link_limit: "within_limit a \<Longrightarrow> sa_taken a < 3000 \<Longrightarrow> within_limit (take_link ps n a)"
  by (simp add: within_limit_def take_link_def split_beta)

lemma accept_lines_limit: "within_limit a \<Longrightarrow> within_limit (accept_lines env ps seen ls a)"
proof (induction ls arbitrary: a seen)
  case (Cons l ls)
  show ?case
    using Cons take_link_limit[OF Cons(2)]
    by (auto simp: Let_def max_nodes_per_subscription_def not_le split: option.splits)
qed simp

lemma length_map_filter_le: "length (List.map_filter f xs) \<le> length xs"
  by (simp add: List.map_filter_def)

lemma rebind_limit: "within_limit (a\<lparr>sa_nodes := xs\<rparr>) \<Longrightarrow> within_limit (a\<lparr>sa_nodes := rebind_imported_group_nodes xs\<rparr>)"
  using length_map_filter_le[of "rebind_group (final_by_original xs)" xs]
  by (simp add: within_limit_def rebind_imported_group_nodes_def)

lemma load_body_limit:
  assumes "sa_nodes a = []" "within_limit a"
  shows "within_limit (fst (load_body env ps body a))"
proof -
  have a: "a\<lparr>sa_nodes := []\<rparr> = a" using assms(1) by (cases a) simp
  have "within_limit (b\<lparr>sa_nodes := rebind_imported_group_nodes (sa_nodes b)\<rparr>)" if "within_limit b" for b
    using rebind_limit[of "sa_nodes b" b] that by simp
  then show ?thesis
    using accept_nodes_limit[OF assms(2)] accept_lines_limit[OF assms(2)] assms
    by (simp add: load_body_def a Let_def split: option.split)
qed

lemma collect_source_limit: "within_limit (fst (collect_source env ps counts))"
proof -
  define a0 where "a0 = \<lparr>sa_nodes = [], sa_taken = 0, sa_counts = counts\<rparr>"
  have a0: "within_limit a0" "sa_nodes a0 = []" "sa_taken a0 < 3000" by (simp_all add: a0_def within_limit_def)
  have 1: "within_limit (fst (load_source_field env ps a0))"
    using load_body_limit[OF a0(2,1)] take_link_limit[OF a0(1,3)] a0(1)
    by (simp add: load_source_field_def Let_def split: option.split)
  have 2: "within_limit (load_manual ps a)" if "within_limit a" for a
    using that take_link_limit[OF that]
    by (simp add: load_manual_def max_nodes_per_subscription_def split: option.split sum.split)
  have 3: "within_limit (load_connection env ps c a)" if "within_limit a" for a c
    using that take_link_limit[OF that]
    by (simp add: load_connection_def Let_def max_nodes_per_subscription_def not_le split: option.split)
  have 4: "within_limit (fold (load_connection env ps) cs a)" if "within_limit a" for a cs
    using that by (induction cs arbitrary: a) (simp_all add: 3)
  show ?thesis unfolding collect_source_def Let_def a0_def[symmetric] split_beta fst_conv
    by (rule 4) (rule 2[OF 1])
qed

lemma length_apply_source_detour: "length (apply_source_detour ns t) = length ns"
  by (simp add: apply_source_detour_def Let_def)

text \<open>
  Whatever a source serves, at most 3000 nodes of it reach the generation, over its subscription,
  its own configuration and its single links together.
\<close>

theorem source_node_limit:
  "length (sr_nodes (fst (load_nodes_from_source_ex env ps counts))) \<le> 3000"
proof -
  have "length (fst (filter_disabled_nodes h ns d now)) \<le> length ns" for h ns d now
    by (auto simp: filter_disabled_nodes_def split: option.splits)
  then have "length (sr_nodes (fst (load_nodes_from_source_ex env ps counts))) \<le> length (sa_nodes (fst (collect_source env ps counts)))"
    unfolding load_nodes_from_source_ex_def Let_def split_beta by (simp add: length_apply_source_detour) (metis length_apply_source_detour)
  then show ?thesis using collect_source_limit[of env ps counts] by (simp add: within_limit_def)
qed

text \<open>
  Disabled nodes are dropped after the members of the imported groups were settled: a group keeps
  the tag of a disabled node as a member although no node of that tag is loaded.
\<close>

theorem disabled_node_stays_member:
  assumes "collect_source env ps counts = (a, ignored)" "le_ident env = Some h" "ps_detour_tag ps = []"
    and "distinct (map nd_tag (sa_nodes a))" "g \<in> set (sa_nodes a)" "x \<in> set (sa_nodes a)"
    and "nd_tag x \<in> set (group_member_tags g)"
    and "map_of (ps_disabled_nodes ps) (h g) = None" "h x \<noteq> []" "map_of (ps_disabled_nodes ps) (h x) \<noteq> None"
  shows "g \<in> set (sr_nodes (fst (load_nodes_from_source_ex env ps counts))) \<and>
    nd_tag x \<in> set (group_member_tags g) \<and>
    nd_tag x \<notin> nd_tag ` set (sr_nodes (fst (load_nodes_from_source_ex env ps counts)))"
proof -
  have ne: "ps_disabled_nodes ps \<noteq> []" using assms(10) by auto
  have "sr_nodes (fst (load_nodes_from_source_ex env ps counts)) =
      filter (\<lambda>n. h n = [] \<or> map_of (ps_disabled_nodes ps) (h n) = None) (sa_nodes a)"
    using assms(1-3) ne
    by (simp add: load_nodes_from_source_ex_def filter_disabled_nodes_def apply_source_detour_def trim_space_def)
  moreover have "y = x" if "y \<in> set (sa_nodes a)" "nd_tag y = nd_tag x" for y
    using assms(4,6) that by (metis distinct_map inj_onD)
  ultimately show ?thesis using assms by auto
qed


definition sample_source :: proxy_source where
  "sample_source = (chained_source [])\<lparr>ps_source := ''https://s'', ps_disabled_nodes := [(''main'', 7)]\<rparr>"

definition sample_env :: load_env where
  "sample_env = \<lparr>le_cached = \<lambda>_. Some [CHR 0x7B], le_fetch = \<lambda>_. None, le_decode = \<lambda>_. Some (GMap sample_file),
     le_compile = no_regex, le_parse_link = \<lambda>_ _. None, le_parse_xray = \<lambda>_ _. None,
     le_ident = Some nd_tag, le_now = 100\<rparr>"

theorem loaded_groups_closed_witness:
  "\<exists>g \<in> set (sr_nodes (fst (load_nodes_from_source_ex sample_env sample_source []))).
     group_member_tags g = [''main'', ''r1''] \<and>
     (\<exists>x \<in> set (loaded_nodes sample_env sample_source []). nd_tag x = ''r1'' \<and> nd_scheme x \<noteq> scheme_group \<and>
       (x \<in> set (sr_nodes (fst (load_nodes_from_source_ex sample_env sample_source []))) \<or>
        disabled_by_user sample_env sample_source x))"
proof -
  let ?r = "sr_nodes (fst (load_nodes_from_source_ex sample_env sample_source []))"
  have "(case singbox_file sample_env sample_source of None \<Rightarrow> False
      | Some ir \<Rightarrow> distinct (map nd_tag (ir_nodes ir)))" by code_simp
  then obtain ir where ir: "singbox_file sample_env sample_source = Some ir" and d: "distinct (map nd_tag (ir_nodes ir))"
    by (cases "singbox_file sample_env sample_source") auto
  have apart: "groups_apart (ir_nodes ir)"
    using d unfolding groups_apart_def by (auto simp: distinct_map inj_on_def)
  have s: "ps_config_json sample_source = None" "ps_connections sample_source = []"
    by (simp_all add: sample_source_def chained_source_def)
  have k: "?r \<noteq> []" "nd_scheme (last ?r) = scheme_group" "group_member_tags (last ?r) = [''main'', ''r1'']"
    by code_simp+
  have g: "last ?r \<in> set ?r" using k(1) by simp
  have "''r1'' \<in> set (group_member_tags (last ?r))" by (simp add: k(3))
  from loaded_groups_closed[OF ir apart s g k(2) this] g k(3) show ?thesis by blast
qed

theorem disabled_node_stays_member_witness:
  "\<exists>g \<in> set (sr_nodes (fst (load_nodes_from_source_ex sample_env sample_source []))).
     ''main'' \<in> set (group_member_tags g) \<and>
     ''main'' \<notin> nd_tag ` set (sr_nodes (fst (load_nodes_from_source_ex sample_env sample_source [])))"
proof -
  let ?c = "collect_source sample_env sample_source []"
  obtain a ig where c: "?c = (a, ig)" by force
  have "map nd_tag (sa_nodes (fst ?c)) = [''main'', ''r1'', ''r2'', ''lost'', ''auto'']"
    "group_member_tags (last (sa_nodes (fst ?c))) = [''main'', ''r1'']" by code_simp+
  then have t: "map nd_tag (sa_nodes a) = [''main'', ''r1'', ''r2'', ''lost'', ''auto'']"
    "group_member_tags (last (sa_nodes a)) = [''main'', ''r1'']" by (simp_all add: c)
  then obtain x y z w g where xs: "sa_nodes a = [x, y, z, w, g]" "nd_tag x = ''main''" "nd_tag g = ''auto''"
    by (auto simp: map_eq_Cons_conv)
  have d: "le_ident sample_env = Some nd_tag" "ps_detour_tag sample_source = []"
    "map_of (ps_disabled_nodes sample_source) ''main'' \<noteq> None" "map_of (ps_disabled_nodes sample_source) ''auto'' = None"
    by (simp_all add: sample_env_def sample_source_def chained_source_def)
  have "g \<in> set (sr_nodes (fst (load_nodes_from_source_ex sample_env sample_source []))) \<and>
    nd_tag x \<in> set (group_member_tags g) \<and>
    nd_tag x \<notin> nd_tag ` set (sr_nodes (fst (load_nodes_from_source_ex sample_env sample_source [])))"
    by (rule disabled_node_stays_member[OF c d(1,2)]) (use t xs d in auto)
  then show ?thesis using xs(2) by auto
qed

section \<open>Hops of Xray nodes\<close>

text \<open>
  The first hop of an Xray node is emitted under the tag it has in the subscription: prefix, mask
  and numbering are written to the legacy first hop, and the emission reads the chain. Two nodes
  with the same hop tag therefore put two outbounds of one tag into the configuration.
\<close>

theorem xray_hop_tag_is_raw:
  assumes "nd_chain n = h # hs" "nd_scheme n \<noteq> ''wireguard''"
    and "emit_node_jsons (fst (apply_tags_to_xray_node n ps num counts)) = Inr (outs, ep)"
  shows "emitted_field ''tag'' (hd outs) = Some (JStr (nd_tag h))"
proof -
  define n' where "n' = fst (apply_tags_to_xray_node n ps num counts)"
  have "nd_scheme n' = nd_scheme n \<and> (\<exists>h' hs'. nd_chain n' = h' # hs' \<and> nd_tag h' = nd_tag h)"
    using assms(1)
    by (auto simp: n'_def apply_tags_to_xray_node_def stamp_tag_def split_beta Let_def split: option.split)
  then obtain h' hs' where n': "nd_scheme n' = nd_scheme n" "nd_chain n' = h' # hs'" "nd_tag h' = nd_tag h" by blast
  then have "chain_of_node n' = normalize_chain_hop h' n' # map (\<lambda>h. normalize_chain_hop h n') hs'"
    by (simp add: chain_of_node_def)
  from emitted_chain[OF _ this assms(3)[folded n'_def]] obtain xs x where
    x: "outs = xs @ [x]" "list_all2 (\<lambda>h x. generate_node_json h = Inr x)
      (normalize_chain_hop h' n' # map (\<lambda>h. normalize_chain_hop h n') hs') xs"
    using assms(2) n'(1) by auto
  then obtain y ys where "xs = y # ys" "generate_node_json (normalize_chain_hop h' n') = Inr y"
    by (auto simp: list_all2_Cons1)
  then show ?thesis using generated_tag[of "normalize_chain_hop h' n'" y] n'(3)
    by (simp add: x(1) emitted_field_def normalized_hop)
qed

definition xray_sample :: parsed_node where
  "xray_sample = chained_sample\<lparr>nd_chain := take 1 (nd_chain chained_sample)\<rparr>"

theorem xray_hop_tag_is_raw_witness:
  "\<exists>outs. emit_node_jsons (fst (apply_tags_to_xray_node xray_sample prefixed_source 2 [(''vless:main'', 1), (''hop1'', 1)])) =
       Inr (outs, None) \<and>
     map (emitted_field ''tag'') outs = [Some (JStr ''hop1''), Some (JStr ''vless:main-2'')]"
proof -
  let ?e = "emit_node_jsons (fst (apply_tags_to_xray_node xray_sample prefixed_source 2 [(''vless:main'', 1), (''hop1'', 1)]))"
  have c: "nd_chain xray_sample = [hd (nd_chain chained_sample)]" "nd_scheme xray_sample \<noteq> ''wireguard''"
    "nd_tag (hd (nd_chain chained_sample)) = ''hop1''" by code_simp+
  have "(case ?e of Inl _ \<Rightarrow> False | Inr (outs, ep) \<Rightarrow> ep = None \<and> length outs = 2 \<and>
      emitted_field ''tag'' (outs ! 1) = Some (JStr ''vless:main-2''))" by code_simp
  then obtain outs where e: "?e = Inr (outs, None)" and l: "length outs = 2"
    "emitted_field ''tag'' (outs ! 1) = Some (JStr ''vless:main-2'')" by (cases ?e) auto
  from xray_hop_tag_is_raw[OF c(1,2) e] have "emitted_field ''tag'' (hd outs) = Some (JStr ''hop1'')" by (simp add: c(3))
  moreover obtain x y where "outs = [x, y]" using l(1) by (auto simp: numeral_2_eq_2 length_Suc_conv)
  ultimately show ?thesis using e l(2) by auto
qed

end
