(* ===== verification/Xray.thy ===== *)
theory Xray
  imports Sources
begin

text \<open>
  Import of Xray subscriptions: \<open>core/config/subscription/xray_json_array.go\<close>,
  \<open>xray_outbound_convert.go\<close>, \<open>xray_protocols.go\<close>, \<open>xray_balancer.go\<close>, with the query of a
  WebSocket path as \<open>net/url\<close> reads it. Values are decoded JSON. Numbers are below \<open>10 ^ 21\<close>, from
  where \<open>fmt.Sprint\<close> switches to an exponent. Texts are UTF-8; letters and digits outside ASCII
  are the parameter \<open>letter\<close> (\<open>unicode.IsLetter\<close>, \<open>IsNumber\<close>).
\<close>

section \<open>Access to decoded values\<close>

text \<open>\<open>fmt.Sprint\<close> of a decoded value.\<close>

fun go_sprint :: "gval \<Rightarrow> string" where
  "go_sprint GNull = ''<nil>''"
| "go_sprint (GBool b) = (if b then ''true'' else ''false'')"
| "go_sprint (GInt i) = itoa i"
| "go_sprint (GFloat i) = itoa i"
| "go_sprint (GStr s) = s"
| "go_sprint (GStrs ss) = ''['' @ join_with '' '' ss @ '']''"
| "go_sprint (GStrMap m) = ''map['' @ join_with '' '' (map (\<lambda>p. fst p @ '':'' @ snd p) m) @ '']''"
| "go_sprint (GList xs) = ''['' @ join_with '' '' (map go_sprint xs) @ '']''"
| "go_sprint (GMap m) = ''map['' @ join_with '' '' (map (\<lambda>p. fst p @ '':'' @ go_sprint (snd p)) m) @ '']''"

definition xray_map_string :: "gobj \<Rightarrow> string \<Rightarrow> string" where
  "xray_map_string m k =
     (case map_of m k of None \<Rightarrow> [] | Some GNull \<Rightarrow> [] | Some v \<Rightarrow> trim_space (go_sprint v))"

definition field_list :: "gobj \<Rightarrow> string \<Rightarrow> gval list" where
  "field_list m k = (case get_list m k of Some xs \<Rightarrow> xs | None \<Rightarrow> [])"

definition field_map :: "gobj \<Rightarrow> string \<Rightarrow> gobj" where
  "field_map m k = (case get_map m k of Some x \<Rightarrow> x | None \<Rightarrow> [])"

definition stream_settings :: "gobj \<Rightarrow> gobj option" where
  "stream_settings xo = get_map xo ''streamSettings''"

definition xray_sockopt_dialer_ref :: "gobj option \<Rightarrow> string" where
  "xray_sockopt_dialer_ref ss =
     (case Option.bind ss (\<lambda>m. get_map m ''sockopt'') of
        None \<Rightarrow> []
      | Some so \<Rightarrow>
          if xray_map_string so ''dialerProxy'' \<noteq> [] then xray_map_string so ''dialerProxy''
          else xray_map_string so ''dialer'')"

definition dialer_ref :: "gobj \<Rightarrow> string" where
  "dialer_ref xo = xray_sockopt_dialer_ref (stream_settings xo)"

definition xray_protocol :: "gobj \<Rightarrow> string" where
  "xray_protocol xo = norm_type (xray_map_string xo ''protocol'')"

definition xray_service_protocols :: "string list" where
  "xray_service_protocols = [''freedom'', ''blackhole'', ''dns'', ''loopback'']"

definition is_xray_service_protocol :: "string \<Rightarrow> bool" where
  "is_xray_service_protocol p \<longleftrightarrow> norm_type p \<in> set xray_service_protocols"

section \<open>The early-data tail of a path\<close>

text \<open>\<open>url.QueryUnescape\<close> and \<open>url.ParseQuery\<close>; any bad part makes the parse fail as a whole.\<close>

definition unhex :: "char \<Rightarrow> nat option" where
  "unhex c =
     (let n = (of_char c :: nat) in
      if 48 \<le> n \<and> n \<le> 57 then Some (n - 48)
      else if 65 \<le> n \<and> n \<le> 70 then Some (n - 55)
      else if 97 \<le> n \<and> n \<le> 102 then Some (n - 87)
      else None)"

fun query_unescape :: "string \<Rightarrow> string option" where
  "query_unescape [] = Some []"
| "query_unescape (c # cs) =
     (if c = CHR ''%'' then
        (case cs of
           a # b # rest \<Rightarrow>
             (case (unhex a, unhex b) of
                (Some x, Some y) \<Rightarrow> map_option (Cons (char_of (16 * x + y))) (query_unescape rest)
              | _ \<Rightarrow> None)
         | _ \<Rightarrow> None)
      else map_option (Cons (if c = CHR ''+'' then CHR '' '' else c)) (query_unescape cs))"

definition cut_at :: "char \<Rightarrow> string \<Rightarrow> string \<times> string" where
  "cut_at d s = (takeWhile (\<lambda>c. c \<noteq> d) s, tl (dropWhile (\<lambda>c. c \<noteq> d) s))"

definition parse_pair :: "string \<Rightarrow> (string \<times> string) option" where
  "parse_pair part =
     (let (k, v) = cut_at (CHR ''='') part in
      if CHR '';'' \<in> set part then None
      else (case (query_unescape k, query_unescape v) of (Some k, Some v) \<Rightarrow> Some (k, v) | _ \<Rightarrow> None))"

definition parse_query :: "string \<Rightarrow> (string \<times> string) list option" where
  "parse_query q =
     (let ps = map parse_pair (filter (\<lambda>p. p \<noteq> []) (split_char (CHR ''&'') q))
      in if None \<in> set ps then None else Some (map the ps))"

text \<open>At most one spelling of the name is taken to occur; the code ranges over a map.\<close>

definition query_get_fold :: "(string \<times> string) list \<Rightarrow> string \<Rightarrow> string" where
  "query_get_fold q name =
     (case find (\<lambda>p. equal_fold (fst p) name) q of Some (_, v) \<Rightarrow> v | None \<Rightarrow> [])"

definition split_ws_early_data :: "string \<Rightarrow> string \<times> int" where
  "split_ws_early_data path0 =
     (let path = trim_space path0; (clean, tail) = cut_at (CHR ''?'') path in
      if CHR ''?'' \<notin> set path then (path, 0)
      else (case parse_query tail of
              None \<Rightarrow> (clean, 0)
            | Some q \<Rightarrow>
                (case atoi (trim_space (query_get_fold q ''ed'')) of
                   None \<Rightarrow> (clean, 0)
                 | Some n \<Rightarrow> if n \<le> 0 then (clean, 0) else (clean, n))))"

definition ws_early_data_header_name :: string where
  "ws_early_data_header_name = ''Sec-WebSocket-Protocol''"

definition apply_ws_early_data :: "gobj \<Rightarrow> string \<Rightarrow> gobj" where
  "apply_ws_early_data tr raw =
     (let (clean, ed) = split_ws_early_data raw;
          tr = (if clean \<noteq> [] then sput ''path'' (GStr clean) tr else tr)
      in if 0 < ed then sput ''early_data_header_name'' (GStr ws_early_data_header_name)
                          (sput ''max_early_data'' (GInt ed) tr)
         else tr)"

definition append_early_data_to_path :: "string \<Rightarrow> int \<Rightarrow> string" where
  "append_early_data_to_path path ed =
     (if ed \<le> 0 then path
      else path @ (if CHR ''?'' \<in> set path then ''&'' else ''?'') @ ''ed='' @ itoa ed)"

definition xhttp_clean_path :: "string \<Rightarrow> string" where
  "xhttp_clean_path p = fst (cut_at (CHR ''?'') (trim_space p))"

section \<open>TLS and transport, \<open>xray_outbound_convert.go\<close>\<close>

definition put_str :: "string \<Rightarrow> string \<Rightarrow> gobj \<Rightarrow> gobj" where
  "put_str k s m = (if s \<noteq> [] then sput k (GStr s) m else m)"

definition first_string :: "gobj \<Rightarrow> string \<Rightarrow> string \<Rightarrow> string" where
  "first_string m k k' = (if xray_map_string m k \<noteq> [] then xray_map_string m k else xray_map_string m k')"

definition insecure_flag :: "gobj \<Rightarrow> gobj \<Rightarrow> gobj" where
  "insecure_flag s t = (if get_bool s ''allowInsecure'' = Some True then sput ''insecure'' (GBool True) t else t)"

definition utls_block :: "string \<Rightarrow> gval" where
  "utls_block fp = GMap [(''enabled'', GBool True), (''fingerprint'', GStr fp)]"

definition xray_reality_tls :: "gobj \<Rightarrow> gobj \<Rightarrow> gobj" where
  "xray_reality_tls rs t =
     (let fp = normalize_utls_fingerprint (xray_map_string rs ''fingerprint'');
          t = put_str ''server_name'' (first_string rs ''serverName'' ''server_name'') t;
          t = sput ''utls'' (utls_block (if fp = [] then ''random'' else fp)) t;
          t = insecure_flag rs t;
          pbk = first_string rs ''publicKey'' ''public_key'';
          sid = first_string rs ''shortId'' ''short_id''
      in if is_valid_reality_public_key pbk
         then sput ''reality'' (GMap [(''enabled'', GBool True), (''public_key'', GStr (trim_space pbk)),
                (''short_id'', GStr (normalize_reality_short_id sid))]) t
         else t)"

definition xray_generic_tls :: "gobj \<Rightarrow> gobj \<Rightarrow> gobj" where
  "xray_generic_tls ts t =
     (let fp = normalize_utls_fingerprint (xray_map_string ts ''fingerprint'');
          t = put_str ''server_name'' (xray_map_string ts ''serverName'') t;
          t = (if fp \<noteq> [] then sput ''utls'' (utls_block fp) t else t)
      in insecure_flag ts t)"

definition xray_tls_from_stream_settings :: "gobj option \<Rightarrow> string \<Rightarrow> gobj option" where
  "xray_tls_from_stream_settings ss security =
     (case ss of
        None \<Rightarrow> None
      | Some m \<Rightarrow>
          if security \<notin> {''reality'', ''tls''} then None
          else
            (let t = [(''enabled'', GBool True)] in
             Some (if security = ''reality''
                   then (case get_map m ''realitySettings'' of None \<Rightarrow> t | Some rs \<Rightarrow> xray_reality_tls rs t)
                   else (case get_map m ''tlsSettings'' of None \<Rightarrow> t | Some ts \<Rightarrow> xray_generic_tls ts t))))"

definition xray_ws_transport :: "gobj option \<Rightarrow> gobj" where
  "xray_ws_transport s =
     (let tr = [(''type'', GStr ''ws'')] in
      case s of
        None \<Rightarrow> tr
      | Some ws \<Rightarrow>
          (let p = xray_map_string ws ''path''; h = xray_map_string ws ''host'';
               tr = (if p \<noteq> [] then apply_ws_early_data tr p else tr)
           in if h \<noteq> [] then sput ''headers'' (GStrMap [(''Host'', h)]) tr else tr))"

definition xray_xhttp_settings :: "gobj \<Rightarrow> gobj option" where
  "xray_xhttp_settings m =
     (case get_map m ''xhttpSettings'' of Some x \<Rightarrow> Some x | None \<Rightarrow> get_map m ''splithttpSettings'')"

definition xray_transport_from_stream_settings :: "gobj option \<Rightarrow> string \<Rightarrow> gobj option" where
  "xray_transport_from_stream_settings ss network =
     (case ss of
        None \<Rightarrow> None
      | Some m \<Rightarrow>
          if network \<in> {[], ''tcp''} then None
          else if network = ''ws'' then Some (xray_ws_transport (get_map m ''wsSettings''))
          else if network = ''grpc'' then
            Some (put_str ''service_name'' (xray_map_string (field_map m ''grpcSettings'') ''serviceName'')
                    [(''type'', GStr ''grpc'')])
          else if network \<in> {''http'', ''h2''} then
            (let hs = field_map m ''httpSettings'';
                 tr = put_str ''path'' (xray_map_string hs ''path'') [(''type'', GStr ''http'')]
             in Some (if xray_map_string hs ''host'' \<noteq> []
                      then sput ''host'' (GStrs [xray_map_string hs ''host'']) tr else tr))
          else if network = ''httpupgrade'' then
            (let hu = field_map m ''httpupgradeSettings''; p = xray_map_string hu ''path'';
                 tr = (if p \<noteq> [] then sput ''path'' (GStr (fst (split_ws_early_data p))) [(''type'', GStr ''httpupgrade'')]
                       else [(''type'', GStr ''httpupgrade'')])
             in Some (put_str ''host'' (xray_map_string hu ''host'') tr))
          else if network \<in> {''xhttp'', ''splithttp''} then
            (let xs = (case xray_xhttp_settings m of Some x \<Rightarrow> x | None \<Rightarrow> []); p = xray_map_string xs ''path'';
                 tr = (if p \<noteq> [] then sput ''path'' (GStr (xhttp_clean_path p)) [(''type'', GStr ''xhttp'')]
                       else [(''type'', GStr ''xhttp'')])
             in Some (put_str ''mode'' (xray_map_string xs ''mode'') (put_str ''host'' (xray_map_string xs ''host'') tr)))
          else None)"

definition xray_stream_parts :: "gobj \<Rightarrow> gobj option \<times> gobj option" where
  "xray_stream_parts xo =
     (let ss = stream_settings xo; s = (case ss of Some m \<Rightarrow> m | None \<Rightarrow> []);
          network = to_lower (xray_map_string s ''network'');
          network = (if network = [] then ''tcp'' else network);
          security = to_lower (xray_map_string s ''security'')
      in (xray_tls_from_stream_settings ss security, xray_transport_from_stream_settings ss network))"

section \<open>Nodes of the protocols, \<open>xray_protocols.go\<close>\<close>

datatype xray_error =
    MissingProtocol
  | UnsupportedProtocol string
  | BadEndpoint
  | MissingCredential
  | UnsupportedMethod string
  | DialerNotFound string
  | ServiceHop string

definition good_port :: "int \<Rightarrow> bool" where
  "good_port p \<longleftrightarrow> 0 < p \<and> p \<le> 65535"

definition first_map :: "gval list \<Rightarrow> gobj option" where
  "first_map xs = (case xs of GMap m # _ \<Rightarrow> Some m | _ \<Rightarrow> None)"

definition endpoint_of :: "gobj \<Rightarrow> xray_error + string \<times> int" where
  "endpoint_of m =
     (let addr = xray_map_string m ''address''; port = json_int (map_of m ''port'') in
      if addr = [] \<or> \<not> good_port port then Inl BadEndpoint else Inr (addr, port))"

definition xray_vnext_endpoint :: "gobj \<Rightarrow> xray_error + string \<times> int \<times> gobj" where
  "xray_vnext_endpoint xo =
     (case first_map (field_list (field_map xo ''settings'') ''vnext'') of
        None \<Rightarrow> Inl BadEndpoint
      | Some v \<Rightarrow>
          (case endpoint_of v of
             Inl e \<Rightarrow> Inl e
           | Inr (addr, port) \<Rightarrow>
               (case first_map (field_list v ''users'') of
                  None \<Rightarrow> Inl BadEndpoint
                | Some u \<Rightarrow> Inr (addr, port, u))))"

definition xray_server_endpoint :: "gobj \<Rightarrow> xray_error + string \<times> int \<times> gobj" where
  "xray_server_endpoint xo =
     (case first_map (field_list (field_map xo ''settings'') ''servers'') of
        None \<Rightarrow> Inl BadEndpoint
      | Some s \<Rightarrow>
          (case endpoint_of s of Inl e \<Rightarrow> Inl e | Inr (addr, port) \<Rightarrow> Inr (addr, port, s)))"

definition xray_tag_or_default :: "gobj \<Rightarrow> string \<Rightarrow> string" where
  "xray_tag_or_default xo fallback = (if xray_map_string xo ''tag'' \<noteq> [] then xray_map_string xo ''tag'' else fallback)"

text \<open>The fields all outbounds start from, and the node around a finished outbound.\<close>

definition base_outbound :: "gobj \<Rightarrow> string \<Rightarrow> string \<Rightarrow> int \<Rightarrow> gobj" where
  "base_outbound xo ty addr port =
     [(''server'', GStr addr), (''server_port'', GInt port), (''tag'', GStr (xray_map_string xo ''tag'')),
      (''type'', GStr ty)]"

definition xray_node ::
    "gobj \<Rightarrow> string \<Rightarrow> string \<Rightarrow> string \<Rightarrow> int \<Rightarrow> string \<Rightarrow> string \<Rightarrow> gobj \<Rightarrow> parsed_node" where
  "xray_node xo scheme label addr port secret flow m =
     \<lparr>nd_tag = xray_tag_or_default xo scheme, nd_scheme = scheme, nd_server = addr, nd_port = port,
      nd_uuid = secret, nd_flow = flow, nd_outbound = Some m, nd_label = label, nd_comment = [],
      nd_jump = None, nd_source_tag = [], nd_chain = [], nd_source_index = 0, nd_emit_raw = False\<rparr>"

definition put_map :: "string \<Rightarrow> gobj option \<Rightarrow> gobj \<Rightarrow> gobj" where
  "put_map k v m = (case v of None \<Rightarrow> m | Some x \<Rightarrow> sput k (GMap x) m)"

definition with_stream :: "gobj \<Rightarrow> gobj \<Rightarrow> gobj" where
  "with_stream xo m =
     (let (tls, transport) = xray_stream_parts xo in put_map ''transport'' transport (put_map ''tls'' tls m))"

definition vless_flow :: "string \<Rightarrow> gobj \<Rightarrow> gobj" where
  "vless_flow flow m =
     (if flow = [] then m
      else if flow = ''xtls-rprx-vision-udp443'' then
        sput ''flow'' (GStr ''xtls-rprx-vision'')
          (sput ''packet_encoding'' (GStr ''xudp'') (sput ''server_port'' (GInt 443) m))
      else sput ''flow'' (GStr flow) m)"

definition xray_build_vless :: "gobj \<Rightarrow> string \<Rightarrow> xray_error + parsed_node" where
  "xray_build_vless xo label =
     (case xray_vnext_endpoint xo of
        Inl e \<Rightarrow> Inl e
      | Inr (addr, port, u) \<Rightarrow>
          (let uuid = xray_map_string u ''id''; flow = xray_map_string u ''flow'' in
           if uuid = [] then Inl MissingCredential
           else Inr (xray_node xo ''vless'' label addr port uuid flow
                  (with_stream xo (vless_flow flow (sput ''uuid'' (GStr uuid) (base_outbound xo ''vless'' addr port)))))))"

definition normalize_vmess_security_value :: "string \<Rightarrow> string" where
  "normalize_vmess_security_value s =
     (let v = norm_type s in
      if v \<in> {''auto'', ''none'', ''zero'', ''aes-128-gcm'', ''chacha20-poly1305''} then v
      else if v = ''chacha20-ietf-poly1305'' then ''chacha20-poly1305''
      else ''auto'')"

definition xray_build_vmess :: "gobj \<Rightarrow> string \<Rightarrow> xray_error + parsed_node" where
  "xray_build_vmess xo label =
     (case xray_vnext_endpoint xo of
        Inl e \<Rightarrow> Inl e
      | Inr (addr, port, u) \<Rightarrow>
          (let uuid = xray_map_string u ''id''; sec = trim_space (xray_map_string u ''security'');
               alter = json_int (map_of u ''alterId'') in
           if uuid = [] then Inl MissingCredential
           else
             (let m = sput ''uuid'' (GStr uuid) (base_outbound xo ''vmess'' addr port);
                  m = sput ''security'' (GStr (if sec \<noteq> [] then normalize_vmess_security_value sec else ''auto'')) m;
                  m = (if 0 < alter then sput ''alter_id'' (GInt alter) m else m)
              in Inr (xray_node xo ''vmess'' label addr port uuid [] (with_stream xo m)))))"

definition xray_build_trojan :: "gobj \<Rightarrow> string \<Rightarrow> xray_error + parsed_node" where
  "xray_build_trojan xo label =
     (case xray_server_endpoint xo of
        Inl e \<Rightarrow> Inl e
      | Inr (addr, port, s) \<Rightarrow>
          (let pw = xray_map_string s ''password'' in
           if pw = [] then Inl MissingCredential
           else Inr (xray_node xo ''trojan'' label addr port pw []
                  (with_stream xo (sput ''password'' (GStr pw) (base_outbound xo ''trojan'' addr port))))))"

definition valid_shadowsocks_methods :: "string list" where
  "valid_shadowsocks_methods =
     [''2022-blake3-aes-128-gcm'', ''2022-blake3-aes-256-gcm'', ''2022-blake3-chacha20-poly1305'',
      ''none'', ''aes-128-gcm'', ''aes-192-gcm'', ''aes-256-gcm'', ''chacha20-ietf-poly1305'',
      ''xchacha20-ietf-poly1305'']"

definition is_valid_shadowsocks_method :: "string \<Rightarrow> bool" where
  "is_valid_shadowsocks_method m \<longleftrightarrow> m \<in> set valid_shadowsocks_methods"

definition xray_build_shadowsocks :: "gobj \<Rightarrow> string \<Rightarrow> xray_error + parsed_node" where
  "xray_build_shadowsocks xo label =
     (case xray_server_endpoint xo of
        Inl e \<Rightarrow> Inl e
      | Inr (addr, port, s) \<Rightarrow>
          (let method = trim_space (xray_map_string s ''method''); pw = xray_map_string s ''password'' in
           if method = [] \<or> pw = [] then Inl MissingCredential
           else if \<not> is_valid_shadowsocks_method method then Inl (UnsupportedMethod method)
           else
             (let m = sput ''method'' (GStr method) (sput ''password'' (GStr pw) (base_outbound xo ''shadowsocks'' addr port))
              in Inr (xray_node xo ''ss'' label addr port pw [] m))))"

definition xray_build_hysteria2 :: "gobj \<Rightarrow> string \<Rightarrow> xray_error + parsed_node" where
  "xray_build_hysteria2 xo label =
     (case xray_server_endpoint xo of
        Inl e \<Rightarrow> Inl e
      | Inr (addr, port, s) \<Rightarrow>
          (let pw = xray_map_string s ''password'';
               m = put_str ''password'' pw (base_outbound xo ''hysteria2'' addr port);
               m = put_map ''tls'' (fst (xray_stream_parts xo)) m
           in Inr (xray_node xo ''hysteria2'' label addr port pw [] (sanitize_singbox_outbound_map m))))"

text \<open>\<open>Inr None\<close> is a service protocol, which is no node and no error.\<close>

definition xray_node_from_outbound :: "gobj \<Rightarrow> string \<Rightarrow> xray_error + parsed_node option" where
  "xray_node_from_outbound xo label =
     (let p = xray_protocol xo in
      if p = [] then Inl MissingProtocol
      else if is_xray_service_protocol p then Inr None
      else if p = ''vless'' then map_sum id Some (xray_build_vless xo label)
      else if p = ''vmess'' then map_sum id Some (xray_build_vmess xo label)
      else if p = ''trojan'' then map_sum id Some (xray_build_trojan xo label)
      else if p = ''shadowsocks'' then map_sum id Some (xray_build_shadowsocks xo label)
      else if p = ''hysteria2'' then map_sum id Some (xray_build_hysteria2 xo label)
      else Inl (UnsupportedProtocol p))"

section \<open>Chains of dialer proxies\<close>

definition xray_build_jump_from_socks :: "gobj \<Rightarrow> string \<Rightarrow> xray_error + parsed_jump" where
  "xray_build_jump_from_socks xo tag =
     (case first_map (field_list (field_map xo ''settings'') ''servers'') of
        None \<Rightarrow> Inl BadEndpoint
      | Some s \<Rightarrow>
          (case endpoint_of s of
             Inl e \<Rightarrow> Inl e
           | Inr (addr, port) \<Rightarrow>
               (let u = (case first_map (field_list s ''users'') of Some u \<Rightarrow> u | None \<Rightarrow> []);
                    m = put_str ''password'' (xray_map_string u ''pass'')
                          (put_str ''username'' (xray_map_string u ''user'') [(''version'', GStr ''5'')])
                in Inr \<lparr>nd_tag = tag, nd_scheme = ''socks'', nd_server = addr, nd_port = port, nd_uuid = [],
                        nd_flow = [], nd_outbound = Some m\<rparr>)))"

definition xray_chain_hop_from_outbound :: "gobj \<Rightarrow> string \<Rightarrow> string \<Rightarrow> xray_error + parsed_jump" where
  "xray_chain_hop_from_outbound xo tag label =
     (if xray_protocol xo = ''socks'' then xray_build_jump_from_socks xo tag
      else (case xray_node_from_outbound xo label of
              Inl e \<Rightarrow> Inl e
            | Inr None \<Rightarrow> Inl (ServiceHop (xray_protocol xo))
            | Inr (Some n) \<Rightarrow> Inr (stamp_tag tag (parsed_jump.truncate n))))"

definition xray_jump_outbound_tag_suffix :: string where
  "xray_jump_outbound_tag_suffix = ''_jump_server''"

definition xray_hop_tag :: "string \<Rightarrow> nat \<Rightarrow> string" where
  "xray_hop_tag owner depth =
     owner @ xray_jump_outbound_tag_suffix @ (if depth = 0 then [] else itoa (int depth + 1))"

text \<open>A hop gets its detour when the next one is appended; an error anywhere drops the owner.\<close>

fun link_hop :: "parsed_jump \<Rightarrow> parsed_jump list \<Rightarrow> parsed_jump list" where
  "link_hop h [] = [h]"
| "link_hop h (h' # hs) =
     h\<lparr>nd_outbound := map_option (sput ''detour'' (GStr (nd_tag h'))) (nd_outbound h)\<rparr> # h' # hs"

fun xray_hops ::
    "(string \<times> gobj) list \<Rightarrow> string \<Rightarrow> string \<Rightarrow> nat \<Rightarrow> string list \<Rightarrow> nat \<Rightarrow> string \<Rightarrow>
     xray_error + parsed_jump list" where
  "xray_hops by_tag owner label 0 visited depth ref = Inr []"
| "xray_hops by_tag owner label (Suc left) visited depth ref =
     (if ref = [] \<or> ref \<in> set visited then Inr []
      else (case map_of by_tag ref of
              None \<Rightarrow> Inl (DialerNotFound ref)
            | Some h \<Rightarrow>
                (case xray_chain_hop_from_outbound h (xray_hop_tag owner depth) label of
                   Inl e \<Rightarrow> Inl e
                 | Inr hop \<Rightarrow>
                     map_sum id (link_hop hop)
                       (xray_hops by_tag owner label left (ref # visited) (Suc depth) (dialer_ref h)))))"

definition attach_xray_dialer_chain ::
    "(string \<times> gobj) list \<Rightarrow> string \<Rightarrow> gobj \<Rightarrow> parsed_node \<Rightarrow> xray_error + parsed_node" where
  "attach_xray_dialer_chain by_tag label xo n =
     (if dialer_ref xo = [] then Inr n
      else
        (let t = xray_map_string xo ''tag'' in
         map_sum id (\<lambda>hops. sync_jump_from_chain (n\<lparr>nd_chain := hops\<rparr>))
           (xray_hops by_tag (nd_tag n) label max_detour_chain_depth (if t \<noteq> [] then [t] else []) 0 (dialer_ref xo))))"

section \<open>The name of an element\<close>

text \<open>The characters of a UTF-8 text as their bytes.\<close>

definition rune_length :: "char \<Rightarrow> nat" where
  "rune_length c =
     (let n = (of_char c :: nat) in if n < 0xC0 then 1 else if n < 0xE0 then 2 else if n < 0xF0 then 3 else 4)"

fun runes :: "string \<Rightarrow> string list" where
  "runes [] = []"
| "runes (c # cs) = (c # take (rune_length c - 1) cs) # runes (drop (rune_length c - 1) cs)"

definition regional_indicator :: "string \<Rightarrow> bool" where
  "regional_indicator r \<longleftrightarrow>
     length r = 4 \<and> take 3 r = [CHR 0xF0, CHR 0x9F, CHR 0x87] \<and>
     0xA6 \<le> (of_char (r ! 3) :: nat) \<and> (of_char (r ! 3) :: nat) \<le> 0xBF"

definition xray_tag_slug_keep_rune :: "(string \<Rightarrow> bool) \<Rightarrow> string \<Rightarrow> bool" where
  "xray_tag_slug_keep_rune letter r \<longleftrightarrow>
     (if length r = 1 then is_alnum (hd r) else letter r) \<or> regional_indicator r"

text \<open>The slug so far in reverse; any run of other characters becomes one hyphen between words.\<close>

fun slug :: "(string \<Rightarrow> bool) \<Rightarrow> string list \<Rightarrow> string list \<Rightarrow> string list" where
  "slug letter acc [] = rev acc"
| "slug letter acc (r # rs) =
     (if xray_tag_slug_keep_rune letter r then slug letter (r # acc) rs
      else if acc \<noteq> [] \<and> hd acc \<noteq> ''-'' then slug letter (''-'' # acc) rs
      else slug letter acc rs)"

definition trim_hyphens_right :: "string list \<Rightarrow> string list" where
  "trim_hyphens_right rs = rev (dropWhile (\<lambda>r. r = ''-'') (rev rs))"

definition xray_tag_base_max_runes :: nat where "xray_tag_base_max_runes = 48"

definition default_base :: "nat \<Rightarrow> string" where
  "default_base i = ''xray-'' @ itoa (int i)"

definition xray_remarks_to_tag_base :: "(string \<Rightarrow> bool) \<Rightarrow> string \<Rightarrow> nat \<Rightarrow> string" where
  "xray_remarks_to_tag_base letter remarks i =
     (let s = trim_space (normalize_proxy_display remarks) in
      if s = [] then default_base i
      else
        (let rs = dropWhile (\<lambda>r. r = ''-'') (trim_hyphens_right (slug letter [] (runes s)));
             cut = (if xray_tag_base_max_runes < length rs
                    then trim_hyphens_right (take xray_tag_base_max_runes rs) else rs)
         in if rs = [] \<or> cut = [] then default_base i else concat cut))"

definition xray_tag_base_from_root :: "(string \<Rightarrow> bool) \<Rightarrow> string \<Rightarrow> nat \<Rightarrow> string" where
  "xray_tag_base_from_root letter remarks i =
     (if trim_space remarks = [] then default_base i else xray_remarks_to_tag_base letter remarks i)"

section \<open>Balancers, \<open>xray_balancer.go\<close>\<close>

definition xray_first_balancer :: "gobj \<Rightarrow> gobj option" where
  "xray_first_balancer root = first_map (field_list (field_map root ''routing'') ''balancers'')"

definition xray_element_has_balancer :: "gobj \<Rightarrow> bool" where
  "xray_element_has_balancer root \<longleftrightarrow> xray_first_balancer root \<noteq> None"

definition xray_ping_config :: "gobj \<Rightarrow> gobj option" where
  "xray_ping_config root = get_map (field_map root ''burstObservatory'') ''pingConfig''"

definition xray_balancer_url :: "gobj \<Rightarrow> string" where
  "xray_balancer_url root =
     (let dest = (case xray_ping_config root of Some p \<Rightarrow> trim_space (xray_map_string p ''destination'') | None \<Rightarrow> [])
      in if dest \<noteq> [] then dest else ''https://www.gstatic.com/generate_204'')"

definition xray_balancer_interval :: "gobj \<Rightarrow> string" where
  "xray_balancer_interval root =
     (case xray_ping_config root of
        None \<Rightarrow> ''3m''
      | Some p \<Rightarrow>
          (let raw = trim_space (xray_map_string p ''interval'') in
           if raw = [] then ''3m'' else if atoi raw \<noteq> None then raw @ ''s'' else raw))"

definition xray_balancer_from_element :: "gobj \<Rightarrow> string \<Rightarrow> string list \<Rightarrow> parsed_node option" where
  "xray_balancer_from_element root remarks members =
     (case xray_first_balancer root of
        None \<Rightarrow> None
      | Some b \<Rightarrow>
          if members = [] then None
          else
            (let label = trim_space remarks;
                 label = (if label = [] then trim_space (xray_map_string b ''tag'') else label);
                 label = (if label = [] then ''auto'' else label);
                 m = [(''interval'', GStr (xray_balancer_interval root)),
                      (group_members_key, GList (map GStr members)), (''tag'', GStr label),
                      (''type'', GStr ''urltest''), (''url'', GStr (xray_balancer_url root))]
             in Some \<lparr>nd_tag = label, nd_scheme = scheme_group, nd_server = [], nd_port = 0, nd_uuid = [],
                  nd_flow = [], nd_outbound = Some m, nd_label = label, nd_comment = [], nd_jump = None,
                  nd_source_tag = [], nd_chain = [], nd_source_index = unset_source_index, nd_emit_raw = False\<rparr>))"

section \<open>One element\<close>

record xray_env =
  xe_letter :: "string \<Rightarrow> bool"
  xe_compile :: regex_engine
  xe_skip :: "string smap list"
  xe_ident :: "(parsed_node \<Rightarrow> string) option"

definition xray_outbounds :: "gobj \<Rightarrow> gobj list" where
  "xray_outbounds root = List.map_filter as_gmap (field_list root ''outbounds'')"

text \<open>The index by tag keeps the last outbound of a tag.\<close>

definition xray_by_tag :: "gobj \<Rightarrow> (string \<times> gobj) list" where
  "xray_by_tag root =
     rev (map (\<lambda>m. (xray_map_string m ''tag'', m)) (filter (\<lambda>m. xray_map_string m ''tag'' \<noteq> []) (xray_outbounds root)))"

definition xray_candidates :: "gobj \<Rightarrow> gobj list" where
  "xray_candidates root =
     filter (\<lambda>m. \<not> is_xray_service_protocol (xray_map_string m ''protocol'')) (xray_outbounds root)"

definition dialer_targets :: "gobj \<Rightarrow> string list" where
  "dialer_targets root = filter (\<lambda>r. r \<noteq> []) (map dialer_ref (xray_candidates root))"

definition xray_payload :: "gobj \<Rightarrow> gobj list" where
  "xray_payload root =
     filter (\<lambda>m. xray_map_string m ''tag'' = [] \<or> xray_map_string m ''tag'' \<notin> set (dialer_targets root))
       (xray_candidates root)"

definition xray_element_payload_count :: "gval \<Rightarrow> nat" where
  "xray_element_payload_count raw =
     (case into_map raw of None \<Rightarrow> 0 | Some root \<Rightarrow> length (xray_candidates root))"

definition xray_element_node_tag :: "string \<Rightarrow> gobj \<Rightarrow> nat \<Rightarrow> bool \<Rightarrow> string" where
  "xray_element_node_tag base xo idx single =
     (if single then base
      else if trim_space (xray_map_string xo ''tag'') \<noteq> []
           then base @ '' '' @ trim_space (xray_map_string xo ''tag'')
      else base @ '' '' @ itoa (int idx + 1))"

definition xray_label :: "string \<Rightarrow> gobj \<Rightarrow> nat \<Rightarrow> string" where
  "xray_label remarks xo i =
     (if remarks \<noteq> [] then remarks
      else if xray_map_string xo ''tag'' \<noteq> [] then xray_map_string xo ''tag'' else ''xray-'' @ itoa (int i))"

definition xray_build_node ::
    "xray_env \<Rightarrow> gobj \<Rightarrow> nat \<Rightarrow> string \<Rightarrow> string \<Rightarrow> bool \<Rightarrow> nat \<times> gobj \<Rightarrow> parsed_node option" where
  "xray_build_node env root i remarks base single p =
     (case p of (idx, xo) \<Rightarrow>
        (case xray_node_from_outbound xo (xray_label remarks xo i) of
           Inr (Some n) \<Rightarrow>
             (case attach_xray_dialer_chain (xray_by_tag root) (xray_label remarks xo i) xo
                     (stamp_tag (xray_element_node_tag base xo idx single) n) of
                Inl _ \<Rightarrow> None
              | Inr n \<Rightarrow> if should_skip_node (xe_compile env) n (xe_skip env) then None else Some n)
         | _ \<Rightarrow> None))"

text \<open>
  An element gives its servers, in order and without repeating an identity, then its group. An
  element that is no object gives an error and is passed over, like one without nodes.
\<close>

definition parse_xray_element :: "xray_env \<Rightarrow> nat \<Rightarrow> gval \<Rightarrow> parsed_node list" where
  "parse_xray_element env i raw =
     (case into_map raw of
        None \<Rightarrow> []
      | Some root \<Rightarrow>
          if \<not> xray_element_has_protocol_outbounds root \<or> xray_payload root = [] then []
          else
            (let remarks = trim_space (xray_map_string root ''remarks'');
                 base = xray_tag_base_from_root (xe_letter env) remarks i;
                 single = (length (xray_payload root) = 1 \<and> \<not> xray_element_has_balancer root);
                 nodes = dedup_nodes_by_identity (xe_ident env)
                   (List.map_filter (xray_build_node env root i remarks base single) (enumerate 0 (xray_payload root)));
                 grp = (if xray_element_has_balancer root
                        then xray_balancer_from_element root remarks (map nd_tag nodes) else None)
             in nodes @ (case grp of None \<Rightarrow> [] | Some g \<Rightarrow> [g])))"

section \<open>Who may give a server its name\<close>

text \<open>The insertion sort of the code: an element moves left while its count is smaller.\<close>

fun sift_left :: "(nat \<Rightarrow> nat) \<Rightarrow> nat list \<Rightarrow> nat \<Rightarrow> nat list" where
  "sift_left c [] x = [x]"
| "sift_left c (y # ys) x = (if c y \<le> c x then x # y # ys else y # sift_left c ys x)"

definition element_order :: "gval list \<Rightarrow> nat list" where
  "element_order elems =
     rev (fold (\<lambda>x acc. sift_left (\<lambda>i. xray_element_payload_count (elems ! i)) acc x) [0..<length elems] [])"

definition is_server :: "parsed_node \<Rightarrow> bool" where
  "is_server n \<longleftrightarrow> nd_scheme n \<noteq> scheme_group"

text \<open>The first element in this order that has a server owns it.\<close>

definition xray_identity_owners :: "xray_env \<Rightarrow> (parsed_node \<Rightarrow> string) \<Rightarrow> gval list \<Rightarrow> (string \<times> nat) list" where
  "xray_identity_owners env h elems =
     concat (map (\<lambda>i. map (\<lambda>n. (h n, i)) (filter (\<lambda>n. is_server n \<and> h n \<noteq> []) (parse_xray_element env i (elems ! i))))
       (element_order elems))"

text \<open>The identities a group lists, by the tags of its own element.\<close>

definition member_identities :: "(parsed_node \<Rightarrow> string) \<Rightarrow> parsed_node list \<Rightarrow> parsed_node \<Rightarrow> string list" where
  "member_identities h nodes g =
     (let by_tag = rev (map (\<lambda>n. (nd_tag n, h n)) (filter (\<lambda>n. is_server n \<and> h n \<noteq> []) nodes))
      in List.map_filter (\<lambda>v. case v of GStr t \<Rightarrow> map_of by_tag t | _ \<Rightarrow> None) (field_list (ob g) group_members_key))"

record owned_acc =
  oa_seen :: "string list"
  oa_final :: "string smap"
  oa_out :: "(parsed_node \<times> string list) list"

fun keep_owned ::
    "(parsed_node \<Rightarrow> string) \<Rightarrow> (string \<times> nat) list \<Rightarrow> nat \<Rightarrow> (parsed_node \<Rightarrow> string list) \<Rightarrow> parsed_node list \<Rightarrow>
     owned_acc \<Rightarrow> owned_acc" where
  "keep_owned h owner i members [] a = a"
| "keep_owned h owner i members (n # ns) a =
     keep_owned h owner i members ns
       (if \<not> is_server n then a\<lparr>oa_out := oa_out a @ [(n, members n)]\<rparr>
        else if h n = [] then a\<lparr>oa_out := oa_out a @ [(n, [])]\<rparr>
        else if (case map_of owner (h n) of Some j \<Rightarrow> j \<noteq> i | None \<Rightarrow> False) then a
        else if h n \<in> set (oa_seen a) then a
        else a\<lparr>oa_seen := h n # oa_seen a, oa_final := sput (h n) (nd_tag n) (oa_final a),
               oa_out := oa_out a @ [(n, [])]\<rparr>)"

definition emit_owned :: "xray_env \<Rightarrow> (parsed_node \<Rightarrow> string) \<Rightarrow> gval list \<Rightarrow> owned_acc" where
  "emit_owned env h elems =
     (let owner = xray_identity_owners env h elems in
      fold (\<lambda>i a. let nodes = parse_xray_element env i (elems ! i)
                  in keep_owned h owner i (member_identities h nodes) nodes a)
        [0..<length elems] \<lparr>oa_seen = [], oa_final = [], oa_out = []\<rparr>)"

section \<open>Elements left with one server\<close>

definition base_of :: "string \<Rightarrow> string option" where
  "base_of tag = (if CHR '' '' \<in> set tag then Some (fst (cut_at (CHR '' '') tag)) else None)"

definition with_base :: "parsed_node list \<Rightarrow> string \<Rightarrow> nat list" where
  "with_base nodes b =
     filter (\<lambda>k. is_server (nodes ! k) \<and> base_of (nd_tag (nodes ! k)) = Some b) [0..<length nodes]"

record solo_acc =
  so_nodes :: "parsed_node list"
  so_taken :: "string list"
  so_final :: "string smap"

definition solo_step :: "(parsed_node \<Rightarrow> string) \<Rightarrow> parsed_node list \<Rightarrow> string \<Rightarrow> solo_acc \<Rightarrow> solo_acc" where
  "solo_step h nodes0 b a =
     (case with_base nodes0 b of
        [k] \<Rightarrow>
          if b \<in> set (so_taken a) then a
          else
            (let old = so_nodes a ! k; n = stamp_tag b old in
             \<lparr>so_nodes = (so_nodes a)[k := n], so_taken = b # removeAll (nd_tag old) (so_taken a),
              so_final = (if h n \<noteq> [] then sput (h n) b (so_final a) else so_final a)\<rparr>)
      | _ \<Rightarrow> a)"

text \<open>\<open>bases\<close> is the order in which the range over the map \<open>byBase\<close> visits its keys.\<close>

definition simplify_solo_tags ::
    "(parsed_node \<Rightarrow> string) \<Rightarrow> string list \<Rightarrow> parsed_node list \<Rightarrow> string smap \<Rightarrow> parsed_node list \<times> string smap" where
  "simplify_solo_tags h bases nodes final =
     (let a = fold (solo_step h nodes) bases \<lparr>so_nodes = nodes, so_taken = map nd_tag nodes, so_final = final\<rparr>
      in (so_nodes a, so_final a))"

definition all_bases :: "parsed_node list \<Rightarrow> string list" where
  "all_bases nodes = remdups (List.map_filter (\<lambda>n. base_of (nd_tag n)) (filter is_server nodes))"

section \<open>The whole array\<close>

definition resolve_group :: "string smap \<Rightarrow> parsed_node \<times> string list \<Rightarrow> parsed_node option" where
  "resolve_group final p =
     (case p of (n, ids) \<Rightarrow>
        if is_server n then Some n
        else
          (let members = dedup_from [] (List.map_filter (map_of final) ids) in
           if members = [] then None
           else Some (n\<lparr>nd_outbound := map_option (sput group_members_key (GList (map GStr members))) (nd_outbound n)\<rparr>)))"

text \<open>\<open>order\<close> gives the order of the range over the bases.\<close>

definition parse_nodes_from_xray_elements ::
    "xray_env \<Rightarrow> (string list \<Rightarrow> string list) \<Rightarrow> gval list \<Rightarrow> parsed_node list" where
  "parse_nodes_from_xray_elements env order elems =
     (case xe_ident env of
        None \<Rightarrow>
          (let nodes = concat (map (\<lambda>i. parse_xray_element env i (elems ! i)) [0..<length elems])
           in fst (simplify_solo_tags (\<lambda>_. []) (order (all_bases nodes)) nodes []))
      | Some h \<Rightarrow>
          (let a = emit_owned env h elems; nodes = map fst (oa_out a);
               (nodes, final) = simplify_solo_tags h (order (all_bases nodes)) nodes (oa_final a)
           in List.map_filter (resolve_group final) (zip nodes (map snd (oa_out a)))))"

definition parse_nodes_from_xray_json_array ::
    "xray_env \<Rightarrow> (string list \<Rightarrow> string list) \<Rightarrow> (string \<Rightarrow> gval option) \<Rightarrow> string \<Rightarrow> parsed_node list option" where
  "parse_nodes_from_xray_json_array env order decode body =
     map_option (parse_nodes_from_xray_elements env order) (Option.bind (decode (trim_space body)) into_list)"

end
