(* ===== verification/XrayImport.thy ===== *)
theory XrayImport
  imports Xray
begin

text \<open>
  Xray subscriptions: which element owns a server, what the second pass emits, plain names, groups.
\<close>

section \<open>The order of the elements\<close>

lemma set_sift_left: "set (sift_left c ys x) = insert x (set ys)"
  by (induction ys) auto


text \<open>Elements by count, equal counts in the order of the file.\<close>

definition before :: "(nat \<Rightarrow> nat) \<Rightarrow> nat \<Rightarrow> nat \<Rightarrow> bool" where
  "before c i j \<longleftrightarrow> c i < c j \<or> c i = c j \<and> i < j"

lemma sift_left_sorted:
  "sorted_wrt (\<lambda>a b. before c b a) ys \<Longrightarrow> \<forall>y \<in> set ys. y < x \<Longrightarrow> sorted_wrt (\<lambda>a b. before c b a) (sift_left c ys x)"
proof (induction ys)
  case (Cons y ys)
  have "before c y x" if "c y \<le> c x" using that Cons(3) by (auto simp: before_def)
  moreover have "before c z x" if "c y \<le> c x" "z \<in> set ys" for z
    using Cons(2,3) that by (fastforce simp: before_def)
  moreover have "before c x y" if "\<not> c y \<le> c x" using that by (simp add: before_def)
  ultimately show ?case using Cons by (auto simp: set_sift_left)
qed simp

lemma element_order_sorted:
  "set (element_order elems) = {0..<length elems} \<and>
   sorted_wrt (before (\<lambda>i. xray_element_payload_count (elems ! i))) (element_order elems)"
proof -
  define c where "c i = xray_element_payload_count (elems ! i)" for i
  have "set (fold (\<lambda>x acc. sift_left c acc x) [0..<n] []) = {0..<n} \<and>
      sorted_wrt (\<lambda>a b. before c b a) (fold (\<lambda>x acc. sift_left c acc x) [0..<n] [])" for n
  proof (induction n)
    case (Suc n)
    then show ?case using sift_left_sorted[of c _ n] by (auto simp: set_sift_left)
  qed simp
  then show ?thesis by (simp add: element_order_def c_def[symmetric, abs_def] sorted_wrt_rev)
qed

section \<open>Owners\<close>

definition identified :: "(parsed_node \<Rightarrow> string) \<Rightarrow> parsed_node \<Rightarrow> bool" where
  "identified h n \<longleftrightarrow> is_server n \<and> h n \<noteq> []"

lemma map_of_concat_first:
  "map_of (concat (map f is)) k = Some v \<Longrightarrow> \<exists>xs i ys. is = xs @ i # ys \<and> map_of (f i) k = Some v \<and> (\<forall>x \<in> set xs. map_of (f x) k = None)"
proof (induction "is")
  case (Cons a as)
  show ?case
  proof (cases "map_of (f a) k")
    case None
    then have "map_of (concat (map f as)) k = Some v" using Cons(2) by (simp add: map_add_def)
    then obtain xs i ys where "as = xs @ i # ys" "map_of (f i) k = Some v" "\<forall>x \<in> set xs. map_of (f x) k = None"
      using Cons(1) by blast
    then show ?thesis using None by (intro exI[of _ "a # xs"]) auto
  next
    case (Some w)
    then have "w = v" using Cons(2) by (simp add: map_add_Some_iff)
    then show ?thesis using Some by (intro exI[of _ "[]"]) auto
  qed
qed simp

text \<open>The owner of an identity is the most specific element that has it.\<close>

lemma owner_spec:
  assumes "map_of (xray_identity_owners env h elems) k = Some i"
  shows "i < length elems \<and> (\<exists>n \<in> set (parse_xray_element env i (elems ! i)). identified h n \<and> h n = k) \<and>
    (\<forall>j < length elems. (\<exists>n \<in> set (parse_xray_element env j (elems ! j)). identified h n \<and> h n = k) \<longrightarrow>
       j = i \<or> before (\<lambda>i. xray_element_payload_count (elems ! i)) i j)"
proof -
  define f where "f i = map (\<lambda>n. (h n, i)) (filter (\<lambda>n. is_server n \<and> h n \<noteq> []) (parse_xray_element env i (elems ! i)))" for i
  have fk: "map_of (f i) k = (if \<exists>n \<in> set (parse_xray_element env i (elems ! i)). identified h n \<and> h n = k then Some i else None)" for i
  proof (cases "map_of (f i) k")
    case None
    then show ?thesis by (force simp: map_of_eq_None_iff f_def identified_def)
  next
    case (Some v)
    then show ?thesis by (force simp: f_def identified_def dest: map_of_SomeD)
  qed
  obtain xs i' ys where s: "element_order elems = xs @ i' # ys" "map_of (f i') k = Some i" "\<forall>x \<in> set xs. map_of (f x) k = None"
    using map_of_concat_first[of f "element_order elems" k i] assms
    unfolding xray_identity_owners_def f_def[abs_def, symmetric] by blast
  then have i': "i' = i" "\<exists>n \<in> set (parse_xray_element env i (elems ! i)). identified h n \<and> h n = k"
    by (auto simp: fk split: if_splits)
  note o = element_order_sorted[of elems]
  have "j = i \<or> before (\<lambda>i. xray_element_payload_count (elems ! i)) i j"
    if "j < length elems" "\<exists>n \<in> set (parse_xray_element env j (elems ! j)). identified h n \<and> h n = k" for j
  proof -
    have "j \<in> set (xs @ i' # ys)" using o s(1) that(1) by auto
    moreover have "j \<notin> set xs" using s(3) fk[of j] that(2) by auto
    ultimately show ?thesis using o i'(1) by (auto simp: s(1) sorted_wrt_append)
  qed
  moreover have "i < length elems" using o s(1) i'(1) by auto
  ultimately show ?thesis using i'(2) by blast
qed

lemma owner_total:
  assumes "i < length elems" "n \<in> set (parse_xray_element env i (elems ! i))" "identified h n"
  shows "map_of (xray_identity_owners env h elems) (h n) \<noteq> None"
proof -
  have "i \<in> set (element_order elems)" using element_order_sorted assms(1) by auto
  then have "h n \<in> fst ` set (xray_identity_owners env h elems)" using assms(2,3)
    unfolding xray_identity_owners_def identified_def by force
  then show ?thesis by (simp add: map_of_eq_None_iff)
qed

section \<open>What the second pass emits\<close>

text \<open>After \<open>m\<close> elements: where each entry comes from, one server per identity, tags as recorded.\<close>

definition comes_from ::
    "(parsed_node \<Rightarrow> string) \<Rightarrow> (nat \<Rightarrow> parsed_node list) \<Rightarrow> (string \<times> nat) list \<Rightarrow> nat \<Rightarrow>
     parsed_node \<times> string list \<Rightarrow> bool" where
  "comes_from h nodes owner m p \<longleftrightarrow>
     (\<exists>i < m. fst p \<in> set (nodes i) \<and> (identified h (fst p) \<longrightarrow> map_of owner (h (fst p)) = Some i) \<and>
        (\<not> is_server (fst p) \<longrightarrow> snd p = member_identities h (nodes i) (fst p)))"

definition covers ::
    "(parsed_node \<Rightarrow> string) \<Rightarrow> (string \<times> nat) list \<Rightarrow> nat \<Rightarrow> parsed_node list \<Rightarrow> owned_acc \<Rightarrow> bool" where
  "covers h owner i ns a \<longleftrightarrow>
     (\<forall>n \<in> set ns. identified h n \<and> map_of owner (h n) = Some i \<longrightarrow> h n \<in> set (oa_seen a))"

definition emitted_ok ::
    "(parsed_node \<Rightarrow> string) \<Rightarrow> (nat \<Rightarrow> parsed_node list) \<Rightarrow> (string \<times> nat) list \<Rightarrow> nat \<Rightarrow> owned_acc \<Rightarrow> bool" where
  "emitted_ok h nodes owner m a \<longleftrightarrow>
     (\<forall>p \<in> set (oa_out a). comes_from h nodes owner m p) \<and>
     distinct (map h (filter (identified h) (map fst (oa_out a)))) \<and>
     set (oa_seen a) = h ` {n \<in> fst ` set (oa_out a). identified h n} \<and>
     (\<forall>k t. map_of (oa_final a) k = Some t \<longleftrightarrow>
        (\<exists>n \<in> fst ` set (oa_out a). identified h n \<and> h n = k \<and> nd_tag n = t))"

lemma covers_mono: "covers h owner i ns a \<Longrightarrow> set (oa_seen a) \<subseteq> set (oa_seen a') \<Longrightarrow> covers h owner i ns a'"
  unfolding covers_def by blast

lemma covers_Cons: "covers h owner i (n # ns) a \<longleftrightarrow> covers h owner i [n] a \<and> covers h owner i ns a"
  unfolding covers_def by simp

lemma emitted_ok_push:
  assumes "emitted_ok h nodes owner m a" "\<not> identified h n" "comes_from h nodes owner m (n, ids)"
  shows "emitted_ok h nodes owner m (a\<lparr>oa_out := oa_out a @ [(n, ids)]\<rparr>)"
proof -
  have "{x \<in> insert n (fst ` set (oa_out a)). identified h x} = {x \<in> fst ` set (oa_out a). identified h x}"
    using assms(2) by auto
  then show ?thesis using assms unfolding emitted_ok_def by simp
qed

lemma emitted_ok_new:
  assumes "emitted_ok h nodes owner m a" "identified h n" "h n \<notin> set (oa_seen a)" "comes_from h nodes owner m (n, ids)"
  shows "emitted_ok h nodes owner m (a\<lparr>oa_seen := h n # oa_seen a, oa_final := sput (h n) (nd_tag n) (oa_final a),
    oa_out := oa_out a @ [(n, ids)]\<rparr>)"
proof -
  let ?O = "fst ` set (oa_out a)"
  have seen: "set (oa_seen a) = h ` {x \<in> ?O. identified h x}"
    and fin: "map_of (oa_final a) k = Some t \<longleftrightarrow> (\<exists>x \<in> ?O. identified h x \<and> h x = k \<and> nd_tag x = t)" for k t
    using assms(1) unfolding emitted_ok_def by blast+
  have fresh: "h x \<noteq> h n" if "x \<in> ?O" "identified h x" for x
    using assms(3) that unfolding seen by (metis (mono_tags, lifting) imageI mem_Collect_eq)
  have "map_of (sput (h n) (nd_tag n) (oa_final a)) k = Some t \<longleftrightarrow>
      (\<exists>x \<in> insert n ?O. identified h x \<and> h x = k \<and> nd_tag x = t)" for k t
  proof (cases "k = h n")
    case True
    then show ?thesis using fresh assms(2) by (auto simp: store_simps)
  next
    case False
    then show ?thesis using fin[of k t] by (auto simp: store_simps)
  qed
  moreover have "{x \<in> insert n ?O. identified h x} = insert n {x \<in> ?O. identified h x}" using assms(2) by auto
  ultimately show ?thesis using assms seen unfolding emitted_ok_def by simp
qed

lemma keep_owned_step:
  assumes "emitted_ok h nodes owner (Suc i) a" "n \<in> set (nodes i)"
    and "identified h n \<longrightarrow> map_of owner (h n) \<noteq> None"
  shows "\<exists>a'. keep_owned h owner i (member_identities h (nodes i)) [n] a = a' \<and>
    emitted_ok h nodes owner (Suc i) a' \<and> set (oa_seen a) \<subseteq> set (oa_seen a') \<and> covers h owner i [n] a'"
proof -
  consider (plain) "\<not> identified h n" | (foreign) "identified h n" "map_of owner (h n) \<noteq> Some i"
    | (dup) "identified h n" "map_of owner (h n) = Some i" "h n \<in> set (oa_seen a)"
    | (new) "identified h n" "map_of owner (h n) = Some i" "h n \<notin> set (oa_seen a)" by blast
  then show ?thesis
  proof cases
    case plain
    then obtain ids where a': "keep_owned h owner i (member_identities h (nodes i)) [n] a = a\<lparr>oa_out := oa_out a @ [(n, ids)]\<rparr>"
      and ids: "\<not> is_server n \<longrightarrow> ids = member_identities h (nodes i) n"
      by (cases "is_server n") (auto simp: identified_def)
    have "comes_from h nodes owner (Suc i) (n, ids)" using assms(2) plain ids by (auto simp: comes_from_def)
    from emitted_ok_push[OF assms(1) plain this] show ?thesis using a' plain by (simp add: covers_def)
  next
    case foreign
    then have "keep_owned h owner i (member_identities h (nodes i)) [n] a = a"
      using assms(3) by (auto simp: identified_def split: option.split)
    then show ?thesis using assms(1) foreign by (simp add: covers_def)
  next
    case dup
    then have "keep_owned h owner i (member_identities h (nodes i)) [n] a = a" by (auto simp: identified_def)
    then show ?thesis using assms(1) dup by (simp add: covers_def)
  next
    case new
    then have a': "keep_owned h owner i (member_identities h (nodes i)) [n] a =
      a\<lparr>oa_seen := h n # oa_seen a, oa_final := sput (h n) (nd_tag n) (oa_final a),
        oa_out := oa_out a @ [(n, [])]\<rparr>" by (auto simp: identified_def)
    have "comes_from h nodes owner (Suc i) (n, [])" using assms(2) new by (auto simp: comes_from_def identified_def)
    from emitted_ok_new[OF assms(1) new(1,3) this] show ?thesis unfolding a' by (auto simp: covers_def)
  qed
qed

lemma keep_owned_Cons:
  "keep_owned h owner i ms (n # ns) a = keep_owned h owner i ms ns (keep_owned h owner i ms [n] a)"
  by simp

lemma keep_owned_ok:
  assumes "emitted_ok h nodes owner (Suc i) a" "set ns \<subseteq> set (nodes i)"
    and "\<forall>n \<in> set ns. identified h n \<longrightarrow> map_of owner (h n) \<noteq> None"
  shows "\<exists>a'. keep_owned h owner i (member_identities h (nodes i)) ns a = a' \<and>
    emitted_ok h nodes owner (Suc i) a' \<and> set (oa_seen a) \<subseteq> set (oa_seen a') \<and> covers h owner i ns a'"
  using assms
proof (induction ns arbitrary: a)
  case Nil
  then show ?case by (simp add: covers_def)
next
  case (Cons n ns)
  have n: "n \<in> set (nodes i)" "identified h n \<longrightarrow> map_of owner (h n) \<noteq> None" using Cons(3,4) by simp_all
  obtain b where b: "keep_owned h owner i (member_identities h (nodes i)) [n] a = b"
    "emitted_ok h nodes owner (Suc i) b" "set (oa_seen a) \<subseteq> set (oa_seen b)" "covers h owner i [n] b"
    using keep_owned_step[OF Cons(2) n] by blast
  have ns: "set ns \<subseteq> set (nodes i)" "\<forall>n \<in> set ns. identified h n \<longrightarrow> map_of owner (h n) \<noteq> None"
    using Cons(3,4) by simp_all
  obtain c where c: "keep_owned h owner i (member_identities h (nodes i)) ns b = c"
    "emitted_ok h nodes owner (Suc i) c" "set (oa_seen b) \<subseteq> set (oa_seen c)" "covers h owner i ns c"
    using Cons(1)[OF b(2) ns] by blast
  show ?case unfolding keep_owned_Cons[of h owner i _ n ns] b(1) c(1) covers_Cons[of h owner i n ns]
    using c(2-4) subset_trans[OF b(3) c(3)] covers_mono[OF b(4) c(3)] by blast
qed

lemma emitted_ok_later: "emitted_ok h nodes owner m a \<Longrightarrow> emitted_ok h nodes owner (Suc m) a"
  unfolding emitted_ok_def comes_from_def by (meson less_SucI)

lemma emit_owned_ok:
  fixes env elems h
  defines "nodes \<equiv> \<lambda>i. parse_xray_element env i (elems ! i)"
  defines "owner \<equiv> xray_identity_owners env h elems"
  shows "emitted_ok h nodes owner (length elems) (emit_owned env h elems) \<and>
    (\<forall>i < length elems. \<forall>n \<in> set (nodes i). identified h n \<longrightarrow> h n \<in> set (oa_seen (emit_owned env h elems)))"
proof -
  define run where "run m = fold (\<lambda>i a. keep_owned h owner i (member_identities h (nodes i)) (nodes i) a) [0..<m]
    \<lparr>oa_seen = [], oa_final = [], oa_out = []\<rparr>" for m
  have run: "emitted_ok h nodes owner m (run m) \<and> (\<forall>i < m. covers h owner i (nodes i) (run m))"
    if "m \<le> length elems" for m
    using that
  proof (induction m)
    case (Suc m)
    have r: "run (Suc m) = keep_owned h owner m (member_identities h (nodes m)) (nodes m) (run m)"
      by (simp add: run_def)
    have own: "\<forall>n \<in> set (nodes m). identified h n \<longrightarrow> map_of owner (h n) \<noteq> None"
      using owner_total[of m elems] Suc(2) by (simp add: nodes_def owner_def)
    have ok: "emitted_ok h nodes owner (Suc m) (run m)" using Suc by (simp add: emitted_ok_later)
    obtain a' where a': "run (Suc m) = a'" "emitted_ok h nodes owner (Suc m) a'"
      "set (oa_seen (run m)) \<subseteq> set (oa_seen a')" "covers h owner m (nodes m) a'"
      using keep_owned_ok[OF ok subset_refl own] unfolding r by blast
    have "covers h owner i (nodes i) a'" if "i < m" for i
      by (rule covers_mono[OF _ a'(3)]) (use Suc that in simp)
    then show ?case using a' by (simp add: less_Suc_eq)
  qed (simp add: run_def emitted_ok_def)
  have e: "emit_owned env h elems = run (length elems)"
    by (simp add: emit_owned_def run_def nodes_def owner_def Let_def)
  have "h n \<in> set (oa_seen (run (length elems)))"
    if "i < length elems" "n \<in> set (nodes i)" "identified h n" for i n
  proof -
    have "map_of owner (h n) \<noteq> None"
      unfolding owner_def by (rule owner_total[OF that(1) that(2)[unfolded nodes_def] that(3)])
    then obtain j where j: "map_of owner (h n) = Some j" by (cases "map_of owner (h n)") simp_all
    obtain n' where "j < length elems" "n' \<in> set (nodes j)" "identified h n'" "h n' = h n"
      using owner_spec[OF j[unfolded owner_def]] unfolding nodes_def by blast
    moreover from this run[of "length elems"] have "covers h owner j (nodes j) (run (length elems))" by simp
    ultimately show ?thesis using j unfolding covers_def by metis
  qed
  then show ?thesis using run[OF order_refl] unfolding e by (intro conjI allI impI ballI) blast+
qed

section \<open>Elements left with one server\<close>

lemma base_no_space: "base_of t = Some b \<Longrightarrow> CHR '' '' \<notin> set b \<and> CHR '' '' \<in> set t"
  by (auto simp: base_of_def cut_at_def split: if_splits dest: set_takeWhileD)

lemma with_base_index: "k \<in> set (with_base nodes b) \<longleftrightarrow>
   k < length nodes \<and> is_server (nodes ! k) \<and> base_of (nd_tag (nodes ! k)) = Some b"
  by (auto simp: with_base_def)

text \<open>What becomes of each node: only a lone server of a free base name is renamed.\<close>

definition simplified :: "parsed_node list \<Rightarrow> string list \<Rightarrow> nat \<Rightarrow> parsed_node" where
  "simplified nodes bs k =
     (case base_of (nd_tag (nodes ! k)) of
        None \<Rightarrow> nodes ! k
      | Some b \<Rightarrow>
          if b \<in> set bs \<and> with_base nodes b = [k] \<and> b \<notin> nd_tag ` set nodes then stamp_tag b (nodes ! k)
          else nodes ! k)"

lemma solo_fold:
  fixes nodes final h bs
  assumes "distinct bs" "\<forall>b \<in> set bs. CHR '' '' \<notin> set b"
  defines "a \<equiv> fold (solo_step h nodes) bs \<lparr>so_nodes = nodes, so_taken = map nd_tag nodes, so_final = final\<rparr>"
  shows "so_nodes a = map (simplified nodes bs) [0..<length nodes] \<and>
    (\<forall>b. CHR '' '' \<notin> set b \<and> b \<notin> set bs \<longrightarrow> (b \<in> set (so_taken a) \<longleftrightarrow> b \<in> nd_tag ` set nodes))"
  using assms(1,2) unfolding a_def
proof (induction bs rule: rev_induct)
  case Nil
  have "map (simplified nodes []) [0..<length nodes] = map (\<lambda>k. nodes ! k) [0..<length nodes]"
    by (rule map_cong) (auto simp: simplified_def split: option.split)
  then show ?case by (simp add: map_nth)
next
  case (snoc b bs)
  define c where "c = fold (solo_step h nodes) bs \<lparr>so_nodes = nodes, so_taken = map nd_tag nodes, so_final = final\<rparr>"
  have IH: "so_nodes c = map (simplified nodes bs) [0..<length nodes]"
    and taken: "CHR '' '' \<notin> set x \<Longrightarrow> x \<notin> set bs \<Longrightarrow> x \<in> set (so_taken c) \<longleftrightarrow> x \<in> nd_tag ` set nodes" for x
    using snoc by (simp_all add: c_def)
  have b: "CHR '' '' \<notin> set b" "b \<notin> set bs" using snoc(2,3) by simp_all
  have same: "simplified nodes (bs @ [b]) j = simplified nodes bs j" if "base_of (nd_tag (nodes ! j)) \<noteq> Some b" for j
    using that by (auto simp: simplified_def split: option.split)
  consider (lone) k where "with_base nodes b = [k]" "b \<notin> nd_tag ` set nodes"
    | (not) "\<not> (\<exists>k. with_base nodes b = [k]) \<or> b \<in> nd_tag ` set nodes" by blast
  then show ?case
  proof cases
    case lone
    have k: "k < length nodes" "base_of (nd_tag (nodes ! k)) = Some b"
      using with_base_index[of k nodes b] lone(1) by simp_all
    have old: "so_nodes c ! k = nodes ! k" using k b(2) by (simp add: IH simplified_def)
    have step: "solo_step h nodes b c = \<lparr>so_nodes = (so_nodes c)[k := stamp_tag b (nodes ! k)],
        so_taken = b # removeAll (nd_tag (nodes ! k)) (so_taken c),
        so_final = (if h (stamp_tag b (nodes ! k)) \<noteq> [] then sput (h (stamp_tag b (nodes ! k))) b (so_final c) else so_final c)\<rparr>"
      using lone taken[OF b] old by (simp add: solo_step_def Let_def)
    have "map (simplified nodes (bs @ [b])) [0..<length nodes] ! j = ((so_nodes c)[k := stamp_tag b (nodes ! k)]) ! j"
      if j: "j < length nodes" for j
    proof (cases "j = k")
      case True
      then show ?thesis using k lone by (simp add: IH simplified_def)
    next
      case False
      have "simplified nodes (bs @ [b]) j = simplified nodes bs j"
      proof (cases "base_of (nd_tag (nodes ! j)) = Some b")
        case True
        then show ?thesis using False lone(1) b(2) by (simp add: simplified_def)
      qed (rule same)
      then show ?thesis using False j by (simp add: IH)
    qed
    then have "so_nodes (solo_step h nodes b c) = map (simplified nodes (bs @ [b])) [0..<length nodes]"
      by (intro nth_equalityI) (simp_all add: step IH)
    moreover have "x \<noteq> nd_tag (nodes ! k)" if "CHR '' '' \<notin> set x" for x
      using base_no_space[OF k(2)] that by auto
    ultimately show ?thesis using taken by (auto simp: c_def[symmetric] step)
  next
    case not
    have "solo_step h nodes b c = c"
    proof (cases "\<exists>k. with_base nodes b = [k]")
      case True
      then show ?thesis using not taken[OF b] by (auto simp: solo_step_def)
    next
      case False
      then show ?thesis by (auto simp: solo_step_def split: list.split)
    qed
    moreover have "simplified nodes (bs @ [b]) j = simplified nodes bs j" for j
      using not b(2) by (auto simp: simplified_def split: option.split)
    ultimately show ?thesis using IH taken by (simp add: c_def[symmetric])
  qed
qed

lemma all_bases_no_space: "b \<in> set (all_bases nodes) \<Longrightarrow> CHR '' '' \<notin> set b"
  by (auto simp: all_bases_def set_map_filter_some dest: base_no_space)

text \<open>
  C33. Which servers get the plain name of their element does not depend on the order in which the
  map of the names is walked.
\<close>

theorem solo_order_irrelevant:
  assumes "distinct bs" "set bs = set (all_bases nodes)"
  shows "fst (simplify_solo_tags h bs nodes final) = fst (simplify_solo_tags h (all_bases nodes) nodes final)"
proof -
  have d: "distinct (all_bases nodes)" by (simp add: all_bases_def)
  have s: "\<forall>b \<in> set bs. CHR '' '' \<notin> set b" "\<forall>b \<in> set (all_bases nodes). CHR '' '' \<notin> set b"
    using all_bases_no_space assms(2) by auto
  have "simplified nodes bs = simplified nodes (all_bases nodes)"
    by (rule ext) (simp only: simplified_def assms(2))
  then show ?thesis
    using solo_fold[OF assms(1) s(1), of h nodes final] solo_fold[OF d s(2), of h nodes final]
    by (simp add: simplify_solo_tags_def Let_def)
qed

section \<open>Identities that do not see the tag\<close>

text \<open>
  The de-duplication relies on one law of the identity: giving a server the plain name of its
  element leaves its identity as it is.
\<close>

locale tag_blind =
  fixes h :: "parsed_node \<Rightarrow> string" and good :: "parsed_node \<Rightarrow> bool"
  assumes blind: "is_server n \<Longrightarrow> good n \<Longrightarrow> base_of (nd_tag n) = Some b \<Longrightarrow> h (stamp_tag b n) = h n"

definition one_each :: "(parsed_node \<Rightarrow> string) \<Rightarrow> parsed_node list \<Rightarrow> bool" where
  "one_each h ns \<longleftrightarrow> (\<forall>i < length ns. \<forall>j < length ns.
     identified h (ns ! i) \<and> identified h (ns ! j) \<and> h (ns ! i) = h (ns ! j) \<longrightarrow> i = j)"

definition tags_recorded :: "(parsed_node \<Rightarrow> string) \<Rightarrow> parsed_node list \<Rightarrow> string smap \<Rightarrow> bool" where
  "tags_recorded h ns final \<longleftrightarrow>
     (\<forall>k t. map_of final k = Some t \<longleftrightarrow> (\<exists>n \<in> set ns. identified h n \<and> h n = k \<and> nd_tag n = t))"

lemma one_each_distinct: "distinct (map h (filter (identified h) ns)) \<Longrightarrow> one_each h ns"
proof (induction ns)
  case (Cons n ns)
  have fresh: "h x \<noteq> h n" if "x \<in> set ns" "identified h x" "identified h n" for x
    using Cons(2) that by (auto simp: image_iff)
  have "one_each h ns" using Cons by (simp split: if_splits)
  then show ?case using fresh unfolding one_each_def
    by (auto simp: nth_Cons split: nat.splits) (metis nth_mem)+
qed (simp add: one_each_def)

lemma one_each_update:
  assumes "one_each h ns" "h n = h (ns ! k)" "is_server n = is_server (ns ! k)"
  shows "one_each h (ns[k := n])"
proof -
  have "h (ns[k := n] ! i) = h (ns ! i) \<and> identified h (ns[k := n] ! i) = identified h (ns ! i)" if "i < length ns" for i
    using assms(2,3) that by (cases "i = k") (auto simp: identified_def)
  then show ?thesis using assms(1) unfolding one_each_def by (metis length_list_update)
qed

lemma tags_recorded_update:
  assumes "tags_recorded h ns final" "one_each h ns" "k < length ns" "h n = h (ns ! k)" "is_server n" "is_server (ns ! k)"
  shows "tags_recorded h (ns[k := n]) (if h n \<noteq> [] then sput (h n) (nd_tag n) final else final)"
proof -
  have mem: "x \<in> set (ns[k := n]) \<longleftrightarrow> x = n \<or> (\<exists>j < length ns. j \<noteq> k \<and> x = ns ! j)" for x
    using assms(3) by (auto simp: in_set_conv_nth nth_list_update)
  have other: "h (ns ! j) \<noteq> h n" if "j < length ns" "j \<noteq> k" "identified h (ns ! j)" "identified h n" for j
    using assms(2-6) that unfolding one_each_def identified_def by metis
  have rec: "map_of final x = Some t \<longleftrightarrow> (\<exists>j < length ns. identified h (ns ! j) \<and> h (ns ! j) = x \<and> nd_tag (ns ! j) = t)" for x t
    using assms(1) unfolding tags_recorded_def by (metis in_set_conv_nth)
  show ?thesis
  proof (cases "h n = []")
    case True
    then have "\<not> identified h n" "\<not> identified h (ns ! k)" using assms(4) by (simp_all add: identified_def)
    then show ?thesis using True rec unfolding tags_recorded_def by (simp only: simp_thms if_False Bex_def mem) metis
  next
    case False
    then have n: "identified h n" using assms(5) by (simp add: identified_def)
    have "map_of (sput (h n) (nd_tag n) final) x = Some t \<longleftrightarrow> (\<exists>y \<in> set (ns[k := n]). identified h y \<and> h y = x \<and> nd_tag y = t)" for x t
    proof (cases "x = h n")
      case True
      then show ?thesis using n other by (auto simp: store_simps mem)
    next
      case False
      then have "map_of (sput (h n) (nd_tag n) final) x = map_of final x" by (simp add: store_simps)
      also have "\<dots> = Some t \<longleftrightarrow> (\<exists>j < length ns. j \<noteq> k \<and> identified h (ns ! j) \<and> h (ns ! j) = x \<and> nd_tag (ns ! j) = t)"
        using rec False assms(4) by metis
      finally show ?thesis using False unfolding Bex_def mem by metis
    qed
    then show ?thesis using False by (simp add: tags_recorded_def)
  qed
qed

lemma stamp_tag_simps [simp]:
  "nd_tag (stamp_tag t n) = t" "is_server (stamp_tag t n) = is_server n" "nd_scheme (stamp_tag t n) = nd_scheme n"
  by (simp_all add: stamp_tag_def is_server_def)

context tag_blind
begin

text \<open>While names are simplified the record of the final tags stays true.\<close>

lemma solo_records:
  assumes "tags_recorded h nodes final" "one_each h nodes" "\<forall>n \<in> set nodes. is_server n \<longrightarrow> good n"
    and "distinct bs" "\<forall>b \<in> set bs. CHR '' '' \<notin> set b"
  defines "a \<equiv> fold (solo_step h nodes) bs \<lparr>so_nodes = nodes, so_taken = map nd_tag nodes, so_final = final\<rparr>"
  shows "tags_recorded h (so_nodes a) (so_final a) \<and> one_each h (so_nodes a)"
  using assms(4,5) unfolding a_def
proof (induction bs rule: rev_induct)
  case (snoc b bs)
  define c where "c = fold (solo_step h nodes) bs \<lparr>so_nodes = nodes, so_taken = map nd_tag nodes, so_final = final\<rparr>"
  have IH: "tags_recorded h (so_nodes c) (so_final c)" "one_each h (so_nodes c)" using snoc by (simp_all add: c_def)
  have nodes: "so_nodes c = map (simplified nodes bs) [0..<length nodes]"
    using solo_fold[of bs h nodes final] snoc(2,3) by (simp add: c_def)
  show ?case
  proof (cases "solo_step h nodes b c = c")
    case True
    then show ?thesis using IH by (simp add: c_def[symmetric])
  next
    case False
    then obtain k where wb: "with_base nodes b = [k]" "b \<notin> set (so_taken c)"
      by (auto simp: solo_step_def split: list.splits if_splits)
    have k: "k < length nodes" "is_server (nodes ! k)" "base_of (nd_tag (nodes ! k)) = Some b"
      using with_base_index[of k nodes b] wb(1) by simp_all
    define n where "n = stamp_tag b (so_nodes c ! k)"
    have old: "so_nodes c ! k = nodes ! k" using k snoc(2) by (simp add: nodes simplified_def)
    have hn: "h n = h (so_nodes c ! k)" using blind[of "nodes ! k" b] assms(3) k by (simp add: n_def old)
    have len: "k < length (so_nodes c)" using k(1) by (simp add: nodes)
    have sv: "is_server n" "is_server (so_nodes c ! k)" using k(2) old by (simp_all add: n_def)
    have "solo_step h nodes b c = \<lparr>so_nodes = (so_nodes c)[k := n], so_taken = b # removeAll (nd_tag (so_nodes c ! k)) (so_taken c),
        so_final = (if h n \<noteq> [] then sput (h n) (nd_tag n) (so_final c) else so_final c)\<rparr>"
      using wb by (simp add: solo_step_def Let_def n_def)
    then show ?thesis using tags_recorded_update[OF IH len hn sv] one_each_update[OF IH(2) hn] sv
      by (simp add: c_def[symmetric])
  qed
qed (use assms in simp)

end

text \<open>The members of a group after the last pass.\<close>

lemma resolved_group:
  assumes "resolve_group final (n, ids) = Some g"
  shows "if is_server n then g = n
    else set (group_member_tags g) \<subseteq> {t. \<exists>k \<in> set ids. map_of final k = Some t} \<and> nd_scheme g = nd_scheme n \<and> nd_tag g = nd_tag n"
proof (cases "is_server n")
  case False
  define ms where "ms = dedup_from [] (List.map_filter (map_of final) ids)"
  have g: "g = n\<lparr>nd_outbound := map_option (sput group_members_key (GList (map GStr ms))) (nd_outbound n)\<rparr>"
    using assms False by (auto simp: resolve_group_def Let_def ms_def split: if_splits)
  have "set ms \<subseteq> {t. \<exists>k \<in> set ids. map_of final k = Some t}" by (auto simp: ms_def set_map_filter_some set_dedup_from)
  moreover have "set (group_member_tags g) \<subseteq> set ms"
    by (auto simp: g group_member_tags_def ob_def set_map_filter_some store_simps split: option.splits gval.splits if_splits)
  ultimately show ?thesis using False by (auto simp: g)
qed (use assms in \<open>auto simp: resolve_group_def\<close>)

lemma resolved_servers:
  "length ns = length idss \<Longrightarrow>
   filter is_server (List.map_filter (resolve_group final) (zip ns idss)) = filter is_server ns"
proof (induction ns idss rule: list_induct2)
  case (Cons n ns ids idss)
  show ?case
  proof (cases "resolve_group final (n, ids)")
    case None
    then have "\<not> is_server n" by (auto simp: resolve_group_def)
    then show ?thesis using Cons None by simp
  next
    case (Some g)
    then have "is_server g = is_server n \<and> (is_server n \<longrightarrow> g = n)"
      using resolved_group[OF Some] by (auto simp: is_server_def split: if_splits)
    then show ?thesis using Cons Some by auto
  qed
qed simp

lemma one_each_count:
  assumes "one_each h ns" "\<exists>n \<in> set ns. identified h n \<and> h n = v"
  shows "length (filter (\<lambda>n. identified h n \<and> h n = v) ns) = 1"
proof -
  obtain k where k: "k < length ns" "identified h (ns ! k)" "h (ns ! k) = v" using assms(2) by (auto simp: in_set_conv_nth)
  have "{j. j < length ns \<and> identified h (ns ! j) \<and> h (ns ! j) = v} = {k}"
    using assms(1) k unfolding one_each_def by blast
  then show ?thesis by (simp add: length_filter_conv_card)
qed

definition reorders :: "(string list \<Rightarrow> string list) \<Rightarrow> bool" where
  "reorders order \<longleftrightarrow> (\<forall>xs. distinct xs \<longrightarrow> distinct (order xs) \<and> set (order xs) = set xs)"

context tag_blind
begin

text \<open>All stages together: one node per identity, tags as recorded for the groups.\<close>

lemma elements_stages:
  assumes "xe_ident env = Some h" "reorders order"
    and good: "\<forall>i < length elems. \<forall>n \<in> set (parse_xray_element env i (elems ! i)). is_server n \<longrightarrow> good n"
  defines "a \<equiv> emit_owned env h elems"
  shows "\<exists>nodes final.
    parse_nodes_from_xray_elements env order elems = List.map_filter (resolve_group final) (zip nodes (map snd (oa_out a))) \<and>
    length nodes = length (oa_out a) \<and> tags_recorded h nodes final \<and> one_each h nodes \<and>
    (\<forall>k < length nodes. h (nodes ! k) = h (fst (oa_out a ! k)) \<and> is_server (nodes ! k) = is_server (fst (oa_out a ! k)))"
proof -
  define ns where "ns = map fst (oa_out a)"
  define bs where "bs = order (all_bases ns)"
  define s where "s = fold (solo_step h ns) bs \<lparr>so_nodes = ns, so_taken = map nd_tag ns, so_final = oa_final a\<rparr>"
  have ok: "emitted_ok h (\<lambda>i. parse_xray_element env i (elems ! i)) (xray_identity_owners env h elems) (length elems) a"
    using emit_owned_ok[of h env elems] by (simp add: a_def)
  have bs: "distinct bs" "\<forall>b \<in> set bs. CHR '' '' \<notin> set b"
    using assms(2) all_bases_no_space unfolding bs_def reorders_def by (auto simp: all_bases_def)
  have g: "\<forall>n \<in> set ns. is_server n \<longrightarrow> good n"
    using ok good by (fastforce simp: emitted_ok_def comes_from_def ns_def)
  have one: "one_each h ns" using ok by (intro one_each_distinct) (simp add: emitted_ok_def ns_def)
  have "tags_recorded h ns (oa_final a)" using ok by (simp add: emitted_ok_def tags_recorded_def ns_def)
  from solo_records[OF this one g bs] have rec: "tags_recorded h (so_nodes s) (so_final s)" "one_each h (so_nodes s)"
    by (simp_all add: s_def)
  have nodes: "so_nodes s = map (simplified ns bs) [0..<length ns]"
    using solo_fold[OF bs, of h ns "oa_final a"] by (simp add: s_def)
  have "h (simplified ns bs k) = h (ns ! k) \<and> is_server (simplified ns bs k) = is_server (ns ! k)" if "k < length ns" for k
  proof (cases "simplified ns bs k = ns ! k")
    case False
    then obtain b where b: "base_of (nd_tag (ns ! k)) = Some b" "with_base ns b = [k]" "simplified ns bs k = stamp_tag b (ns ! k)"
      by (auto simp: simplified_def split: option.splits if_splits)
    then have "is_server (ns ! k)" using with_base_index[of k ns b] by simp
    then show ?thesis using b g that blind[of "ns ! k" b] by simp
  qed simp
  then have same: "\<forall>k < length (so_nodes s). h (so_nodes s ! k) = h (fst (oa_out a ! k)) \<and>
      is_server (so_nodes s ! k) = is_server (fst (oa_out a ! k))"
    by (simp add: nodes ns_def)
  have "parse_nodes_from_xray_elements env order elems =
      List.map_filter (resolve_group (so_final s)) (zip (so_nodes s) (map snd (oa_out a)))"
    unfolding parse_nodes_from_xray_elements_def simplify_solo_tags_def assms(1) option.case Let_def
      a_def[symmetric] ns_def[symmetric] bs_def[symmetric] s_def[symmetric] by simp
  then show ?thesis using rec same by (intro exI[of _ "so_nodes s"] exI[of _ "so_final s"]) (simp add: nodes ns_def)
qed

lemma server_kept_once:
  assumes "xe_ident env = Some h" "reorders order"
    and good: "\<forall>i < length elems. \<forall>n \<in> set (parse_xray_element env i (elems ! i)). is_server n \<longrightarrow> good n"
    and "i < length elems" "n \<in> set (parse_xray_element env i (elems ! i))" "identified h n"
  shows "length (filter (\<lambda>x. identified h x \<and> h x = h n) (parse_nodes_from_xray_elements env order elems)) = 1"
proof -
  let ?a = "emit_owned env h elems"
  obtain nodes final where st: "parse_nodes_from_xray_elements env order elems = List.map_filter (resolve_group final) (zip nodes (map snd (oa_out ?a)))"
    "length nodes = length (oa_out ?a)" "one_each h nodes"
    "\<forall>k < length nodes. h (nodes ! k) = h (fst (oa_out ?a ! k)) \<and> is_server (nodes ! k) = is_server (fst (oa_out ?a ! k))"
    using elements_stages[OF assms(1,2) good] by blast
  have "h n \<in> set (oa_seen ?a)" using emit_owned_ok[of h env elems] assms(4-6) by blast
  then obtain x where x: "x \<in> fst ` set (oa_out ?a)" "identified h x" "h x = h n"
    using emit_owned_ok[of h env elems] unfolding emitted_ok_def by (smt (verit) imageE mem_Collect_eq)
  then obtain k where k: "k < length (oa_out ?a)" "x = fst (oa_out ?a ! k)" by (metis imageE in_set_conv_nth)
  then have "identified h (nodes ! k)" "h (nodes ! k) = h n" using st(2,4) x by (simp_all add: identified_def)
  then have "\<exists>y \<in> set nodes. identified h y \<and> h y = h n" using k(1) st(2) by (metis nth_mem)
  from one_each_count[OF st(3) this] have c: "length (filter (\<lambda>x. identified h x \<and> h x = h n) nodes) = 1" .
  have f: "filter (\<lambda>x. identified h x \<and> h x = v) xs = filter (\<lambda>x. h x \<noteq> [] \<and> h x = v) (filter is_server xs)" for xs v
    by (simp add: identified_def)
  show ?thesis using c resolved_servers[of nodes "map snd (oa_out ?a)" final] st(2) unfolding st(1) f by simp
qed

lemma group_members_kept:
  assumes "xe_ident env = Some h" "reorders order"
    and good: "\<forall>i < length elems. \<forall>n \<in> set (parse_xray_element env i (elems ! i)). is_server n \<longrightarrow> good n"
    and "g \<in> set (parse_nodes_from_xray_elements env order elems)" "nd_scheme g = scheme_group"
    and "t \<in> set (group_member_tags g)"
  shows "\<exists>x \<in> set (parse_nodes_from_xray_elements env order elems). nd_scheme x \<noteq> scheme_group \<and> nd_tag x = t"
proof -
  let ?a = "emit_owned env h elems"
  obtain nodes final where st: "parse_nodes_from_xray_elements env order elems = List.map_filter (resolve_group final) (zip nodes (map snd (oa_out ?a)))"
    "length nodes = length (oa_out ?a)" "tags_recorded h nodes final"
    using elements_stages[OF assms(1,2) good] by blast
  obtain n ids where n: "resolve_group final (n, ids) = Some g" using assms(4) by (auto simp: st(1) set_map_filter_some)
  have "\<not> is_server n" using resolved_group[OF n] assms(5) by (auto simp: is_server_def split: if_splits)
  then obtain k where "map_of final k = Some t" using resolved_group[OF n] assms(6) by auto
  then obtain x where x: "x \<in> set nodes" "is_server x" "nd_tag x = t"
    using st(3) by (auto simp: tags_recorded_def identified_def)
  then have "x \<in> set (filter is_server nodes)" by simp
  then have "x \<in> set (parse_nodes_from_xray_elements env order elems)"
    using resolved_servers[of nodes "map snd (oa_out ?a)" final] st(2)
    unfolding st(1) by (metis filter_is_subset length_map subsetD)
  then show ?thesis using x by (auto simp: is_server_def)
qed

end

section \<open>The identity of the generation\<close>

lemma parts_sput_tag:
  fixes n n' :: parsed_node
  assumes "ob n' = sput ''tag'' v (ob n) \<or> ob n' = ob n"
    and "nd_scheme n' = nd_scheme n" "nd_uuid n' = nd_uuid n" "nd_port n' = nd_port n"
      "nd_flow n' = nd_flow n"
  shows "credential_fields n' = credential_fields n" "server_port n' = server_port n"
    "flow_out n' = flow_out n" "packet_encoding_part n' = packet_encoding_part n"
    "transport_part (ob n') = transport_part (ob n)" "tls_part (ob n') = tls_part (ob n)"
    "detour_part (ob n') = detour_part (ob n)"
  using assms(1)
  unfolding credential_fields_def server_port_def flow_out_def packet_encoding_part_def detour_part_def
    Let_def assms(2-)
  by (elim disjE; simp split del: if_split cong del: if_weak_cong)+

lemma stamped_ob: "ob (stamp_tag t n) = sput ''tag'' (GStr t) (ob n) \<or> ob (stamp_tag t n) = ob n"
  by (cases "nd_outbound n") (simp_all add: stamp_tag_def ob_def)

lemma stamped_frame:
  "nd_uuid (stamp_tag t n) = nd_uuid n" "nd_port (stamp_tag t n) = nd_port n" "nd_flow (stamp_tag t n) = nd_flow n"
  "nd_server (stamp_tag t n) = nd_server n"
  by (simp_all add: stamp_tag_def)

lemma stamped_node_frame:
  "nd_label (stamp_tag t n) = nd_label n" "nd_emit_raw (stamp_tag t n) = nd_emit_raw (n :: parsed_node)"
  by (simp_all add: stamp_tag_def)

lemmas stamped_parts = parts_sput_tag[OF stamped_ob stamp_tag_simps(3) stamped_frame(1-3)]

lemma identity_plain_stamped: "identity_fields (plain_fields (stamp_tag t n)) = identity_fields (plain_fields n)"
  unfolding plain_fields_def identity_append flow_part_def stamped_parts stamped_frame stamp_tag_simps
  by (simp add: identity_fields_def node_hash_ignored_fields_def)

lemma generate_stamped:
  "rel_sum (=) (\<lambda>e e'. identity_fields (em_fields e) = identity_fields (em_fields e'))
     (generate_node_json (stamp_tag t n)) (generate_node_json n)"
proof (cases "nd_outbound n")
  case None
  then have o: "nd_outbound (stamp_tag t n) = None" by (simp add: stamp_tag_def)
  show ?thesis
    by (simp add: generate_node_json_def generate_group_node_json_def generate_raw_node_json_def
        identity_plain_stamped stamped_node_frame None o)
next
  case (Some m)
  have tag: "identity_fields ((''tag'', v) # xs) = identity_fields xs" for v xs
    by (simp add: identity_fields_def node_hash_ignored_fields_def)
  have extra: "extra_fields (sput ''tag'' v m) [''tag'', ''type''] = extra_fields m [''tag'', ''type'']"
    "extra_fields (sput ''tag'' v m) [''tag'', ''type'', group_members_key] = extra_fields m [''tag'', ''type'', group_members_key]" for v
    by (simp_all add: extra_fields_def filter_sput)
  have members: "group_member_tags (stamp_tag t n) = group_member_tags n"
    by (simp add: group_member_tags_def stamp_tag_def ob_def Some group_members_key_def)
  have o: "nd_outbound (stamp_tag t n) = Some (sput ''tag'' (GStr t) m)" by (simp add: stamp_tag_def Some)
  show ?thesis
    by (simp add: generate_node_json_def generate_group_node_json_def generate_raw_node_json_def
        identity_plain_stamped stamped_node_frame members o Some tag extra)
qed

lemma endpoint_stamped:
  "rel_sum (=) (\<lambda>e e'. identity_fields (em_fields e) = identity_fields (em_fields e'))
     (generate_endpoint_json (stamp_tag t n)) (generate_endpoint_json n)"
proof -
  have tag: "identity_fields (extra_fields (sput ''tag'' v m) []) = identity_fields (extra_fields m [])" for v m
    by (simp add: identity_fields_def extra_fields_def filter_map comp_def filter_sput node_hash_ignored_fields_def)
  show ?thesis
    by (cases "nd_outbound n") (simp_all add: generate_endpoint_json_def stamp_tag_def tag)
qed

text \<open>
  The identity of a server is read from the text printed for it. The decoder is asked to read that
  text as a JSON decoder does (\<open>decodes\<close>), under the server's own tag and under the plain name
  of its element.
\<close>

definition readable :: "(string \<Rightarrow> fields option) \<Rightarrow> parsed_node \<Rightarrow> bool" where
  "readable um n \<longleftrightarrow> decodes um n \<and>
     (case base_of (nd_tag n) of None \<Rightarrow> True | Some b \<Rightarrow> decodes um (stamp_tag b n))"

interpretation node_hash: tag_blind "node_identity_hash um sha" "readable um" for um sha
proof
  fix n b
  assume n: "is_server n" "readable um n" "base_of (nd_tag n) = Some b"
  then have d: "decodes um n" "decodes um (stamp_tag b n)" by (simp_all add: readable_def)
  have shown: "shown_text (stamp_tag b n) = shown_text n" by (simp add: shown_text_def stamp_tag_def)
  have "rel_sum (=) (\<lambda>e e'. identity_fields (em_fields e) = identity_fields (em_fields e'))
      (emission (stamp_tag b n)) (emission n)"
    using generate_stamped[of b n] endpoint_stamped[of b n] by (simp add: emission_def)
  then show "node_identity_hash um sha (stamp_tag b n) = node_identity_hash um sha n"
    unfolding decodes_hash[OF d(1)] decodes_hash[OF d(2)] shown
    by (cases "emission n"; cases "emission (stamp_tag b n)") simp_all
qed

text \<open>
  C20. A server that several elements of an Xray subscription list is kept exactly once: whatever the
  order of the elements and of the range over the names, each identity found anywhere in the
  subscription belongs to one node of the result. A server without an identity is not spoken of:
  one whose label holds an opening brace has none (\<open>brace_label_has_no_identity\<close>) and is kept
  once per element that lists it. The decoder behind the identity reads what is printed for the
  servers as a JSON decoder does (\<open>decodes\<close>).
\<close>

theorem xray_servers_kept_once:
  assumes "xe_ident env = Some (node_identity_hash um sha)" "reorders order"
    and "\<forall>i < length elems. \<forall>n \<in> set (parse_xray_element env i (elems ! i)). is_server n \<longrightarrow> readable um n"
    and "i < length elems" "n \<in> set (parse_xray_element env i (elems ! i))"
    and "is_server n" "node_identity_hash um sha n \<noteq> []"
  shows "length (filter (\<lambda>x. is_server x \<and> node_identity_hash um sha x = node_identity_hash um sha n)
    (parse_nodes_from_xray_elements env order elems)) = 1"
proof -
  have "identified (node_identity_hash um sha) n" using assms(6,7) by (simp add: identified_def)
  from node_hash.server_kept_once[OF assms(1-5) this] assms(7) show ?thesis
    by (simp add: identified_def conj_commute cong: conj_cong)
qed

text \<open>
  C21. The groups of an Xray subscription are closed: every member of a group that is kept is the tag
  of a server that is kept, also where another element owns the server or it was renamed, and also
  when servers have no identity. The decoder behind the identity reads what is printed for the
  servers as a JSON decoder does (\<open>decodes\<close>).
\<close>

theorem xray_groups_closed:
  assumes "xe_ident env = Some (node_identity_hash um sha)" "reorders order"
    and "\<forall>i < length elems. \<forall>n \<in> set (parse_xray_element env i (elems ! i)). is_server n \<longrightarrow> readable um n"
    and "g \<in> set (parse_nodes_from_xray_elements env order elems)" "nd_scheme g = scheme_group"
    and "t \<in> set (group_member_tags g)"
  shows "\<exists>x \<in> set (parse_nodes_from_xray_elements env order elems). nd_scheme x \<noteq> scheme_group \<and> nd_tag x = t"
  by (rule node_hash.group_members_kept[OF assms])

text \<open>
  C32. Of the elements that list a server the one with the fewest outbounds owns it, the first of them
  in the file where several have as few: a country wins over the pool that lists its server.
\<close>

theorem xray_owner_most_specific:
  assumes "map_of (xray_identity_owners env h elems) v = Some i" "j < length elems"
    and "n \<in> set (parse_xray_element env j (elems ! j))" "is_server n" "h n = v" "v \<noteq> []"
  shows "xray_element_payload_count (elems ! i) < xray_element_payload_count (elems ! j) \<or>
    xray_element_payload_count (elems ! i) = xray_element_payload_count (elems ! j) \<and> i \<le> j"
proof -
  have "identified h n" using assms(4-6) by (simp add: identified_def)
  then show ?thesis using owner_spec[OF assms(1)] assms(2,3,5) unfolding before_def by (metis order_refl less_imp_le)
qed

section \<open>A pool and a country with the same server\<close>

definition trojan_outbound :: "string \<Rightarrow> string \<Rightarrow> json" where
  "trojan_outbound tag addr = JObj [(''protocol'', JStr ''trojan''),
     (''settings'', JObj [(''servers'', JArr [JObj [(''address'', JStr addr), (''password'', JStr addr), (''port'', JNum 443)]])]),
     (''tag'', JStr tag)]"

definition sample_elements :: "gval list" where
  "sample_elements = map of_json
     [JObj [(''outbounds'', JArr [trojan_outbound ''x'' ''a'', JObj [(''protocol'', JStr ''mieru'')]]), (''remarks'', JStr ''Pool''),
            (''routing'', JObj [(''balancers'', JArr [JObj []])])],
      JObj [(''outbounds'', JArr [trojan_outbound ''z'' ''a'']), (''remarks'', JStr ''DE'')]]"

definition trojan_node :: "string \<Rightarrow> string \<Rightarrow> parsed_node" where
  "trojan_node tag label = \<lparr>nd_tag = tag, nd_scheme = ''trojan'', nd_server = ''a'', nd_port = 443, nd_uuid = ''a'',
     nd_flow = [], nd_outbound = Some [(''password'', GStr ''a''), (''server'', GStr ''a''), (''server_port'', GInt 443),
       (''tag'', GStr tag), (''type'', GStr ''trojan'')],
     nd_label = label, nd_comment = [], nd_jump = None, nd_source_tag = [], nd_chain = [], nd_source_index = 0,
     nd_emit_raw = False\<rparr>"

definition pool_group :: "string list \<Rightarrow> parsed_node" where
  "pool_group members = \<lparr>nd_tag = ''Pool'', nd_scheme = scheme_group, nd_server = [], nd_port = 0, nd_uuid = [],
     nd_flow = [], nd_outbound = Some [(''interval'', GStr ''3m''), (''outbounds'', GList (map GStr members)),
       (''tag'', GStr ''Pool''), (''type'', GStr ''urltest''), (''url'', GStr ''https://www.gstatic.com/generate_204'')],
     nd_label = ''Pool'', nd_comment = [], nd_jump = None, nd_source_tag = [], nd_chain = [],
     nd_source_index = unset_source_index, nd_emit_raw = False\<rparr>"

definition plain_xray_env :: "(parsed_node \<Rightarrow> string) option \<Rightarrow> xray_env" where
  "plain_xray_env h = \<lparr>xe_letter = \<lambda>_. True, xe_compile = no_regex, xe_skip = [], xe_ident = h\<rparr>"

definition sample_decoder :: "string \<Rightarrow> fields option" where
  "sample_decoder = sample_unmarshal
     [trojan_node ''Pool x'' ''Pool'', trojan_node ''Pool'' ''Pool'', trojan_node ''DE'' ''DE'']"

definition sample_xray_env :: xray_env where
  "sample_xray_env = plain_xray_env (Some (node_identity_hash sample_decoder id))"

lemma sample_elements_parsed:
  "parse_xray_element sample_xray_env 0 (sample_elements ! 0) = [trojan_node ''Pool x'' ''Pool'', pool_group [''Pool x'']]"
  "parse_xray_element sample_xray_env 1 (sample_elements ! 1) = [trojan_node ''DE'' ''DE'']"
  "element_order sample_elements = [1, 0]" "length sample_elements = 2"
  by code_simp+

lemma sample_readable:
  "\<forall>i < length sample_elements. \<forall>n \<in> set (parse_xray_element sample_xray_env i (sample_elements ! i)).
     is_server n \<longrightarrow> readable sample_decoder n"
proof -
  have "readable sample_decoder (trojan_node ''Pool x'' ''Pool'')" by code_simp
  moreover have "readable sample_decoder (trojan_node ''DE'' ''DE'')" by code_simp
  moreover have "\<not> is_server (pool_group [''Pool x''])" by (simp add: is_server_def pool_group_def)
  ultimately show ?thesis using sample_elements_parsed by (auto simp: less_2_cases_iff)
qed

lemma sample_hash:
  "node_identity_hash sample_decoder id (trojan_node ''DE'' ''DE'') \<noteq> []"
  "node_identity_hash sample_decoder id (trojan_node ''Pool x'' ''Pool'') =
   node_identity_hash sample_decoder id (trojan_node ''DE'' ''DE'')"
  by code_simp+


text \<open>The country keeps the server, and the group of the pool refers to it there.\<close>

lemma sample_result:
  assumes "xe_ident env = Some h" "h (trojan_node ''DE'' ''DE'') = v" "h (trojan_node ''Pool x'' ''Pool'') = v" "v \<noteq> []"
    and "parse_xray_element env 0 (sample_elements ! 0) = [trojan_node ''Pool x'' ''Pool'', pool_group [''Pool x'']]"
    and "parse_xray_element env 1 (sample_elements ! 1) = [trojan_node ''DE'' ''DE'']"
  shows "parse_nodes_from_xray_elements env id sample_elements = [pool_group [''DE''], trojan_node ''DE'' ''DE'']"
proof -
  note p = assms(2-5) assms(6)[unfolded One_nat_def]
  have n: "[0..<length sample_elements] = [0, 1]" by (simp add: sample_elements_parsed upt_rec)
  have s: "is_server (trojan_node t l)" "\<not> is_server (pool_group ms)" "nd_tag (trojan_node t l) = t" "nd_tag (pool_group ms) = ''Pool''"
    for t l ms by (simp_all add: is_server_def trojan_node_def pool_group_def scheme_group_def)
  have own: "xray_identity_owners env h sample_elements = [(v, 1), (v, 0)]"
    by (simp add: xray_identity_owners_def sample_elements_parsed(3) p s)
  have mem: "member_identities h [trojan_node ''Pool x'' ''Pool'', pool_group [''Pool x'']] (pool_group [''Pool x'']) = [v]"
    by (simp add: member_identities_def s p field_list_def get_list_def ob_def pool_group_def group_members_key_def)
  have a: "emit_owned env h sample_elements = \<lparr>oa_seen = [v], oa_final = [(v, ''DE'')],
      oa_out = [(pool_group [''Pool x''], [v]), (trojan_node ''DE'' ''DE'', [])]\<rparr>"
    unfolding emit_owned_def n Let_def own by (simp add: p s mem)
  have b: "all_bases [pool_group [''Pool x''], trojan_node ''DE'' ''DE''] = []" by code_simp
  show ?thesis
    unfolding parse_nodes_from_xray_elements_def assms(1) option.case Let_def a simplify_solo_tags_def
    by (simp add: b resolve_group_def s Let_def)
      (simp add: pool_group_def group_members_key_def)
qed


lemmas sample_kept = sample_result[OF _ refl sample_hash(2,1) sample_elements_parsed(1,2)]

lemma sample_env_simps:
  "xe_ident sample_xray_env = Some (node_identity_hash sample_decoder id)" "reorders id"
  by (simp_all add: sample_xray_env_def plain_xray_env_def reorders_def)

theorem xray_servers_kept_once_witness:
  "length (filter (\<lambda>x. is_server x \<and> node_identity_hash sample_decoder id x =
      node_identity_hash sample_decoder id (trojan_node ''DE'' ''DE''))
     (parse_nodes_from_xray_elements sample_xray_env id sample_elements)) = 1"
proof -
  have n: "1 < length sample_elements"
    "trojan_node ''DE'' ''DE'' \<in> set (parse_xray_element sample_xray_env 1 (sample_elements ! 1))"
    by (simp_all add: sample_elements_parsed[unfolded One_nat_def])
  have s: "is_server (trojan_node ''DE'' ''DE'')" by (simp add: is_server_def trojan_node_def scheme_group_def)
  show ?thesis by (rule xray_servers_kept_once[OF sample_env_simps sample_readable n s sample_hash(1)])
qed

theorem xray_groups_closed_witness:
  "\<exists>x \<in> set (parse_nodes_from_xray_elements sample_xray_env id sample_elements).
     nd_scheme x \<noteq> scheme_group \<and> nd_tag x = ''DE''"
proof (rule xray_groups_closed[OF sample_env_simps sample_readable])
  show "pool_group [''DE''] \<in> set (parse_nodes_from_xray_elements sample_xray_env id sample_elements)"
    by (simp add: sample_kept[OF sample_env_simps(1)])
  show "nd_scheme (pool_group [''DE'']) = scheme_group" by (simp add: pool_group_def)
  show "''DE'' \<in> set (group_member_tags (pool_group [''DE'']))" by code_simp
qed

theorem xray_owner_most_specific_witness:
  "map_of (xray_identity_owners sample_xray_env nd_server sample_elements) ''a'' = Some 1 \<and>
   xray_element_payload_count (sample_elements ! 1) < xray_element_payload_count (sample_elements ! 0)"
proof -
  have o: "map_of (xray_identity_owners sample_xray_env nd_server sample_elements) ''a'' = Some 1" by code_simp
  have l: "0 < length sample_elements"
    "trojan_node ''Pool x'' ''Pool'' \<in> set (parse_xray_element sample_xray_env 0 (sample_elements ! 0))"
    by (simp_all add: sample_elements_parsed)
  have s: "is_server (trojan_node ''Pool x'' ''Pool'')" "nd_server (trojan_node ''Pool x'' ''Pool'') = ''a''"
    by (simp_all add: is_server_def trojan_node_def scheme_group_def)
  from xray_owner_most_specific[OF o l s] show ?thesis using o by simp
qed

theorem solo_order_irrelevant_witness:
  "fst (simplify_solo_tags nd_server [''B'', ''A''] [trojan_node ''A x'' [], trojan_node ''B y'' []] []) =
   [trojan_node ''A'' [], trojan_node ''B'' []]"
proof -
  have "distinct [''B'', ''A'']" "set [''B'', ''A''] = set (all_bases [trojan_node ''A x'' [], trojan_node ''B y'' []])"
    by code_simp+
  note e = solo_order_irrelevant[OF this, of nd_server "[]"]
  show ?thesis unfolding e by code_simp
qed

end
