(* ===== verification/XrayNodes.thy ===== *)
theory XrayNodes
  imports XrayImport SourceLoading
begin

text \<open>
  What one element of an Xray subscription gives: usable servers, linked chains, groups over them;
  rings of dialer proxies; early data in a path.
\<close>

section \<open>What an element gives is usable\<close>

text \<open>A server or a hop the core can dial: an address, a port, a type the emitter knows, a tag of its own.\<close>

definition dialable :: "'a parsed_jump_scheme \<Rightarrow> bool" where
  "dialable n \<longleftrightarrow>
     nd_scheme n \<in> {''vless'', ''vmess'', ''trojan'', ''ss'', ''hysteria2'', ''socks''} \<and> nd_server n \<noteq> [] \<and>
     good_port (nd_port n) \<and> nd_outbound n \<noteq> None \<and> (nd_scheme n \<in> {''vless'', ''vmess'', ''trojan'', ''ss''} \<longrightarrow> nd_uuid n \<noteq> [])"

lemma endpoint_ok: "endpoint_of m = Inr (a, p) \<Longrightarrow> a \<noteq> [] \<and> good_port p"
  by (auto simp: endpoint_of_def Let_def split: if_splits)

lemma vnext_ok: "xray_vnext_endpoint xo = Inr (a, p, u) \<Longrightarrow> a \<noteq> [] \<and> good_port p"
  by (auto simp: xray_vnext_endpoint_def dest!: endpoint_ok split: option.splits sum.splits)

lemma server_ok: "xray_server_endpoint xo = Inr (a, p, u) \<Longrightarrow> a \<noteq> [] \<and> good_port p"
  by (auto simp: xray_server_endpoint_def dest!: endpoint_ok split: option.splits sum.splits)

lemma no_detour_parts:
  "map_of (base_outbound xo ty a p) ''detour'' = None"
  "map_of (with_stream xo m) ''detour'' = map_of m ''detour''"
  "map_of (vless_flow f m) ''detour'' = map_of m ''detour''"
  "map_of (put_str k s m) ''detour'' = (if k = ''detour'' \<and> s \<noteq> [] then Some (GStr s) else map_of m ''detour'')"
  "map_of (put_map k v m) ''detour'' = (if k = ''detour'' \<and> v \<noteq> None then map_option GMap v else map_of m ''detour'')"
  by (auto simp: base_outbound_def with_stream_def split_beta Let_def put_map_def vless_flow_def put_str_def store_simps
      split: option.splits)

lemma sanitized_no_detour:
  "map_of m ''detour'' = None \<Longrightarrow> map_of (sanitize_singbox_outbound_map m) ''detour'' = None"
  by (simp add: sanitized_field)

definition fresh_server :: "string \<Rightarrow> parsed_node \<Rightarrow> bool" where
  "fresh_server label n \<longleftrightarrow> dialable n \<and> is_server n \<and> nd_chain n = [] \<and> nd_label n = label \<and> \<not> nd_emit_raw n \<and>
     map_of (ob n) ''detour'' = None"

lemma built_node:
  assumes "xray_node_from_outbound xo label = Inr (Some n)"
  shows "fresh_server label n"
proof -
  consider "xray_build_vless xo label = Inr n" | "xray_build_vmess xo label = Inr n" | "xray_build_trojan xo label = Inr n"
    | "xray_build_shadowsocks xo label = Inr n" | "xray_build_hysteria2 xo label = Inr n"
    using assms unfolding xray_node_from_outbound_def Let_def
    by (auto simp: map_sum_def split: if_splits sum.splits)
  note c = this
  note defs = fresh_server_def dialable_def is_server_def xray_node_def ob_def no_detour_parts store_simps Let_def scheme_group_def
  show ?thesis
  proof (cases rule: c)
    case 1
    then show ?thesis unfolding xray_build_vless_def
      by (auto dest!: vnext_ok split: sum.splits if_splits simp: defs)
  next
    case 2
    then show ?thesis unfolding xray_build_vmess_def
      by (auto dest!: vnext_ok split: sum.splits if_splits simp: defs)
  next
    case 3
    then show ?thesis unfolding xray_build_trojan_def
      by (auto dest!: server_ok split: sum.splits if_splits simp: defs)
  next
    case 4
    then show ?thesis unfolding xray_build_shadowsocks_def
      by (auto dest!: server_ok split: sum.splits if_splits simp: defs)
  next
    case 5
    then show ?thesis unfolding xray_build_hysteria2_def
      by (auto dest!: server_ok split: sum.splits if_splits simp: defs sanitized_no_detour)
  qed
qed

lemma built_hop:
  assumes "xray_chain_hop_from_outbound xo tag label = Inr h"
  shows "dialable h \<and> nd_tag h = tag \<and> map_of (ob h) ''detour'' = None"
proof (cases "xray_protocol xo = ''socks''")
  case True
  then have "xray_build_jump_from_socks xo tag = Inr h" using assms by (simp add: xray_chain_hop_from_outbound_def)
  then show ?thesis unfolding xray_build_jump_from_socks_def Let_def
    by (auto dest!: endpoint_ok split: option.splits sum.splits simp: dialable_def ob_def no_detour_parts)
next
  case False
  then obtain n where n: "xray_node_from_outbound xo label = Inr (Some n)" "h = stamp_tag tag (parsed_jump.truncate n)"
    using assms by (auto simp: xray_chain_hop_from_outbound_def split: sum.splits option.splits)
  show ?thesis using built_node[OF n(1)] unfolding n(2)
    by (auto simp: fresh_server_def dialable_def stamp_tag_def parsed_jump.defs ob_def store_simps)
qed


text \<open>The hops of a chain: each dials through the next one, their tags are numbered.\<close>

definition hops_linked :: "parsed_jump list \<Rightarrow> bool" where
  "hops_linked hs \<longleftrightarrow>
     (\<forall>k < length hs. map_of (ob (hs ! k)) ''detour'' = (if Suc k < length hs then Some (GStr (nd_tag (hs ! Suc k))) else None))"

lemma hops_linked_Cons:
  "map_of (ob h) ''detour'' = None \<Longrightarrow> nd_outbound h \<noteq> None \<Longrightarrow> hops_linked hs \<Longrightarrow> hops_linked (link_hop h hs)"
  unfolding hops_linked_def
proof (cases hs)
  case (Cons h' hs')
  assume a: "map_of (ob h) ''detour'' = None" "nd_outbound h \<noteq> None"
    "\<forall>k < length hs. map_of (ob (hs ! k)) ''detour'' = (if Suc k < length hs then Some (GStr (nd_tag (hs ! Suc k))) else None)"
  have "map_of (ob (link_hop h hs ! k)) ''detour'' =
      (if Suc k < length (link_hop h hs) then Some (GStr (nd_tag (link_hop h hs ! Suc k))) else None)"
    if "k < length (link_hop h hs)" for k
    using a that Cons by (cases k) (auto simp: ob_def store_simps)
  then show "\<forall>k < length (link_hop h hs). map_of (ob (link_hop h hs ! k)) ''detour'' =
      (if Suc k < length (link_hop h hs) then Some (GStr (nd_tag (link_hop h hs ! Suc k))) else None)" by blast
qed simp

lemma link_hop_simps:
  "length (link_hop h hs) = Suc (length hs)" "map nd_tag (link_hop h hs) = nd_tag h # map nd_tag hs"
  "dialable h \<Longrightarrow> list_all dialable hs \<Longrightarrow> list_all dialable (link_hop h hs)"
  by (cases hs; simp add: dialable_def)+

lemma hops_ok:
  "xray_hops by_tag owner label left visited depth ref = Inr hs \<Longrightarrow>
   length hs \<le> left \<and> list_all dialable hs \<and> hops_linked hs \<and>
   map nd_tag hs = map (xray_hop_tag owner) [depth..<depth + length hs]"
proof (induction left arbitrary: visited depth ref hs)
  case 0
  then show ?case by (simp add: hops_linked_def)
next
  case (Suc left)
  show ?case
  proof (cases "ref = [] \<or> ref \<in> set visited")
    case True
    then show ?thesis using Suc(2) by (auto simp: hops_linked_def)
  next
    case False
    then obtain m hop rest where m: "map_of by_tag ref = Some m"
      and hop: "xray_chain_hop_from_outbound m (xray_hop_tag owner depth) label = Inr hop"
      and rest: "xray_hops by_tag owner label left (ref # visited) (Suc depth) (dialer_ref m) = Inr rest"
      and hs: "hs = link_hop hop rest"
      using Suc(2) by (auto simp: map_sum_def split: option.splits sum.splits)
    note IH = Suc(1)[OF rest] and h = built_hop[OF hop]
    have "map nd_tag hs = xray_hop_tag owner depth # map (xray_hop_tag owner) [Suc depth..<Suc depth + length rest]"
      using IH h by (simp add: hs link_hop_simps)
    moreover have "[depth..<depth + length hs] = depth # [Suc depth..<Suc depth + length rest]"
      by (subst upt_conv_Cons) (simp_all add: hs link_hop_simps)
    ultimately have "map nd_tag hs = map (xray_hop_tag owner) [depth..<depth + length hs]" by (simp only: list.map)
    moreover have "list_all dialable hs" using IH h link_hop_simps(3)[of hop rest] by (simp add: hs)
    moreover have "hops_linked hs" unfolding hs by (rule hops_linked_Cons) (use IH h in \<open>simp_all add: dialable_def\<close>)
    ultimately show ?thesis using IH by (simp add: hs link_hop_simps(1))
  qed
qed

lemma hop_tags_distinct: "distinct (map (xray_hop_tag owner) [a..<b])"
proof -
  have "inj (xray_hop_tag owner)"
  proof (rule injI)
    fix x y assume eq: "xray_hop_tag owner x = xray_hop_tag owner y"
    have d: "itoa (int k + 1) = itoa (int (Suc k))" for k by (simp add: add.commute)
    show "x = y" using eq itoa_nat_inj[of "Suc x" "Suc y"] by (auto simp: xray_hop_tag_def d itoa_ne[THEN not_sym] split: if_splits)
  qed
  then show ?thesis by (simp add: distinct_map inj_on_def inj_def)
qed

definition usable_server :: "parsed_node \<Rightarrow> bool" where
  "usable_server n \<longleftrightarrow> dialable n \<and> \<not> nd_emit_raw n \<and> length (nd_chain n) \<le> 8 \<and> list_all dialable (nd_chain n) \<and>
     distinct (map nd_tag (nd_chain n)) \<and> hops_linked (nd_chain n)"

lemma built_usable:
  assumes "xray_build_node env root i remarks base single p = Some n"
  shows "usable_server n \<and> is_server n \<and> nd_tag n = xray_element_node_tag base (snd p) (fst p) single"
proof -
  obtain k xo where p: "p = (k, xo)" by force
  define l where "l = xray_label remarks xo i"
  obtain n0 n1 where n0: "xray_node_from_outbound xo l = Inr (Some n0)"
    and n1: "attach_xray_dialer_chain (xray_by_tag root) l xo (stamp_tag (xray_element_node_tag base xo k single) n0) = Inr n1"
    and n: "n = n1"
    using assms by (auto simp: xray_build_node_def p l_def[symmetric] split: sum.splits option.splits if_splits)
  note f = built_node[OF n0]
  define n2 where "n2 = stamp_tag (xray_element_node_tag base xo k single) n0"
  have n2: "dialable n2" "is_server n2" "nd_chain n2 = []" "\<not> nd_emit_raw n2" "nd_tag n2 = xray_element_node_tag base xo k single"
    using f by (auto simp: n2_def fresh_server_def dialable_def is_server_def stamp_tag_def)
  show ?thesis
  proof (cases "dialer_ref xo = []")
    case True
    then show ?thesis using n1 n n2
      by (simp add: attach_xray_dialer_chain_def n2_def[symmetric] usable_server_def hops_linked_def p)
  next
    case False
    then obtain hops where h: "xray_hops (xray_by_tag root) (nd_tag n2) l max_detour_chain_depth
        (if xray_map_string xo ''tag'' \<noteq> [] then [xray_map_string xo ''tag''] else []) 0 (dialer_ref xo) = Inr hops"
      and ns: "n = sync_jump_from_chain (n2\<lparr>nd_chain := hops\<rparr>)"
      using n1 n by (auto simp: attach_xray_dialer_chain_def n2_def[symmetric] Let_def map_sum_def split: sum.splits)
    note ho = hops_ok[OF h]
    have "distinct (map nd_tag hops)" using ho hop_tags_distinct by metis
    moreover have "nd_chain n = hops" "dialable n = dialable n2" "is_server n = is_server n2" "nd_emit_raw n = nd_emit_raw n2" "nd_tag n = nd_tag n2"
      unfolding ns by (cases hops; simp add: sync_jump_from_chain_def dialable_def is_server_def)+
    ultimately show ?thesis using ho n2 by (simp add: usable_server_def max_detour_chain_depth_def p)
  qed
qed

text \<open>
  C23. Whatever an Xray element holds, what it gives is usable: a server has an address, a port, a
  credential and an outbound of a type the emitter knows, its chain has at most eight hops of
  different tags, each usable and dialling through the next one, and a group lists exactly the
  servers of its element.
\<close>

theorem xray_element_usable:
  assumes "n \<in> set (parse_xray_element env i raw)"
  shows "if nd_scheme n = scheme_group
    then group_member_tags n = filter (\<lambda>t. trim_space t \<noteq> []) (map nd_tag (filter is_server (parse_xray_element env i raw))) \<and>
      filter is_server (parse_xray_element env i raw) \<noteq> []
    else usable_server n"
proof -
  obtain root where root: "into_map raw = Some root" using assms by (cases "into_map raw") (simp_all add: parse_xray_element_def)
  have ne: "\<not> (\<not> xray_element_has_protocol_outbounds root \<or> xray_payload root = [])"
  proof
    assume "\<not> xray_element_has_protocol_outbounds root \<or> xray_payload root = []"
    then have "parse_xray_element env i raw = []" unfolding parse_xray_element_def root option.case by (rule if_P)
    then show False using assms by simp
  qed
  define remarks where "remarks = trim_space (xray_map_string root ''remarks'')"
  define single where "single = (length (xray_payload root) = 1 \<and> \<not> xray_element_has_balancer root)"
  define nodes where "nodes = dedup_nodes_by_identity (xe_ident env)
    (List.map_filter (xray_build_node env root i remarks (xray_tag_base_from_root (xe_letter env) remarks i) single)
      (enumerate 0 (xray_payload root)))"
  define grp where "grp = (if xray_element_has_balancer root then xray_balancer_from_element root remarks (map nd_tag nodes) else None)"
  have parsed: "parse_xray_element env i raw = nodes @ (case grp of None \<Rightarrow> [] | Some g \<Rightarrow> [g])"
    unfolding parse_xray_element_def root option.case if_not_P[OF ne] Let_def
    by (simp only: remarks_def single_def nodes_def grp_def)
  have nd: "usable_server x \<and> is_server x" if "x \<in> set nodes" for x
    using that set_dedup_identity unfolding nodes_def by (fastforce simp: set_map_filter_some dest: built_usable)
  have g: "nd_scheme x = scheme_group \<and> group_member_tags x = filter (\<lambda>t. trim_space t \<noteq> []) (map nd_tag nodes) \<and> nodes \<noteq> []"
    if x: "grp = Some x" for x
  proof -
    have "nodes \<noteq> []" "nd_scheme x = scheme_group" "map_of (ob x) group_members_key = Some (GList (map GStr (map nd_tag nodes)))"
      using x by (auto simp: grp_def xray_balancer_from_element_def Let_def ob_def group_members_key_def split: if_splits option.splits)
    then show ?thesis by (simp only: group_member_tags_def option.case gval.case map_filter_GStr) simp
  qed
  have "filter is_server (parse_xray_element env i raw) = nodes"
    using nd g by (auto simp: parsed is_server_def filter_id_conv split: option.split)
  moreover have "x \<in> set nodes \<or> grp = Some x" if "x \<in> set (parse_xray_element env i raw)" for x
    using that by (auto simp: parsed split: option.splits)
  ultimately show ?thesis using assms nd g by (auto simp: is_server_def)
qed

definition chained_element :: gval where
  "chained_element = of_json (JObj [(''outbounds'', JArr
     [JObj [(''protocol'', JStr ''trojan''),
        (''settings'', JObj [(''servers'', JArr [JObj [(''address'', JStr ''a''), (''password'', JStr ''p''), (''port'', JNum 443)]])]),
        (''streamSettings'', JObj [(''sockopt'', JObj [(''dialerProxy'', JStr ''s'')])]), (''tag'', JStr ''m'')],
      JObj [(''protocol'', JStr ''socks''),
        (''settings'', JObj [(''servers'', JArr [JObj [(''address'', JStr ''b''), (''port'', JNum 1080)]])]), (''tag'', JStr ''s'')]]),
     (''remarks'', JStr ''DE'')])"

definition bare_env :: xray_env where
  "bare_env = \<lparr>xe_letter = \<lambda>_. True, xe_compile = no_regex, xe_skip = [], xe_ident = None\<rparr>"

lemma map_single: "map f xs = [y] \<Longrightarrow> \<exists>x. xs = [x] \<and> f x = y"
  by (cases xs) auto

theorem xray_element_usable_witness:
  "\<exists>n. parse_xray_element bare_env 0 chained_element = [n] \<and> nd_tag n = ''DE'' \<and>
     map nd_tag (nd_chain n) = [''DE_jump_server''] \<and> usable_server n"
proof -
  have p: "map (\<lambda>n. (nd_tag n, nd_scheme n, map nd_tag (nd_chain n))) (parse_xray_element bare_env 0 chained_element) =
      [(''DE'', ''trojan'', [''DE_jump_server''])]" by code_simp
  obtain n where n: "parse_xray_element bare_env 0 chained_element = [n]"
    "(nd_tag n, nd_scheme n, map nd_tag (nd_chain n)) = (''DE'', ''trojan'', [''DE_jump_server''])"
    using map_single[OF p] by (elim exE conjE)
  have "n \<in> set (parse_xray_element bare_env 0 chained_element)" by (simp add: n(1))
  from xray_element_usable[OF this] n(2) have "usable_server n" by (simp add: scheme_group_def)
  with n show ?thesis by (intro exI[of _ n]) simp
qed

text \<open>
  Servers on a ring of dialer proxies are lost without a message: each of them is the target of
  another, so the element keeps none as a node of its own. (The import of sing-box files keeps a
  node of such a ring.)
\<close>

theorem xray_ring_is_lost:
  assumes "into_map raw = Some root" "set (map (\<lambda>m. xray_map_string m ''tag'') (xray_candidates root)) \<subseteq> set (map dialer_ref (xray_candidates root))"
    and "\<forall>m \<in> set (xray_candidates root). xray_map_string m ''tag'' \<noteq> []"
  shows "parse_xray_element env i raw = []"
proof -
  have "xray_payload root = []" using assms(2,3) by (auto simp: xray_payload_def dialer_targets_def filter_empty_conv)
  then show ?thesis by (simp add: parse_xray_element_def assms(1))
qed


definition ring_element :: gval where
  "ring_element = of_json (JObj [(''outbounds'', JArr (map (\<lambda>(t, r). JObj
     [(''protocol'', JStr ''trojan''),
      (''settings'', JObj [(''servers'', JArr [JObj [(''address'', JStr t), (''password'', JStr ''p''), (''port'', JNum 443)]])]),
      (''streamSettings'', JObj [(''sockopt'', JObj [(''dialerProxy'', JStr r)])]), (''tag'', JStr t)])
     [(''a'', ''b''), (''b'', ''a'')]))])"

theorem xray_ring_is_lost_witness:
  "parse_xray_element bare_env 0 ring_element = [] \<and>
   (case ring_element of GMap root \<Rightarrow> length (xray_candidates root) = 2 | _ \<Rightarrow> False)"
proof -
  obtain root where r: "into_map ring_element = Some root" by (simp add: ring_element_def into_map_def)
  have e: "(case ring_element of GMap m \<Rightarrow> map (\<lambda>m. (xray_map_string m ''tag'', dialer_ref m)) (xray_candidates m) | _ \<Rightarrow> []) =
      [(''a'', ''b''), (''b'', ''a'')]" by code_simp
  have g: "ring_element = GMap root" using r by (simp add: ring_element_def into_map_def)
  then have c: "map (\<lambda>m. (xray_map_string m ''tag'', dialer_ref m)) (xray_candidates root) = [(''a'', ''b''), (''b'', ''a'')]"
    using e by (simp only: g gval.case)
  then obtain x y where xy: "xray_candidates root = [x, y]" "xray_map_string x ''tag'' = ''a''" "dialer_ref x = ''b''"
    "xray_map_string y ''tag'' = ''b''" "dialer_ref y = ''a''" by (auto simp: map_eq_Cons_conv)
  have "parse_xray_element bare_env 0 ring_element = []" by (rule xray_ring_is_lost[OF r]) (auto simp: xy)
  then show ?thesis by (simp add: g xy(1))
qed

section \<open>Early data in a path\<close>

lemma nat_digits_range: "c \<in> set (nat_digits n) \<Longrightarrow> 48 \<le> (of_char c :: nat) \<and> (of_char c :: nat) \<le> 57"
proof (induction n rule: nat_digits.induct)
  case (1 n)
  show ?case using 1 by (subst (asm) (2) nat_digits.simps) (auto split: if_splits)
qed

lemma digit_not:
  assumes "c \<in> set (itoa (int n))"
  shows "c \<notin> {CHR ''%'', CHR ''+'', CHR ''&'', CHR '';'', CHR ''='', CHR ''?''}"
  using nat_digits_range[of c n] assms by (auto simp: itoa_def)

lemma query_unescape_plain: "\<forall>c \<in> set s. c \<noteq> CHR ''%'' \<and> c \<noteq> CHR ''+'' \<Longrightarrow> query_unescape s = Some s"
  by (induction s) auto

lemma split_char_absent: "d \<notin> set s \<Longrightarrow> split_char d s = [s]"
  by (induction s) auto

lemma cut_at_append: "d \<notin> set a \<Longrightarrow> cut_at d (a @ d # b) = (a, b)"
  by (induction a) (auto simp: cut_at_def)

lemma parse_ed: "parse_query (''ed='' @ itoa (int n)) = Some [(''ed'', itoa (int n))]"
proof -
  have d: "CHR ''&'' \<notin> set (itoa (int n))" "CHR '';'' \<notin> set (itoa (int n))" "CHR ''='' \<notin> set (itoa (int n))"
    "\<forall>c \<in> set (itoa (int n)). c \<noteq> CHR ''%'' \<and> c \<noteq> CHR ''+''"
    using digit_not[of _ n] by auto
  have "cut_at (CHR ''='') (''ed='' @ itoa (int n)) = (''ed'', itoa (int n))"
    using cut_at_append[of "CHR ''=''" "''ed''" "itoa (int n)"] by simp
  moreover have "split_char (CHR ''&'') (''ed='' @ itoa (int n)) = [''ed='' @ itoa (int n)]"
    by (rule split_char_absent) (use d(1) in simp)
  ultimately show ?thesis using d by (simp add: parse_query_def parse_pair_def query_unescape_plain Let_def)
qed

lemma path_with_tail:
  assumes "trim_space path = path" "solid tail"
  shows "trim_space (path @ tail) = path @ tail"
proof -
  have "\<not> is_space (hd (path @ tail))"
  proof (cases path)
    case (Cons c cs)
    then have "\<not> is_space (hd (trim_space path))" using trimmed_ends[of path] assms(1) by (simp add: solid_def)
    then show ?thesis using Cons assms(1) by simp
  qed (use assms(2) in \<open>simp add: solid_def\<close>)
  moreover have "tail \<noteq> []" "\<not> is_space (last (path @ tail))" using assms(2) by (auto simp: solid_def)
  ultimately have "solid (path @ tail)" by (simp add: solid_def)
  then show ?thesis using solid_trim by blast
qed

lemma cut_at_before: "d \<in> set a \<Longrightarrow> fst (cut_at d (a @ b)) = fst (cut_at d a)"
  by (induction a) (auto simp: cut_at_def)

lemma split_path_part:
  "CHR ''?'' \<in> set (trim_space s) \<Longrightarrow> fst (split_ws_early_data s) = fst (cut_at (CHR ''?'') (trim_space s))"
  by (auto simp: split_ws_early_data_def split_beta Let_def split: option.split)

text \<open>
  C34. The early-data size a share link writes behind a path is read back from it, with the path
  unchanged, when the path has no query of its own; a size that is not positive is not written and
  read as none. Of a path with a query of its own the part before the query is read back. The path
  has no space at its ends (both sides trim it) and the size is a 64-bit number.
\<close>

theorem early_data_roundtrip:
  assumes "trim_space path = path" "ed < 2 ^ 63"
  shows "if CHR ''?'' \<in> set path
    then fst (split_ws_early_data (append_early_data_to_path path ed)) = fst (cut_at (CHR ''?'') path)
    else split_ws_early_data (append_early_data_to_path path ed) = (path, max 0 ed)"
proof (cases "0 < ed")
  case False
  then have "append_early_data_to_path path ed = path" by (simp add: append_early_data_to_path_def)
  then show ?thesis using split_path_part[of path] assms(1) False
    by (auto simp: split_ws_early_data_def split_beta Let_def)
next
  case True
  then obtain n where n: "ed = int n" by (metis zero_less_imp_eq_int)
  have digits: "solid (itoa ed)"
    using itoa_nat_solid[of "last (itoa ed)" n] itoa_nat_solid[of "hd (itoa ed)" n] last_in_set[OF itoa_ne, of ed] list.set_sel(1)[OF itoa_ne, of ed]
    by (simp add: solid_def n)
  define tail where "tail = (if CHR ''?'' \<in> set path then CHR ''&'' else CHR ''?'') # ''ed='' @ itoa ed"
  have s: "append_early_data_to_path path ed = path @ tail"
    using True by (simp add: append_early_data_to_path_def tail_def)
  have "solid tail" using digits by (auto simp: tail_def solid_def is_space_def)
  note t = path_with_tail[OF assms(1) this]
  show ?thesis
  proof (cases "CHR ''?'' \<in> set path")
    case q: True
    then show ?thesis unfolding s using split_path_part[of "path @ tail"] by (simp add: t cut_at_before)
  next
    case q: False
    have c: "cut_at (CHR ''?'') (path @ tail) = (path, ''ed='' @ itoa ed)"
      using q cut_at_append[of "CHR ''?''" path] by (simp add: tail_def)
    have i: "trim_space (itoa ed) = itoa ed" using digits solid_trim by blast
    have a: "atoi (itoa ed) = Some ed" by (rule atoi_itoa) (use True assms(2) in auto)
    have "CHR ''?'' \<in> set (path @ tail)" using q by (simp add: tail_def)
    then have "split_ws_early_data (path @ tail) = (path, ed)"
      using True parse_ed[of n] unfolding split_ws_early_data_def t Let_def c
      by (simp add: n[symmetric] query_get_fold_def i a)
    then show ?thesis using q True s by simp
  qed
qed

theorem early_data_roundtrip_witness: "split_ws_early_data (append_early_data_to_path ''/ws'' 2560) = (''/ws'', 2560)"
proof -
  have "trim_space ''/ws'' = ''/ws''" by (simp add: trim_space_def is_space_def)
  from early_data_roundtrip[OF this, of 2560] show ?thesis by simp
qed

end
