(* ===== verification/Dns.thy ===== *)
theory Dns
  imports Route
begin

text \<open>
  The DNS section: the entries of the state and their flat form on disk
  (\<open>core/state/dns_options.go\<close>), their synchronisation with the active presets
  (\<open>core/state/sync_dns.go\<close>), the resolver (\<open>core/build/resolve_dns.go\<close>), the merge of the template
  section with the editor's data (\<open>core/build/dns_merge.go\<close>) and with the presets
  (\<open>core/build/preset_merge.go\<close>), the template defaults (\<open>core/build/rules_pipeline.go\<close>) and the
  scalars that become template variables (\<open>core/build/sync_dns.go\<close>). A nil map is the empty one.
\<close>

section \<open>Entries of the state, \<open>dns_options.go\<close>\<close>

datatype dns_server_kind = DSTemplate | DSPreset | DSUser | DSOther string

datatype dns_rule_kind = DRPreset | DRUser | DROther string

record dns_server =
  sv_kind :: dns_server_kind
  sv_tag :: string
  sv_ref :: string
  sv_enabled :: bool
  sv_body :: obj

record dns_rule =
  dr_kind :: dns_rule_kind
  dr_ref :: string
  dr_enabled :: bool
  dr_body :: obj

record dns_options =
  dn_strategy :: string
  dn_final :: string
  dn_resolver :: string
  dn_servers :: "dns_server list"
  dn_rules :: "dns_rule list"

definition server_kind_name :: "dns_server_kind \<Rightarrow> string" where
  "server_kind_name k =
     (case k of DSTemplate \<Rightarrow> ''template'' | DSPreset \<Rightarrow> ''preset'' | DSUser \<Rightarrow> ''user'' | DSOther s \<Rightarrow> s)"

definition server_kind_of :: "string \<Rightarrow> dns_server_kind" where
  "server_kind_of s =
     (if s = ''template'' then DSTemplate else if s = ''preset'' then DSPreset
      else if s = ''user'' then DSUser else DSOther s)"

definition rule_kind_name :: "dns_rule_kind \<Rightarrow> string" where
  "rule_kind_name k = (case k of DRPreset \<Rightarrow> ''preset'' | DRUser \<Rightarrow> ''user'' | DROther s \<Rightarrow> s)"

definition rule_kind_of :: "string \<Rightarrow> dns_rule_kind" where
  "rule_kind_of s = (if s = ''preset'' then DRPreset else if s = ''user'' then DRUser else DROther s)"

text \<open>The keys kept at the top level of an entry, never in its body.\<close>

definition header_keys :: "string list" where
  "header_keys = [''kind'', ''ref'', ''enabled'']"

definition without_header :: "obj \<Rightarrow> obj" where
  "without_header m = filter (\<lambda>p. fst p \<notin> set header_keys) m"

definition marshal_dns_server :: "dns_server \<Rightarrow> obj" where
  "marshal_dns_server s =
     (let out = sput ''kind'' (JStr (server_kind_name (sv_kind s))) [(''enabled'', JBool (sv_enabled s))];
          out = (case sv_kind s of
                   DSPreset \<Rightarrow> put_str ''ref'' (sv_ref s) out
                 | DSOther _ \<Rightarrow> out
                 | _ \<Rightarrow> put_str ''tag'' (sv_tag s) out)
      in if sv_kind s = DSUser
         then sput_all (filter (\<lambda>p. fst p = ''tag'' \<longrightarrow> sv_tag s = []) (without_header (sv_body s))) out
         else out)"

definition unmarshal_dns_server :: "json \<Rightarrow> dns_server option" where
  "unmarshal_dns_server j =
     map_option (\<lambda>raw.
       (let k = server_kind_of (str_field raw ''kind'') in
        \<lparr>sv_kind = k, sv_tag = str_field raw ''tag'', sv_ref = str_field raw ''ref'',
         sv_enabled = bool_field raw ''enabled'',
         sv_body = (if k = DSUser then without_header raw else [])\<rparr>)) (body_obj j)"

definition marshal_dns_rule :: "dns_rule \<Rightarrow> obj" where
  "marshal_dns_rule r =
     (let out = sput ''kind'' (JStr (rule_kind_name (dr_kind r))) [(''enabled'', JBool (dr_enabled r))];
          out = (if dr_kind r = DRPreset then put_str ''ref'' (dr_ref r) out else out)
      in if dr_kind r = DRUser then sput_all (without_header (dr_body r)) out else out)"

definition unmarshal_dns_rule :: "json \<Rightarrow> dns_rule option" where
  "unmarshal_dns_rule j =
     map_option (\<lambda>raw.
       (let k = rule_kind_of (str_field raw ''kind'') in
        \<lparr>dr_kind = k, dr_ref = str_field raw ''ref'', dr_enabled = bool_field raw ''enabled'',
         dr_body = (if k = DRUser then without_header raw else [])\<rparr>)) (body_obj j)"

definition index_where :: "('a \<Rightarrow> bool) \<Rightarrow> 'a list \<Rightarrow> int" where
  "index_where P xs = (if list_ex P xs then int (length (takeWhile (\<lambda>x. \<not> P x) xs)) else -1)"

definition find_server_by_tag :: "dns_options option \<Rightarrow> string \<Rightarrow> int" where
  "find_server_by_tag d tag =
     (case d of None \<Rightarrow> -1
      | Some d \<Rightarrow> index_where (\<lambda>s. sv_kind s \<in> {DSTemplate, DSUser} \<and> sv_tag s = tag) (dn_servers d))"

definition find_server_by_ref :: "dns_options option \<Rightarrow> string \<Rightarrow> int" where
  "find_server_by_ref d ref =
     (case d of None \<Rightarrow> -1
      | Some d \<Rightarrow> index_where (\<lambda>s. sv_kind s = DSPreset \<and> sv_ref s = ref) (dn_servers d))"

definition find_rule_by_ref :: "dns_options option \<Rightarrow> string \<Rightarrow> int" where
  "find_rule_by_ref d ref =
     (case d of None \<Rightarrow> -1
      | Some d \<Rightarrow> index_where (\<lambda>r. dr_kind r = DRPreset \<and> dr_ref r = ref) (dn_rules d))"

definition dns_options_empty :: "dns_options option \<Rightarrow> bool" where
  "dns_options_empty d \<longleftrightarrow>
     (case d of None \<Rightarrow> True
      | Some d \<Rightarrow> dn_strategy d = [] \<and> dn_final d = [] \<and> dn_resolver d = [] \<and> dn_servers d = [] \<and> dn_rules d = [])"

section \<open>Synchronisation with the active presets, \<open>core/state/sync_dns.go\<close>\<close>

text \<open>What synchronisation sees of a preset: the interface \<open>PresetLite\<close> and its implementation.\<close>

record preset_lite =
  pl_dns_server_tags :: "string list"
  pl_has_dns_rule :: bool

definition preset_dns_server_tags :: "preset \<Rightarrow> string list" where
  "preset_dns_server_tags p = filter (\<lambda>t. t \<noteq> []) (map ds_tag (p_dns_servers p))"

definition preset_has_dns_rule :: "preset \<Rightarrow> bool" where
  "preset_has_dns_rule p \<longleftrightarrow> p_dns_rule p \<noteq> None \<or> p_dns_rules p \<noteq> []"

definition preset_lite_map :: "preset list \<Rightarrow> string \<rightharpoonup> preset_lite" where
  "preset_lite_map ps i =
     map_option (\<lambda>p. \<lparr>pl_dns_server_tags = preset_dns_server_tags p, pl_has_dns_rule = preset_has_dns_rule p\<rparr>)
       (preset_by_id ps i)"

definition is_active_preset_rule :: "rule \<Rightarrow> bool" where
  "is_active_preset_rule r \<longleftrightarrow> r_kind r = RKPreset \<and> r_enabled r \<and> r_ref r \<noteq> []"

definition expected_server_refs :: "rule list \<Rightarrow> (string \<rightharpoonup> preset_lite) \<Rightarrow> string list" where
  "expected_server_refs rules pl =
     concat (map (\<lambda>r. case pl (r_ref r) of
         None \<Rightarrow> []
       | Some p \<Rightarrow> map (\<lambda>t. r_ref r @ '':'' @ t) (pl_dns_server_tags p)) (filter is_active_preset_rule rules))"

definition expected_rule_refs :: "rule list \<Rightarrow> (string \<rightharpoonup> preset_lite) \<Rightarrow> string list" where
  "expected_rule_refs rules pl =
     filter (\<lambda>i. case pl i of None \<Rightarrow> False | Some p \<Rightarrow> pl_has_dns_rule p)
       (map r_ref (filter is_active_preset_rule rules))"

text \<open>One list of entries: drop the stale ones, then append the missing ones in order.\<close>

fun add_missing ::
    "('e \<Rightarrow> bool) \<Rightarrow> ('e \<Rightarrow> string) \<Rightarrow> (string \<Rightarrow> 'e) \<Rightarrow> string list \<Rightarrow> string list \<Rightarrow> 'e list \<Rightarrow> 'e list" where
  "add_missing is_preset ref mk present [] kept = kept"
| "add_missing is_preset ref mk present (i # is) kept =
     add_missing is_preset ref mk present is
       (if i \<in> set present \<or> list_ex (\<lambda>e. is_preset e \<and> ref e = i) kept then kept else kept @ [mk i])"

definition sync_entries ::
    "('e \<Rightarrow> bool) \<Rightarrow> ('e \<Rightarrow> string) \<Rightarrow> (string \<Rightarrow> 'e) \<Rightarrow> string list \<Rightarrow> 'e list \<Rightarrow> 'e list" where
  "sync_entries is_preset ref mk expected es =
     (let kept = filter (\<lambda>e. is_preset e \<longrightarrow> ref e \<in> set expected) es;
          present = map ref (filter is_preset kept)
      in add_missing is_preset ref mk present expected kept)"

definition new_server :: "string \<Rightarrow> dns_server" where
  "new_server i = \<lparr>sv_kind = DSPreset, sv_tag = [], sv_ref = i, sv_enabled = True, sv_body = []\<rparr>"

definition new_rule :: "string \<Rightarrow> dns_rule" where
  "new_rule i = \<lparr>dr_kind = DRPreset, dr_ref = i, dr_enabled = True, dr_body = []\<rparr>"

definition sync_servers :: "string list \<Rightarrow> dns_server list \<Rightarrow> dns_server list" where
  "sync_servers = sync_entries (\<lambda>s. sv_kind s = DSPreset) sv_ref new_server"

definition sync_rules :: "string list \<Rightarrow> dns_rule list \<Rightarrow> dns_rule list" where
  "sync_rules = sync_entries (\<lambda>r. dr_kind r = DRPreset) dr_ref new_rule"

definition sync_dns_options :: "rule list \<Rightarrow> (string \<rightharpoonup> preset_lite) \<Rightarrow> dns_options \<Rightarrow> dns_options" where
  "sync_dns_options rules pl d =
     d\<lparr>dn_servers := sync_servers (expected_server_refs rules pl) (dn_servers d),
       dn_rules := sync_rules (expected_rule_refs rules pl) (dn_rules d)\<rparr>"

text \<open>The parts of a reference.\<close>

definition preset_id_from_server_ref :: "string \<Rightarrow> string" where
  "preset_id_from_server_ref ref = (if CHR '':'' \<in> set ref then takeWhile (\<lambda>c. c \<noteq> CHR '':'') ref else [])"

definition local_tag_from_server_ref :: "string \<Rightarrow> string" where
  "local_tag_from_server_ref ref =
     (if CHR '':'' \<in> set ref \<and> takeWhile (\<lambda>c. c \<noteq> CHR '':'') ref \<noteq> []
      then tl (dropWhile (\<lambda>c. c \<noteq> CHR '':'') ref) else [])"

section \<open>Template defaults, \<open>rules_pipeline.go\<close>\<close>

record template_dns_server =
  tds_tag :: string
  tds_enabled :: bool
  tds_required :: bool
  tds_raw :: obj

definition tag_from_body :: "obj \<Rightarrow> string" where
  "tag_from_body m = str_field m ''tag''"

definition body_required :: "obj \<Rightarrow> bool" where
  "body_required m \<longleftrightarrow> bool_field m ''required''"

definition parse_template_dns_defaults :: "json list \<Rightarrow> template_dns_server list" where
  "parse_template_dns_defaults js =
     map (\<lambda>m. let enabled = (case map_of m ''enabled'' of Some (JBool b) \<Rightarrow> b | _ \<Rightarrow> True) in
              \<lparr>tds_tag = str_field m ''tag'', tds_enabled = (enabled \<or> bool_field m ''required''),
               tds_required = bool_field m ''required'', tds_raw = m\<rparr>)
       (List.map_filter body_obj js)"

datatype dns_warning = DuplicateServerTag string | RequiredDisabled string

fun validate_servers :: "string list \<Rightarrow> template_dns_server list \<Rightarrow> dns_warning list" where
  "validate_servers seen [] = []"
| "validate_servers seen (s # ss) =
     (if tds_tag s = [] then validate_servers seen ss
      else if tds_tag s \<in> set seen then DuplicateServerTag (tds_tag s) # validate_servers seen ss
      else (if tds_required s \<and> map_of (tds_raw s) ''enabled'' = Some (JBool False)
            then [RequiredDisabled (tds_tag s)] else []) @ validate_servers (tds_tag s # seen) ss)"

definition validate_template_dns_servers :: "template_dns_server list \<Rightarrow> dns_warning list" where
  "validate_template_dns_servers ss = validate_servers [] ss"

section \<open>Scalars, \<open>core/build/sync_dns.go\<close>\<close>

record dns_scalars =
  dx_strategy :: string
  dx_final :: string
  dx_resolver :: string
  dx_resolver_unset :: bool

definition template_declares_var :: "template_var list \<Rightarrow> string \<Rightarrow> bool" where
  "template_declares_var vs name \<longleftrightarrow> list_ex (\<lambda>v. \<not> tv_separator v \<and> tv_name v = name) vs"

definition store_scalar :: "string \<Rightarrow> string \<Rightarrow> (string \<rightharpoonup> string) \<Rightarrow> string \<rightharpoonup> string" where
  "store_scalar name value m = (if trim_space value \<noteq> [] then m(name \<mapsto> trim_space value) else m(name := None))"

definition apply_dns_scalars_to_vars ::
    "template_var list \<Rightarrow> dns_scalars \<Rightarrow> (string \<rightharpoonup> string) \<Rightarrow> string \<rightharpoonup> string" where
  "apply_dns_scalars_to_vars vs cfg vars =
     (let vars = (if template_declares_var vs ''dns_strategy''
                  then store_scalar ''dns_strategy'' (dx_strategy cfg) vars else vars);
          vars = vars(''dns_independent_cache'' := None);
          vars = (if template_declares_var vs ''dns_final''
                  then store_scalar ''dns_final'' (dx_final cfg) vars else vars)
      in if template_declares_var vs ''dns_default_domain_resolver''
         then (if dx_resolver_unset cfg then vars(''dns_default_domain_resolver'' := None)
               else store_scalar ''dns_default_domain_resolver'' (dx_resolver cfg) vars)
         else vars)"

section \<open>The editor's data over the template section, \<open>dns_merge.go\<close>\<close>

record dns_config =
  dc_servers :: "json list"
  dc_rules_text :: string
  dc_final :: string
  dc_strategy :: string

datatype dns_error =
    BadDnsServer
  | RulesNotArray
  | RuleNotObject nat
  | TextNotRules
  | BadTemplateDns
  | BadLine nat
  | LineNotObject nat

definition dns_server_enabled :: "obj \<Rightarrow> bool" where
  "dns_server_enabled m \<longleftrightarrow> (case map_of m ''enabled'' of Some (JBool b) \<Rightarrow> b | _ \<Rightarrow> True)"

definition dns_server_has_body :: "obj \<Rightarrow> bool" where
  "dns_server_has_body m \<longleftrightarrow>
     list_ex (\<lambda>k. case map_of m k of None \<Rightarrow> False | Some JNull \<Rightarrow> False | Some _ \<Rightarrow> True)
       [''type'', ''server'', ''address'']"

definition wizard_only_keys :: "string list" where
  "wizard_only_keys =
     [''description'', ''enabled'', ''required'', ''title'', ''if'', ''if_or'', ''default_enabled'']"

definition strip_dns_wizard_only_fields :: "obj \<Rightarrow> obj" where
  "strip_dns_wizard_only_fields m =
     filter (\<lambda>p. fst p \<notin> set wizard_only_keys \<and> \<not> prefix ''_'' (fst p)) m"

definition first_enabled_dns_server_tag :: "json list \<Rightarrow> string" where
  "first_enabled_dns_server_tag js =
     (case filter (\<lambda>t. t \<noteq> [])
            (map (\<lambda>m. trim_space (str_field m ''tag'')) (filter dns_server_enabled (List.map_filter body_obj js))) of
        [] \<Rightarrow> [] | t # _ \<Rightarrow> t)"

fun parse_dns_rules_array :: "nat \<Rightarrow> json list \<Rightarrow> dns_error + json list" where
  "parse_dns_rules_array i [] = Inr []"
| "parse_dns_rules_array i (j # js) =
     (case j of
        JObj m \<Rightarrow> map_sum id (Cons (JObj m)) (parse_dns_rules_array (Suc i) js)
      | _ \<Rightarrow> Inl (RuleNotObject (Suc i)))"

fun parse_dns_rule_lines :: "(string \<Rightarrow> json option) \<Rightarrow> nat \<Rightarrow> string list \<Rightarrow> dns_error + json list" where
  "parse_dns_rule_lines decode i [] = Inr []"
| "parse_dns_rule_lines decode i (l # ls) =
     (let s = trim_space l in
      if s = [] \<or> prefix ''#'' s then parse_dns_rule_lines decode (Suc i) ls
      else (case decode s of
              None \<Rightarrow> Inl (BadLine (Suc i))
            | Some (JObj m) \<Rightarrow> map_sum id (Cons (JObj m)) (parse_dns_rule_lines decode (Suc i) ls)
            | Some _ \<Rightarrow> Inl (LineNotObject (Suc i))))"

text \<open>\<open>None\<close> is the nil slice, which is printed as \<open>null\<close>.\<close>

definition parse_dns_rules_text :: "(string \<Rightarrow> json option) \<Rightarrow> string \<Rightarrow> dns_error + json list option" where
  "parse_dns_rules_text decode text0 =
     (let s = trim_space text0 in
      if s = [] then Inr None
      else (case decode s of
              Some (JObj m) \<Rightarrow>
                (case map_of m ''rules'' of
                   Some (JArr xs) \<Rightarrow> map_sum id Some (parse_dns_rules_array 0 xs)
                 | Some _ \<Rightarrow> Inl RulesNotArray
                 | None \<Rightarrow> Inr (Some [JObj m]))
            | Some (JArr xs) \<Rightarrow> map_sum id Some (parse_dns_rules_array 0 xs)
            | Some _ \<Rightarrow> Inl TextNotRules
            | None \<Rightarrow> map_sum id (\<lambda>rs. if rs = [] then None else Some rs) (parse_dns_rule_lines decode 0 (split_char (CHR 10) s))))"

definition dns_rules_to_text :: "(json \<Rightarrow> string) \<Rightarrow> json list \<Rightarrow> string" where
  "dns_rules_to_text encode rules = (if rules = [] then [] else encode (JObj [(''rules'', JArr rules)]))"

text \<open>An entry that is no object is an error; disabled entries and bare markers are left out.\<close>

definition merged_servers :: "json list \<Rightarrow> dns_error + obj list" where
  "merged_servers js =
     (if list_ex (\<lambda>j. body_obj j = None) js then Inl BadDnsServer
      else Inr (map strip_dns_wizard_only_fields
             (filter (\<lambda>m. dns_server_enabled m \<and> dns_server_has_body m) (List.map_filter body_obj js))))"

definition merge_dns_section :: "(string \<Rightarrow> json option) \<Rightarrow> json option \<Rightarrow> dns_config \<Rightarrow> dns_error + obj" where
  "merge_dns_section decode tmpl cfg =
     (case (case tmpl of None \<Rightarrow> Some [] | Some j \<Rightarrow> body_obj j) of
        None \<Rightarrow> Inl BadTemplateDns
      | Some dns \<Rightarrow>
     (case merged_servers (dc_servers cfg) of
        Inl e \<Rightarrow> Inl e
      | Inr servers \<Rightarrow>
          (case parse_dns_rules_text decode (dc_rules_text cfg) of
             Inl e \<Rightarrow> Inl e
           | Inr rules \<Rightarrow>
               (let dns = sput ''servers'' (JArr (map JObj servers)) dns;
                    dns = sput ''rules'' (case rules of None \<Rightarrow> JNull | Some rs \<Rightarrow> JArr rs) dns;
                    final = (if trim_space (dc_final cfg) \<noteq> [] then trim_space (dc_final cfg)
                             else first_enabled_dns_server_tag (dc_servers cfg));
                    dns = (if final \<noteq> [] then sput ''final'' (JStr final) dns else sdel ''final'' dns);
                    dns = (if trim_space (dc_strategy cfg) \<noteq> []
                           then sput ''strategy'' (JStr (trim_space (dc_strategy cfg))) dns else dns)
                in Inr (sdel ''independent_cache'' dns)))))"

section \<open>The resolver, \<open>resolve_dns.go\<close>\<close>

datatype dns_source = DNSFromTemplate | DNSFromPreset | DNSFromUser

record resolved_dns_server =
  rd_tag :: string
  rd_local_tag :: string
  rd_body :: obj
  rd_source :: dns_source
  rd_preset_id :: string
  rd_preset_label :: string
  rd_active :: bool
  rd_enabled :: bool
  rd_locked :: bool
  rd_reason :: string

record resolved_dns_rule =
  rdr_body :: obj
  rdr_source :: dns_source
  rdr_preset_id :: string
  rdr_preset_label :: string
  rdr_active :: bool
  rdr_enabled :: bool
  rdr_reason :: string

record resolved_dns =
  rdn_servers :: "resolved_dns_server list"
  rdn_rules :: "resolved_dns_rule list"
  rdn_strategy :: string
  rdn_final :: string
  rdn_resolver :: string

text \<open>
  What the resolver reads besides the state; \<open>de_order\<close> is the order in which the range over the
  map of preset rules visits its keys.
\<close>

record dns_env =
  de_presets :: "preset list"
  de_library :: "json option"
  de_target :: target_spec
  de_regex :: "string \<Rightarrow> string \<Rightarrow> bool option"
  de_order :: "string list \<Rightarrow> string list"

record dns_state =
  st_rules :: "rule list"
  st_dns :: dns_options

definition template_dns_library :: "json option \<Rightarrow> obj list" where
  "template_dns_library raw =
     (case raw of
        Some (JObj m) \<Rightarrow>
          (case map_of m ''servers'' of
             Some (JArr xs) \<Rightarrow> (case those (map body_obj xs) of Some os \<Rightarrow> os | None \<Rightarrow> [])
           | _ \<Rightarrow> [])
      | _ \<Rightarrow> [])"

definition body_enabled :: "obj \<Rightarrow> bool \<Rightarrow> bool" where
  "body_enabled m fallback =
     (case map_of m ''default_enabled'' of
        Some (JBool b) \<Rightarrow> b
      | _ \<Rightarrow> (case map_of m ''enabled'' of Some (JBool b) \<Rightarrow> b | _ \<Rightarrow> fallback))"

definition server_toggle :: "dns_state option \<Rightarrow> (dns_server \<Rightarrow> bool) \<Rightarrow> bool \<Rightarrow> bool" where
  "server_toggle st P fallback =
     (case st of None \<Rightarrow> fallback
      | Some s \<Rightarrow> (case find P (dn_servers (st_dns s)) of Some x \<Rightarrow> sv_enabled x | None \<Rightarrow> fallback))"

definition state_template_enabled :: "dns_state option \<Rightarrow> string \<Rightarrow> bool \<Rightarrow> bool" where
  "state_template_enabled st tag fallback =
     server_toggle st (\<lambda>s. sv_kind s = DSTemplate \<and> sv_tag s = tag) fallback"

definition state_preset_server_enabled :: "dns_state option \<Rightarrow> string \<Rightarrow> bool \<Rightarrow> bool" where
  "state_preset_server_enabled st ref fallback =
     server_toggle st (\<lambda>s. sv_kind s = DSPreset \<and> sv_ref s = ref) fallback"

definition state_preset_rule_enabled :: "dns_state option \<Rightarrow> string \<Rightarrow> bool \<Rightarrow> bool" where
  "state_preset_rule_enabled st ref fallback =
     (case st of None \<Rightarrow> fallback
      | Some s \<Rightarrow>
          (case find (\<lambda>r. dr_kind r = DRPreset \<and> dr_ref r = ref) (dn_rules (st_dns s)) of
             Some x \<Rightarrow> dr_enabled x | None \<Rightarrow> fallback))"

text \<open>\<open>buildPresetVarsMap\<close> is the first two steps of \<open>ExpandPreset\<close>.\<close>

definition build_preset_vars_map :: "preset \<Rightarrow> (string \<rightharpoonup> string) \<Rightarrow> string \<rightharpoonup> string" where
  "build_preset_vars_map p user = active_vars_map (p_vars p) user"

definition dns_server_fields :: "preset_dns_server \<Rightarrow> obj" where
  "dns_server_fields d =
     (sput ''tag'' (JStr (ds_tag d)) \<circ> sput ''type'' (JStr (ds_type d)) \<circ>
      put_str ''server'' (ds_server d) \<circ>
      (\<lambda>m. if ds_server_port d = 0 then m else sput ''server_port'' (JNum (ds_server_port d)) m) \<circ>
      put_str ''path'' (ds_path d) \<circ> put_str ''detour'' (ds_detour d) \<circ>
      put_str ''description'' (ds_description d) \<circ> put_map ''tls'' (ds_tls d) \<circ>
      put_str ''inet4_range'' (ds_inet4 d) \<circ> put_str ''inet6_range'' (ds_inet6 d)) []"

text \<open>A body that cannot be substituted is returned as it stands.\<close>

definition substitute_preset_dns_server :: "exp_ctx \<Rightarrow> preset_dns_server \<Rightarrow> obj" where
  "substitute_preset_dns_server C d =
     (case substitute_preset_body C (JObj (dns_server_fields d)) of
        Some (JObj out) \<Rightarrow> (if str_field out ''detour'' = ''direct-out'' then sdel ''detour'' out else out)
      | _ \<Rightarrow> dns_server_fields d)"

definition substitute_preset_dns_rules ::
    "preset \<Rightarrow> (string \<rightharpoonup> string) \<Rightarrow> target_spec \<Rightarrow> (string \<Rightarrow> string \<Rightarrow> bool option) \<Rightarrow> obj list" where
  "substitute_preset_dns_rules p vm t re =
     (case expand_preset p vm t re of
        Inl _ \<Rightarrow> []
      | Inr (f, _) \<Rightarrow> (case pf_dns_rule f of Some r \<Rightarrow> [r] | None \<Rightarrow> []) @ pf_dns_rules f)"

definition resolved_template_server :: "dns_state option \<Rightarrow> obj \<Rightarrow> resolved_dns_server" where
  "resolved_template_server st raw =
     (let tag = tag_from_body raw; required = body_required raw in
      \<lparr>rd_tag = tag, rd_local_tag = tag, rd_body = strip_dns_wizard_only_fields raw,
       rd_source = DNSFromTemplate, rd_preset_id = [], rd_preset_label = [], rd_active = True,
       rd_enabled = (required \<or> state_template_enabled st tag (body_enabled raw True)),
       rd_locked = required, rd_reason = []\<rparr>)"

definition resolved_preset_server ::
    "dns_state option \<Rightarrow> exp_ctx \<Rightarrow> (string \<rightharpoonup> string) \<Rightarrow> preset_dns_server \<Rightarrow> resolved_dns_server" where
  "resolved_preset_server st C vm d =
     (let p = ec_preset C; ref = p_id p @ '':'' @ ds_tag d;
          (active, reason) = eval_if_with_reason (ds_if d) (ds_if_or d) vm
      in \<lparr>rd_tag = ref, rd_local_tag = ds_tag d,
          rd_body = strip_dns_wizard_only_fields (sput ''tag'' (JStr ref) (substitute_preset_dns_server C d)),
          rd_source = DNSFromPreset, rd_preset_id = p_id p, rd_preset_label = display_label p,
          rd_active = active, rd_enabled = state_preset_server_enabled st ref True,
          rd_locked = False, rd_reason = reason\<rparr>)"

definition resolved_preset_rule :: "dns_state option \<Rightarrow> preset \<Rightarrow> obj \<Rightarrow> resolved_dns_rule" where
  "resolved_preset_rule st p body =
     \<lparr>rdr_body = body, rdr_source = DNSFromPreset, rdr_preset_id = p_id p, rdr_preset_label = display_label p,
      rdr_active = True, rdr_enabled = state_preset_rule_enabled st (p_id p) True, rdr_reason = []\<rparr>"

text \<open>The presets in use, with the values of their variables; undecodable rules are passed over.\<close>

definition presets_in_use :: "preset list \<Rightarrow> rule list \<Rightarrow> (preset \<times> (string \<rightharpoonup> string)) list" where
  "presets_in_use presets rules =
     List.map_filter (\<lambda>r.
       if \<not> is_active_preset_rule r then None
       else (case (preset_by_id presets (r_ref r), decode_body r) of
               (Some p, Inr (PresetBody vs)) \<Rightarrow> Some (p, build_preset_vars_map p (map_of vs))
             | _ \<Rightarrow> None)) rules"

definition vars_ctx ::
    "preset \<Rightarrow> (string \<rightharpoonup> string) \<Rightarrow> target_spec \<Rightarrow> (string \<Rightarrow> string \<Rightarrow> bool option) \<Rightarrow> exp_ctx" where
  "vars_ctx p vm t re = \<lparr>ec_preset = p, ec_vm = vm, ec_target = t, ec_re = re\<rparr>"

definition resolved_preset_servers :: "dns_env \<Rightarrow> dns_state \<Rightarrow> resolved_dns_server list" where
  "resolved_preset_servers E s =
     concat (map (\<lambda>(p, vm). map (resolved_preset_server (Some s) (vars_ctx p vm (de_target E) (de_regex E)) vm)
                               (filter (\<lambda>d. ds_tag d \<noteq> []) (p_dns_servers p)))
       (presets_in_use (de_presets E) (st_rules s)))"

text \<open>The rules of each preset in use, by its id.\<close>

definition add_preset_dns_rules ::
    "dns_env \<Rightarrow> dns_state \<Rightarrow> preset \<times> (string \<rightharpoonup> string) \<Rightarrow> resolved_dns_rule list smap \<Rightarrow>
     resolved_dns_rule list smap" where
  "add_preset_dns_rules E s pv m =
     (case pv of (p, vm) \<Rightarrow>
        (let bodies = substitute_preset_dns_rules p vm (de_target E) (de_regex E) in
         if preset_has_dns_rule p \<and> bodies \<noteq> []
         then sput (p_id p) (map (resolved_preset_rule (Some s) p) bodies) m else m))"

definition preset_dns_rules_by_id :: "dns_env \<Rightarrow> dns_state \<Rightarrow> resolved_dns_rule list smap" where
  "preset_dns_rules_by_id E s =
     fold (add_preset_dns_rules E s) (presets_in_use (de_presets E) (st_rules s)) []"

definition resolved_user_server :: "dns_server \<Rightarrow> resolved_dns_server" where
  "resolved_user_server s =
     (let body = (if map_of (sv_body s) ''tag'' = None then put_str ''tag'' (sv_tag s) (sv_body s) else sv_body s) in
      \<lparr>rd_tag = sv_tag s, rd_local_tag = sv_tag s, rd_body = strip_dns_wizard_only_fields body,
       rd_source = DNSFromUser, rd_preset_id = [], rd_preset_label = [], rd_active = True,
       rd_enabled = sv_enabled s, rd_locked = False, rd_reason = []\<rparr>)"

definition resolved_user_rule :: "dns_rule \<Rightarrow> resolved_dns_rule" where
  "resolved_user_rule r =
     \<lparr>rdr_body = dr_body r, rdr_source = DNSFromUser, rdr_preset_id = [], rdr_preset_label = [],
      rdr_active = True, rdr_enabled = dr_enabled r, rdr_reason = []\<rparr>"

text \<open>The rules in the order of the state: one entry of a preset stands for all its rules.\<close>

definition dispatch_rule :: "resolved_dns_rule list smap \<Rightarrow> dns_rule \<Rightarrow> resolved_dns_rule list" where
  "dispatch_rule by_id r =
     (case dr_kind r of
        DRPreset \<Rightarrow>
          (case map_of by_id (dr_ref r) of
             None \<Rightarrow> []
           | Some rs \<Rightarrow> map (\<lambda>x. x\<lparr>rdr_enabled := rdr_enabled x \<and> dr_enabled r\<rparr>) rs)
      | DRUser \<Rightarrow> [resolved_user_rule r]
      | DROther _ \<Rightarrow> [])"

text \<open>The rules of presets without an entry of their own come last, in the order of the map.\<close>

definition unlisted_preset_rules ::
    "(string list \<Rightarrow> string list) \<Rightarrow> resolved_dns_rule list smap \<Rightarrow> dns_rule list \<Rightarrow> resolved_dns_rule list" where
  "unlisted_preset_rules order by_id rules =
     (let listed = map dr_ref (filter (\<lambda>r. dr_kind r = DRPreset) rules) in
      concat (map (\<lambda>i. case map_of by_id i of Some rs \<Rightarrow> rs | None \<Rightarrow> [])
        (filter (\<lambda>i. i \<notin> set listed) (order (map fst by_id)))))"

definition dns_scalar :: "(string \<rightharpoonup> string) \<Rightarrow> string \<Rightarrow> string \<Rightarrow> string" where
  "dns_scalar vars name fallback =
     (case vars name of Some v \<Rightarrow> if v \<noteq> [] then v else fallback | None \<Rightarrow> fallback)"

definition resolve_dns :: "dns_state option \<Rightarrow> dns_env option \<Rightarrow> (string \<rightharpoonup> string) \<Rightarrow> resolved_dns" where
  "resolve_dns st td vars =
     (case td of
        None \<Rightarrow> \<lparr>rdn_servers = [], rdn_rules = [], rdn_strategy = [], rdn_final = [], rdn_resolver = []\<rparr>
      | Some E \<Rightarrow>
          (let lib = map (resolved_template_server st)
                 (filter (\<lambda>m. tag_from_body m \<noteq> []) (template_dns_library (de_library E)));
               fall = (\<lambda>f. case st of None \<Rightarrow> [] | Some s \<Rightarrow> f (st_dns s))
           in \<lparr>rdn_servers = lib @
                 (case st of None \<Rightarrow> []
                  | Some s \<Rightarrow> resolved_preset_servers E s @
                      map resolved_user_server (filter (\<lambda>x. sv_kind x = DSUser) (dn_servers (st_dns s)))),
               rdn_rules =
                 (case st of None \<Rightarrow> []
                  | Some s \<Rightarrow>
                      (let by_id = preset_dns_rules_by_id E s in
                       concat (map (dispatch_rule by_id) (dn_rules (st_dns s))) @
                       unlisted_preset_rules (de_order E) by_id (dn_rules (st_dns s)))),
               rdn_strategy = dns_scalar vars ''dns_strategy'' (fall dn_strategy),
               rdn_final = dns_scalar vars ''dns_final'' (fall dn_final),
               rdn_resolver = dns_scalar vars ''dns_default_domain_resolver'' (fall dn_resolver)\<rparr>))"

section \<open>\<open>MergePresetsIntoDNS\<close>\<close>

definition library_of_defaults :: "template_dns_server list \<Rightarrow> json" where
  "library_of_defaults ds = JObj [(''servers'', if ds = [] then JNull else JArr (map (\<lambda>d. JObj (tds_raw d)) ds))]"

definition collect_rule_set_tags ::
    "preset list \<Rightarrow> rule list \<Rightarrow> target_spec \<Rightarrow> (string \<Rightarrow> string \<Rightarrow> bool option) \<Rightarrow> string list" where
  "collect_rule_set_tags presets rules t re =
     concat (map (\<lambda>r.
       if \<not> r_enabled r \<or> r_kind r \<noteq> RKPreset then []
       else (case (preset_by_id presets (r_ref r), decode_body r) of
               (Some p, Inr (PresetBody vs)) \<Rightarrow>
                 (case expand_preset p (map_of vs) t re of
                    Inl _ \<Rightarrow> []
                  | Inr (f, _) \<Rightarrow> filter (\<lambda>x. x \<noteq> []) (map (\<lambda>m. str_field m ''tag'') (pf_rule_sets f)))
             | _ \<Rightarrow> [])) rules)"

definition emit_dns_server :: "resolved_dns_server \<Rightarrow> json list \<times> string list \<Rightarrow> json list \<times> string list" where
  "emit_dns_server s acc =
     (if \<not> rd_active s \<or> \<not> rd_enabled s \<or> rd_tag s \<noteq> [] \<and> rd_tag s \<in> set (snd acc) then acc
      else (fst acc @ [JObj (rd_body s)], if rd_tag s \<noteq> [] then rd_tag s # snd acc else snd acc))"

definition emitted_dns_rule :: "string list \<Rightarrow> resolved_dns_rule \<Rightarrow> json option" where
  "emitted_dns_rule valid r =
     (if \<not> rdr_active r \<or> \<not> rdr_enabled r then None
      else (case rdr_source r of
              DNSFromPreset \<Rightarrow> Some (JObj (rdr_body r))
            | DNSFromUser \<Rightarrow> map_option JObj (clean_dangling_dns_rule valid (rdr_body r))
            | DNSFromTemplate \<Rightarrow> None))"

definition merge_presets_into_dns :: "dns_env \<Rightarrow> dns_state \<Rightarrow> template_dns_server list \<Rightarrow> obj \<Rightarrow> obj" where
  "merge_presets_into_dns E0 s defaults dns =
     (let E = E0\<lparr>de_library := Some (library_of_defaults defaults)\<rparr>;
          res = resolve_dns (Some s) (Some E) Map.empty
      in if rdn_servers res = [] \<and> rdn_rules res = [] \<and> \<not> has_any_v6_rule (st_rules s) then dns
         else
           (let servers0 = arr_field dns ''servers'';
                servers = fst (fold emit_dns_server (rdn_servers res) (servers0, json_tags servers0));
                valid = collect_rule_set_tags (de_presets E) (st_rules s) (de_target E) (de_regex E);
                rules = arr_field dns ''rules'' @ List.map_filter (emitted_dns_rule valid) (rdn_rules res);
                dns = (if servers \<noteq> [] then sput ''servers'' (JArr servers) dns else dns)
            in if rules \<noteq> [] then sput ''rules'' (JArr rules) dns else dns))"

end
