(* ===== verification/DnsSync.thy ===== *)
theory DnsSync
  imports Dns
begin

text \<open>
  What the DNS entries of the state promise: the flat form on disk is read back as it was written,
  and synchronisation leaves exactly the entries the active presets call for, with the toggles of
  the user. Servers and rules follow one contract, the locale \<open>preset_entries\<close>.
\<close>

section \<open>The contract of a synchronised list\<close>

locale preset_entries =
  fixes is_preset :: "'e \<Rightarrow> bool"
    and ref :: "'e \<Rightarrow> string"
    and mk :: "string \<Rightarrow> 'e"
  assumes mk_preset: "is_preset (mk i)"
    and mk_ref: "ref (mk i) = i"
begin

lemma refs_mk: "map ref (filter is_preset (map mk ids)) = ids"
  by (induction ids) (simp_all add: mk_preset mk_ref)

lemma others_mk: "filter (\<lambda>e. \<not> is_preset e) (map mk ids) = []"
  by (induction ids) (simp_all add: mk_preset)

lemma add_missing_eq:
  "add_missing is_preset ref mk present ids kept =
    kept @ map mk (dedup_from (present @ map ref (filter is_preset kept)) ids)"
proof (induction ids arbitrary: kept)
  case (Cons i ids)
  let ?seen = "present @ map ref (filter is_preset kept)"
  have ex: "list_ex (\<lambda>e. is_preset e \<and> ref e = i) kept \<longleftrightarrow> i \<in> set (map ref (filter is_preset kept))"
    by (auto simp: list_ex_iff)
  show ?case
  proof (cases "i \<in> set ?seen")
    case True
    then show ?thesis using Cons by (auto simp: ex)
  next
    case False
    have "dedup_from (present @ map ref (filter is_preset (kept @ [mk i]))) ids = dedup_from (i # ?seen) ids"
      by (rule dedup_from_cong) (auto simp: mk_preset mk_ref)
    then show ?thesis using False Cons by (auto simp: ex)
  qed
qed simp

lemma sync_eq:
  "sync_entries is_preset ref mk expected es =
    filter (\<lambda>e. is_preset e \<longrightarrow> ref e \<in> set expected) es @
    map mk (dedup_from (map ref (filter (\<lambda>e. is_preset e \<and> ref e \<in> set expected) es)) expected)"
proof -
  have f: "filter is_preset (filter (\<lambda>e. is_preset e \<longrightarrow> ref e \<in> set expected) es) =
    filter (\<lambda>e. is_preset e \<and> ref e \<in> set expected) es"
    by (induction es) auto
  show ?thesis
    unfolding sync_entries_def Let_def add_missing_eq f
    by (simp only: append_same_eq append.assoc same_append_eq map_eq_conv simp_thms
        dedup_from_cong[of "xs @ xs" xs for xs :: "string list", simplified])
qed

lemma sync_others: "filter (\<lambda>e. \<not> is_preset e) (sync_entries is_preset ref mk expected es) = filter (\<lambda>e. \<not> is_preset e) es"
  unfolding sync_eq by (simp add: others_mk) (induction es, auto)

lemma sync_refs: "set (map ref (filter is_preset (sync_entries is_preset ref mk expected es))) = set expected"
  unfolding sync_eq by (auto simp: set_dedup_from mk_preset mk_ref image_iff)

lemma sync_keeps:
  assumes "e \<in> set es" "is_preset e" "ref e \<in> set expected"
  shows "e \<in> set (sync_entries is_preset ref mk expected es)"
  using assms unfolding sync_eq by auto

lemma sync_new:
  assumes "e \<in> set (sync_entries is_preset ref mk expected es)" "is_preset e"
  shows "e \<in> set es \<or> e = mk (ref e) \<and> ref e \<notin> set (map ref (filter is_preset es))"
  using assms unfolding sync_eq by (auto simp: set_dedup_from mk_ref)

lemma sync_distinct:
  assumes "distinct (map ref (filter is_preset es))"
  shows "distinct (map ref (filter is_preset (sync_entries is_preset ref mk expected es)))"
proof -
  let ?kept = "filter (\<lambda>e. is_preset e \<and> ref e \<in> set expected) es"
  have f: "filter is_preset (filter (\<lambda>e. is_preset e \<longrightarrow> ref e \<in> set expected) es) = ?kept"
    by (induction es) auto
  have "?kept = filter (\<lambda>e. ref e \<in> set expected) (filter is_preset es)"
    by (simp add: conj_commute)
  then have d: "distinct (map ref ?kept)" using assms by (simp only: distinct_map_filter)
  show ?thesis
    unfolding sync_eq filter_append map_append f refs_mk
    using d by (auto simp: distinct_dedup_from set_dedup_from)
qed

lemma sync_idem:
  "sync_entries is_preset ref mk expected (sync_entries is_preset ref mk expected es) =
    sync_entries is_preset ref mk expected es"
proof -
  let ?s = "sync_entries is_preset ref mk expected es"
  have all: "\<forall>e \<in> set ?s. is_preset e \<longrightarrow> ref e \<in> set expected"
    using sync_refs[of expected es] by auto
  then have 1: "filter (\<lambda>e. is_preset e \<longrightarrow> ref e \<in> set expected) ?s = ?s"
    by simp
  have "filter (\<lambda>e. is_preset e \<and> ref e \<in> set expected) ?s = filter is_preset ?s"
    using all by (intro filter_cong) auto
  then have 2: "set expected \<subseteq> set (map ref (filter (\<lambda>e. is_preset e \<and> ref e \<in> set expected) ?s))"
    using sync_refs[of expected es] by simp
  show ?thesis
    unfolding sync_eq[of expected ?s] 1 by (simp add: dedup_from_all[OF 2])
qed

end

interpretation dns_servers: preset_entries "\<lambda>s. sv_kind s = DSPreset" sv_ref new_server
  by unfold_locales (simp_all add: new_server_def)

interpretation dns_rules: preset_entries "\<lambda>r. dr_kind r = DRPreset" dr_ref new_rule
  by unfold_locales (simp_all add: new_rule_def)

section \<open>Synchronisation\<close>

definition preset_servers :: "dns_options \<Rightarrow> dns_server list" where
  "preset_servers d = filter (\<lambda>s. sv_kind s = DSPreset) (dn_servers d)"

definition other_servers :: "dns_options \<Rightarrow> dns_server list" where
  "other_servers d = filter (\<lambda>s. sv_kind s \<noteq> DSPreset) (dn_servers d)"

definition preset_rules :: "dns_options \<Rightarrow> dns_rule list" where
  "preset_rules d = filter (\<lambda>r. dr_kind r = DRPreset) (dn_rules d)"

definition other_rules :: "dns_options \<Rightarrow> dns_rule list" where
  "other_rules d = filter (\<lambda>r. dr_kind r \<noteq> DRPreset) (dn_rules d)"

lemma sync_fields [simp]:
  "dn_servers (sync_dns_options rules pl d) = sync_servers (expected_server_refs rules pl) (dn_servers d)"
  "dn_rules (sync_dns_options rules pl d) = sync_rules (expected_rule_refs rules pl) (dn_rules d)"
  by (simp_all add: sync_dns_options_def)

text \<open>
  C12. After synchronisation the preset entries are exactly those the active presets call for, for
  servers and for rules; entries of the user and of the template stay as they are and in order; a
  preset entry that is still called for stays as it is, toggle included, and any other preset entry
  is a new one, switched on.
\<close>

theorem dns_sync_correct:
  "set (map sv_ref (preset_servers (sync_dns_options rules pl d))) = set (expected_server_refs rules pl) \<and>
   set (map dr_ref (preset_rules (sync_dns_options rules pl d))) = set (expected_rule_refs rules pl) \<and>
   other_servers (sync_dns_options rules pl d) = other_servers d \<and>
   other_rules (sync_dns_options rules pl d) = other_rules d \<and>
   {s \<in> set (preset_servers d). sv_ref s \<in> set (expected_server_refs rules pl)} \<subseteq>
     set (preset_servers (sync_dns_options rules pl d)) \<and>
   set (preset_servers (sync_dns_options rules pl d)) \<subseteq> set (preset_servers d) \<union> range new_server \<and>
   {r \<in> set (preset_rules d). dr_ref r \<in> set (expected_rule_refs rules pl)} \<subseteq>
     set (preset_rules (sync_dns_options rules pl d)) \<and>
   set (preset_rules (sync_dns_options rules pl d)) \<subseteq> set (preset_rules d) \<union> range new_rule"
proof -
  have 1: "set (preset_servers (sync_dns_options rules pl d)) \<subseteq> set (preset_servers d) \<union> range new_server"
    by (auto simp: preset_servers_def sync_servers_def dest!: dns_servers.sync_new)
  have 2: "set (preset_rules (sync_dns_options rules pl d)) \<subseteq> set (preset_rules d) \<union> range new_rule"
    by (auto simp: preset_rules_def sync_rules_def dest!: dns_rules.sync_new)
  have 3: "{s \<in> set (preset_servers d). sv_ref s \<in> set (expected_server_refs rules pl)} \<subseteq>
      set (preset_servers (sync_dns_options rules pl d))"
    by (auto simp: preset_servers_def sync_servers_def intro: dns_servers.sync_keeps)
  have 4: "{r \<in> set (preset_rules d). dr_ref r \<in> set (expected_rule_refs rules pl)} \<subseteq>
      set (preset_rules (sync_dns_options rules pl d))"
    by (auto simp: preset_rules_def sync_rules_def intro: dns_rules.sync_keeps)
  show ?thesis
    using 1 2 3 4 dns_servers.sync_refs dns_rules.sync_refs dns_servers.sync_others dns_rules.sync_others
    by (simp add: preset_servers_def preset_rules_def other_servers_def other_rules_def sync_servers_def sync_rules_def)
qed

text \<open>
  Synchronising twice is synchronising once.\<close>

theorem dns_sync_idempotent:
  "sync_dns_options rules pl (sync_dns_options rules pl d) = sync_dns_options rules pl d"
  using dns_servers.sync_idem dns_rules.sync_idem
  by (simp add: sync_dns_options_def sync_servers_def sync_rules_def)

section \<open>The flat form on disk\<close>

text \<open>An entry without the fields that do not belong to its kind.\<close>

definition own_fields :: "dns_server \<Rightarrow> dns_server" where
  "own_fields s =
     (case sv_kind s of
        DSTemplate \<Rightarrow> s\<lparr>sv_ref := [], sv_body := []\<rparr>
      | DSPreset \<Rightarrow> s\<lparr>sv_tag := [], sv_body := []\<rparr>
      | DSUser \<Rightarrow> s\<lparr>sv_ref := []\<rparr>
      | DSOther _ \<Rightarrow> s\<lparr>sv_tag := [], sv_ref := [], sv_body := []\<rparr>)"

definition own_rule_fields :: "dns_rule \<Rightarrow> dns_rule" where
  "own_rule_fields r =
     (case dr_kind r of
        DRPreset \<Rightarrow> r\<lparr>dr_body := []\<rparr>
      | DRUser \<Rightarrow> r\<lparr>dr_ref := []\<rparr>
      | DROther _ \<Rightarrow> r\<lparr>dr_ref := [], dr_body := []\<rparr>)"

lemma kind_of_name [simp]:
  "server_kind_of (server_kind_name (server_kind_of x)) = server_kind_of x"
  "rule_kind_of (rule_kind_name (rule_kind_of x)) = rule_kind_of x"
  by (auto simp: server_kind_of_def server_kind_name_def rule_kind_of_def rule_kind_name_def)

lemma map_of_without_header:
  "map_of (without_header m) k = (if k \<in> set header_keys then None else map_of m k)"
  by (induction m) (auto simp: without_header_def)

lemma map_of_put_str: "map_of (put_str k s m) x = (if x = k \<and> s \<noteq> [] then Some (JStr s) else map_of m x)"
  by (simp add: put_str_def)

lemma scanon_put_str [intro]: "scanon m \<Longrightarrow> scanon (put_str k s m)"
  by (simp add: put_str_def scanon_sput)

lemma without_header_eqI:
  assumes "scanon m" "scanon m'" "\<And>k. k \<notin> set header_keys \<Longrightarrow> map_of m k = map_of m' k"
  shows "without_header m = without_header m'"
proof (rule scanon_ext)
  show "scanon (without_header m)" "scanon (without_header m')"
    unfolding without_header_def using assms(1,2) by auto
  show "map_of (without_header m) = map_of (without_header m')"
    using assms(3) by (auto simp: map_of_without_header fun_eq_iff)
qed

lemma map_of_without_tag:
  "map_of (filter (\<lambda>p. fst p = ''tag'' \<longrightarrow> t = []) m) k = (if k = ''tag'' \<and> t \<noteq> [] then None else map_of m k)"
  by (induction m) auto

lemma map_of_marshal_server:
  assumes "scanon (sv_body s)"
  shows "map_of (marshal_dns_server s) k =
    (if k = ''kind'' then Some (JStr (server_kind_name (sv_kind s)))
     else if k = ''enabled'' then Some (JBool (sv_enabled s))
     else if k = ''ref'' then (if sv_kind s = DSPreset \<and> sv_ref s \<noteq> [] then Some (JStr (sv_ref s)) else None)
     else if k = ''tag'' \<and> sv_tag s \<noteq> [] then
       (if sv_kind s \<in> {DSTemplate, DSUser} then Some (JStr (sv_tag s)) else None)
     else if sv_kind s = DSUser then map_of (sv_body s) k else None)"
proof -
  let ?body = "filter (\<lambda>p. fst p = ''tag'' \<longrightarrow> sv_tag s = []) (without_header (sv_body s))"
  have "scanon ?body" using assms unfolding without_header_def by auto
  then have r: "map_of (rev ?body) = map_of ?body" by (rule map_of_rev_scanon)
  show ?thesis
    unfolding marshal_dns_server_def Let_def
    by (auto simp: map_of_sput_all r map_of_put_str map_of_without_tag map_of_without_header map_add_def
        header_keys_def split: dns_server_kind.splits option.splits)
qed

lemma map_of_marshal_rule:
  assumes "scanon (dr_body r)"
  shows "map_of (marshal_dns_rule r) k =
    (if k = ''kind'' then Some (JStr (rule_kind_name (dr_kind r)))
     else if k = ''enabled'' then Some (JBool (dr_enabled r))
     else if k = ''ref'' then (if dr_kind r = DRPreset \<and> dr_ref r \<noteq> [] then Some (JStr (dr_ref r)) else None)
     else if dr_kind r = DRUser then map_of (dr_body r) k else None)"
proof -
  have "scanon (without_header (dr_body r))" using assms unfolding without_header_def by auto
  then have r: "map_of (rev (without_header (dr_body r))) = map_of (without_header (dr_body r))"
    by (rule map_of_rev_scanon)
  show ?thesis
    unfolding marshal_dns_rule_def Let_def
    by (auto simp: map_of_sput_all r map_of_put_str map_of_without_header map_add_def header_keys_def
        split: option.splits)
qed

lemma scanon_marshal_server: "scanon (sv_body s) \<Longrightarrow> scanon (marshal_dns_server s)"
  unfolding marshal_dns_server_def Let_def
  by (auto simp: scanon_Cons intro!: scanon_sput_all scanon_put_str scanon_sput split: dns_server_kind.splits)

lemma scanon_marshal_rule: "scanon (dr_body r) \<Longrightarrow> scanon (marshal_dns_rule r)"
  unfolding marshal_dns_rule_def Let_def
  by (auto simp: scanon_Cons intro!: scanon_sput_all scanon_put_str scanon_sput)

lemma str_field_if: "str_field m k = (case map_of m k of Some (JStr s) \<Rightarrow> s | _ \<Rightarrow> [])"
  by (simp add: str_field_def)

lemma server_read_back:
  assumes "scanon m" "unmarshal_dns_server (JObj m) = Some s"
  shows "unmarshal_dns_server (JObj (marshal_dns_server s)) = Some (own_fields s)"
proof -
  have s: "s = \<lparr>sv_kind = server_kind_of (str_field m ''kind''), sv_tag = str_field m ''tag'',
      sv_ref = str_field m ''ref'', sv_enabled = bool_field m ''enabled'',
      sv_body = (if server_kind_of (str_field m ''kind'') = DSUser then without_header m else [])\<rparr>"
    using assms(2) by (simp add: unmarshal_dns_server_def body_obj_def Let_def)
  have c: "scanon (sv_body s)" using assms(1) by (auto simp: s without_header_def)
  note lk = map_of_marshal_server[OF c]
  have body: "without_header (marshal_dns_server s) = without_header m" if u: "sv_kind s = DSUser"
  proof (rule without_header_eqI[OF scanon_marshal_server[OF c] assms(1)])
    fix k assume "k \<notin> set header_keys"
    moreover have "sv_body s = without_header m" using u by (simp add: s split: if_splits)
    moreover have "sv_tag s \<noteq> [] \<Longrightarrow> map_of m ''tag'' = Some (JStr (sv_tag s))"
      by (simp add: s str_field_def split: option.splits json.splits)
    ultimately show "map_of (marshal_dns_server s) k = map_of m k"
      unfolding lk using u by (auto simp: header_keys_def map_of_without_header)
  qed
  have kind: "server_kind_of (server_kind_name (sv_kind s)) = sv_kind s" by (simp add: s)
  have tag: "sv_tag s = [] \<Longrightarrow> str_field (sv_body s) ''tag'' = []"
    by (simp add: s str_field_def map_of_without_header header_keys_def split: option.splits json.splits)
  have 1: "str_field (marshal_dns_server s) ''kind'' = server_kind_name (sv_kind s)"
    by (simp add: str_field_def lk)
  have 2: "bool_field (marshal_dns_server s) ''enabled'' = sv_enabled s"
    by (simp add: bool_field_def lk)
  have 3: "str_field (marshal_dns_server s) ''ref'' = (if sv_kind s = DSPreset then sv_ref s else [])"
    by (simp add: str_field_def lk)
  have 4: "str_field (marshal_dns_server s) ''tag'' = (if sv_kind s \<in> {DSTemplate, DSUser} then sv_tag s else [])"
    using tag by (auto simp: str_field_def lk)
  have 5: "sv_body s = (if sv_kind s = DSUser then without_header m else [])"
    by (simp add: s)
  show ?thesis
    unfolding unmarshal_dns_server_def body_obj_def json.case option.map Let_def 1 2 3 4 kind own_fields_def
    using body 5 by (cases "sv_kind s") simp_all
qed

lemma rule_read_back:
  assumes "scanon m" "unmarshal_dns_rule (JObj m) = Some r"
  shows "unmarshal_dns_rule (JObj (marshal_dns_rule r)) = Some (own_rule_fields r)"
proof -
  have r: "r = \<lparr>dr_kind = rule_kind_of (str_field m ''kind''), dr_ref = str_field m ''ref'',
      dr_enabled = bool_field m ''enabled'',
      dr_body = (if rule_kind_of (str_field m ''kind'') = DRUser then without_header m else [])\<rparr>"
    using assms(2) by (simp add: unmarshal_dns_rule_def body_obj_def Let_def)
  have c: "scanon (dr_body r)" using assms(1) by (auto simp: r without_header_def)
  note lk = map_of_marshal_rule[OF c]
  have body: "without_header (marshal_dns_rule r) = without_header m" if u: "dr_kind r = DRUser"
  proof (rule without_header_eqI[OF scanon_marshal_rule[OF c] assms(1)])
    fix k assume "k \<notin> set header_keys"
    moreover have "dr_body r = without_header m" using u by (simp add: r split: if_splits)
    ultimately show "map_of (marshal_dns_rule r) k = map_of m k"
      unfolding lk using u by (auto simp: header_keys_def map_of_without_header)
  qed
  have kind: "rule_kind_of (rule_kind_name (dr_kind r)) = dr_kind r" by (simp add: r)
  have 1: "str_field (marshal_dns_rule r) ''kind'' = rule_kind_name (dr_kind r)"
    by (simp add: str_field_def lk)
  have 2: "bool_field (marshal_dns_rule r) ''enabled'' = dr_enabled r"
    by (simp add: bool_field_def lk)
  have 3: "str_field (marshal_dns_rule r) ''ref'' = (if dr_kind r = DRPreset then dr_ref r else [])"
    by (simp add: str_field_def lk)
  have 4: "dr_body r = (if dr_kind r = DRUser then without_header m else [])"
    by (simp add: r)
  show ?thesis
    unfolding unmarshal_dns_rule_def body_obj_def json.case option.map Let_def 1 2 3 kind own_rule_fields_def
    using body 4 by (cases "dr_kind r") simp_all
qed

text \<open>
  C16. The entries of the DNS section survive saving and loading: whatever object an entry was read
  from, what is written for it is read back as the same entry, with only the fields dropped that do
  not belong to its kind.
\<close>

theorem dns_entries_read_back:
  assumes "wf_obj m"
  shows "(\<exists>s. unmarshal_dns_server (JObj m) = Some s \<and>
      unmarshal_dns_server (JObj (marshal_dns_server s)) = Some (own_fields s)) \<and>
    (\<exists>r. unmarshal_dns_rule (JObj m) = Some r \<and>
      unmarshal_dns_rule (JObj (marshal_dns_rule r)) = Some (own_rule_fields r))"
proof -
  have c: "scanon m" using assms by (simp add: wf_obj_iff)
  obtain s where s: "unmarshal_dns_server (JObj m) = Some s"
    by (simp add: unmarshal_dns_server_def body_obj_def)
  obtain r where r: "unmarshal_dns_rule (JObj m) = Some r"
    by (simp add: unmarshal_dns_rule_def body_obj_def)
  show ?thesis using s r server_read_back[OF c s] rule_read_back[OF c r] by blast
qed

definition sample_user_server :: obj where
  "sample_user_server = [(''enabled'', JBool True), (''kind'', JStr ''user''), (''server'', JStr ''192.168.1.5''),
     (''tag'', JStr ''my-pihole''), (''type'', JStr ''udp'')]"

theorem dns_entries_read_back_witness:
  "unmarshal_dns_server (JObj sample_user_server) =
     Some \<lparr>sv_kind = DSUser, sv_tag = ''my-pihole'', sv_ref = [], sv_enabled = True,
           sv_body = [(''server'', JStr ''192.168.1.5''), (''tag'', JStr ''my-pihole''), (''type'', JStr ''udp'')]\<rparr> \<and>
   (\<exists>s. unmarshal_dns_server (JObj sample_user_server) = Some s \<and>
      unmarshal_dns_server (JObj (marshal_dns_server s)) = Some (own_fields s))"
proof -
  have wf: "wf_obj sample_user_server" by code_simp
  have 1: "unmarshal_dns_server (JObj sample_user_server) =
     Some \<lparr>sv_kind = DSUser, sv_tag = ''my-pihole'', sv_ref = [], sv_enabled = True,
           sv_body = [(''server'', JStr ''192.168.1.5''), (''tag'', JStr ''my-pihole''), (''type'', JStr ''udp'')]\<rparr>"
    by code_simp
  show ?thesis using 1 dns_entries_read_back[OF wf] by simp
qed

section \<open>The text of the rules editor\<close>

lemma parse_dns_rules_array_objs: "parse_dns_rules_array i (map JObj rs) = Inr (map JObj rs)"
  by (induction rs arbitrary: i) auto

text \<open>
  The text the editor is given for a list of rules is read back as that list, for every JSON
  printer and decoder that agree on it.
\<close>

theorem dns_text_read_back:
  assumes "rs \<noteq> []" "trim_space (encode (JObj [(''rules'', JArr (map JObj rs))])) \<noteq> []"
    and "decode (trim_space (encode (JObj [(''rules'', JArr (map JObj rs))]))) = Some (JObj [(''rules'', JArr (map JObj rs))])"
  shows "parse_dns_rules_text decode (dns_rules_to_text encode (map JObj rs)) = Inr (Some (map JObj rs))"
  using assms by (simp add: parse_dns_rules_text_def dns_rules_to_text_def Let_def parse_dns_rules_array_objs)

theorem dns_text_read_back_witness:
  "parse_dns_rules_text (\<lambda>t. if t = ''X'' then Some (JObj [(''rules'', JArr [JObj [(''server'', JStr ''a'')]])]) else None)
     (dns_rules_to_text (\<lambda>_. ''X'') [JObj [(''server'', JStr ''a'')]]) = Inr (Some [JObj [(''server'', JStr ''a'')]])"
  using dns_text_read_back[of "[[(''server'', JStr ''a'')]]" "\<lambda>_. ''X''"
    "\<lambda>t. if t = ''X'' then Some (JObj [(''rules'', JArr [JObj [(''server'', JStr ''a'')]])]) else None"]
  by (simp add: trim_space_def is_space_def)

section \<open>Scalars\<close>

lemma store_scalar_idem [simp]: "store_scalar n v (store_scalar n v m) = store_scalar n v m"
  by (simp add: store_scalar_def)

text \<open>
  The scalars of the DNS section reach exactly the declared variables: a declared variable has
  the trimmed value or none, every other variable is untouched, and the removed independent cache
  never survives.
\<close>

theorem dns_scalars_reach_declared_vars:
  "apply_dns_scalars_to_vars vs cfg vars n =
    (let set_to = (\<lambda>v. if trim_space v \<noteq> [] then Some (trim_space v) else None) in
     if n = ''dns_independent_cache'' then None
     else if n = ''dns_strategy'' \<and> template_declares_var vs n then set_to (dx_strategy cfg)
     else if n = ''dns_final'' \<and> template_declares_var vs n then set_to (dx_final cfg)
     else if n = ''dns_default_domain_resolver'' \<and> template_declares_var vs n
       then (if dx_resolver_unset cfg then None else set_to (dx_resolver cfg))
     else vars n)"
  by (auto simp: apply_dns_scalars_to_vars_def store_scalar_def Let_def)

end
