(* ===== verification/DnsMerge.thy ===== *)
theory DnsMerge
  imports DnsSync
begin

text \<open>
  The emitted DNS section: it does not depend on the order of maps once the state is synchronised,
  no server tag is added twice, the mandatory ones are always there, and what its rules refer
  to is defined, in this section and in the route section, under the conditions that are needed.
\<close>

section \<open>Presets in use\<close>

lemma preset_by_id_key: "preset_by_id ps i = Some p \<Longrightarrow> p_id p = i \<and> p \<in> set ps"
  unfolding preset_by_id_def by (drule map_of_SomeD) auto

lemma in_use:
  assumes "(p, vm) \<in> set (presets_in_use ps rules)"
  obtains r vs where "r \<in> set rules" "is_active_preset_rule r" "preset_by_id ps (r_ref r) = Some p" "p_id p = r_ref r"
    "decode_body r = Inr (PresetBody vs)" "vm = build_preset_vars_map p (map_of vs)"
proof -
  obtain r where r: "r \<in> set rules"
    "(if \<not> is_active_preset_rule r then None
       else (case (preset_by_id ps (r_ref r), decode_body r) of
               (Some p, Inr (PresetBody vs)) \<Rightarrow> Some (p, build_preset_vars_map p (map_of vs))
             | _ \<Rightarrow> None)) = Some (p, vm)"
    using assms unfolding presets_in_use_def set_map_filter by auto
  then show ?thesis
    using that preset_by_id_key[of ps "r_ref r"]
    by (auto split: if_splits option.splits sum.splits rule_body.splits)
qed

definition with_rules :: "(preset \<times> (string \<rightharpoonup> string)) list \<Rightarrow> string set" where
  "with_rules pvs = (\<lambda>pv. p_id (fst pv)) ` {pv \<in> set pvs. preset_has_dns_rule (fst pv)}"

lemma by_id_keys_step:
  "fst ` set (add_preset_dns_rules E s pv m) \<subseteq> fst ` set m \<union> with_rules [pv]"
  by (cases pv) (auto simp: add_preset_dns_rules_def Let_def fst_set_sput with_rules_def)

lemma by_id_keys_fold:
  "fst ` set (fold (add_preset_dns_rules E s) pvs m) \<subseteq> fst ` set m \<union> with_rules pvs"
proof (induction pvs arbitrary: m)
  case (Cons pv pvs)
  have "with_rules (pv # pvs) = with_rules [pv] \<union> with_rules pvs" by (auto simp: with_rules_def)
  with Cons[of "add_preset_dns_rules E s pv m"] by_id_keys_step[of E s pv m]
  show ?case unfolding fold.simps comp_def by blast
qed simp

lemma by_id_expected:
  assumes "i \<in> fst ` set (preset_dns_rules_by_id E s)"
  shows "i \<in> set (expected_rule_refs (st_rules s) (preset_lite_map (de_presets E)))"
proof -
  obtain p vm where p: "i = p_id p" "(p, vm) \<in> set (presets_in_use (de_presets E) (st_rules s))" "preset_has_dns_rule p"
    using assms by_id_keys_fold[of E s "presets_in_use (de_presets E) (st_rules s)" "[]"]
    unfolding preset_dns_rules_by_id_def with_rules_def by auto
  obtain r where r: "r \<in> set (st_rules s)" "is_active_preset_rule r"
    "preset_by_id (de_presets E) (r_ref r) = Some p" "p_id p = r_ref r"
    using in_use[OF p(2)] by metis
  have "preset_lite_map (de_presets E) (r_ref r) =
    Some \<lparr>pl_dns_server_tags = preset_dns_server_tags p, pl_has_dns_rule = True\<rparr>"
    using r p(3) by (simp add: preset_lite_map_def)
  then show ?thesis using r p(1) by (auto simp: expected_rule_refs_def)
qed

section \<open>The order of the map\<close>

lemma unlisted_Nil:
  assumes "\<And>i. i \<in> fst ` set by_id \<Longrightarrow> i \<in> set (map dr_ref (filter (\<lambda>r. dr_kind r = DRPreset) rules))"
  shows "unlisted_preset_rules order by_id rules = []"
proof -
  have "map_of by_id i = None" if "i \<notin> set (map dr_ref (filter (\<lambda>r. dr_kind r = DRPreset) rules))" for i
    using assms that by (auto simp: map_of_eq_None_iff)
  then show ?thesis unfolding unlisted_preset_rules_def by (auto simp: Let_def)
qed

lemma synced_lists_all:
  assumes "st_dns s = sync_dns_options (st_rules s) (preset_lite_map (de_presets E)) d"
    and "i \<in> fst ` set (preset_dns_rules_by_id E s)"
  shows "i \<in> set (map dr_ref (filter (\<lambda>r. dr_kind r = DRPreset) (dn_rules (st_dns s))))"
  using by_id_expected[OF assms(2)] dns_rules.sync_refs
  by (simp add: assms(1) sync_rules_def)

text \<open>
  C15. Once the DNS entries are synchronised with the rules, what the resolver returns does not
  depend on the order in which the map of preset rules is visited: the fallback for rules without
  an entry finds nothing.
\<close>

theorem synced_dns_order_irrelevant:
  assumes "st_dns s = sync_dns_options (st_rules s) (preset_lite_map (de_presets E)) d"
  shows "resolve_dns (Some s) (Some (E\<lparr>de_order := order\<rparr>)) vars = resolve_dns (Some s) (Some E) vars"
proof -
  have "add_preset_dns_rules (E\<lparr>de_order := order\<rparr>) s = add_preset_dns_rules E s"
    by (rule ext)+ (simp add: add_preset_dns_rules_def)
  then have p: "preset_dns_rules_by_id (E\<lparr>de_order := order\<rparr>) s = preset_dns_rules_by_id E s"
    by (simp add: preset_dns_rules_by_id_def)
  have "unlisted_preset_rules o' (preset_dns_rules_by_id E s) (dn_rules (st_dns s)) = []" for o'
    by (rule unlisted_Nil) (rule synced_lists_all[OF assms])
  then show ?thesis by (simp add: resolve_dns_def Let_def p resolved_preset_servers_def)
qed

section \<open>Variables are expanded twice\<close>

lemma vars_map_value:
  "vars_map vars user n =
    (if n \<in> pv_name ` set vars
     then Some (case user n of Some u \<Rightarrow> if u \<noteq> [] then u else pv_default (last (filter (\<lambda>v. pv_name v = n) vars))
                | None \<Rightarrow> pv_default (last (filter (\<lambda>v. pv_name v = n) vars)))
     else None)"
proof (induction vars rule: rev_induct)
  case (snoc v vars)
  then show ?case
    unfolding vars_map_def by (auto simp: image_iff split: option.splits)
qed (simp add: vars_map_def)

lemma guard_cong:
  assumes "\<And>n. n \<in> set ifs \<union> set ors \<Longrightarrow> vm (trim_prefix n ''@'') = vm' (trim_prefix n ''@'')"
  shows "eval_if ifs ors vm = eval_if ifs ors vm'"
  using assms by (auto simp: eval_if_iff guard_var_true_def)

text \<open>The names the guards of the variables ask for, and the variables that are switched off.\<close>

definition guard_names :: "preset \<Rightarrow> string list" where
  "guard_names p = map (\<lambda>n. trim_prefix n ''@'') (concat (map (\<lambda>v. pv_if v @ pv_if_or v) (p_vars p)))"

definition inactive_vars :: "preset \<Rightarrow> (string \<rightharpoonup> string) \<Rightarrow> string list" where
  "inactive_vars p user = filter (\<lambda>n. build_preset_vars_map p user n = None) (map pv_name (p_vars p))"

definition guards_closed :: "preset \<Rightarrow> (string \<rightharpoonup> string) \<Rightarrow> bool" where
  "guards_closed p user \<longleftrightarrow> list_all (\<lambda>n. n \<notin> set (inactive_vars p user)) (guard_names p)"

lemma active_value:
  "active_vars_map vars user n =
    (if n \<in> set (filter_active_vars vars (vars_map vars user)) then vars_map vars user n else None)"
  by (simp add: active_vars_map_def Let_def)

lemma filter_active_subset: "set (filter_active_vars vars vm) \<subseteq> pv_name ` set vars"
  by (auto simp: filter_active_vars_def)

lemma vars_map_twice:
  assumes "n \<in> set (filter_active_vars vars (vars_map vars user))"
  shows "vars_map vars (active_vars_map vars user) n = vars_map vars user n"
  using assms filter_active_subset[of vars]
  by (auto simp: vars_map_value active_value split: option.splits)

lemma build_vars_twice:
  assumes "guards_closed p user"
  shows "build_preset_vars_map p (build_preset_vars_map p user) = build_preset_vars_map p user"
proof -
  let ?v = "p_vars p" and ?a = "active_vars_map (p_vars p) user"
  let ?act = "set (filter_active_vars ?v (vars_map ?v user))"
  have dom: "dom ?a = ?act"
    using filter_active_subset[of ?v "vars_map ?v user"] by (auto simp: active_value vars_map_value split: if_splits)
  have same: "vars_map ?v ?a n = vars_map ?v user n" if "n \<in> set (guard_names p)" for n
  proof (cases "n \<in> ?act")
    case True
    then show ?thesis by (rule vars_map_twice)
  next
    case False
    then have "n \<notin> pv_name ` set ?v"
      using that assms by (auto simp: guards_closed_def list_all_iff inactive_vars_def build_preset_vars_map_def active_value)
    then show ?thesis by (simp add: vars_map_value)
  qed
  have fa: "filter_active_vars ?v (vars_map ?v ?a) = filter_active_vars ?v (vars_map ?v user)"
    unfolding filter_active_vars_def
  proof (intro arg_cong[where f="map pv_name"] filter_cong refl)
    fix v assume v: "v \<in> set ?v"
    show "eval_if (pv_if v) (pv_if_or v) (vars_map ?v ?a) = eval_if (pv_if v) (pv_if_or v) (vars_map ?v user)"
      by (rule guard_cong, rule same) (use v in \<open>auto simp: guard_names_def\<close>)
  qed
  have "active_vars_map ?v ?a n = ?a n" for n
  proof -
    have "active_vars_map ?v ?a n = (if n \<in> ?act then vars_map ?v ?a n else None)"
      by (simp only: active_value[of ?v ?a] fa)
    also have "\<dots> = (if n \<in> ?act then vars_map ?v user n else None)"
      using vars_map_twice[of n ?v user] by simp
    finally show ?thesis by (simp only: active_value[of ?v user])
  qed
  then show ?thesis unfolding build_preset_vars_map_def by (rule ext)
qed

lemma vars_twice_expand:
  assumes "guards_closed p user"
  shows "substitute_preset_dns_rules p (build_preset_vars_map p user) t re = substitute_preset_dns_rules p user t re"
proof -
  have "preset_ctx p (build_preset_vars_map p user) t re = preset_ctx p user t re"
    using build_vars_twice[OF assms] by (simp add: preset_ctx_def build_preset_vars_map_def)
  then show ?thesis by (simp add: substitute_preset_dns_rules_def expand_preset_def)
qed

text \<open>
  The DNS rules of a preset are resolved with the same values as its routing rules although
  the variables are filtered twice on the way, when no guard of a variable asks for a variable
  that is switched off.
\<close>

theorem dns_rules_share_route_values:
  assumes "guards_closed p user"
  shows "substitute_preset_dns_rules p (build_preset_vars_map p user) t re = substitute_preset_dns_rules p user t re"
  by (rule vars_twice_expand[OF assms])

section \<open>The servers of the section\<close>

text \<open>The non-empty tags of an array of servers.\<close>

definition server_names :: "json list \<Rightarrow> string list" where
  "server_names js = filter (\<lambda>t. t \<noteq> []) (json_tags js)"

lemma server_names_append [simp]: "server_names (xs @ ys) = server_names xs @ server_names ys"
  by (simp add: server_names_def json_tags_append)

definition body_tagged :: "resolved_dns_server \<Rightarrow> bool" where
  "body_tagged s \<longleftrightarrow> str_field (rd_body s) ''tag'' = rd_tag s"

lemma server_names_body:
  "body_tagged s \<Longrightarrow> server_names [JObj (rd_body s)] = (if rd_tag s = [] then [] else [rd_tag s])"
  by (auto simp: body_tagged_def server_names_def json_tags_def str_field_def List.map_filter_simps
      split: option.splits json.splits)

definition switched_on :: "resolved_dns_server \<Rightarrow> bool" where
  "switched_on s \<longleftrightarrow> rd_active s \<and> rd_enabled s"

lemma emit_servers:
  assumes "\<forall>s \<in> set ss. body_tagged s" "set (server_names js) = set ts - {[]}"
  shows "\<exists>added. fst (fold emit_dns_server ss (js, ts)) = js @ added \<and> distinct (server_names added) \<and>
    set (server_names added) = rd_tag ` {s \<in> set ss. switched_on s} - {[]} - set (server_names js)"
  using assms
proof (induction ss arbitrary: js ts)
  case Nil
  show ?case by (simp add: server_names_def json_tags_def List.map_filter_simps)
next
  case (Cons s ss)
  have tagged: "body_tagged s" "\<forall>s \<in> set ss. body_tagged s" using Cons.prems(1) by auto
  show ?case
  proof (cases "switched_on s \<and> (rd_tag s = [] \<or> rd_tag s \<notin> set ts)")
    case True
    let ?b = "JObj (rd_body s)" and ?ts = "if rd_tag s \<noteq> [] then rd_tag s # ts else ts"
    have e: "emit_dns_server s (js, ts) = (js @ [?b], ?ts)"
      using True by (auto simp: emit_dns_server_def switched_on_def)
    have n: "server_names [?b] = (if rd_tag s = [] then [] else [rd_tag s])"
      using server_names_body[OF tagged(1)] by simp
    have "set (server_names (js @ [?b])) = set ?ts - {[]}"
      using Cons.prems(2) True by (auto simp: n)
    from Cons.IH[OF tagged(2) this] obtain added where
      "fst (fold emit_dns_server ss (js @ [?b], ?ts)) = (js @ [?b]) @ added" "distinct (server_names added)"
      and set: "set (server_names added) = rd_tag ` {s \<in> set ss. switched_on s} - {[]} - set (server_names (js @ [?b]))"
      by blast
    moreover have "server_names (?b # added) = server_names [?b] @ server_names added"
      using server_names_append[of "[?b]" added] by simp
    moreover have "rd_tag s \<notin> set (server_names js)" using Cons.prems(2) True by auto
    ultimately show ?thesis
      unfolding fold.simps comp_def e using True by (intro exI[of _ "?b # added"]) (auto simp: n)
  next
    case False
    then have e: "emit_dns_server s (js, ts) = (js, ts)"
      by (auto simp: emit_dns_server_def switched_on_def)
    have "rd_tag s \<in> set (server_names js)" if "switched_on s"
      using False that Cons.prems(2) by auto
    then have "rd_tag ` {x \<in> set (s # ss). switched_on x} - {[]} - set (server_names js) =
        rd_tag ` {x \<in> set ss. switched_on x} - {[]} - set (server_names js)" by auto
    with Cons.IH[OF tagged(2) Cons.prems(2)] show ?thesis
      unfolding fold.simps comp_def e by simp
  qed
qed

text \<open>A server of the user carries its tag in its body or nowhere, as one read from disk does.\<close>

definition user_server_ok :: "dns_server \<Rightarrow> bool" where
  "user_server_ok x \<longleftrightarrow> str_field (sv_body x) ''tag'' = sv_tag x \<or> map_of (sv_body x) ''tag'' = None"

definition user_servers_ok :: "dns_state \<Rightarrow> bool" where
  "user_servers_ok s \<longleftrightarrow> list_all (\<lambda>x. sv_kind x = DSUser \<longrightarrow> user_server_ok x) (dn_servers (st_dns s))"

lemma read_server_ok: "unmarshal_dns_server j = Some s \<Longrightarrow> sv_kind s = DSUser \<Longrightarrow> user_server_ok s"
  by (auto simp: unmarshal_dns_server_def user_server_ok_def Let_def str_field_def map_of_without_header header_keys_def
      split: if_splits)

lemma map_of_strip:
  "map_of (strip_dns_wizard_only_fields m) k =
    (if k \<in> set wizard_only_keys \<or> prefix ''_'' k then None else map_of m k)"
  by (induction m) (auto simp: strip_dns_wizard_only_fields_def)

lemma strip_tag: "str_field (strip_dns_wizard_only_fields m) ''tag'' = str_field m ''tag''"
  by (simp add: str_field_def map_of_strip wizard_only_keys_def)

lemma tagged_template: "body_tagged (resolved_template_server st raw)"
  by (simp add: body_tagged_def resolved_template_server_def Let_def strip_tag tag_from_body_def)

lemma tagged_preset: "body_tagged (resolved_preset_server st C vm d)"
  by (simp add: body_tagged_def resolved_preset_server_def Let_def strip_tag split_beta) (simp add: str_field_def)

lemma tagged_user:
  assumes "user_server_ok x"
  shows "body_tagged (resolved_user_server x)"
proof -
  let ?body = "if map_of (sv_body x) ''tag'' = None then put_str ''tag'' (sv_tag x) (sv_body x) else sv_body x"
  have "str_field ?body ''tag'' = sv_tag x"
  proof (cases "map_of (sv_body x) ''tag''")
    case None
    then show ?thesis by (auto simp: put_str_def str_field_def)
  qed (use assms in \<open>simp add: user_server_ok_def\<close>)
  then show ?thesis
    unfolding body_tagged_def resolved_user_server_def Let_def resolved_dns_server.select_convs strip_tag .
qed

lemma tagged_all:
  assumes "user_servers_ok s"
  shows "\<forall>x \<in> set (rdn_servers (resolve_dns (Some s) (Some E) v)). body_tagged x"
  using assms
  by (auto simp: resolve_dns_def Let_def resolved_preset_servers_def tagged_template tagged_preset
      user_servers_ok_def list_all_iff intro: tagged_user)

definition merged_dns_env :: "dns_env \<Rightarrow> template_dns_server list \<Rightarrow> dns_env" where
  "merged_dns_env E defaults = E\<lparr>de_library := Some (library_of_defaults defaults)\<rparr>"

definition resolved_for_merge :: "dns_env \<Rightarrow> dns_state \<Rightarrow> template_dns_server list \<Rightarrow> resolved_dns" where
  "resolved_for_merge E s defaults = resolve_dns (Some s) (Some (merged_dns_env E defaults)) Map.empty"

lemma merged_servers_array:
  "arr_field (merge_presets_into_dns E s defaults dns) ''servers'' =
    fst (fold emit_dns_server (rdn_servers (resolved_for_merge E s defaults))
          (arr_field dns ''servers'', json_tags (arr_field dns ''servers'')))"
proof -
  let ?base = "arr_field dns ''servers''" and ?ss = "rdn_servers (resolved_for_merge E s defaults)"
  let ?out = "fst (fold emit_dns_server ?ss (?base, json_tags ?base))"
  have "length ?base \<le> length ?out"
  proof -
    have "length js \<le> length (fst (fold emit_dns_server ss (js, ts)))" for ss js ts
    proof (induction ss arbitrary: js ts)
      case (Cons x ss)
      obtain js' ts' where e: "emit_dns_server x (js, ts) = (js', ts')" by fastforce
      then have "length js \<le> length js'" by (auto simp: emit_dns_server_def split: if_splits)
      with Cons[of js' ts'] e show ?case by simp
    qed simp
    then show ?thesis .
  qed
  then have "?out = [] \<Longrightarrow> ?base = []" by auto
  then show ?thesis
    unfolding merge_presets_into_dns_def Let_def resolved_for_merge_def merged_dns_env_def
    by (auto simp: arr_field_def[of "sput _ _ _"] arr_field_def[of dns])
qed

lemma merged_server_names:
  assumes "user_servers_ok s"
  shows "\<exists>added. arr_field (merge_presets_into_dns E s defaults dns) ''servers'' = arr_field dns ''servers'' @ added \<and>
    distinct (server_names added) \<and>
    set (server_names added) =
      rd_tag ` {x \<in> set (rdn_servers (resolved_for_merge E s defaults)). switched_on x} - {[]} -
      set (server_names (arr_field dns ''servers''))"
  unfolding merged_servers_array
proof (rule emit_servers)
  show "\<forall>x \<in> set (rdn_servers (resolved_for_merge E s defaults)). body_tagged x"
    unfolding resolved_for_merge_def by (rule tagged_all[OF assms])
qed (auto simp: server_names_def)

text \<open>
  C18. The merge keeps the servers of the section it is given, in front, and adds no tag twice: the
  tags of the added servers differ from each other and from those in front, and are exactly the
  other tags of the servers that are switched on and whose guard holds. Entries of the user have
  their tag in their body or nowhere else, as entries read from disk do (\<open>read_server_ok\<close>). The
  servers in front are not compared with each other.
\<close>

theorem dns_server_tags_unique:
  assumes "user_servers_ok s"
  shows "\<exists>added. arr_field (merge_presets_into_dns E s defaults dns) ''servers'' = arr_field dns ''servers'' @ added \<and>
    distinct (server_names added) \<and>
    set (server_names added) =
      rd_tag ` {x \<in> set (rdn_servers (resolved_for_merge E s defaults)). switched_on x} - {[]} -
      set (server_names (arr_field dns ''servers''))"
  by (rule merged_server_names[OF assms])

lemma required_resolved:
  assumes "d \<in> set defaults" "tds_required d" "tds_tag d \<noteq> []"
    and "tds_tag d = str_field (tds_raw d) ''tag''" "tds_required d = bool_field (tds_raw d) ''required''"
  shows "\<exists>x \<in> set (rdn_servers (resolved_for_merge E s defaults)). switched_on x \<and> rd_tag x = tds_tag d"
proof
  let ?x = "resolved_template_server (Some s) (tds_raw d)"
  have those: "those (map body_obj (map (\<lambda>d. JObj (tds_raw d)) ds)) = Some (map tds_raw ds)" for ds
    by (induction ds) (auto simp: body_obj_def)
  have "defaults \<noteq> []" using assms(1) by auto
  then have lib: "template_dns_library (Some (library_of_defaults defaults)) = map tds_raw defaults"
    by (simp add: template_dns_library_def library_of_defaults_def those del: map_map)
  show "?x \<in> set (rdn_servers (resolved_for_merge E s defaults))"
    using assms lib
    by (auto simp: resolved_for_merge_def merged_dns_env_def resolve_dns_def Let_def tag_from_body_def)
  show "switched_on ?x \<and> rd_tag ?x = tds_tag d"
    using assms(2,4,5) by (simp add: switched_on_def resolved_template_server_def Let_def tag_from_body_def body_required_def)
qed

lemma names_in_tags: "set (server_names js) \<subseteq> set (json_tags js)"
  by (auto simp: server_names_def)

text \<open>
  C17. The mandatory servers of the template are in every emitted DNS section, whatever the state
  says about them.
\<close>

theorem required_dns_servers_emitted:
  assumes "user_servers_ok s" "d \<in> set (parse_template_dns_defaults js)" "tds_required d" "tds_tag d \<noteq> []"
  shows "tds_tag d \<in>
    set (json_tags (arr_field (merge_presets_into_dns E s (parse_template_dns_defaults js) dns) ''servers''))"
proof -
  have "tds_tag d = str_field (tds_raw d) ''tag''" "tds_required d = bool_field (tds_raw d) ''required''"
    using assms(2) by (auto simp: parse_template_dns_defaults_def Let_def)
  from required_resolved[OF assms(2-4) this] obtain x where
    x: "x \<in> set (rdn_servers (resolved_for_merge E s (parse_template_dns_defaults js)))" "switched_on x" "rd_tag x = tds_tag d"
    by blast
  have "tds_tag d \<in> rd_tag ` {x \<in> set (rdn_servers (resolved_for_merge E s (parse_template_dns_defaults js))). switched_on x} - {[]}"
    using x assms(4) by (auto simp flip: x(3))
  moreover obtain added where
    a: "arr_field (merge_presets_into_dns E s (parse_template_dns_defaults js) dns) ''servers'' = arr_field dns ''servers'' @ added"
    and n: "set (server_names added) =
      rd_tag ` {x \<in> set (rdn_servers (resolved_for_merge E s (parse_template_dns_defaults js))). switched_on x} - {[]} -
      set (server_names (arr_field dns ''servers''))"
    using merged_server_names[OF assms(1), of E "parse_template_dns_defaults js" dns] by blast
  ultimately have "tds_tag d \<in> set (server_names (arr_field dns ''servers'')) \<union> set (server_names added)"
    unfolding n by blast
  then have "tds_tag d \<in> set (server_names (arr_field dns ''servers'' @ added))" by simp
  then show ?thesis unfolding a using names_in_tags by blast
qed

section \<open>What reaches the core\<close>

definition core_fields_only :: "obj \<Rightarrow> bool" where
  "core_fields_only m \<longleftrightarrow> list_all (\<lambda>p. fst p \<notin> set wizard_only_keys \<and> \<not> prefix ''_'' (fst p)) m"

lemma stripped_core_only: "core_fields_only (strip_dns_wizard_only_fields m)"
  by (auto simp: core_fields_only_def strip_dns_wizard_only_fields_def list_all_iff)

lemma merged_section_servers:
  assumes "merge_dns_section decode tmpl cfg = Inr dns"
  shows "\<exists>ms. arr_field dns ''servers'' = map (\<lambda>m. JObj (strip_dns_wizard_only_fields m)) ms"
proof -
  obtain ms where "merged_servers (dc_servers cfg) = Inr (map strip_dns_wizard_only_fields ms)"
    using assms by (auto simp: merge_dns_section_def merged_servers_def split: option.splits if_splits)
  then have "arr_field dns ''servers'' = map (\<lambda>m. JObj (strip_dns_wizard_only_fields m)) ms"
    using assms by (auto simp: merge_dns_section_def Let_def arr_field_def split: option.splits sum.splits if_splits)
  then show ?thesis by blast
qed

lemma resolved_core_only:
  "x \<in> set (rdn_servers (resolve_dns (Some s) (Some E) v)) \<Longrightarrow> core_fields_only (rd_body x)"
  by (auto simp: resolve_dns_def Let_def resolved_template_server_def resolved_user_server_def
      resolved_preset_servers_def resolved_preset_server_def stripped_core_only split_beta)

lemma emitted_server_origin:
  "j \<in> set (fst (fold emit_dns_server ss (js, ts))) \<Longrightarrow> j \<in> set js \<or> (\<exists>x \<in> set ss. j = JObj (rd_body x))"
proof (induction ss arbitrary: js ts)
  case (Cons x ss)
  obtain js' ts' where e: "emit_dns_server x (js, ts) = (js', ts')" by fastforce
  then have "set js' \<subseteq> insert (JObj (rd_body x)) (set js)" by (auto simp: emit_dns_server_def split: if_splits)
  with Cons.IH[of js' ts'] Cons.prems e show ?case by auto
qed simp

text \<open>
  C35. No server of the emitted DNS section carries a field of the editor, wherever it comes from:
  the core refuses a configuration with a field it does not know.
\<close>

theorem dns_servers_core_fields_only:
  assumes "merge_dns_section decode tmpl cfg = Inr dns"
    and "JObj m \<in> set (arr_field (merge_presets_into_dns E s defaults dns) ''servers'')"
  shows "core_fields_only m"
proof -
  have "JObj m \<in> set (arr_field dns ''servers'') \<or>
    (\<exists>x \<in> set (rdn_servers (resolved_for_merge E s defaults)). m = rd_body x)"
    using assms(2) emitted_server_origin unfolding merged_servers_array by fastforce
  then show ?thesis
    using merged_section_servers[OF assms(1)] resolved_core_only[of _ s]
    by (auto simp: stripped_core_only resolved_for_merge_def)
qed

section \<open>What the rules refer to\<close>

lemma preset_rule_refs:
  assumes "m \<in> set (substitute_preset_dns_rules p user t re)"
  shows "\<exists>f ws. expand_preset p user t re = Inr (f, ws) \<and>
    set (rule_set_refs m) \<subseteq> set (map (\<lambda>r. str_field r ''tag'') (pf_rule_sets f)) \<and>
    [] \<notin> set (map (\<lambda>r. str_field r ''tag'') (pf_rule_sets f))"
proof -
  obtain f ws where e: "expand_preset p user t re = Inr (f, ws)"
    using assms by (cases "expand_preset p user t re") (auto simp: substitute_preset_dns_rules_def)
  then have m: "pf_dns_rule f = Some m \<or> m \<in> set (pf_dns_rules f)"
    using assms by (auto simp: substitute_preset_dns_rules_def split: option.splits)
  from e obtain emitted where parts:
    "expand_rule_sets (preset_ctx p user t re) (p_rule_set p) = Inr (pf_rule_sets f, emitted)"
    "\<forall>m. pf_dns_rule f = Some m \<longrightarrow>
       (\<exists>r. p_dns_rule p = Some r \<and> expand_one_preset_dns_rule (preset_ctx p user t re) emitted r = Inr (Some m))"
    "expand_dns_rules (preset_ctx p user t re) emitted (p_dns_rules p) = Inr (pf_dns_rules f)"
    by (rule expand_preset_parts)
  have tags: "map (\<lambda>r. str_field r ''tag'') (pf_rule_sets f) = map (prefix_tag p) emitted"
    using expand_rule_sets_spec[OF parts(1)] by simp
  have "rule_ok p emitted m"
    using m
  proof
    assume "pf_dns_rule f = Some m"
    with parts(2) obtain r where "expand_one_preset_dns_rule (preset_ctx p user t re) emitted r = Inr (Some m)" by blast
    from expand_one_dns_ok[OF this] show ?thesis by simp
  next
    assume "m \<in> set (pf_dns_rules f)"
    with expand_dns_rules_ok[OF parts(3)] show ?thesis by (simp add: list_all_iff)
  qed
  then have "set (rule_set_refs m) \<subseteq> set (map (\<lambda>r. str_field r ''tag'') (pf_rule_sets f))"
    unfolding tags by (simp add: rule_ok_def)
  moreover have "[] \<notin> set (map (\<lambda>r. str_field r ''tag'') (pf_rule_sets f))"
    unfolding tags by (auto simp: prefix_tag_def)
  ultimately show ?thesis using e by blast
qed

text \<open>The expansions of the enabled preset rules; an undecodable rule has none.\<close>

definition rule_expansion ::
    "preset list \<Rightarrow> target_spec \<Rightarrow> (string \<Rightarrow> string \<Rightarrow> bool option) \<Rightarrow> rule \<Rightarrow> preset_fragments option" where
  "rule_expansion presets t re r =
     (if \<not> r_enabled r \<or> r_kind r \<noteq> RKPreset then None
      else (case (preset_by_id presets (r_ref r), decode_body r) of
              (Some p, Inr (PresetBody vs)) \<Rightarrow>
                (case expand_preset p (map_of vs) t re of Inl _ \<Rightarrow> None | Inr (f, _) \<Rightarrow> Some f)
            | _ \<Rightarrow> None))"

lemma collect_expansions:
  "set (collect_rule_set_tags presets rules t re) =
    {x. x \<noteq> [] \<and> (\<exists>r \<in> set rules. \<exists>f. rule_expansion presets t re r = Some f \<and> x \<in> (\<lambda>m. str_field m ''tag'') ` set (pf_rule_sets f))}"
proof -
  have 1: "set (if \<not> r_enabled r \<or> r_kind r \<noteq> RKPreset then []
       else (case (preset_by_id presets (r_ref r), decode_body r) of
               (Some p, Inr (PresetBody vs)) \<Rightarrow>
                 (case expand_preset p (map_of vs) t re of
                    Inl _ \<Rightarrow> []
                  | Inr (f, _) \<Rightarrow> filter (\<lambda>x. x \<noteq> []) (map (\<lambda>m. str_field m ''tag'') (pf_rule_sets f)))
             | _ \<Rightarrow> [])) =
    {x. x \<noteq> [] \<and> (\<exists>f. rule_expansion presets t re r = Some f \<and> x \<in> (\<lambda>m. str_field m ''tag'') ` set (pf_rule_sets f))}" for r
    by (auto simp: rule_expansion_def split: option.splits sum.splits rule_body.splits)
  show ?thesis unfolding collect_rule_set_tags_def set_concat set_map image_image 1 by blast
qed

definition rules_closed :: "preset list \<Rightarrow> rule list \<Rightarrow> bool" where
  "rules_closed presets rules \<longleftrightarrow>
     list_all (\<lambda>r. case (preset_by_id presets (r_ref r), decode_body r) of
         (Some p, Inr (PresetBody vs)) \<Rightarrow> guards_closed p (map_of vs) | _ \<Rightarrow> True) rules"

lemma in_use_refs_collected:
  assumes "(p, vm) \<in> set (presets_in_use presets rules)" "rules_closed presets rules"
    and "m \<in> set (substitute_preset_dns_rules p vm t re)"
  shows "set (rule_set_refs m) \<subseteq> set (collect_rule_set_tags presets rules t re)"
proof -
  obtain r vs where r: "r \<in> set rules" "is_active_preset_rule r" "preset_by_id presets (r_ref r) = Some p"
    "decode_body r = Inr (PresetBody vs)" "vm = build_preset_vars_map p (map_of vs)"
    using in_use[OF assms(1)] by metis
  have "guards_closed p (map_of vs)" using assms(2) r by (force simp: rules_closed_def list_all_iff)
  from vars_twice_expand[OF this] have "m \<in> set (substitute_preset_dns_rules p (map_of vs) t re)"
    using assms(3) r(5) by simp
  from preset_rule_refs[OF this] obtain f ws where f: "expand_preset p (map_of vs) t re = Inr (f, ws)"
    "set (rule_set_refs m) \<subseteq> set (map (\<lambda>r. str_field r ''tag'') (pf_rule_sets f))"
    "[] \<notin> set (map (\<lambda>r. str_field r ''tag'') (pf_rule_sets f))" by blast
  have "rule_expansion presets t re r = Some f"
    using r f(1) by (simp add: rule_expansion_def is_active_preset_rule_def)
  then have "x \<noteq> [] \<and> (\<exists>r \<in> set rules. \<exists>f. rule_expansion presets t re r = Some f \<and>
      x \<in> (\<lambda>m. str_field m ''tag'') ` set (pf_rule_sets f))" if "x \<in> set (rule_set_refs m)" for x
    using f(2,3) r(1) that by (intro conjI bexI[of _ r] exI[of _ f]) auto
  then show ?thesis unfolding collect_expansions by blast
qed

text \<open>Where a resolved rule comes from.\<close>

lemma by_id_bodies_fold:
  assumes "(i, rs) \<in> set (fold (add_preset_dns_rules E s) pvs m)" "x \<in> set rs"
  shows "(\<exists>rs. (i, rs) \<in> set m \<and> x \<in> set rs) \<or>
    (\<exists>(p, vm) \<in> set pvs. \<exists>b \<in> set (substitute_preset_dns_rules p vm (de_target E) (de_regex E)).
       x = resolved_preset_rule (Some s) p b)"
  using assms
proof (induction pvs arbitrary: m)
  case (Cons pv pvs)
  obtain p vm where pv: "pv = (p, vm)" by (cases pv)
  from Cons.IH[of "add_preset_dns_rules E s pv m"] Cons.prems
  consider rs' where "(i, rs') \<in> set (add_preset_dns_rules E s pv m)" "x \<in> set rs'"
    | "\<exists>(p, vm) \<in> set pvs. \<exists>b \<in> set (substitute_preset_dns_rules p vm (de_target E) (de_regex E)).
         x = resolved_preset_rule (Some s) p b"
    by auto
  then show ?case
  proof cases
    case 1
    then show ?thesis
      using set_sput_subset[of "p_id p" _ m] by (fastforce simp: pv add_preset_dns_rules_def Let_def split: if_splits)
  next
    case 2
    then show ?thesis by auto
  qed
qed auto

definition from_use :: "dns_env \<Rightarrow> dns_state \<Rightarrow> obj \<Rightarrow> bool" where
  "from_use E s b \<longleftrightarrow> (\<exists>p vm. (p, vm) \<in> set (presets_in_use (de_presets E) (st_rules s)) \<and>
     b \<in> set (substitute_preset_dns_rules p vm (de_target E) (de_regex E)))"

lemma by_id_from_use:
  assumes "map_of (preset_dns_rules_by_id E s) i = Some rs" "x \<in> set rs"
  shows "rdr_source x = DNSFromPreset \<and> from_use E s (rdr_body x)"
proof -
  have "(i, rs) \<in> set (fold (add_preset_dns_rules E s) (presets_in_use (de_presets E) (st_rules s)) [])"
    using map_of_SomeD[OF assms(1)] by (simp add: preset_dns_rules_by_id_def)
  from by_id_bodies_fold[OF this assms(2)] obtain p vm b where
    "(p, vm) \<in> set (presets_in_use (de_presets E) (st_rules s))"
    "b \<in> set (substitute_preset_dns_rules p vm (de_target E) (de_regex E))" "x = resolved_preset_rule (Some s) p b"
    by auto
  then show ?thesis unfolding from_use_def by (auto simp: resolved_preset_rule_def)
qed

lemma in_case_option: "x \<in> set (case q of Some rs \<Rightarrow> rs | None \<Rightarrow> []) \<Longrightarrow> \<exists>rs. q = Some rs \<and> x \<in> set rs"
  by (cases q) auto

lemma resolved_rule_origin:
  assumes "x \<in> set (rdn_rules (resolve_dns (Some s) (Some E) v))"
  shows "rdr_source x = DNSFromUser \<or> rdr_source x = DNSFromPreset \<and> from_use E s (rdr_body x)"
proof -
  have "?thesis" if d: "x \<in> set (dispatch_rule (preset_dns_rules_by_id E s) r)" for r
  proof (cases "dr_kind r")
    case DRPreset
    then obtain rs where rs: "map_of (preset_dns_rules_by_id E s) (dr_ref r) = Some rs"
      using d by (cases "map_of (preset_dns_rules_by_id E s) (dr_ref r)") (simp_all add: dispatch_rule_def)
    then obtain y where "y \<in> set rs" "x = y\<lparr>rdr_enabled := rdr_enabled y \<and> dr_enabled r\<rparr>"
      using d DRPreset by (auto simp: dispatch_rule_def)
    with by_id_from_use[OF rs] show ?thesis by simp
  qed (use d in \<open>simp_all add: dispatch_rule_def resolved_user_rule_def\<close>)
  moreover have "?thesis" if "x \<in> set (unlisted_preset_rules (de_order E) (preset_dns_rules_by_id E s) rls)" for rls
  proof -
    have "\<exists>i rs. map_of (preset_dns_rules_by_id E s) i = Some rs \<and> x \<in> set rs"
      using that unfolding unlisted_preset_rules_def Let_def set_concat set_map by (blast dest: in_case_option)
    then obtain i rs where "map_of (preset_dns_rules_by_id E s) i = Some rs" "x \<in> set rs" by blast
    with by_id_from_use[of E s i rs x] show ?thesis by simp
  qed
  ultimately show ?thesis using assms by (auto simp: resolve_dns_def Let_def)
qed

lemma emitted_rule_origin:
  assumes "JObj m \<in> set (List.map_filter (emitted_dns_rule valid) (rdn_rules (resolve_dns (Some s) (Some E) v)))"
  shows "from_use E s m \<or> (\<exists>b. clean_dangling_dns_rule valid b = Some m)"
proof -
  obtain x where x: "x \<in> set (rdn_rules (resolve_dns (Some s) (Some E) v))" "emitted_dns_rule valid x = Some (JObj m)"
    using assms unfolding set_map_filter by auto
  then show ?thesis
    using resolved_rule_origin[OF x(1)] by (auto simp: emitted_dns_rule_def split: if_splits)
qed

lemma merged_rules_array:
  "arr_field (merge_presets_into_dns E s defaults dns) ''rules'' =
    arr_field dns ''rules'' @
    List.map_filter (emitted_dns_rule (collect_rule_set_tags (de_presets E) (st_rules s) (de_target E) (de_regex E)))
      (rdn_rules (resolved_for_merge E s defaults))"
  unfolding merge_presets_into_dns_def Let_def resolved_for_merge_def merged_dns_env_def
  by (auto simp: arr_field_def[of "sput _ _ _"] arr_field_def[of dns])

lemma refs_clean_dns:
  "clean_dangling_dns_rule valid b = Some m \<Longrightarrow> set (rule_set_refs m) \<subseteq> set valid"
  using refs_keep[of True valid b] by (auto simp: clean_dangling_dns_rule_def Let_def split: if_splits)

lemma dns_refs_collected:
  assumes "rules_closed (de_presets E) (st_rules s)"
    and "JObj m \<in> set (drop (length (arr_field dns ''rules'')) (arr_field (merge_presets_into_dns E s defaults dns) ''rules''))"
  shows "set (rule_set_refs m) \<subseteq> set (collect_rule_set_tags (de_presets E) (st_rules s) (de_target E) (de_regex E))"
proof -
  let ?valid = "collect_rule_set_tags (de_presets E) (st_rules s) (de_target E) (de_regex E)"
  have "from_use (merged_dns_env E defaults) s m \<or> (\<exists>b. clean_dangling_dns_rule ?valid b = Some m)"
    by (rule emitted_rule_origin[of _ _ _ "merged_dns_env E defaults" Map.empty])
      (use assms(2) in \<open>simp add: merged_rules_array resolved_for_merge_def\<close>)
  then show ?thesis
  proof
    assume "from_use (merged_dns_env E defaults) s m"
    then obtain p vm where "(p, vm) \<in> set (presets_in_use (de_presets E) (st_rules s))"
      "m \<in> set (substitute_preset_dns_rules p vm (de_target E) (de_regex E))"
      by (auto simp: from_use_def merged_dns_env_def)
    from in_use_refs_collected[OF this(1) assms(1) this(2)] show ?thesis .
  qed (use refs_clean_dns in blast)
qed

section \<open>The rule sets are in the route section\<close>

lemma tags_grow_sets: "set (ra_tags acc) \<subseteq> set (ra_tags (fold (add_preset_rule_set R p en) rss acc))"
proof (induction rss arbitrary: acc)
  case (Cons rs rss)
  have "set (ra_tags acc) \<subseteq> set (ra_tags (add_preset_rule_set R p en rs acc))"
    by (auto simp: add_preset_rule_set_def Let_def split: option.splits)
  with Cons[of "add_preset_rule_set R p en rs acc"] show ?case by auto
qed simp

lemma tags_same_rules [simp]: "ra_tags (fold (add_preset_rule p en) rrs acc) = ra_tags acc"
proof (induction rrs arbitrary: acc)
  case (Cons r rrs)
  have "ra_tags (add_preset_rule p en r acc) = ra_tags acc" by (auto simp: add_preset_rule_def split: option.splits)
  with Cons show ?case by simp
qed simp

lemma tags_grow: "set (ra_tags acc) \<subseteq> set (ra_tags (resolve_route_rule R r acc))"
  using tags_grow_sets
  by (auto simp: resolve_route_rule_def resolve_preset_route_rule_def resolve_inline_route_rule_def
      resolve_srs_route_rule_def Let_def split: rule_kind.splits option.splits sum.splits rule_body.splits)

lemma tags_grow_fold: "set (ra_tags acc) \<subseteq> set (ra_tags (fold (resolve_route_rule R) rs acc))"
  using tags_grow by (induction rs arbitrary: acc) (auto, blast)

text \<open>A rule set that can be turned into a file of the machine.\<close>

definition set_available :: "route_env \<Rightarrow> obj \<Rightarrow> bool" where
  "set_available R rs \<longleftrightarrow>
     convert_preset_rule_set (re_fs R) (re_tag_of R) (re_exec_dir R)
       (ts_resource_dir (re_target R)) (ts_srs_local_dir (re_target R)) rs \<noteq> None"

definition rule_sets_available :: "route_env \<Rightarrow> rule list \<Rightarrow> bool" where
  "rule_sets_available R rules \<longleftrightarrow>
     list_all (\<lambda>r. case rule_expansion (re_presets R) (re_target R) (re_regex R) r of
         None \<Rightarrow> True | Some f \<Rightarrow> list_all (set_available R) (pf_rule_sets f)) rules"

lemma tag_added:
  assumes "rs \<in> set rss" "set_available R rs" "str_field rs ''tag'' \<noteq> []"
  shows "str_field rs ''tag'' \<in> set (ra_tags (fold (add_preset_rule_set R p en) rss acc))"
  using assms(1)
proof (induction rss arbitrary: acc)
  case (Cons x rss)
  show ?case
  proof (cases "rs = x")
    case True
    have "str_field rs ''tag'' \<in> set (ra_tags (add_preset_rule_set R p en rs acc))"
      using assms(2,3) by (auto simp: add_preset_rule_set_def set_available_def Let_def split: option.splits)
    then show ?thesis using tags_grow_sets[of "add_preset_rule_set R p en rs acc" R p en rss] True by auto
  qed (use Cons in simp)
qed simp

lemma expansion_tags_resolved:
  assumes "r \<in> set rules" "rule_expansion (re_presets R) (re_target R) (re_regex R) r = Some f"
    and "rs \<in> set (pf_rule_sets f)" "set_available R rs" "str_field rs ''tag'' \<noteq> []"
  shows "str_field rs ''tag'' \<in> set (ra_tags (resolve_route R rules))"
proof -
  obtain rs1 rs2 where split: "rules = rs1 @ r # rs2" using assms(1) by (meson split_list)
  let ?acc = "fold (resolve_route_rule R) rs1 empty_acc"
  have "str_field rs ''tag'' \<in> set (ra_tags (resolve_route_rule R r ?acc))"
    using assms(2) tag_added[OF assms(3,4,5)]
    by (auto simp: rule_expansion_def resolve_route_rule_def resolve_preset_route_rule_def
        split: if_splits option.splits sum.splits rule_body.splits)
  then show ?thesis
    using tags_grow_fold[of "resolve_route_rule R r ?acc" R rs2] by (auto simp: resolve_route_def split)
qed

text \<open>
  C11. Every rule set that a DNS rule added by the merge refers to, be it a rule of a preset or of
  the user, is defined in the route section built for the same presets, target and rules, or its
  tag is claimed there by a disabled rule (a fault of the code, see
  \<open>disabled_rule_leaves_dangling_rule_set\<close>), which cannot be when every rule is enabled
  (\<open>claimed_none\<close>). Two things are asked for: the lists of the enabled presets are downloaded
  (see \<open>missing_list_leaves_dangling_dns_rule\<close>), and no guard of a variable asks for a
  variable that is itself switched off (see \<open>dns_rules_lose_a_variable\<close>). The rules that
  the section already has are kept in front and are not touched.
\<close>

theorem dns_rule_sets_defined:
  assumes "re_presets R = de_presets E" "re_target R = de_target E" "re_regex R = de_regex E"
    and "rule_sets_available R (st_rules s)" "rules_closed (de_presets E) (st_rules s)"
    and "JObj m \<in> set (drop (length (arr_field dns ''rules'')) (arr_field (merge_presets_into_dns E s defaults dns) ''rules''))"
  shows "set (rule_set_refs m) \<subseteq>
    set (json_tags (arr_field (merge_presets_into_route R (st_rules s) route) ''rule_set'')) \<union>
    claimed_by_disabled R (st_rules s)"
proof
  fix x assume "x \<in> set (rule_set_refs m)"
  then have "x \<in> set (collect_rule_set_tags (re_presets R) (st_rules s) (re_target R) (re_regex R))"
    using dns_refs_collected[OF assms(5,6)] assms(1,2,3) by auto
  then obtain r f rs where x: "x \<noteq> []" "r \<in> set (st_rules s)"
    "rule_expansion (re_presets R) (re_target R) (re_regex R) r = Some f" "rs \<in> set (pf_rule_sets f)"
    "x = str_field rs ''tag''"
    unfolding collect_expansions by blast
  have "r_enabled r" using x(3) by (simp add: rule_expansion_def split: if_splits)
  with x(2) have any: "has_any_v6_rule (st_rules s)" by (auto simp: has_any_v6_rule_def list_ex_iff)
  have "set_available R rs"
    using assms(4) x(2,3,4) by (force simp: rule_sets_available_def list_all_iff)
  from expansion_tags_resolved[OF x(2,3,4) this] x(1,5)
  show "x \<in> set (json_tags (arr_field (merge_presets_into_route R (st_rules s) route) ''rule_set'')) \<union>
      claimed_by_disabled R (st_rules s)"
    using emitted_route_tags[OF any, of R route] by blast
qed

section \<open>Samples\<close>

text \<open>A preset with a downloaded list, a DNS server and a DNS rule that uses both.\<close>

definition doh_server :: preset_dns_server where
  "doh_server =
     \<lparr>ds_tag = ''doh'', ds_type = ''https'', ds_server = ''1.1.1.1'', ds_server_port = 0, ds_path = [], ds_tls = [],
      ds_detour = ''direct-out'', ds_title = ''DoH'', ds_description = [], ds_inet4 = [], ds_inet6 = [],
      ds_if = [], ds_if_or = []\<rparr>"

definition dns_preset :: preset where
  "dns_preset = ads_preset\<lparr>p_id := ''ru'', p_dns_servers := [doh_server],
     p_dns_rule := Some [(''rule_set'', JStr ''main''), (''server'', JStr ''doh'')]\<rparr>"

definition dns_sample_env :: dns_env where
  "dns_sample_env =
     \<lparr>de_presets = [dns_preset], de_library = None, de_target = linux_target, de_regex = (\<lambda>_ _. None),
      de_order = (\<lambda>ks. ks)\<rparr>"

definition dns_sample_rules :: "rule list" where
  "dns_sample_rules = [\<lparr>r_kind = RKPreset, r_ref = ''ru'', r_enabled = True, r_body = None\<rparr>, srs_rule ''mine'' ''u'' True]"

definition no_dns :: dns_options where
  "no_dns = \<lparr>dn_strategy = [], dn_final = [], dn_resolver = [], dn_servers = [], dn_rules = []\<rparr>"

definition dns_sample_state :: "dns_options \<Rightarrow> dns_state" where
  "dns_sample_state d =
     \<lparr>st_rules = dns_sample_rules,
      st_dns = sync_dns_options dns_sample_rules (preset_lite_map [dns_preset]) d\<rparr>"

definition dns_route_env :: "bool \<Rightarrow> route_env" where
  "dns_route_env downloaded =
     (srs_env dns_sample_rules)\<lparr>re_presets := [dns_preset],
        re_fs := \<lparr>fs_exists = (\<lambda>_. downloaded), fs_is_dir = (\<lambda>_. False)\<rparr>\<rparr>"

definition dns_summary :: "dns_options \<Rightarrow> string list \<times> json list" where
  "dns_summary d =
     (let out = merge_presets_into_dns dns_sample_env (dns_sample_state d) [] []
      in (json_tags (arr_field out ''servers''), arr_field out ''rules''))"

definition required_raw :: obj where
  "required_raw = [(''required'', JBool True), (''tag'', JStr ''local''), (''type'', JStr ''local'')]"

theorem dns_rule_sets_defined_witness:
  "dns_summary no_dns = ([''ru:doh''], [JObj [(''rule_set'', JStr ''ru:main''), (''server'', JStr ''ru:doh'')]]) \<and>
   set [''ru:main''] \<subseteq> set (json_tags (arr_field
     (merge_presets_into_route (dns_route_env True) dns_sample_rules []) ''rule_set''))"
proof -
  let ?m = "[(''rule_set'', JStr ''ru:main''), (''server'', JStr ''ru:doh'')]"
  have sum: "dns_summary no_dns = ([''ru:doh''], [JObj ?m])" by code_simp
  have 1: "re_presets (dns_route_env True) = de_presets dns_sample_env"
    "re_target (dns_route_env True) = de_target dns_sample_env" "re_regex (dns_route_env True) = de_regex dns_sample_env"
    by (simp_all add: dns_route_env_def dns_sample_env_def srs_env_def)
  have 2: "rule_sets_available (dns_route_env True) (st_rules (dns_sample_state no_dns))" by code_simp
  have 3: "rules_closed (de_presets dns_sample_env) (st_rules (dns_sample_state no_dns))" by code_simp
  have 4: "JObj ?m \<in> set (drop (length (arr_field [] ''rules''))
      (arr_field (merge_presets_into_dns dns_sample_env (dns_sample_state no_dns) [] []) ''rules''))"
    using sum by (simp add: dns_summary_def Let_def arr_field_def[of "[]"])
  have 5: "claimed_by_disabled (dns_route_env True) (st_rules (dns_sample_state no_dns)) = {}"
    by (rule claimed_none) code_simp
  from dns_rule_sets_defined[OF 1 2 3 4, of "[]"] sum 5 show ?thesis
    by (simp add: rule_set_refs_def dns_sample_state_def)
qed

theorem dns_server_tags_unique_witness:
  "distinct (server_names (arr_field (merge_presets_into_dns dns_sample_env (dns_sample_state no_dns) [] []) ''servers'')) \<and>
   json_tags (arr_field (merge_presets_into_dns dns_sample_env (dns_sample_state no_dns) [] []) ''servers'') = [''ru:doh'']"
proof -
  have 1: "user_servers_ok (dns_sample_state no_dns)" by code_simp
  have "fst (dns_summary no_dns) = [''ru:doh'']" by code_simp
  then have "json_tags (arr_field (merge_presets_into_dns dns_sample_env (dns_sample_state no_dns) [] []) ''servers'') = [''ru:doh'']"
    by (simp add: dns_summary_def Let_def)
  moreover obtain added where "arr_field (merge_presets_into_dns dns_sample_env (dns_sample_state no_dns) [] []) ''servers'' =
      arr_field [] ''servers'' @ added" "distinct (server_names added)"
    using dns_server_tags_unique[OF 1, of dns_sample_env "[]" "[]"] by blast
  ultimately show ?thesis by (simp add: arr_field_def[of "[]"])
qed

theorem dns_servers_core_fields_only_witness:
  "core_fields_only [(''server'', JStr ''1.1.1.1''), (''tag'', JStr ''mine''), (''type'', JStr ''udp'')]"
proof -
  let ?cfg = "\<lparr>dc_servers = [JObj [(''description'', JStr ''x''), (''server'', JStr ''1.1.1.1''), (''tag'', JStr ''mine''),
      (''type'', JStr ''udp'')]], dc_rules_text = [], dc_final = [], dc_strategy = []\<rparr>"
  let ?m = "[(''server'', JStr ''1.1.1.1''), (''tag'', JStr ''mine''), (''type'', JStr ''udp'')]"
  let ?dns = "[(''final'', JStr ''mine''), (''rules'', JNull), (''servers'', JArr [JObj ?m])]"
  have 1: "merge_dns_section (\<lambda>_. None) None ?cfg = Inr ?dns" by code_simp
  have 2: "JObj ?m \<in> set (arr_field (merge_presets_into_dns dns_sample_env (dns_sample_state no_dns) [] ?dns) ''servers'')"
    by code_simp
  show ?thesis by (rule dns_servers_core_fields_only[OF 1 2])
qed

theorem required_dns_servers_emitted_witness:
  "''local'' \<in> set (json_tags (arr_field
     (merge_presets_into_dns dns_sample_env
        (dns_sample_state (no_dns\<lparr>dn_servers := [\<lparr>sv_kind = DSTemplate, sv_tag = ''local'', sv_ref = [], sv_enabled = False, sv_body = []\<rparr>]\<rparr>))
        (parse_template_dns_defaults [JObj required_raw]) []) ''servers''))"
proof -
  let ?st = "dns_sample_state (no_dns\<lparr>dn_servers := [\<lparr>sv_kind = DSTemplate, sv_tag = ''local'', sv_ref = [], sv_enabled = False, sv_body = []\<rparr>]\<rparr>)"
  let ?d = "\<lparr>tds_tag = ''local'', tds_enabled = True, tds_required = True, tds_raw = required_raw\<rparr>"
  have 1: "user_servers_ok ?st" by code_simp
  have 2: "?d \<in> set (parse_template_dns_defaults [JObj required_raw])" by code_simp
  from required_dns_servers_emitted[OF 1 2, of dns_sample_env "[]"] show ?thesis by simp
qed

theorem synced_dns_order_irrelevant_witness:
  "resolve_dns (Some (dns_sample_state no_dns)) (Some (dns_sample_env\<lparr>de_order := rev\<rparr>)) Map.empty =
   resolve_dns (Some (dns_sample_state no_dns)) (Some dns_sample_env) Map.empty"
proof -
  have "st_dns (dns_sample_state no_dns) = sync_dns_options (st_rules (dns_sample_state no_dns))
      (preset_lite_map (de_presets dns_sample_env)) no_dns"
    by (simp add: dns_sample_state_def dns_sample_env_def)
  from synced_dns_order_irrelevant[OF this, of rev Map.empty] show ?thesis .
qed

theorem dns_rules_share_route_values_witness:
  "substitute_preset_dns_rules dns_preset (build_preset_vars_map dns_preset Map.empty) linux_target (\<lambda>_ _. None) =
     substitute_preset_dns_rules dns_preset Map.empty linux_target (\<lambda>_ _. None) \<and>
   length (substitute_preset_dns_rules dns_preset Map.empty linux_target (\<lambda>_ _. None)) = 1"
proof -
  have 1: "guards_closed dns_preset Map.empty" by code_simp
  have 2: "length (substitute_preset_dns_rules dns_preset Map.empty linux_target (\<lambda>_ _. None)) = 1" by code_simp
  from dns_rules_share_route_values[OF 1, of linux_target "\<lambda>_ _. None"] 2 show ?thesis by simp
qed

section \<open>Where references dangle\<close>

text \<open>
  A DNS server of a preset that the user switches off is left out, while the DNS rule of the
  preset that sends queries to it stays: the emitted rule names a server that is not there.
\<close>

theorem disabled_dns_server_leaves_dangling_rule:
  "dns_summary (no_dns\<lparr>dn_servers := [(new_server ''ru:doh'')\<lparr>sv_enabled := False\<rparr>]\<rparr>) =
     ([], [JObj [(''rule_set'', JStr ''ru:main''), (''server'', JStr ''ru:doh'')]])"
  by code_simp

text \<open>
  The DNS rule of a preset is emitted as it is also when its list has not been downloaded,
  while the route section leaves the rule set out: the rule refers to a rule set that is not there.
\<close>

theorem missing_list_leaves_dangling_dns_rule:
  "snd (dns_summary no_dns) = [JObj [(''rule_set'', JStr ''ru:main''), (''server'', JStr ''ru:doh'')]] \<and>
   json_tags (arr_field (merge_presets_into_route (dns_route_env False) dns_sample_rules []) ''rule_set'') = [''user:mine'']"
  by (intro conjI; code_simp)

text \<open>
  A DNS rule of the user that refers to a list of the user loses the reference, although the
  route section defines that list, and then applies to every query: only rule sets of presets
  count as defined, and a server alone counts as a match.
\<close>

theorem user_list_is_dropped_from_dns_rule:
  "snd (dns_summary (no_dns\<lparr>dn_rules := [\<lparr>dr_kind = DRUser, dr_ref = [], dr_enabled = True,
       dr_body = [(''rule_set'', JStr ''user:mine''), (''server'', JStr ''local'')]\<rparr>]\<rparr>)) =
     [JObj [(''server'', JStr ''local'')], JObj [(''rule_set'', JStr ''ru:main''), (''server'', JStr ''ru:doh'')]] \<and>
   ''user:mine'' \<in> set (json_tags (arr_field
     (merge_presets_into_route (dns_route_env True) dns_sample_rules []) ''rule_set''))"
  by (intro conjI; code_simp)

definition nested_preset :: preset where
  "nested_preset = dns_preset\<lparr>
     p_vars := [ads_var ''w'' ''false'' [], ads_var ''x'' ''false'' [''@w''], (ads_var ''y'' ''doh'' [''@x''])\<lparr>pv_type := ''text''\<rparr>],
     p_rule_set := [ads_rule_set ''main'' []], p_rules := [],
     p_dns_rule := Some [(''rule_set'', JStr ''main''), (''server'', JStr ''@y'')]\<rparr>"

text \<open>
  A variable whose guard asks for a variable that is switched off, but set by the user, has a
  value in the routing rules of its preset and none in the DNS rules: these are dropped.
\<close>

theorem dns_rules_lose_a_variable:
  "substitute_preset_dns_rules nested_preset [''x'' \<mapsto> ''true''] linux_target (\<lambda>_ _. None) =
     [[(''rule_set'', JStr ''ru:main''), (''server'', JStr ''ru:doh'')]] \<and>
   substitute_preset_dns_rules nested_preset (build_preset_vars_map nested_preset [''x'' \<mapsto> ''true''])
     linux_target (\<lambda>_ _. None) = []"
  by (intro conjI; code_simp)

end
