(* ===== verification/Spec2Isabelle.thy ===== *)
theory Spec2Isabelle
  imports SyncOutbounds Process Route Tls Validate Generate SourceLoading XrayNodes DnsMerge
begin

text \<open>
  A verification library for singbox-launcher, a launcher of the sing-box proxy core. The program
  keeps a state (sources, rules, presets in use, values of settings), reads a template with
  placeholders and presets, fetches and parses proxy nodes from the sources, and writes the JSON
  configuration of the core; it then starts, watches and stops the core process. Paths are under
  \<open>src/\<close>.

  Theories and the code they model.

  \<^item> \<open>Prelude\<close>: association lists sorted by key for Go maps (a range over a map that the code does
    not sort is a permutation given as a parameter), text functions of the Go library on ASCII,
    the fact collections shared by the proofs.
  \<^item> \<open>Json\<close>: decoded JSON values; numbers are integers.
  \<^item> \<open>Substitute\<close> (\<open>core/template/substitute.go\<close>, \<open>ifexpr.go\<close>): placeholders and \<open>#if\<close> in a
    template; control keys are eliminated, strict and lenient mode agree, idempotence.
  \<^item> \<open>Vars\<close>, \<open>Validate\<close> (\<open>core/template/vars_resolve.go\<close>, \<open>vars_default.go\<close>, \<open>target.go\<close>,
    \<open>loader.go\<close>, \<open>template_validate.go\<close>): resolution of the variables, generated secrets,
    parameters that patch the configuration, the validator; what validation guarantees for
    resolution and substitution.
  \<^item> \<open>Outbounds\<close>, \<open>ResolveOutbounds\<close>, \<open>SyncOutbounds\<close> (\<open>core/config/configtypes/types.go\<close>,
    \<open>core/build/outbound_diff.go\<close>, \<open>resolve_outbounds.go\<close>, \<open>sync_outbounds.go\<close>,
    \<open>preset_outbounds.go\<close>): outbound entries, their stacks of patches, the form-save round trip,
    synchronisation with the active presets and its convergence.
  \<^item> \<open>RuleState\<close>, \<open>PresetExpand\<close>, \<open>Route\<close> (\<open>core/state/rule_types.go\<close>, \<open>core/build/preset_expand.go\<close>,
    \<open>resolve_route.go\<close>, \<open>preset_merge.go\<close>, \<open>route_merge.go\<close>): rules, expansion of presets, the
    route section; references to rule sets and outbounds are defined.
  \<^item> \<open>Tls\<close> (\<open>core/build/tls_transforms.go\<close>): the transforms of first-hop TLS settings.
  \<^item> \<open>Nodes\<close>, \<open>NodeJson\<close> (\<open>core/config/outbound_generator.go\<close>, \<open>outbound_jsonbuilder.go\<close>,
    \<open>node_hash.go\<close>): parsed nodes, what is emitted for them field by field, their identity.
  \<^item> \<open>Detours\<close> (\<open>outbound_generator.go\<close>, \<open>subscription/source_loader.go\<close>): detours stamped on the
    nodes of a source, chains through a node named by its identity, the cycle clean-up.
  \<^item> \<open>Selectors\<close> (\<open>outbound_filter.go\<close>, \<open>outbound_validity.go\<close>, \<open>configtypes/matcher.go\<close>): filters,
    the three passes that decide which groups are emitted and with which members. The topological
    pass refines a least-fixed-point specification (\<open>live\<close>), for every order of the maps.
  \<^item> \<open>Generate\<close> (\<open>outbound_generator.go\<close>, \<open>varsubst.go\<close>): the generation as a whole.
  \<^item> \<open>Singbox\<close>, \<open>SingboxSanitize\<close>, \<open>SingboxImport\<close> (\<open>core/config/subscription/body_classify.go\<close>,
    \<open>singbox_sanitize.go\<close>, \<open>singbox_import.go\<close>, \<open>detour_chain.go\<close>, \<open>singbox_groups.go\<close>,
    \<open>manual_config.go\<close>): import of sing-box files. Sanitising is a projection onto what the core
    accepts, detour rings are cut, every imported node and hop is usable.
  \<^item> \<open>Sources\<close>, \<open>SourceLoading\<close> (\<open>core/config/subscription/source_loader.go\<close>): a whole load of a
    source, from its body to tagged nodes; chains and groups survive it, limits, the marks of
    disabled nodes. It is the loader of \<open>Generate\<close>.
  \<^item> \<open>Xray\<close>, \<open>XrayImport\<close>, \<open>XrayNodes\<close> (\<open>core/config/subscription/xray_json_array.go\<close>,
    \<open>xray_outbound_convert.go\<close>, \<open>xray_protocols.go\<close>, \<open>xray_balancer.go\<close>): import of arrays of Xray
    configurations. \<open>Xray\<close> holds the definitions; \<open>XrayImport\<close> shows that a server of several
    elements is kept once, by its most specific element, that groups stay closed and that the
    order of maps does not matter, for every identity that ignores tags (locale \<open>tag_blind\<close>,
    interpreted on the identity of \<open>NodeJson\<close>); \<open>XrayNodes\<close> shows that servers and chains are usable
    and what becomes of rings and of early data.
  \<^item> \<open>Dns\<close>, \<open>DnsSync\<close>, \<open>DnsMerge\<close> (\<open>core/state/dns_options.go\<close>, \<open>core/state/sync_dns.go\<close>,
    \<open>core/build/resolve_dns.go\<close>, \<open>dns_merge.go\<close>, \<open>sync_dns.go\<close>, \<open>rules_pipeline.go\<close>,
    \<open>preset_merge.go\<close>): the DNS section. \<open>Dns\<close> holds the definitions; \<open>DnsSync\<close> shows that
    synchronisation gives exactly the entries of the active presets (once for servers and rules, in
    locale \<open>preset_entries\<close>) and the round trips; \<open>DnsMerge\<close> shows that no tag is added twice, mandatory
    servers are emitted, the rule sets of DNS rules are defined in the route section, and that on
    synchronised entries the order of the map of preset rules (\<open>de_order\<close>) does not matter.
  \<^item> \<open>Process\<close> (\<open>core/process_service.go\<close>, \<open>crash_handler.go\<close>): the life cycle of the core process
    as a transition system whose events are the critical sections of the code, in any order.

  Where the code does not do what it means to, the property says which inputs it leaves aside, and a
  theorem next to it computes the fault on a concrete input: two elevated starts that race
  (\<open>two_elevated_starts_race\<close>), a tag claimed by a disabled rule
  (\<open>disabled_rule_leaves_dangling_rule_set\<close>), a ring hidden by a repeated tag
  (\<open>repeated_tag_keeps_detour_ring\<close>), the lost hop of a WireGuard node
  (\<open>wireguard_chain_hop_is_lost\<close>), a disabled node that stays a member
  (\<open>disabled_node_stays_member\<close>), a label with a brace (\<open>brace_label_has_no_identity\<close>), and others.

  Interfaces. A locale names the laws a client relies on and is interpreted on the model of the
  provider (key stores, fields with a common contract, and the like; each is stated in the theory
  of the client and interpreted in that of the provider).

  Bounds. Case folding and trimming are those of ASCII; strings are valid UTF-8; struct decoding
  matches keys exactly. At most three automatic restarts are tried, which is the constant of the
  code. The life of a mark of a disabled node is computed on 64-bit words as in the code. No definition
  uses fuel: loops that are not structural have a measure, chains count down the depth limit of the
  code (eight hops). Numbers printed with \<open>fmt.Sprint\<close> are integers below \<open>10^21\<close>, which Go prints
  without an exponent; a name occurs in a query in one spelling.

  Parameters, for code that is not in the sources: the regular-expression engine, the JSON text
  decoder, the hash function, the entropy source, \<open>fmt.Sprint\<close>, files and the network, the clock,
  the parser of share links, and which characters outside ASCII are letters.

  Not modelled: logging, dialogs, progress callbacks and the user interface; the gRPC daemon
  backend; remote machines, the debug API, downloads and the traffic profiler, which are I/O
  around libraries; persistence of the state and its migrations; the parsers of share links;
  the composition of the sections in \<open>core/build/build.go\<close>.
\<close>

end
